(* ===== verification/A2_Prelude.thy ===== *)
theory A2_Prelude
  imports Main "HOL-Library.Word"
begin

text \<open>
  Shared vocabulary of the development: the machine integer types, tests of single flag bits
  in a word, big-endian serialisation of 16 and 32 bit values, arrays as functions with bulk
  reads and writes, C's assertions, and the break chains
  (\<^verbatim>\<open>do { if (!step) { break; } ... } while (0)\<close>) that every save and load
  routine of the emulator is written as.
\<close>

unbundle bit_operations_syntax

named_theorems flag_simps \<open>tests of softswitch and status flags\<close>
named_theorems state_simps \<open>evaluation of save and load chains\<close>

type_synonym byte = "8 word"
type_synonym addr = "16 word"
type_synonym u32 = "32 word"

section \<open>Flags\<close>

text \<open>\<open>if (w & f)\<close> in C.\<close>

abbreviation flag_on :: "u32 \<Rightarrow> u32 \<Rightarrow> bool" where
  "flag_on w f \<equiv> w AND f \<noteq> 0"

lemma single_flag_bit:
  assumes "k < LENGTH('a::len)" and "f = push_bit k (1 :: 'a word)"
  shows "bit f n \<longleftrightarrow> n = k"
  using assms by (auto simp: bit_simps)

lemma single_flag_test:
  assumes "k < LENGTH('a::len)" and "f = push_bit k (1 :: 'a word)"
  shows "w AND f = 0 \<longleftrightarrow> \<not> bit w k"
proof
  assume "w AND f = 0"
  then have "\<not> bit (w AND f) k" by simp
  then show "\<not> bit w k" using assms by (simp add: bit_simps)
next
  assume "\<not> bit w k"
  then show "w AND f = 0"
    using assms by (auto intro!: bit_word_eqI simp: bit_simps)
qed

lemma bit_not_word:
  "bit (NOT (w :: 'a::len word)) n \<longleftrightarrow> n < LENGTH('a) \<and> \<not> bit w n"
  by (simp add: bit_simps)

lemma less_8_cases: "n < 8 \<Longrightarrow> n = 0 \<or> n = 1 \<or> n = 2 \<or> n = 3 \<or> n = 4 \<or> n = 5 \<or> n = 6 \<or> n = (7::nat)"
  by linarith

section \<open>C assertions and C division\<close>

text \<open>\<open>assert(b); ...\<close>: a failed assertion aborts, which is the result \<open>None\<close>.\<close>

definition c_assert :: "bool \<Rightarrow> 'a \<Rightarrow> 'a option" where
  "c_assert b r = (if b then Some r else None)"

lemma c_assert_eq [simp]:
  "c_assert True r = Some r" "c_assert False r = None"
  "c_assert b r = None \<longleftrightarrow> \<not> b" "c_assert b r = Some r' \<longleftrightarrow> b \<and> r = r'"
  by (auto simp: c_assert_def)

text \<open>C's integer division rounds towards zero.\<close>

definition trunc_div :: "int \<Rightarrow> int \<Rightarrow> int" where
  "trunc_div a b = sgn a * sgn b * (\<bar>a\<bar> div \<bar>b\<bar>)"

section \<open>Big-endian serialisation\<close>

text \<open>
  The save routines cut a value into bytes with
  \<^verbatim>\<open>(uint8_t)((v & 0xFF0000) >> 16)\<close> and the load routines put it together
  with \<^verbatim>\<open>(uint32_t)(b << 16)\<close>.
\<close>

definition ser32 :: "u32 \<Rightarrow> byte list" where
  "ser32 v = [ucast (drop_bit 24 (v AND 0xFF000000)), ucast (drop_bit 16 (v AND 0xFF0000)),
              ucast (drop_bit 8 (v AND 0xFF00)), ucast (v AND 0xFF)]"

definition des32 :: "byte list \<Rightarrow> u32" where
  "des32 bs = (push_bit 24 (ucast (bs ! 0)) OR push_bit 16 (ucast (bs ! 1)) OR
               push_bit 8 (ucast (bs ! 2)) OR ucast (bs ! 3))"

definition ser16 :: "addr \<Rightarrow> byte list" where
  "ser16 v = [ucast (drop_bit 8 (v AND 0xFF00)), ucast (v AND 0xFF)]"

definition des16 :: "byte list \<Rightarrow> addr" where
  "des16 bs = (push_bit 8 (ucast (bs ! 0)) OR ucast (bs ! 1))"

lemma length_ser [simp]: "length (ser32 v) = 4" "length (ser16 w) = 2"
  by (simp_all add: ser32_def ser16_def)

lemma byte_masks:
  "(0xFF :: u32) = mask 8" "(0xFF00 :: u32) = push_bit 8 (mask 8)"
  "(0xFF0000 :: u32) = push_bit 16 (mask 8)" "(0xFF000000 :: u32) = push_bit 24 (mask 8)"
  "(0xFF :: addr) = mask 8" "(0xFF00 :: addr) = push_bit 8 (mask 8)"
  by (simp_all add: mask_eq_exp_minus_1)

lemma bit_cut_byte:
  fixes v :: "'a::len word"
  shows "bit (ucast (drop_bit k (v AND push_bit k (mask 8))) :: byte) n \<longleftrightarrow> n < 8 \<and> bit v (k + n)"
  by (auto simp: bit_simps dest: bit_imp_le_length)

lemma bit_low_byte:
  fixes v :: "'a::len word"
  shows "bit (ucast (v AND mask 8) :: byte) n \<longleftrightarrow> n < 8 \<and> bit v n"
  by (auto simp: bit_simps dest: bit_imp_le_length)

lemma bit_place_byte:
  fixes b :: byte
  shows "bit (push_bit k (ucast b) :: 'a::len word) n \<longleftrightarrow> n < LENGTH('a) \<and> k \<le> n \<and> n < k + 8 \<and> bit b (n - k)"
  by (auto simp: bit_simps dest: bit_imp_le_length)

lemma bit_place_low_byte:
  fixes b :: byte
  shows "bit (ucast b :: 'a::len word) n \<longleftrightarrow> n < LENGTH('a) \<and> n < 8 \<and> bit b n"
  by (auto simp: bit_simps dest: bit_imp_le_length)

lemma des32_ser32 [simp]: "des32 (ser32 v) = v"
proof (rule bit_word_eqI)
  fix n assume n: "n < LENGTH(32)"
  then consider "n < 8" | "8 \<le> n" "n < 16" | "16 \<le> n" "n < 24" | "24 \<le> n" by linarith
  then show "bit (des32 (ser32 v)) n = bit v n"
    unfolding des32_def ser32_def byte_masks
    by cases (use n in \<open>auto simp: bit_or_iff bit_place_byte bit_place_low_byte bit_cut_byte bit_low_byte simp del: drop_bit_and\<close>)
qed

lemma des16_ser16 [simp]: "des16 (ser16 v) = v"
proof (rule bit_word_eqI)
  fix n assume n: "n < LENGTH(16)"
  then consider "n < 8" | "8 \<le> n" by linarith
  then show "bit (des16 (ser16 v)) n = bit v n"
    unfolding des16_def ser16_def byte_masks
    by cases (use n in \<open>auto simp: bit_or_iff bit_place_byte bit_place_low_byte bit_cut_byte bit_low_byte simp del: drop_bit_and\<close>)
qed

section \<open>Arrays\<close>

text \<open>
  A C array of bytes is a function from indices; its size is checked where it is accessed.
  \<open>slice m a n\<close> reads \<open>n\<close> bytes from index \<open>a\<close> (\<^verbatim>\<open>memcpy\<close> from it, or
  writing it to a file), \<open>store m a bs\<close> writes a block.
\<close>

definition slice :: "(nat \<Rightarrow> 'a) \<Rightarrow> nat \<Rightarrow> nat \<Rightarrow> 'a list" where
  "slice m a n = map (\<lambda>i. m (a + i)) [0..<n]"

definition store :: "(nat \<Rightarrow> 'a) \<Rightarrow> nat \<Rightarrow> 'a list \<Rightarrow> nat \<Rightarrow> 'a" where
  "store m a bs = (\<lambda>i. if a \<le> i \<and> i < a + length bs then bs ! (i - a) else m i)"

lemma length_slice [simp]: "length (slice m a n) = n"
  by (simp add: slice_def)

lemma nth_slice [simp]: "i < n \<Longrightarrow> slice m a n ! i = m (a + i)"
  by (simp add: slice_def)

lemma store_slice:
  "store m a (slice m' a n) = (\<lambda>i. if a \<le> i \<and> i < a + n then m' i else m i)"
  by (auto simp: store_def fun_eq_iff)

lemma slice_store [simp]: "slice (store m a bs) a (length bs) = bs"
  by (auto intro: nth_equalityI simp: store_def)

lemma store_outside: "i < a \<or> a + length bs \<le> i \<Longrightarrow> store m a bs i = m i"
  by (auto simp: store_def)

lemma store_inside: "a \<le> i \<Longrightarrow> i < a + length bs \<Longrightarrow> store m a bs i = bs ! (i - a)"
  by (simp add: store_def)

lemma store_Nil [simp]: "store m a [] = m"
  by (auto simp: store_def fun_eq_iff)

lemma slice_cong: "(\<And>i. a \<le> i \<Longrightarrow> i < a + n \<Longrightarrow> m i = m' i) \<Longrightarrow> slice m a n = slice m' a n"
  by (auto simp: slice_def)

lemma slice_store_disjoint:
  "a + n \<le> b \<or> b + length bs \<le> a \<Longrightarrow> slice (store m b bs) a n = slice m a n"
  by (rule slice_cong) (auto simp: store_def)

section \<open>Break chains\<close>

text \<open>
  One step of a \<^verbatim>\<open>do { ... } while (0)\<close> block goes on with a new state, leaves the
  block with \<^verbatim>\<open>break\<close>, or fails an assertion.
\<close>

datatype 's outcome = Cont 's | Brk 's | Abort

fun run_steps :: "('s \<Rightarrow> 's outcome) list \<Rightarrow> 's \<Rightarrow> 's outcome" where
  "run_steps [] s = Cont s"
| "run_steps (f # fs) s = (case f s of Cont s' \<Rightarrow> run_steps fs s' | r \<Rightarrow> r)"

lemma run_steps_append:
  "run_steps (fs @ gs) s = (case run_steps fs s of Cont s' \<Rightarrow> run_steps gs s' | r \<Rightarrow> r)"
  by (induction fs arbitrary: s) (auto split: outcome.splits)

lemma run_steps_singleton [simp]: "run_steps [f] s = f s"
  by (auto split: outcome.splits)

text \<open>Every property that each step keeps, the whole chain keeps.\<close>

definition outcome_all :: "('s \<Rightarrow> bool) \<Rightarrow> 's outcome \<Rightarrow> bool" where
  "outcome_all P r = (case r of Cont s \<Rightarrow> P s | Brk s \<Rightarrow> P s | Abort \<Rightarrow> True)"

lemma outcome_all_simps [simp]:
  "outcome_all P (Cont s) = P s" "outcome_all P (Brk s) = P s" "outcome_all P Abort"
  by (simp_all add: outcome_all_def)

lemma run_steps_invariant:
  assumes "P s" and "\<And>f t. f \<in> set fs \<Longrightarrow> P t \<Longrightarrow> outcome_all P (f t)"
  shows "outcome_all P (run_steps fs s)"
  using assms
proof (induction fs arbitrary: s)
  case Nil
  then show ?case by simp
next
  case (Cons f fs)
  have *: "outcome_all P (f s)" using Cons.prems by simp
  show ?case
  proof (cases "f s")
    case (Cont t)
    with * have "P t" by simp
    then have "outcome_all P (run_steps fs t)" using Cons by simp
    with Cont show ?thesis by simp
  qed (use * in simp_all)
qed

section \<open>Tables filled by a loop\<close>

text \<open>
  \<open>for (i...) { enc[i] = f(i); dec[f(i)] = i; }\<close> leaves the inverse of \<open>f\<close> in \<open>dec\<close>
  when \<open>f\<close> does not take a value twice.
\<close>

lemma fold_fun_upd_notin:
  "k \<notin> f ` set xs \<Longrightarrow> fold (\<lambda>i d. d(f i := g i)) xs d k = d k"
  by (induction xs arbitrary: d) auto

lemma fold_fun_upd_inj:
  "distinct xs \<Longrightarrow> inj_on f (set xs) \<Longrightarrow> i \<in> set xs \<Longrightarrow>
   fold (\<lambda>i d. d(f i := g i)) xs d (f i) = g i"
proof (induction xs arbitrary: d)
  case Nil
  then show ?case by simp
next
  case (Cons x xs)
  show ?case
  proof (cases "i = x")
    case True
    with Cons.prems have "f i \<notin> f ` set xs"
      by (auto simp: inj_on_def)
    then show ?thesis
      using True fold_fun_upd_notin [of "f i" f xs g "d(f x := g x)"]
      by (simp del: fun_upd_apply add: fun_upd_same)
  next
    case False
    with Cons.prems show ?thesis
      by (auto intro!: Cons.IH simp del: fun_upd_apply)
  qed
qed

end
