(* ===== verification/A2_Io.thy ===== *)
theory A2_Io
  imports A2_Prelude
begin

text \<open>
  The save-state file (\<^verbatim>\<open>misc.c\<close>: \<open>_save_state\<close>, \<open>_load_state\<close>) and the interface
  through which every component writes and reads it (\<^verbatim>\<open>misc.h\<close>: \<open>StateHelper_s\<close>).
  The operating system's \<open>write\<close> and \<open>read\<close> on a regular file are modelled by their POSIX
  behaviour: they may transfer fewer bytes than asked, be interrupted, or fail, as a script
  in the file record decides.  The locale \<open>state_helper\<close> states what the components rely on;
  the file routines are its interpretation.
\<close>

section \<open>Files\<close>

datatype io_result = Xfer nat | Eintr | Fail

record iofile =
  contents :: "byte list"
  fpos :: nat
  stat_ok :: bool
  seek_ok :: bool
  io_script :: "io_result list"

definition next_io :: "nat \<Rightarrow> iofile \<Rightarrow> io_result \<times> iofile" where
  "next_io n f = (case io_script f of [] \<Rightarrow> (Xfer n, f)
     | Xfer k # rs \<Rightarrow> (Xfer (min k n), f\<lparr>io_script := rs\<rparr>)
     | r # rs \<Rightarrow> (r, f\<lparr>io_script := rs\<rparr>))"

text \<open>\<open>TEMP_FAILURE_RETRY\<close> repeats a call for as long as it is interrupted.\<close>

definition temp_failure_retry :: "(iofile \<Rightarrow> 'a) \<Rightarrow> iofile \<Rightarrow> 'a" where
  "temp_failure_retry call f = call (f\<lparr>io_script := dropWhile (\<lambda>r. r = Eintr) (io_script f)\<rparr>)"

definition os_write :: "byte list \<Rightarrow> iofile \<Rightarrow> nat option \<times> iofile" where
  "os_write buf f = (case next_io (length buf) f of
       (Xfer n, f') \<Rightarrow>
         (Some n, f'\<lparr>contents := take (fpos f) (contents f) @ take n buf @ drop (fpos f + n) (contents f),
                     fpos := fpos f + n\<rparr>)
     | (_, f') \<Rightarrow> (None, f'))"

definition os_read :: "nat \<Rightarrow> iofile \<Rightarrow> byte list option \<times> iofile" where
  "os_read n f = (case next_io n f of
       (Xfer k, f') \<Rightarrow>
         (let bs = take k (drop (fpos f) (contents f))
          in (Some bs, f'\<lparr>fpos := fpos f + length bs\<rparr>))
     | (_, f') \<Rightarrow> (None, f'))"

lemma next_io_script:
  "next_io n f = (r, f') \<Longrightarrow> r \<noteq> Xfer n \<Longrightarrow> length (io_script f') < length (io_script f)"
  by (auto simp: next_io_def split: list.splits io_result.splits)

lemma length_dropWhile_less:
  "length ys < length (dropWhile P xs) \<Longrightarrow> length ys < length xs"
  using length_dropWhile_le [of P xs] by linarith

lemma os_write_progress:
  assumes "temp_failure_retry (os_write buf) f = (Some n, f')" and "drop n buf \<noteq> []"
  shows "length (io_script f') < length (io_script f)"
proof -
  let ?f = "f\<lparr>io_script := dropWhile (\<lambda>r. r = Eintr) (io_script f)\<rparr>"
  from assms(1) obtain f0 where io: "next_io (length buf) ?f = (Xfer n, f0)"
    and f': "io_script f' = io_script f0"
    by (auto simp: temp_failure_retry_def os_write_def split: prod.splits io_result.splits)
  from assms(2) have "Xfer n \<noteq> Xfer (length buf)" by auto
  with io have "length (io_script f0) < length (io_script ?f)" by (rule next_io_script)
  with f' show ?thesis by (auto dest: length_dropWhile_less)
qed

section \<open>Saving and loading blocks\<close>

text \<open>\<open>_save_state\<close> writes until nothing is left or a write fails.\<close>

function save_state :: "byte list \<Rightarrow> iofile \<Rightarrow> bool \<times> iofile" where
  "save_state outbuf f = (case temp_failure_retry (os_write outbuf) f of
       (None, f') \<Rightarrow> (outbuf = [], f')
     | (Some outlen, f') \<Rightarrow>
         (if drop outlen outbuf \<noteq> [] then save_state (drop outlen outbuf) f' else (True, f')))"
  by pat_completeness auto
termination
  by (relation "measure (\<lambda>(_, f). length (io_script f))") (auto dest: os_write_progress [OF sym])

declare save_state.simps [simp del]

text \<open>The read loop of \<open>_load_state\<close>; \<open>got\<close> is what the buffer holds so far.\<close>

function read_loop :: "nat \<Rightarrow> byte list \<Rightarrow> iofile \<Rightarrow> bool \<times> byte list \<times> iofile" where
  "read_loop inmax got f = (case temp_failure_retry (os_read inmax) f of
       (None, f') \<Rightarrow> (inmax = 0, got, f')
     | (Some bs, f') \<Rightarrow>
         (if bs = [] then (inmax = 0, got, f')
          else if inmax - length bs > 0 then read_loop (inmax - length bs) (got @ bs) f'
          else (True, got @ bs, f')))"
  by pat_completeness auto
termination by (relation "measure (\<lambda>(n, _, _). n)") auto

declare read_loop.simps [simp del]

definition load_state :: "nat \<Rightarrow> iofile \<Rightarrow> (bool \<times> byte list \<times> iofile) option" where
  "load_state inmax f =
    (if inmax = 0 then None
     else if \<not> stat_ok f then Some (False, [], f)
     else if \<not> seek_ok f then Some (False, [], f)
     else if fpos f + inmax > length (contents f) then Some (False, [], f)
     else Some (read_loop inmax [] f))"

text \<open>\<open>lseek(fd, 0, SEEK_SET)\<close>\<close>

definition rewind :: "iofile \<Rightarrow> iofile" where
  "rewind f = f\<lparr>fpos := 0\<rparr>"

definition empty_file :: iofile where
  "empty_file = \<lparr>contents = [], fpos = 0, stat_ok = True, seek_ok = True, io_script = []\<rparr>"

section \<open>The interface of the components\<close>

record 'f helper =
  hsave :: "byte list \<Rightarrow> 'f \<Rightarrow> bool \<times> 'f"
  hload :: "nat \<Rightarrow> 'f \<Rightarrow> (bool \<times> byte list \<times> 'f) option"
  hversion :: int

text \<open>
  \<^verbatim>\<open>if (!helper->save(fd, data, len)) { break; }\<close> and
  \<^verbatim>\<open>if (!helper->load(fd, buf, len)) { break; }\<close>, the latter followed by the assignments
  from the buffer.  A failed load leaves in the target the bytes already read only when the
  target is itself an array of the machine (\<open>load_into\<close>); the small reads go to a local
  buffer and are lost.
\<close>

definition save_step :: "'f helper \<Rightarrow> ('c \<Rightarrow> byte list) \<Rightarrow> 'c \<times> 'f \<Rightarrow> ('c \<times> 'f) outcome" where
  "save_step h g = (\<lambda>(c, f). case hsave h (g c) f of (ok, f') \<Rightarrow>
     if ok then Cont (c, f') else Brk (c, f'))"

definition load_step :: "'f helper \<Rightarrow> nat \<Rightarrow> (byte list \<Rightarrow> 'c \<Rightarrow> 'c) \<Rightarrow> 'c \<times> 'f \<Rightarrow> ('c \<times> 'f) outcome" where
  "load_step h n upd = (\<lambda>(c, f). case hload h n f of
       None \<Rightarrow> Abort
     | Some (ok, bs, f') \<Rightarrow> if ok then Cont (upd bs c, f') else Brk (c, f'))"

definition load_into :: "'f helper \<Rightarrow> nat \<Rightarrow> (byte list \<Rightarrow> 'c \<Rightarrow> 'c) \<Rightarrow> 'c \<times> 'f \<Rightarrow> ('c \<times> 'f) outcome" where
  "load_into h n upd = (\<lambda>(c, f). case hload h n f of
       None \<Rightarrow> Abort
     | Some (ok, bs, f') \<Rightarrow> if ok then Cont (upd bs c, f') else Brk (upd bs c, f'))"

definition check_step :: "('c \<Rightarrow> bool) \<Rightarrow> ('c \<Rightarrow> 'c) \<Rightarrow> 'c \<times> 'f \<Rightarrow> ('c \<times> 'f) outcome" where
  "check_step P upd = (\<lambda>(c, f). if P c then Cont (upd c, f) else Abort)"

definition after_save :: "'f helper \<Rightarrow> byte list \<Rightarrow> 'f \<Rightarrow> 'f" where
  "after_save h bs f = snd (hsave h bs f)"

definition after_load :: "'f helper \<Rightarrow> nat \<Rightarrow> 'f \<Rightarrow> 'f" where
  "after_load h n f = (case hload h n f of Some (_, _, f') \<Rightarrow> f' | None \<Rightarrow> f)"

text \<open>
  What the components rely on: on a file without pending failures (\<open>good\<close>) a save appends
  the whole block, a load of no more than what is left returns exactly the next bytes, and
  a load past the end changes nothing and reports failure.
\<close>

locale state_helper =
  fixes h :: "'f helper"
    and good :: "'f \<Rightarrow> bool"
    and written :: "'f \<Rightarrow> byte list"
    and unread :: "'f \<Rightarrow> byte list"
  assumes save_ok: "good f \<Longrightarrow> fst (hsave h bs f)"
    and written_save: "good f \<Longrightarrow> written (after_save h bs f) = written f @ bs"
    and good_save: "good f \<Longrightarrow> good (after_save h bs f)"
    and load_ok: "good f \<Longrightarrow> 0 < n \<Longrightarrow> n \<le> length (unread f) \<Longrightarrow>
      hload h n f = Some (True, take n (unread f), after_load h n f)"
    and unread_load: "good f \<Longrightarrow> 0 < n \<Longrightarrow> n \<le> length (unread f) \<Longrightarrow>
      unread (after_load h n f) = drop n (unread f)"
    and good_load: "good f \<Longrightarrow> 0 < n \<Longrightarrow> n \<le> length (unread f) \<Longrightarrow> good (after_load h n f)"
    and load_short: "good f \<Longrightarrow> length (unread f) < n \<Longrightarrow> hload h n f = Some (False, [], f)"
begin

lemma save_step_eq:
  "good f \<Longrightarrow> save_step h g (c, f) = Cont (c, after_save h (g c) f)"
  using save_ok [of f "g c"]
  by (auto simp: save_step_def after_save_def split: prod.splits)

lemma load_step_eq:
  "good f \<Longrightarrow> 0 < n \<Longrightarrow> n \<le> length (unread f) \<Longrightarrow>
   load_step h n upd (c, f) = Cont (upd (take n (unread f)) c, after_load h n f)"
  by (simp add: load_step_def load_ok)

lemma load_into_eq:
  "good f \<Longrightarrow> 0 < n \<Longrightarrow> n \<le> length (unread f) \<Longrightarrow>
   load_into h n upd (c, f) = Cont (upd (take n (unread f)) c, after_load h n f)"
  by (simp add: load_into_def load_ok)

lemma load_step_short:
  "good f \<Longrightarrow> length (unread f) < n \<Longrightarrow> load_step h n upd (c, f) = Brk (c, f)"
  by (simp add: load_step_def load_short)

lemmas file_simps =
  save_step_eq load_step_eq load_into_eq load_step_short
  written_save good_save unread_load good_load

text \<open>A chain of plain saves writes the concatenation of its blocks and keeps the component.\<close>

lemma save_chain:
  assumes "good f"
  shows "\<exists>f'. run_steps (map (save_step h) gs) (c, f) = Cont (c, f') \<and> good f' \<and>
              written f' = written f @ concat (map (\<lambda>g. g c) gs)"
  using assms
proof (induction gs arbitrary: f)
  case Nil
  then show ?case by simp
next
  case (Cons g gs)
  have "good (after_save h (g c) f)" using Cons.prems by (rule good_save)
  from Cons.IH [OF this] show ?case
    using Cons.prems by (auto simp: file_simps)
qed

end

section \<open>The file routines implement the interface\<close>

definition file_helper :: "iofile helper" where
  "file_helper = \<lparr>hsave = save_state, hload = load_state, hversion = 2\<rparr>"

definition good_file :: "iofile \<Rightarrow> bool" where
  "good_file f \<longleftrightarrow> stat_ok f \<and> seek_ok f \<and> fpos f \<le> length (contents f) \<and>
     (\<forall>r \<in> set (io_script f). r \<noteq> Fail \<and> r \<noteq> Xfer 0)"

definition written_part :: "iofile \<Rightarrow> byte list" where
  "written_part f = take (fpos f) (contents f)"

definition unread_part :: "iofile \<Rightarrow> byte list" where
  "unread_part f = drop (fpos f) (contents f)"

text \<open>Interrupted calls are repeated away; every transfer makes progress.\<close>

lemma good_dropWhile:
  assumes "good_file f"
  shows "good_file (f\<lparr>io_script := dropWhile P (io_script f)\<rparr>)"
  using assms set_dropWhileD [of _ P "io_script f"] by (auto simp: good_file_def)

lemma dropWhile_Eintr:
  "io_script (f\<lparr>io_script := dropWhile (\<lambda>r. r = Eintr) (io_script f)\<rparr>) \<noteq> [] \<Longrightarrow>
   hd (io_script (f\<lparr>io_script := dropWhile (\<lambda>r. r = Eintr) (io_script f)\<rparr>)) \<noteq> Eintr"
  using hd_dropWhile [of "\<lambda>r. r = Eintr" "io_script f"] by auto

lemma next_io_good:
  assumes "good_file f" and "io_script f \<noteq> [] \<Longrightarrow> hd (io_script f) \<noteq> Eintr"
  shows "\<exists>k rs. next_io n f = (Xfer k, f\<lparr>io_script := rs\<rparr>) \<and> k \<le> n \<and> (0 < n \<longrightarrow> 0 < k) \<and>
                set rs \<subseteq> set (io_script f)"
proof (cases "io_script f")
  case Nil
  then show ?thesis by (intro exI [of _ n] exI [of _ "[]"]) (simp add: next_io_def)
next
  case (Cons r rs)
  with assms obtain m where "r = Xfer m" "0 < m"
    by (cases r) (auto simp: good_file_def)
  with Cons show ?thesis
    by (intro exI [of _ "min m n"] exI [of _ rs]) (auto simp: next_io_def)
qed

lemma retry_write_good:
  assumes "good_file f"
  shows "\<exists>n f'. temp_failure_retry (os_write bs) f = (Some n, f') \<and> good_file f' \<and>
               written_part f' = written_part f @ take n bs"
proof -
  let ?f = "f\<lparr>io_script := dropWhile (\<lambda>r. r = Eintr) (io_script f)\<rparr>"
  have g: "good_file ?f" using assms by (rule good_dropWhile)
  obtain k rs where "next_io (length bs) ?f = (Xfer k, ?f\<lparr>io_script := rs\<rparr>)" "k \<le> length bs"
    "set rs \<subseteq> set (io_script ?f)"
    using next_io_good [OF g dropWhile_Eintr] by blast
  then show ?thesis using g
    by (intro exI [of _ k])
      (auto simp: temp_failure_retry_def os_write_def good_file_def written_part_def)
qed

lemma retry_read_good:
  assumes "good_file f" and "0 < n" and "unread_part f \<noteq> []"
  shows "\<exists>k f'. temp_failure_retry (os_read n) f = (Some (take k (unread_part f)), f') \<and>
               0 < k \<and> k \<le> n \<and> good_file f' \<and> unread_part f' = drop k (unread_part f)"
proof -
  let ?f = "f\<lparr>io_script := dropWhile (\<lambda>r. r = Eintr) (io_script f)\<rparr>"
  have g: "good_file ?f" using assms(1) by (rule good_dropWhile)
  obtain k rs where k: "next_io n ?f = (Xfer k, ?f\<lparr>io_script := rs\<rparr>)" "k \<le> n" "0 < k"
    "set rs \<subseteq> set (io_script ?f)"
    using next_io_good [OF g dropWhile_Eintr] assms(2) by blast
  let ?bs = "take k (drop (fpos f) (contents f))"
  have "temp_failure_retry (os_read n) f =
      (Some ?bs, ?f\<lparr>io_script := rs, fpos := fpos f + length ?bs\<rparr>)"
    using k(1) by (simp add: temp_failure_retry_def os_read_def Let_def)
  moreover have "good_file (?f\<lparr>io_script := rs, fpos := fpos f + length ?bs\<rparr>)"
    using g k(4) by (auto simp: good_file_def)
  moreover have "drop (fpos f + length ?bs) (contents f) = drop k (drop (fpos f) (contents f))"
    by (simp add: min_def add.commute)
  ultimately show ?thesis using k(2,3)
    by (auto simp: unread_part_def intro!: exI [of _ k])
qed

lemma save_state_good:
  "good_file f \<Longrightarrow> \<exists>f'. save_state bs f = (True, f') \<and> good_file f' \<and>
     written_part f' = written_part f @ bs"
proof (induction bs f rule: save_state.induct)
  case (1 bs f)
  obtain n f1 where w: "temp_failure_retry (os_write bs) f = (Some n, f1)" "good_file f1"
    "written_part f1 = written_part f @ take n bs"
    using retry_write_good [OF 1(2)] by blast
  show ?case
  proof (cases "drop n bs = []")
    case True
    with w show ?thesis by (simp add: save_state.simps [of bs f])
  next
    case False
    with 1(1) [OF w(1) [symmetric] refl] w(2)
    obtain f' where "save_state (drop n bs) f1 = (True, f')" "good_file f'"
      "written_part f' = written_part f1 @ drop n bs" by auto
    with w False show ?thesis by (simp add: save_state.simps [of bs f])
  qed
qed

lemma read_loop_good:
  "good_file f \<Longrightarrow> 0 < n \<Longrightarrow> n \<le> length (unread_part f) \<Longrightarrow>
   \<exists>f'. read_loop n got f = (True, got @ take n (unread_part f), f') \<and> good_file f' \<and>
        unread_part f' = drop n (unread_part f)"
proof (induction n got f rule: read_loop.induct)
  case (1 n got f)
  from "1.prems" have ne: "unread_part f \<noteq> []" by auto
  obtain k f1 where r: "temp_failure_retry (os_read n) f = (Some (take k (unread_part f)), f1)"
    "0 < k" "k \<le> n" "good_file f1" "unread_part f1 = drop k (unread_part f)"
    using retry_read_good [OF "1.prems"(1,2) ne] by blast
  let ?bs = "take k (unread_part f)"
  have len: "length ?bs = k" using r(3) "1.prems"(3) by simp
  have bs: "?bs \<noteq> []" using r(2) ne by simp
  show ?case
  proof (cases "0 < n - k")
    case True
    have "n - k \<le> length (unread_part f1)" using r(5) "1.prems"(3) by simp
    then have "\<exists>f'. read_loop (n - k) (got @ ?bs) f1 =
        (True, (got @ ?bs) @ take (n - k) (unread_part f1), f') \<and>
      good_file f' \<and> unread_part f' = drop (n - k) (unread_part f1)"
      using "1.IH" [OF r(1) [symmetric] refl bs] len r(4) True by simp
    then obtain f' where "read_loop (n - k) (got @ ?bs) f1 =
        (True, (got @ ?bs) @ take (n - k) (unread_part f1), f')"
      "good_file f'" "unread_part f' = drop (n - k) (unread_part f1)" by blast
    with r True bs len show ?thesis
      by (simp add: read_loop.simps [of n got f] take_add [symmetric])
  next
    case False
    with r bs len show ?thesis by (simp add: read_loop.simps [of n got f])
  qed
qed

interpretation state_file: state_helper file_helper good_file written_part unread_part
proof
  fix f :: iofile and bs assume g: "good_file f"
  from save_state_good [OF g, of bs] show "fst (hsave file_helper bs f)"
    "written_part (after_save file_helper bs f) = written_part f @ bs"
    "good_file (after_save file_helper bs f)"
    by (auto simp: file_helper_def after_save_def)
next
  fix f :: iofile and n assume g: "good_file f" "0 < n" "n \<le> length (unread_part f)"
  then have "fpos f + n \<le> length (contents f)" by (auto simp: unread_part_def)
  then have "load_state n f = Some (read_loop n [] f)"
    using g by (simp add: load_state_def good_file_def)
  with read_loop_good [OF g, of "[]"]
  show "hload file_helper n f = Some (True, take n (unread_part f), after_load file_helper n f)"
    "unread_part (after_load file_helper n f) = drop n (unread_part f)"
    "good_file (after_load file_helper n f)"
    by (auto simp: file_helper_def after_load_def)
next
  fix f :: iofile and n assume "good_file f" "length (unread_part f) < n"
  then show "hload file_helper n f = Some (False, [], f)"
    by (auto simp: file_helper_def load_state_def good_file_def unread_part_def)
qed

section \<open>Files read back\<close>

lemma rewound:
  assumes "good_file f"
  shows "good_file (rewind f)" "unread_part (rewind f) = written_part f @ drop (fpos f) (contents f)"
  using assms by (auto simp: good_file_def rewind_def unread_part_def written_part_def)

lemma empty_file_good: "good_file empty_file" "written_part empty_file = []"
  by (simp_all add: good_file_def empty_file_def written_part_def)

section \<open>Guarantees\<close>

text \<open>C37: a block saved to a fresh file and loaded back after a rewind is the block that was
  saved, however the operating system splits the transfers into short ones and interrupts
  them, as long as no call fails or transfers nothing.\<close>

theorem saved_block_is_loaded:
  assumes "bs \<noteq> []"
    and "\<forall>r \<in> set wscript. r \<noteq> Fail \<and> r \<noteq> Xfer 0" and "\<forall>r \<in> set rscript. r \<noteq> Fail \<and> r \<noteq> Xfer 0"
  shows "\<exists>f f'. save_state bs (empty_file\<lparr>io_script := wscript\<rparr>) = (True, f) \<and>
    load_state (length bs) ((rewind f)\<lparr>io_script := rscript\<rparr>) = Some (True, bs, f')"
proof -
  let ?f0 = "empty_file\<lparr>io_script := wscript\<rparr>"
  have g0: "good_file ?f0" using assms(2) by (simp add: good_file_def empty_file_def)
  obtain f where f: "save_state bs ?f0 = (True, f)" "good_file f" "written_part f = written_part ?f0 @ bs"
    using save_state_good [OF g0] by blast
  have w: "take (fpos f) (contents f) = bs" using f(3) by (simp add: written_part_def empty_file_def)
  let ?g = "(rewind f)\<lparr>io_script := rscript\<rparr>"
  have g: "good_file ?g" using f(2) assms(3) by (simp add: good_file_def rewind_def)
  have pos: "fpos f = length bs" using w f(2) by (auto simp: good_file_def)
  have len: "length bs \<le> length (contents f)" using pos f(2) by (simp add: good_file_def)
  have "load_state (length bs) ?g = Some (read_loop (length bs) [] ?g)"
    using assms(1) len f(2) by (auto simp: load_state_def good_file_def rewind_def)
  moreover obtain f' where "read_loop (length bs) [] ?g = (True, [] @ take (length bs) (unread_part ?g), f')"
    using read_loop_good [OF g, of "length bs" "[]"] assms(1) len by (auto simp: unread_part_def rewind_def)
  ultimately show ?thesis using f(1) w pos by (auto simp: unread_part_def rewind_def)
qed

theorem saved_block_is_loaded_witness:
  "\<exists>f f'. save_state [1, 2, 3] (empty_file\<lparr>io_script := [Xfer 1, Eintr, Xfer 1]\<rparr>) = (True, f) \<and>
    load_state (length [1 :: byte, 2, 3]) ((rewind f)\<lparr>io_script := [Eintr, Xfer 2]\<rparr>) = Some (True, [1, 2, 3], f')"
  by (rule saved_block_is_loaded) simp_all

end
