(* ===== verification/A2_Cpu.thy ===== *)
theory A2_Cpu
  imports A2_Io
begin

text \<open>
  The C side of the 65c02 (\<^verbatim>\<open>cpu-supp.c\<close>, \<^verbatim>\<open>cpu.h\<close>): the registers kept in
  \<open>run_args\<close>, the conversion tables between the host's flag order and the P register, the
  interrupt lines, and the saved state.  The instruction loop itself is assembly
  (\<^verbatim>\<open>x86/cpu.S\<close>, \<^verbatim>\<open>arm/cpu.S\<close>) and is not modelled here.
\<close>

section \<open>Flags\<close>

text \<open>The host flag order depends on the architecture the emulator is built for.\<close>

datatype arch = X86 | ARM

fun C_Flag :: "arch \<Rightarrow> byte" where "C_Flag X86 = 0x1" | "C_Flag ARM = 0x2"
fun X_Flag :: "arch \<Rightarrow> byte" where "X_Flag X86 = 0x2" | "X_Flag ARM = 0x10"
fun I_Flag :: "arch \<Rightarrow> byte" where "I_Flag X86 = 0x4" | "I_Flag ARM = 0x20"
fun V_Flag :: "arch \<Rightarrow> byte" where "V_Flag X86 = 0x8" | "V_Flag ARM = 0x1"
fun B_Flag :: "arch \<Rightarrow> byte" where "B_Flag X86 = 0x10" | "B_Flag ARM = 0x40"
fun D_Flag :: "arch \<Rightarrow> byte" where "D_Flag X86 = 0x20" | "D_Flag ARM = 0x80"
fun Z_Flag :: "arch \<Rightarrow> byte" where "Z_Flag X86 = 0x40" | "Z_Flag ARM = 0x4"
fun N_Flag :: "arch \<Rightarrow> byte" where "N_Flag X86 = 0x80" | "N_Flag ARM = 0x8"

definition C_Flag_6502 :: byte where "C_Flag_6502 = 0x1"
definition Z_Flag_6502 :: byte where "Z_Flag_6502 = 0x2"
definition I_Flag_6502 :: byte where "I_Flag_6502 = 0x4"
definition D_Flag_6502 :: byte where "D_Flag_6502 = 0x8"
definition B_Flag_6502 :: byte where "B_Flag_6502 = 0x10"
definition X_Flag_6502 :: byte where "X_Flag_6502 = 0x20"
definition V_Flag_6502 :: byte where "V_Flag_6502 = 0x40"
definition N_Flag_6502 :: byte where "N_Flag_6502 = 0x80"

text \<open>\<^verbatim>\<open>if (i & F) { val |= F_6502; }\<close>\<close>

definition or_if :: "byte \<Rightarrow> byte \<Rightarrow> byte \<Rightarrow> byte \<Rightarrow> byte" where
  "or_if i f f' val = (if i AND f \<noteq> 0 then val OR f' else val)"

definition flags_val :: "arch \<Rightarrow> byte \<Rightarrow> byte" where
  "flags_val a i =
    (let val = 0;
         val = or_if i (C_Flag a) C_Flag_6502 val;
         val = or_if i (X_Flag a) X_Flag_6502 val;
         val = or_if i (I_Flag a) I_Flag_6502 val;
         val = or_if i (V_Flag a) V_Flag_6502 val;
         val = or_if i (B_Flag a) B_Flag_6502 val;
         val = or_if i (D_Flag a) D_Flag_6502 val;
         val = or_if i (Z_Flag a) Z_Flag_6502 val;
         val = or_if i (N_Flag a) N_Flag_6502 val
     in val)"

text \<open>The loop body stores into both tables, \<open>cpu65_flags_encode\<close> and \<open>cpu65_flags_decode\<close>.\<close>

type_synonym flag_tables = "(byte \<Rightarrow> byte) \<times> (byte \<Rightarrow> byte)"

definition flags_body :: "arch \<Rightarrow> nat \<Rightarrow> flag_tables \<Rightarrow> flag_tables" where
  "flags_body a i = (\<lambda>(enc, dec). let val = flags_val a (of_nat i)
     in (enc(of_nat i := val), dec(val := of_nat i)))"

definition init_flags_conversion_tables :: "arch \<Rightarrow> flag_tables \<Rightarrow> flag_tables" where
  "init_flags_conversion_tables a t = fold (flags_body a) [0..<256] t"

lemma flag_tests:
  fixes i :: byte
  shows "i AND 0x1 = 0 \<longleftrightarrow> \<not> bit i 0" "i AND 0x2 = 0 \<longleftrightarrow> \<not> bit i 1" "i AND 0x4 = 0 \<longleftrightarrow> \<not> bit i 2"
    "i AND 0x8 = 0 \<longleftrightarrow> \<not> bit i 3" "i AND 0x10 = 0 \<longleftrightarrow> \<not> bit i 4" "i AND 0x20 = 0 \<longleftrightarrow> \<not> bit i 5"
    "i AND 0x40 = 0 \<longleftrightarrow> \<not> bit i 6" "i AND 0x80 = 0 \<longleftrightarrow> \<not> bit i 7"
  by (rule single_flag_test; simp)+

lemma flag_bits:
  "bit C_Flag_6502 n \<longleftrightarrow> n = 0" "bit Z_Flag_6502 n \<longleftrightarrow> n = 1" "bit I_Flag_6502 n \<longleftrightarrow> n = 2"
  "bit D_Flag_6502 n \<longleftrightarrow> n = 3" "bit B_Flag_6502 n \<longleftrightarrow> n = 4" "bit X_Flag_6502 n \<longleftrightarrow> n = 5"
  "bit V_Flag_6502 n \<longleftrightarrow> n = 6" "bit N_Flag_6502 n \<longleftrightarrow> n = 7"
  unfolding C_Flag_6502_def Z_Flag_6502_def I_Flag_6502_def D_Flag_6502_def B_Flag_6502_def
    X_Flag_6502_def V_Flag_6502_def N_Flag_6502_def
  by (rule single_flag_bit; simp)+

lemma bit_or_if: "bit (or_if i f f' v) n \<longleftrightarrow> bit v n \<or> i AND f \<noteq> 0 \<and> bit f' n"
  by (simp add: or_if_def bit_or_iff)

text \<open>Bit \<open>n\<close> of the host flags goes to bit \<open>flag_pos a n\<close> of the P register.\<close>

fun flag_pos :: "arch \<Rightarrow> nat \<Rightarrow> nat" where
  "flag_pos X86 n = [0, 5, 2, 6, 4, 3, 1, 7] ! n"
| "flag_pos ARM n = [6, 0, 1, 7, 5, 2, 4, 3] ! n"

lemma flags_val_bit: "n < 8 \<Longrightarrow> bit (flags_val a i) (flag_pos a n) \<longleftrightarrow> bit i n"
  by (drule less_8_cases; elim disjE; cases a;
      simp add: flags_val_def Let_def bit_or_if flag_bits flag_tests)

lemma inj_flags_val: "inj (flags_val a)"
proof (rule injI)
  fix i j assume eq: "flags_val a i = flags_val a j"
  show "i = j"
  proof (rule bit_word_eqI)
    fix n assume "n < LENGTH(8)"
    then have "n < 8" by simp
    from flags_val_bit [OF this, of a i] flags_val_bit [OF this, of a j] eq
    show "bit i n = bit j n" by simp
  qed
qed

lemma bij_flags_val: "bij (flags_val a)"
  using inj_flags_val finite_UNIV_inj_surj [OF finite inj_flags_val] by (simp add: bij_def)

lemma fold_flags_body:
  "fold (flags_body a) xs (enc, dec) =
    (fold (\<lambda>i e. e(of_nat i := flags_val a (of_nat i))) xs enc,
     fold (\<lambda>i d. d(flags_val a (of_nat i) := of_nat i)) xs dec)"
  by (induction xs arbitrary: enc dec) (auto simp: flags_body_def Let_def)

lemma inj_on_byte_of_nat: "inj_on (of_nat :: nat \<Rightarrow> byte) {0..<256}"
  by (rule inj_onI) (auto dest!: arg_cong [of _ _ unat] simp: unsigned_of_nat take_bit_nat_eq_self)

lemma byte_of_nat_ex: "\<exists>k < 256. (i :: byte) = of_nat k"
  by (rule exI [of _ "unat i"]) (use unsigned_less [of i] in auto)

lemma flag_tables_eq:
  assumes "(enc, dec) = init_flags_conversion_tables a t"
  shows "enc i = flags_val a i" and "dec (flags_val a i) = i"
proof -
  obtain k where k: "k < 256" "i = of_nat k" using byte_of_nat_ex by blast
  obtain e0 d0 where t: "t = (e0, d0)" by (cases t)
  have inj2: "inj_on (\<lambda>k. flags_val a (of_nat k)) (set [0..<256])"
    using inj_flags_val inj_on_byte_of_nat
    by (auto simp: inj_on_def inj_def)
  have "fold (\<lambda>i e. e(of_nat i := flags_val a (of_nat i))) [0..<256] e0 (of_nat k :: byte) = flags_val a (of_nat k)"
    by (rule fold_fun_upd_inj) (use k inj_on_byte_of_nat in auto)
  with assms k show "enc i = flags_val a i"
    by (simp add: init_flags_conversion_tables_def t fold_flags_body)
  have "fold (\<lambda>i d. d(flags_val a (of_nat i) := of_nat i)) [0..<256] d0 (flags_val a (of_nat k)) = of_nat k"
    by (rule fold_fun_upd_inj) (use k inj2 in auto)
  with assms k show "dec (flags_val a i) = i"
    by (simp add: init_flags_conversion_tables_def t fold_flags_body)
qed

section \<open>Registers and interrupt lines\<close>

record cpu65 =
  cpu65_pc :: addr
  cpu65_ea :: addr
  cpu65_a :: byte
  cpu65_f :: byte
  cpu65_x :: byte
  cpu65_y :: byte
  cpu65_sp :: byte
  cpu65_signal :: byte
  cpu65_flags_encode :: "byte \<Rightarrow> byte"
  cpu65_flags_decode :: "byte \<Rightarrow> byte"

definition ResetSig :: byte where "ResetSig = 0x02"
definition IRQ6522 :: byte where "IRQ6522 = 0x08"
definition IRQSpeech :: byte where "IRQSpeech = 0x10"
definition IRQSSC :: byte where "IRQSSC = 0x20"
definition IRQMouse :: byte where "IRQMouse = 0x40"
definition IRQGeneric :: byte where "IRQGeneric = 0x80"

definition cpu65_init :: "arch \<Rightarrow> cpu65 \<Rightarrow> cpu65" where
  "cpu65_init a c =
    (let (enc, dec) = init_flags_conversion_tables a (cpu65_flags_encode c, cpu65_flags_decode c)
     in c\<lparr>cpu65_flags_encode := enc, cpu65_flags_decode := dec,
         cpu65_signal := 0, cpu65_pc := 0x0, cpu65_ea := 0x0,
         cpu65_a := 0xFF, cpu65_x := 0xFF, cpu65_y := 0xFF,
         cpu65_f := C_Flag_6502 OR X_Flag_6502 OR I_Flag_6502 OR V_Flag_6502 OR B_Flag_6502 OR
           Z_Flag_6502 OR N_Flag_6502,
         cpu65_sp := 0xFC\<rparr>)"

definition cpu65_interrupt :: "byte \<Rightarrow> cpu65 \<Rightarrow> cpu65" where
  "cpu65_interrupt reason c = c\<lparr>cpu65_signal := cpu65_signal c OR reason\<rparr>"

definition cpu65_uninterrupt :: "byte \<Rightarrow> cpu65 \<Rightarrow> cpu65" where
  "cpu65_uninterrupt reason c = c\<lparr>cpu65_signal := cpu65_signal c AND NOT reason\<rparr>"

text \<open>Independent sources: raising or dropping one line leaves the others as they were.\<close>

lemma interrupt_frame:
  assumes "r AND s = 0"
  shows "cpu65_signal (cpu65_interrupt r c) AND s = cpu65_signal c AND s"
    and "cpu65_signal (cpu65_uninterrupt r c) AND s = cpu65_signal c AND s"
proof -
  have *: "\<not> (bit r n \<and> bit s n)" for n
    using assms by (metis bit_and_iff bit_0_eq bot_apply bot_bool_def)
  show "cpu65_signal (cpu65_interrupt r c) AND s = cpu65_signal c AND s"
    "cpu65_signal (cpu65_uninterrupt r c) AND s = cpu65_signal c AND s"
    using * by (auto intro!: bit_word_eqI simp: cpu65_interrupt_def cpu65_uninterrupt_def bit_simps)
qed

lemma interrupt_sets: "cpu65_signal (cpu65_interrupt r c) AND r = r"
  by (auto intro!: bit_word_eqI simp: cpu65_interrupt_def bit_simps)

lemma uninterrupt_clears: "cpu65_signal (cpu65_uninterrupt r c) AND r = 0"
  by (auto intro!: bit_word_eqI simp: cpu65_uninterrupt_def bit_simps)

section \<open>Saved state\<close>

text \<open>\<open>Cont\<close> is the routine returning true, \<open>Brk\<close> returning false.\<close>

definition cpu65_saveState :: "'f helper \<Rightarrow> cpu65 \<times> 'f \<Rightarrow> (cpu65 \<times> 'f) outcome" where
  "cpu65_saveState h = run_steps (map (save_step h)
     [\<lambda>c. ser16 (cpu65_pc c), \<lambda>c. ser16 (cpu65_ea c), \<lambda>c. [cpu65_a c], \<lambda>c. [cpu65_f c],
      \<lambda>c. [cpu65_x c], \<lambda>c. [cpu65_y c], \<lambda>c. [cpu65_sp c]])"

definition cpu65_loadState :: "'f helper \<Rightarrow> cpu65 \<times> 'f \<Rightarrow> (cpu65 \<times> 'f) outcome" where
  "cpu65_loadState h = run_steps
     [load_step h 2 (\<lambda>bs c. c\<lparr>cpu65_pc := des16 bs\<rparr>),
      load_step h 2 (\<lambda>bs c. c\<lparr>cpu65_ea := des16 bs\<rparr>),
      load_into h 1 (\<lambda>bs c. if bs = [] then c else c\<lparr>cpu65_a := bs ! 0\<rparr>),
      load_into h 1 (\<lambda>bs c. if bs = [] then c else c\<lparr>cpu65_f := bs ! 0\<rparr>),
      load_into h 1 (\<lambda>bs c. if bs = [] then c else c\<lparr>cpu65_x := bs ! 0\<rparr>),
      load_into h 1 (\<lambda>bs c. if bs = [] then c else c\<lparr>cpu65_y := bs ! 0\<rparr>),
      load_into h 1 (\<lambda>bs c. if bs = [] then c else c\<lparr>cpu65_sp := bs ! 0\<rparr>)]"

definition cpu_bytes :: "cpu65 \<Rightarrow> byte list" where
  "cpu_bytes c = ser16 (cpu65_pc c) @ ser16 (cpu65_ea c) @
     [cpu65_a c, cpu65_f c, cpu65_x c, cpu65_y c, cpu65_sp c]"

text \<open>What a load restores: every register, not the pending interrupts.\<close>

definition cpu_restored :: "cpu65 \<Rightarrow> cpu65 \<Rightarrow> cpu65" where
  "cpu_restored c c0 = c0\<lparr>cpu65_pc := cpu65_pc c, cpu65_ea := cpu65_ea c, cpu65_a := cpu65_a c,
     cpu65_f := cpu65_f c, cpu65_x := cpu65_x c, cpu65_y := cpu65_y c, cpu65_sp := cpu65_sp c\<rparr>"

context state_helper
begin

lemma cpu_save:
  assumes "good f"
  shows "\<exists>f'. cpu65_saveState h (c, f) = Cont (c, f') \<and> good f' \<and> written f' = written f @ cpu_bytes c"
  using assms by (simp add: cpu65_saveState_def cpu_bytes_def file_simps)

lemma cpu_load:
  assumes "good f" and "unread f = cpu_bytes c @ rest"
  shows "\<exists>f'. cpu65_loadState h (c0, f) = Cont (cpu_restored c c0, f') \<and> good f' \<and> unread f' = rest"
  using assms by (simp add: cpu65_loadState_def cpu_bytes_def cpu_restored_def file_simps)

end

section \<open>Guarantees\<close>

text \<open>Whatever the tables held before, after initialisation the decode table inverts the
  encode table and the encode table inverts the decode table, on all 256 flag bytes and for
  both host flag layouts, so pushing and pulling the P register loses no flag.\<close>

theorem flag_tables_roundtrip:
  "case init_flags_conversion_tables a t of
     (enc, dec) \<Rightarrow> (\<forall>i. dec (enc i) = i) \<and> (\<forall>p. enc (dec p) = p)"
proof -
  obtain enc dec where t: "init_flags_conversion_tables a t = (enc, dec)" by fastforce
  note e = flag_tables_eq [OF t [symmetric]]
  have "enc (dec p) = p" for p
  proof -
    obtain i where "p = flags_val a i" using bij_flags_val [of a] by (metis bij_pointE)
    with e show ?thesis by simp
  qed
  with e show ?thesis by (simp add: t)
qed

text \<open>Interrupt lines are independent: raising or dropping a set of lines sets or clears
  exactly these and leaves every other pending line as it was.\<close>

theorem interrupt_lines_independent:
  assumes "r AND s = 0"
  shows "cpu65_signal (cpu65_interrupt r c) AND r = r \<and>
    cpu65_signal (cpu65_uninterrupt r c) AND r = 0 \<and>
    cpu65_signal (cpu65_interrupt r c) AND s = cpu65_signal c AND s \<and>
    cpu65_signal (cpu65_uninterrupt r c) AND s = cpu65_signal c AND s"
  by (intro conjI interrupt_sets uninterrupt_clears interrupt_frame [OF assms])

theorem interrupt_lines_independent_witness:
  "\<exists>c. cpu65_signal (cpu65_interrupt IRQ6522 c) AND IRQ6522 = IRQ6522 \<and>
     cpu65_signal (cpu65_uninterrupt IRQ6522 c) AND IRQSpeech = cpu65_signal c AND IRQSpeech"
proof -
  have "IRQ6522 AND IRQSpeech = 0" by (simp add: IRQ6522_def IRQSpeech_def)
  from interrupt_lines_independent [OF this] show ?thesis by blast
qed

end
