(* ===== verification/A2_Switches.thy ===== *)
theory A2_Switches
  imports A2_Prelude
begin

text \<open>
  The softswitch word of the virtual machine (\<^verbatim>\<open>vm.h\<close>): one bit per switch, with the
  names of the source, and the rules by which the simplifier evaluates tests and updates of
  single switches.
\<close>

section \<open>The switch bits\<close>

definition SS_TEXT :: u32 where "SS_TEXT = 0x00000001"
definition SS_MIXED :: u32 where "SS_MIXED = 0x00000002"
definition SS_HIRES :: u32 where "SS_HIRES = 0x00000004"
definition SS_PAGE2 :: u32 where "SS_PAGE2 = 0x00000008"
definition SS_BANK2 :: u32 where "SS_BANK2 = 0x00000010"
definition SS_LCRAM :: u32 where "SS_LCRAM = 0x00000020"
definition SS_LCSEC :: u32 where "SS_LCSEC = 0x00000040"
definition SS_LCWRT :: u32 where "SS_LCWRT = 0x00000080"
definition SS_80STORE :: u32 where "SS_80STORE = 0x00000100"
definition SS_80COL :: u32 where "SS_80COL = 0x00000200"
definition SS_RAMRD :: u32 where "SS_RAMRD = 0x00000400"
definition SS_RAMWRT :: u32 where "SS_RAMWRT = 0x00000800"
definition SS_ALTZP :: u32 where "SS_ALTZP = 0x00001000"
definition SS_DHIRES :: u32 where "SS_DHIRES = 0x00002000"
definition SS_IOUDIS :: u32 where "SS_IOUDIS = 0x00004000"
definition SS_CXROM :: u32 where "SS_CXROM = 0x00008000"
definition SS_C3ROM :: u32 where "SS_C3ROM = 0x00010000"
definition SS_ALTCHAR :: u32 where "SS_ALTCHAR = 0x00020000"
definition SS_SCREEN :: u32 where "SS_SCREEN = 0x00040000"
definition SS_TEXTRD :: u32 where "SS_TEXTRD = 0x00080000"
definition SS_TEXTWRT :: u32 where "SS_TEXTWRT = 0x00100000"
definition SS_HGRRD :: u32 where "SS_HGRRD = 0x00200000"
definition SS_HGRWRT :: u32 where "SS_HGRWRT = 0x00400000"

lemmas SS_defs =
  SS_TEXT_def SS_MIXED_def SS_HIRES_def SS_PAGE2_def SS_BANK2_def SS_LCRAM_def SS_LCSEC_def
  SS_LCWRT_def SS_80STORE_def SS_80COL_def SS_RAMRD_def SS_RAMWRT_def SS_ALTZP_def SS_DHIRES_def
  SS_IOUDIS_def SS_CXROM_def SS_C3ROM_def SS_ALTCHAR_def SS_SCREEN_def SS_TEXTRD_def SS_TEXTWRT_def
  SS_HGRRD_def SS_HGRWRT_def

text \<open>Bit positions.\<close>

lemma bit_SS [flag_simps]:
  "bit SS_TEXT n \<longleftrightarrow> n = 0"
  "bit SS_MIXED n \<longleftrightarrow> n = 1"
  "bit SS_HIRES n \<longleftrightarrow> n = 2"
  "bit SS_PAGE2 n \<longleftrightarrow> n = 3"
  "bit SS_BANK2 n \<longleftrightarrow> n = 4"
  "bit SS_LCRAM n \<longleftrightarrow> n = 5"
  "bit SS_LCSEC n \<longleftrightarrow> n = 6"
  "bit SS_LCWRT n \<longleftrightarrow> n = 7"
  "bit SS_80STORE n \<longleftrightarrow> n = 8"
  "bit SS_80COL n \<longleftrightarrow> n = 9"
  "bit SS_RAMRD n \<longleftrightarrow> n = 10"
  "bit SS_RAMWRT n \<longleftrightarrow> n = 11"
  "bit SS_ALTZP n \<longleftrightarrow> n = 12"
  "bit SS_DHIRES n \<longleftrightarrow> n = 13"
  "bit SS_IOUDIS n \<longleftrightarrow> n = 14"
  "bit SS_CXROM n \<longleftrightarrow> n = 15"
  "bit SS_C3ROM n \<longleftrightarrow> n = 16"
  "bit SS_ALTCHAR n \<longleftrightarrow> n = 17"
  "bit SS_SCREEN n \<longleftrightarrow> n = 18"
  "bit SS_TEXTRD n \<longleftrightarrow> n = 19"
  "bit SS_TEXTWRT n \<longleftrightarrow> n = 20"
  "bit SS_HGRRD n \<longleftrightarrow> n = 21"
  "bit SS_HGRWRT n \<longleftrightarrow> n = 22"
  unfolding SS_defs by (rule single_flag_bit; simp)+

text \<open>A test of a switch is a test of its bit.\<close>

lemma test_SS [flag_simps]:
  "w AND SS_TEXT = 0 \<longleftrightarrow> \<not> bit w 0"
  "w AND SS_MIXED = 0 \<longleftrightarrow> \<not> bit w 1"
  "w AND SS_HIRES = 0 \<longleftrightarrow> \<not> bit w 2"
  "w AND SS_PAGE2 = 0 \<longleftrightarrow> \<not> bit w 3"
  "w AND SS_BANK2 = 0 \<longleftrightarrow> \<not> bit w 4"
  "w AND SS_LCRAM = 0 \<longleftrightarrow> \<not> bit w 5"
  "w AND SS_LCSEC = 0 \<longleftrightarrow> \<not> bit w 6"
  "w AND SS_LCWRT = 0 \<longleftrightarrow> \<not> bit w 7"
  "w AND SS_80STORE = 0 \<longleftrightarrow> \<not> bit w 8"
  "w AND SS_80COL = 0 \<longleftrightarrow> \<not> bit w 9"
  "w AND SS_RAMRD = 0 \<longleftrightarrow> \<not> bit w 10"
  "w AND SS_RAMWRT = 0 \<longleftrightarrow> \<not> bit w 11"
  "w AND SS_ALTZP = 0 \<longleftrightarrow> \<not> bit w 12"
  "w AND SS_DHIRES = 0 \<longleftrightarrow> \<not> bit w 13"
  "w AND SS_IOUDIS = 0 \<longleftrightarrow> \<not> bit w 14"
  "w AND SS_CXROM = 0 \<longleftrightarrow> \<not> bit w 15"
  "w AND SS_C3ROM = 0 \<longleftrightarrow> \<not> bit w 16"
  "w AND SS_ALTCHAR = 0 \<longleftrightarrow> \<not> bit w 17"
  "w AND SS_SCREEN = 0 \<longleftrightarrow> \<not> bit w 18"
  "w AND SS_TEXTRD = 0 \<longleftrightarrow> \<not> bit w 19"
  "w AND SS_TEXTWRT = 0 \<longleftrightarrow> \<not> bit w 20"
  "w AND SS_HGRRD = 0 \<longleftrightarrow> \<not> bit w 21"
  "w AND SS_HGRWRT = 0 \<longleftrightarrow> \<not> bit w 22"
  unfolding SS_defs by (rule single_flag_test; simp)+

lemma bit_u32_ops [flag_simps]:
  "bit (v OR w) n \<longleftrightarrow> bit v n \<or> bit (w :: u32) n"
  "bit (v AND w) n \<longleftrightarrow> bit v n \<and> bit w n"
  "bit (NOT w) n \<longleftrightarrow> n < 32 \<and> \<not> bit w n"
  "\<not> bit (0 :: u32) n"
  by (simp_all add: bit_simps)

lemma test_text_mixed [flag_simps]:
  "w AND (SS_TEXT OR SS_MIXED) = 0 \<longleftrightarrow> \<not> bit w 0 \<and> \<not> bit w 1"
proof -
  have "w AND (SS_TEXT OR SS_MIXED) = (w AND SS_TEXT) OR (w AND SS_MIXED)"
    by (rule bit.conj_disj_distrib)
  moreover have "(a OR b = 0) = (a = 0 \<and> b = 0)" for a b :: u32
    by (metis bit.disj_zero_right or_eq_0_iff)
  ultimately show ?thesis by (simp add: flag_simps)
qed

end
