(* ===== verification/A2_Scanner.thy ===== *)
theory A2_Scanner
  imports A2_Switches
begin

text \<open>
  The address generator of the video scanner (\<^verbatim>\<open>video/video.c\<close>,
  \<^verbatim>\<open>video/video.h\<close>): the tables of row and column offsets, the display mode and page
  chosen by the softswitches, and \<open>_getScannerAddress\<close>.  The lemmas compute the tables and
  show that on the visible part of a frame the generator walks the memory rows the display
  code draws (\<open>video_line_offset\<close>, \<^verbatim>\<open>display.c\<close>), and that everywhere else it
  stays inside the page it scans.
\<close>

section \<open>Timing constants\<close>

definition CYCLES_VIS_BEGIN :: nat where "CYCLES_VIS_BEGIN = 25"
definition CYCLES_VIS :: nat where "CYCLES_VIS = 40"
definition CYCLES_SCANLINE :: nat where "CYCLES_SCANLINE = 65"
definition SCANLINES_MIX :: nat where "SCANLINES_MIX = 20 * 8"
definition SCANLINES_VIS :: nat where "SCANLINES_VIS = 64 * 3"
definition SCANLINES_VBL_BEGIN :: nat where "SCANLINES_VBL_BEGIN = SCANLINES_VIS"
definition SCANLINES_FRAME :: nat where "SCANLINES_FRAME = 70 + SCANLINES_VIS"
definition CYCLES_FRAME :: nat where "CYCLES_FRAME = CYCLES_SCANLINE * SCANLINES_FRAME"

lemmas scan_consts =
  CYCLES_VIS_BEGIN_def CYCLES_VIS_def CYCLES_SCANLINE_def SCANLINES_MIX_def SCANLINES_VIS_def
  SCANLINES_VBL_BEGIN_def SCANLINES_FRAME_def CYCLES_FRAME_def

section \<open>Mode and page\<close>

datatype drawpage_mode = DRAWPAGE_TEXT | DRAWPAGE_HIRES

definition video_currentMainMode :: "u32 \<Rightarrow> drawpage_mode" where
  "video_currentMainMode currswitches =
    (if flag_on currswitches SS_TEXT then DRAWPAGE_TEXT
     else if flag_on currswitches SS_HIRES then DRAWPAGE_HIRES
     else DRAWPAGE_TEXT)"

definition video_currentMixedMode :: "u32 \<Rightarrow> drawpage_mode" where
  "video_currentMixedMode currswitches =
    (if flag_on currswitches (SS_TEXT OR SS_MIXED) then DRAWPAGE_TEXT
     else if flag_on currswitches SS_HIRES then DRAWPAGE_HIRES
     else DRAWPAGE_TEXT)"

definition video_currentPage :: "u32 \<Rightarrow> nat" where
  "video_currentPage currswitches =
    (if flag_on currswitches SS_80STORE then 0
     else if flag_on currswitches SS_PAGE2 then 1 else 0)"

definition currentMode :: "u32 \<Rightarrow> nat \<Rightarrow> drawpage_mode" where
  "currentMode sw vCount =
    (if vCount < SCANLINES_MIX then video_currentMainMode sw else video_currentMixedMode sw)"

lemma video_currentPage_le: "video_currentPage sw \<le> 1"
  by (simp add: video_currentPage_def)

section \<open>Tables\<close>

definition vert_offset_txt :: "nat list" where
  "vert_offset_txt =
  [0x000, 0x080, 0x100, 0x180, 0x200, 0x280, 0x300, 0x380,
   0x000, 0x080, 0x100, 0x180, 0x200, 0x280, 0x300, 0x380,
   0x000, 0x080, 0x100, 0x180, 0x200, 0x280, 0x300, 0x380,
   0x000, 0x080, 0x100, 0x180, 0x200, 0x280, 0x300, 0x380,
   0x380]"

definition vert_offset_hgr :: "nat list" where
  "vert_offset_hgr =
  [0x0000, 0x0400, 0x0800, 0x0C00, 0x1000, 0x1400, 0x1800, 0x1C00,
   0x0080, 0x0480, 0x0880, 0x0C80, 0x1080, 0x1480, 0x1880, 0x1C80,
   0x0100, 0x0500, 0x0900, 0x0D00, 0x1100, 0x1500, 0x1900, 0x1D00,
   0x0180, 0x0580, 0x0980, 0x0D80, 0x1180, 0x1580, 0x1980, 0x1D80,
   0x0200, 0x0600, 0x0A00, 0x0E00, 0x1200, 0x1600, 0x1A00, 0x1E00,
   0x0280, 0x0680, 0x0A80, 0x0E80, 0x1280, 0x1680, 0x1A80, 0x1E80,
   0x0300, 0x0700, 0x0B00, 0x0F00, 0x1300, 0x1700, 0x1B00, 0x1F00,
   0x0380, 0x0780, 0x0B80, 0x0F80, 0x1380, 0x1780, 0x1B80, 0x1F80,
   0x0000, 0x0400, 0x0800, 0x0C00, 0x1000, 0x1400, 0x1800, 0x1C00,
   0x0080, 0x0480, 0x0880, 0x0C80, 0x1080, 0x1480, 0x1880, 0x1C80,
   0x0100, 0x0500, 0x0900, 0x0D00, 0x1100, 0x1500, 0x1900, 0x1D00,
   0x0180, 0x0580, 0x0980, 0x0D80, 0x1180, 0x1580, 0x1980, 0x1D80,
   0x0200, 0x0600, 0x0A00, 0x0E00, 0x1200, 0x1600, 0x1A00, 0x1E00,
   0x0280, 0x0680, 0x0A80, 0x0E80, 0x1280, 0x1680, 0x1A80, 0x1E80,
   0x0300, 0x0700, 0x0B00, 0x0F00, 0x1300, 0x1700, 0x1B00, 0x1F00,
   0x0380, 0x0780, 0x0B80, 0x0F80, 0x1380, 0x1780, 0x1B80, 0x1F80,
   0x0000, 0x0400, 0x0800, 0x0C00, 0x1000, 0x1400, 0x1800, 0x1C00,
   0x0080, 0x0480, 0x0880, 0x0C80, 0x1080, 0x1480, 0x1880, 0x1C80,
   0x0100, 0x0500, 0x0900, 0x0D00, 0x1100, 0x1500, 0x1900, 0x1D00,
   0x0180, 0x0580, 0x0980, 0x0D80, 0x1180, 0x1580, 0x1980, 0x1D80,
   0x0200, 0x0600, 0x0A00, 0x0E00, 0x1200, 0x1600, 0x1A00, 0x1E00,
   0x0280, 0x0680, 0x0A80, 0x0E80, 0x1280, 0x1680, 0x1A80, 0x1E80,
   0x0300, 0x0700, 0x0B00, 0x0F00, 0x1300, 0x1700, 0x1B00, 0x1F00,
   0x0380, 0x0780, 0x0B80, 0x0F80, 0x1380, 0x1780, 0x1B80, 0x1F80,
   0x0000, 0x0400, 0x0800, 0x0C00, 0x1000, 0x1400, 0x1800, 0x1C00,
   0x0080, 0x0480, 0x0880, 0x0C80, 0x1080, 0x1480, 0x1880, 0x1C80,
   0x0100, 0x0500, 0x0900, 0x0D00, 0x1100, 0x1500, 0x1900, 0x1D00,
   0x0180, 0x0580, 0x0980, 0x0D80, 0x1180, 0x1580, 0x1980, 0x1D80,
   0x0200, 0x0600, 0x0A00, 0x0E00, 0x1200, 0x1600, 0x1A00, 0x1E00,
   0x0280, 0x0680, 0x0A80, 0x0E80, 0x1280, 0x1680, 0x1A80, 0x1E80,
   0x0300, 0x0700, 0x0B00, 0x0F00, 0x1300, 0x1700, 0x1B00, 0x1F00,
   0x0380, 0x0780, 0x0B80, 0x0F80, 0x1380, 0x1780, 0x1B80, 0x1F80,
   0x0B80, 0x0F80, 0x1380, 0x1780, 0x1B80, 0x1F80]"

definition scan_offset :: "nat list list" where
  "scan_offset =
  [[0x68, 0x68, 0x69, 0x6A, 0x6B, 0x6C, 0x6D, 0x6E,
    0x6F, 0x70, 0x71, 0x72, 0x73, 0x74, 0x75, 0x76,
    0x77, 0x78, 0x79, 0x7A, 0x7B, 0x7C, 0x7D, 0x7E,
    0x7F, 0x00, 0x01, 0x02, 0x03, 0x04, 0x05, 0x06,
    0x07, 0x08, 0x09, 0x0A, 0x0B, 0x0C, 0x0D, 0x0E,
    0x0F, 0x10, 0x11, 0x12, 0x13, 0x14, 0x15, 0x16,
    0x17, 0x18, 0x19, 0x1A, 0x1B, 0x1C, 0x1D, 0x1E,
    0x1F, 0x20, 0x21, 0x22, 0x23, 0x24, 0x25, 0x26,
    0x27],
   [0x10, 0x10, 0x11, 0x12, 0x13, 0x14, 0x15, 0x16,
    0x17, 0x18, 0x19, 0x1A, 0x1B, 0x1C, 0x1D, 0x1E,
    0x1F, 0x20, 0x21, 0x22, 0x23, 0x24, 0x25, 0x26,
    0x27, 0x28, 0x29, 0x2A, 0x2B, 0x2C, 0x2D, 0x2E,
    0x2F, 0x30, 0x31, 0x32, 0x33, 0x34, 0x35, 0x36,
    0x37, 0x38, 0x39, 0x3A, 0x3B, 0x3C, 0x3D, 0x3E,
    0x3F, 0x40, 0x41, 0x42, 0x43, 0x44, 0x45, 0x46,
    0x47, 0x48, 0x49, 0x4A, 0x4B, 0x4C, 0x4D, 0x4E,
    0x4F],
   [0x38, 0x38, 0x39, 0x3A, 0x3B, 0x3C, 0x3D, 0x3E,
    0x3F, 0x40, 0x41, 0x42, 0x43, 0x44, 0x45, 0x46,
    0x47, 0x48, 0x49, 0x4A, 0x4B, 0x4C, 0x4D, 0x4E,
    0x4F, 0x50, 0x51, 0x52, 0x53, 0x54, 0x55, 0x56,
    0x57, 0x58, 0x59, 0x5A, 0x5B, 0x5C, 0x5D, 0x5E,
    0x5F, 0x60, 0x61, 0x62, 0x63, 0x64, 0x65, 0x66,
    0x67, 0x68, 0x69, 0x6A, 0x6B, 0x6C, 0x6D, 0x6E,
    0x6F, 0x70, 0x71, 0x72, 0x73, 0x74, 0x75, 0x76,
    0x77],
   [0x60, 0x60, 0x61, 0x62, 0x63, 0x64, 0x65, 0x66,
    0x67, 0x68, 0x69, 0x6A, 0x6B, 0x6C, 0x6D, 0x6E,
    0x6F, 0x70, 0x71, 0x72, 0x73, 0x74, 0x75, 0x76,
    0x77, 0x78, 0x79, 0x7A, 0x7B, 0x7C, 0x7D, 0x7E,
    0x7F, 0x00, 0x01, 0x02, 0x03, 0x04, 0x05, 0x06,
    0x07, 0x08, 0x09, 0x0A, 0x0B, 0x0C, 0x0D, 0x0E,
    0x0F, 0x10, 0x11, 0x12, 0x13, 0x14, 0x15, 0x16,
    0x17, 0x18, 0x19, 0x1A, 0x1B, 0x1C, 0x1D, 0x1E,
    0x1F],
   [0x60, 0x60, 0x61, 0x62, 0x63, 0x64, 0x65, 0x66,
    0x67, 0x68, 0x69, 0x6A, 0x6B, 0x6C, 0x6D, 0x6E,
    0x6F, 0x70, 0x71, 0x72, 0x73, 0x74, 0x75, 0x76,
    0x77, 0x78, 0x79, 0x7A, 0x7B, 0x7C, 0x7D, 0x7E,
    0x7F, 0x00, 0x01, 0x02, 0x03, 0x04, 0x05, 0x06,
    0x07, 0x08, 0x09, 0x0A, 0x0B, 0x0C, 0x0D, 0x0E,
    0x0F, 0x10, 0x11, 0x12, 0x13, 0x14, 0x15, 0x16,
    0x17, 0x18, 0x19, 0x1A, 0x1B, 0x1C, 0x1D, 0x1E,
    0x1F]]"

definition video_line_offset :: "nat list" where
  "video_line_offset =
  [0x000, 0x080, 0x100, 0x180, 0x200, 0x280, 0x300, 0x380,
   0x028, 0x0A8, 0x128, 0x1A8, 0x228, 0x2A8, 0x328, 0x3A8,
   0x050, 0x0D0, 0x150, 0x1D0, 0x250, 0x2D0, 0x350, 0x3D0,
   0x078, 0x0F8, 0x178, 0x1F8, 0x278, 0x2F8, 0x378, 0x3F8,
   0x3F8]"

text \<open>The tables in closed form.\<close>

lemma table_nth:
  assumes "take n xs = map f [0..<n]" and "r < n"
  shows "xs ! r = f r"
  using assms nth_take [of r n xs] by simp

lemma table_bound:
  assumes "\<forall>x \<in> set xs. x \<le> (b :: nat)" and "r < length xs"
  shows "xs ! r \<le> b"
  using assms by simp

lemma table_lengths:
  "length vert_offset_txt = 33" "length vert_offset_hgr = 262" "length scan_offset = 5"
  by (simp_all add: vert_offset_txt_def vert_offset_hgr_def scan_offset_def)

lemma line_offset_eq: "r < 24 \<Longrightarrow> video_line_offset ! r = 0x80 * (r mod 8) + 0x28 * (r div 8)"
  by (rule table_nth [of 24]) (simp_all add: video_line_offset_def upt_rec)

lemma vert_txt_eq: "r < 24 \<Longrightarrow> vert_offset_txt ! r = 0x80 * (r mod 8)"
  by (rule table_nth [of 24]) (simp_all add: vert_offset_txt_def upt_rec)

lemma vert_hgr_eq: "v < 192 \<Longrightarrow> vert_offset_hgr ! v = 0x400 * (v mod 8) + 0x80 * (v div 8 mod 8)"
  by (rule table_nth [of 192]) (simp_all add: vert_offset_hgr_def upt_rec)

lemma less_5_cases: "k < 5 \<Longrightarrow> k = 0 \<or> k = 1 \<or> k = 2 \<or> k = 3 \<or> k = (4 :: nat)"
  by linarith

lemma scan_length: "k < 5 \<Longrightarrow> length (scan_offset ! k) = 65"
  by (drule less_5_cases; elim disjE; simp add: scan_offset_def)

lemma scan_eq: "k < 3 \<Longrightarrow> c < 40 \<Longrightarrow> scan_offset ! k ! (25 + c) = 0x28 * k + c"
proof -
  assume k: "k < 3" and c: "c < 40"
  then have "k = 0 \<or> k = 1 \<or> k = 2" by linarith
  then have "take 40 (drop 25 (scan_offset ! k)) = map (\<lambda>c. 0x28 * k + c) [0..<40]"
    by (elim disjE; simp add: scan_offset_def upt_rec)
  from table_nth [OF this c] show ?thesis
    using k scan_length [of k] by simp
qed

lemma vert_txt_bound: "r < 33 \<Longrightarrow> vert_offset_txt ! r \<le> 0x380"
  by (rule table_bound) (simp_all add: table_lengths, simp add: vert_offset_txt_def)

lemma vert_hgr_bound: "v < 262 \<Longrightarrow> vert_offset_hgr ! v \<le> 0x1F80"
  by (rule table_bound) (simp_all add: table_lengths, simp add: vert_offset_hgr_def)

lemma scan_bound: "k < 5 \<Longrightarrow> h < 65 \<Longrightarrow> scan_offset ! k ! h \<le> 0x7F"
proof -
  assume k: "k < 5" and h: "h < 65"
  from k have "\<forall>x \<in> set (scan_offset ! k). x \<le> 0x7F"
    by (drule_tac less_5_cases; elim disjE; simp add: scan_offset_def)
  from table_bound [OF this, of h] show ?thesis using k h by (simp add: scan_length)
qed

section \<open>The scanner address\<close>

fun mode_num :: "drawpage_mode \<Rightarrow> nat" where
  "mode_num DRAWPAGE_TEXT = 0"
| "mode_num DRAWPAGE_HIRES = 1"

fun vert_offset :: "drawpage_mode \<Rightarrow> nat list" where
  "vert_offset DRAWPAGE_TEXT = vert_offset_txt"
| "vert_offset DRAWPAGE_HIRES = vert_offset_hgr"

text \<open>The result is a \<^verbatim>\<open>uint16_t\<close>.\<close>

definition getScannerAddress :: "drawpage_mode \<Rightarrow> nat \<Rightarrow> nat \<Rightarrow> nat \<Rightarrow> nat" where
  "getScannerAddress mode page vCount hCount =
    (let baseOff = push_bit page (push_bit (mode_num mode * 3) (push_bit 10 0x1));
         vCount3 = drop_bit ((1 - mode_num mode) * 3) vCount
     in (baseOff + vert_offset mode ! vCount3 + scan_offset ! (drop_bit 6 vCount) ! hCount) mod 0x10000)"

text \<open>First byte and size of the pages the scanner reads.\<close>

definition page_base :: "drawpage_mode \<Rightarrow> nat \<Rightarrow> nat" where
  "page_base mode page = (case mode of DRAWPAGE_TEXT \<Rightarrow> 0x400 | DRAWPAGE_HIRES \<Rightarrow> 0x2000) * (page + 1)"

definition page_size :: "drawpage_mode \<Rightarrow> nat" where
  "page_size mode = (case mode of DRAWPAGE_TEXT \<Rightarrow> 0x400 | DRAWPAGE_HIRES \<Rightarrow> 0x2000)"

text \<open>Where the display code finds the byte of scanline \<open>v\<close> and column \<open>c\<close>.\<close>

definition display_address :: "drawpage_mode \<Rightarrow> nat \<Rightarrow> nat \<Rightarrow> nat \<Rightarrow> nat" where
  "display_address mode page v c = page_base mode page + video_line_offset ! (v div 8) + c +
     (case mode of DRAWPAGE_TEXT \<Rightarrow> 0 | DRAWPAGE_HIRES \<Rightarrow> 0x400 * (v mod 8))"

lemma scanner_base:
  "page \<le> 1 \<Longrightarrow>
   push_bit page (push_bit (mode_num mode * 3) (push_bit 10 (0x1 :: nat))) = page_base mode page"
  by (cases mode; cases page; auto simp: page_base_def push_bit_nat_def)

lemma scanner_sum_bound:
  assumes "page \<le> 1" "v < 262" "h < 65"
  shows "page_base mode page + vert_offset mode ! drop_bit ((1 - mode_num mode) * 3) v +
           scan_offset ! drop_bit 6 v ! h < page_base mode page + page_size mode"
proof -
  have "drop_bit 6 v < 5" using assms(2) by (simp add: drop_bit_nat_def)
  then have s: "scan_offset ! drop_bit 6 v ! h \<le> 0x7F" by (rule scan_bound) (rule assms(3))
  show ?thesis
  proof (cases mode)
    case DRAWPAGE_TEXT
    have "v div 8 < 33" using assms by linarith
    from vert_txt_bound [OF this] s DRAWPAGE_TEXT show ?thesis
      by (simp add: drop_bit_nat_def page_size_def)
  next
    case DRAWPAGE_HIRES
    from vert_hgr_bound [OF assms(2)] s DRAWPAGE_HIRES show ?thesis
      by (simp add: page_size_def)
  qed
qed

lemma page_end: "page \<le> 1 \<Longrightarrow> page_base mode page + page_size mode \<le> 0x6000"
  by (cases mode; cases page; auto simp: page_base_def page_size_def)

lemma getScannerAddress_unfold:
  assumes "page \<le> 1" "v < 262" "h < 65"
  shows "getScannerAddress mode page v h = page_base mode page +
           vert_offset mode ! drop_bit ((1 - mode_num mode) * 3) v + scan_offset ! drop_bit 6 v ! h"
  unfolding getScannerAddress_def Let_def scanner_base [OF assms(1)]
  using scanner_sum_bound [OF assms, of mode] page_end [OF assms(1), of mode]
  by (intro mod_less) linarith

text \<open>No scanner read leaves the page being scanned.\<close>

lemma getScannerAddress_in_page:
  assumes "page \<le> 1" "v < SCANLINES_FRAME" "h < CYCLES_SCANLINE"
  shows "page_base mode page \<le> getScannerAddress mode page v h"
    and "getScannerAddress mode page v h < page_base mode page + page_size mode"
proof -
  have *: "v < 262" "h < 65" using assms by (simp_all add: scan_consts)
  show "page_base mode page \<le> getScannerAddress mode page v h"
    by (subst getScannerAddress_unfold [OF assms(1) *]) simp
  show "getScannerAddress mode page v h < page_base mode page + page_size mode"
    by (subst getScannerAddress_unfold [OF assms(1) *]) (rule scanner_sum_bound [OF assms(1) *])
qed

lemma getScannerAddress_bound:
  assumes "page \<le> 1" "v < SCANLINES_FRAME" "h < CYCLES_SCANLINE"
  shows "getScannerAddress mode page v h < 0x6000"
  using getScannerAddress_in_page(2) [OF assms, of mode] page_end [OF assms(1), of mode] by linarith

lemma getScannerAddress_visible:
  assumes "page \<le> 1" "v < SCANLINES_VBL_BEGIN" "c < CYCLES_VIS"
  shows "getScannerAddress mode page v (CYCLES_VIS_BEGIN + c) = display_address mode page v c"
proof -
  have v: "v < 192" and c: "c < 40" using assms by (simp_all add: scan_consts)
  have k: "v div 64 < 3" using v by linarith
  have r: "v div 8 < 24" using v by linarith
  have "getScannerAddress mode page v (25 + c) = page_base mode page +
      vert_offset mode ! drop_bit ((1 - mode_num mode) * 3) v + scan_offset ! (v div 64) ! (25 + c)"
    using v c assms(1) by (subst getScannerAddress_unfold) (auto simp: drop_bit_nat_def)
  moreover have "v div 8 div 8 = v div 64" by (simp add: div_mult2_eq [symmetric])
  ultimately show ?thesis
    using scan_eq [OF k c] vert_hgr_eq [OF v] vert_txt_eq [OF r] line_offset_eq [OF r]
    by (cases mode) (simp_all add: display_address_def drop_bit_nat_def CYCLES_VIS_BEGIN_def)
qed

section \<open>Guarantees\<close>

text \<open>C29: on the visible part of the frame the scanner reads, at every scanline and column, the
  byte the display code draws there, in both modes and on both pages.\<close>

theorem scanner_reads_display_rows:
  assumes "page \<le> 1" "v < SCANLINES_VBL_BEGIN" "c < CYCLES_VIS"
  shows "getScannerAddress mode page v (CYCLES_VIS_BEGIN + c) = display_address mode page v c"
  by (rule getScannerAddress_visible [OF assms])

theorem scanner_reads_display_rows_witness:
  "getScannerAddress DRAWPAGE_HIRES 1 100 (CYCLES_VIS_BEGIN + 39) = display_address DRAWPAGE_HIRES 1 100 39"
  by (rule scanner_reads_display_rows) (simp_all add: scan_consts)

text \<open>C30: at every beam position of the frame, blanking included, the scanner address lies inside
  the page being scanned, and so below \<open>0x6000\<close>.\<close>

theorem scanner_stays_in_page:
  assumes "page \<le> 1" "v < SCANLINES_FRAME" "h < CYCLES_SCANLINE"
  shows "page_base mode page \<le> getScannerAddress mode page v h \<and>
    getScannerAddress mode page v h < page_base mode page + page_size mode \<and>
    getScannerAddress mode page v h < 0x6000"
  using getScannerAddress_in_page [OF assms] getScannerAddress_bound [OF assms] by blast

theorem scanner_stays_in_page_witness:
  "page_base DRAWPAGE_TEXT 0 \<le> getScannerAddress DRAWPAGE_TEXT 0 261 0 \<and>
    getScannerAddress DRAWPAGE_TEXT 0 261 0 < page_base DRAWPAGE_TEXT 0 + page_size DRAWPAGE_TEXT \<and>
    getScannerAddress DRAWPAGE_TEXT 0 261 0 < 0x6000"
  by (rule scanner_stays_in_page) (simp_all add: scan_consts)

end
