(* ===== verification/A2_Video.thy ===== *)
theory A2_Video
  imports A2_Scanner A2_Io "HOL-Library.Monad_Syntax"
begin

text \<open>
  The video scanner (\<^verbatim>\<open>video/video.c\<close>) and the cycle counters it runs on
  (\<^verbatim>\<open>timing.c\<close>: \<open>timing_checkpointCycles\<close>).  A failed assertion is \<open>None\<close>.  What the
  scanner hands to the display backend and to the frame callbacks is recorded, in order, in
  \<open>vlog\<close>.  The softswitches and the two 64k banks are arguments: the scanner only reads them.
\<close>

section \<open>State\<close>

datatype video_event =
    FlushScanline "byte list" u32 nat nat nat
  | FrameComplete
  | FlashText
  | FrameCallbacks byte

record video =
  cpu65_cycle_count :: int
  cycles_checkpoint_count :: int
  cycles_count_total :: nat
  cycles_video_frame :: nat
  cyclesFrameLast :: nat
  cyclesDirty :: nat
  dirty :: "64 word"
  reset_scanner :: bool
  textFlashCounter :: byte
  scanline :: "byte list"
  scancol :: nat
  scanidx :: nat
  vlog :: "video_event list"

definition A2_DIRTY_FLAG :: "64 word" where "A2_DIRTY_FLAG = 0x1"
definition FB_DIRTY_FLAG :: "64 word" where "FB_DIRTY_FLAG = 0x2"

definition vemit :: "video_event \<Rightarrow> video \<Rightarrow> video" where
  "vemit e v = v\<lparr>vlog := vlog v @ [e]\<rparr>"

text \<open>The counters are unsigned 32 and 64 bit integers.\<close>

definition timing_checkpointCycles :: "video \<Rightarrow> video option" where
  "timing_checkpointCycles v =
    (let d = cpu65_cycle_count v - cycles_checkpoint_count v
     in c_assert (d \<ge> 0)
          (v\<lparr>cycles_video_frame := (cycles_video_frame v + nat d) mod 2 ^ 32,
             cycles_count_total := (cycles_count_total v + nat d) mod 2 ^ 64,
             cycles_checkpoint_count := cpu65_cycle_count v\<rparr>))"

section \<open>Dirty frames\<close>

definition setScannerDirty :: "video \<Rightarrow> video option" where
  "setScannerDirty v =
    (let hCount = cyclesFrameLast v mod CYCLES_SCANLINE;
         vCount = (cyclesFrameLast v div CYCLES_SCANLINE) mod SCANLINES_FRAME;
         lineCount = 0x7 - vCount mod 8;
         colCount = CYCLES_SCANLINE - hCount;
         xCount = (lineCount * CYCLES_SCANLINE + colCount) mod (0x8 * CYCLES_SCANLINE);
         v' = v\<lparr>cyclesDirty := CYCLES_FRAME + xCount\<rparr>
     in c_assert (CYCLES_FRAME \<le> cyclesDirty v' \<and>
                  cyclesDirty v' \<le> CYCLES_FRAME + CYCLES_SCANLINE * 8 \<and>
                  (cyclesFrameLast v' + cyclesDirty v') mod CYCLES_SCANLINE = 0) v')"

definition endOfFrame :: "u32 \<Rightarrow> video \<Rightarrow> video option" where
  "endOfFrame sw v = do {
     v \<leftarrow> c_assert (cyclesFrameLast v \<ge> CYCLES_FRAME)
       (v\<lparr>cyclesFrameLast := cyclesFrameLast v mod CYCLES_FRAME,
          cycles_video_frame := cycles_video_frame v mod CYCLES_FRAME,
          textFlashCounter := (textFlashCounter v + 1) AND 0xf\<rparr>);
     v \<leftarrow> (if textFlashCounter v = 0x0 then
            (let v = vemit FlashText v in
             if \<not> flag_on sw SS_80COL \<and> flag_on sw (SS_TEXT OR SS_MIXED) then do {
               v \<leftarrow> setScannerDirty (v\<lparr>cyclesFrameLast := 0\<rparr>);
               c_assert (cyclesDirty v = CYCLES_FRAME) v
             } else Some v)
          else Some v);
     Some (vemit (FrameCallbacks (textFlashCounter v)) v) }"

definition video_clearDirty :: "64 word \<Rightarrow> video \<Rightarrow> video" where
  "video_clearDirty flags v = v\<lparr>dirty := dirty v AND NOT flags\<rparr>"

definition video_isDirty :: "64 word \<Rightarrow> video \<Rightarrow> bool" where
  "video_isDirty flags v \<longleftrightarrow> dirty v AND flags \<noteq> 0"

definition video_scannerReset :: "video \<Rightarrow> video option" where
  "video_scannerReset v = c_assert (cycles_video_frame v = 0)
     (v\<lparr>cyclesFrameLast := 0, cyclesDirty := CYCLES_FRAME, reset_scanner := True\<rparr>)"

section \<open>The scanner\<close>

type_synonym ram = "nat \<Rightarrow> byte"

definition flushScanline :: "u32 \<Rightarrow> nat \<Rightarrow> nat \<Rightarrow> nat \<Rightarrow> video \<Rightarrow> video" where
  "flushScanline sw row col scanend v = vemit (FlushScanline (scanline v) sw row col scanend) v"

text \<open>
  The body of the scanner's loop, for one cycle: fetch the two bytes of a visible position,
  advance, and finish the scanline and the frame when they end.  \<open>hCount\<close>, \<open>vCount\<close> and
  \<open>mode\<close> are the routine's local variables.
\<close>

type_synonym beam = "nat \<times> nat \<times> drawpage_mode"

definition scan_fetch :: "ram \<Rightarrow> ram \<Rightarrow> nat \<Rightarrow> beam \<Rightarrow> video \<Rightarrow> video option" where
  "scan_fetch m0 m1 page = (\<lambda>(hCount, vCount, mode) v.
     if hCount \<ge> CYCLES_VIS_BEGIN \<and> vCount < SCANLINES_VBL_BEGIN then
       (let addr = getScannerAddress mode page vCount hCount;
            idx = 2 * scancol v + 2 * scanidx v
        in c_assert (idx < 2 * CYCLES_VIS - 1)
             (v\<lparr>scanline := (scanline v)[idx := m1 addr, idx + 1 := m0 addr],
                scanidx := scanidx v + 1\<rparr>))
     else Some v)"

definition scan_line_end :: "u32 \<Rightarrow> beam \<Rightarrow> video \<Rightarrow> (beam \<times> video) option" where
  "scan_line_end sw = (\<lambda>(hCount, vCount, mode) v. do {
     v \<leftarrow> (if vCount < SCANLINES_VBL_BEGIN
          then c_assert (scancol v + scanidx v = CYCLES_VIS)
                 (flushScanline sw vCount (scancol v) (scancol v + scanidx v) v)
          else Some v);
     let v = v\<lparr>scancol := 0, scanidx := 0\<rparr>;
     let vCount = vCount + 1;
     (vCount, v) \<leftarrow> (if vCount = SCANLINES_FRAME then do {
          v \<leftarrow> c_assert (cyclesFrameLast v mod CYCLES_FRAME = 0) v;
          v \<leftarrow> endOfFrame sw v;
          Some (0, vemit FrameComplete v)
        } else Some (vCount, v));
     Some ((0, vCount, currentMode sw vCount), v) })"

definition scan_cycle :: "u32 \<Rightarrow> ram \<Rightarrow> ram \<Rightarrow> nat \<Rightarrow> beam \<times> video \<Rightarrow> (beam \<times> video) option" where
  "scan_cycle sw m0 m1 page = (\<lambda>(beam, v). do {
     v \<leftarrow> c_assert (cyclesDirty v > 0) v;
     v \<leftarrow> scan_fetch m0 m1 page beam v;
     let (hCount, vCount, mode) = beam;
     let hCount = hCount + 1;
     let v = v\<lparr>cyclesFrameLast := cyclesFrameLast v + 1, cyclesDirty := cyclesDirty v - 1\<rparr>;
     if hCount = CYCLES_SCANLINE then scan_line_end sw (hCount, vCount, mode) v
     else Some ((hCount, vCount, mode), v) })"

fun scan_cycles :: "u32 \<Rightarrow> ram \<Rightarrow> ram \<Rightarrow> nat \<Rightarrow> nat \<Rightarrow> beam \<times> video \<Rightarrow> (beam \<times> video) option" where
  "scan_cycles sw m0 m1 page 0 bv = Some bv"
| "scan_cycles sw m0 m1 page (Suc n) bv = do {
     bv \<leftarrow> scan_cycle sw m0 m1 page bv;
     scan_cycles sw m0 m1 page n bv }"

definition scan_flush_partial :: "u32 \<Rightarrow> nat \<Rightarrow> video \<Rightarrow> video option" where
  "scan_flush_partial sw vCount v =
    (if scanidx v > 0 \<and> vCount < SCANLINES_VBL_BEGIN then
       (let scanend = scancol v + scanidx v
        in c_assert (scanend < CYCLES_VIS)
             ((flushScanline sw vCount (scancol v) scanend v)\<lparr>scancol := scanend, scanidx := 0\<rparr>))
     else Some v)"

definition scan_finish :: "video \<Rightarrow> video option" where
  "scan_finish v =
    (if cyclesDirty v = 0 then
       c_assert (scancol v = 0 \<and> scanidx v = 0)
         (vemit FrameComplete
           (video_clearDirty A2_DIRTY_FLAG (v\<lparr>cyclesFrameLast := cycles_video_frame v\<rparr>)))
     else Some v)"

definition scan_idle :: "u32 \<Rightarrow> video \<Rightarrow> video option" where
  "scan_idle sw v = do {
     let v = v\<lparr>cyclesFrameLast := cycles_video_frame v\<rparr>;
     v \<leftarrow> (if cycles_video_frame v \<ge> CYCLES_FRAME then endOfFrame sw v else Some v);
     c_assert (cycles_video_frame v < CYCLES_FRAME) v }"

definition start_beam :: "u32 \<Rightarrow> video \<Rightarrow> beam" where
  "start_beam sw v =
    (let vCount = (cyclesFrameLast v div CYCLES_SCANLINE) mod SCANLINES_FRAME
     in (cyclesFrameLast v mod CYCLES_SCANLINE, vCount, currentMode sw vCount))"

definition scan_run :: "u32 \<Rightarrow> ram \<Rightarrow> ram \<Rightarrow> video \<Rightarrow> video option" where
  "scan_run sw m0 m1 v = do {
     v \<leftarrow> c_assert (cycles_video_frame v \<ge> cyclesFrameLast v) v;
     let cyclesCount = min (cycles_video_frame v - cyclesFrameLast v) (cyclesDirty v);
     ((_, vCount, _), v) \<leftarrow>
       scan_cycles sw m0 m1 (video_currentPage sw) cyclesCount (start_beam sw v, v);
     v \<leftarrow> scan_flush_partial sw vCount v;
     scan_finish v }"

definition apply_reset :: "video \<Rightarrow> video" where
  "apply_reset v =
    (if reset_scanner v then v\<lparr>reset_scanner := False, scancol := 0, scanidx := 0\<rparr> else v)"

definition video_scannerUpdate :: "u32 \<Rightarrow> ram \<Rightarrow> ram \<Rightarrow> video \<Rightarrow> video option" where
  "video_scannerUpdate sw m0 m1 v = do {
     v \<leftarrow> timing_checkpointCycles (apply_reset v);
     if cyclesDirty v = 0 then scan_idle sw v else scan_run sw m0 m1 v }"

definition video_setDirty :: "64 word \<Rightarrow> u32 \<Rightarrow> ram \<Rightarrow> ram \<Rightarrow> video \<Rightarrow> video option" where
  "video_setDirty flags sw m0 m1 v =
    (let v = v\<lparr>dirty := dirty v OR flags\<rparr> in
     if flags AND A2_DIRTY_FLAG \<noteq> 0 then do {
       v \<leftarrow> timing_checkpointCycles v;
       let v = (if cyclesDirty v = 0
                then v\<lparr>cyclesFrameLast := cycles_video_frame v - cycles_video_frame v mod CYCLES_SCANLINE\<rparr>
                else v);
       v \<leftarrow> video_scannerUpdate sw m0 m1 (v\<lparr>cyclesDirty := 2 ^ 32 - 1\<rparr>);
       v \<leftarrow> c_assert (cyclesFrameLast v = cycles_video_frame v) v;
       setScannerDirty v
     } else Some v)"

section \<open>The floating bus\<close>

text \<open>
  The scanner's position two cycles back, with C's unsigned counters read as signed to
  detect the borrow.
\<close>

definition video_scannerAddress :: "u32 \<Rightarrow> video \<Rightarrow> (bool \<times> nat \<times> video) option" where
  "video_scannerAddress sw v = do {
     v \<leftarrow> timing_checkpointCycles v;
     let hCount = cycles_video_frame v mod CYCLES_SCANLINE;
     let vCount = (cycles_video_frame v div CYCLES_SCANLINE) mod SCANLINES_FRAME;
     let isVBL = vCount \<ge> SCANLINES_VBL_BEGIN;
     let (hCount, vCount) =
       (if int hCount - 2 < 0
        then (hCount + CYCLES_SCANLINE - 2, if int vCount - 1 < 0 then SCANLINES_FRAME - 1 else vCount - 1)
        else (hCount - 2, vCount));
     let page = video_currentPage sw;
     let mode = (if vCount < SCANLINES_VIS then video_currentMainMode sw else video_currentMixedMode sw);
     Some (isVBL, getScannerAddress mode page vCount hCount, v) }"

definition video_floating_bus :: "u32 \<Rightarrow> ram \<Rightarrow> video \<Rightarrow> (byte \<times> video) option" where
  "video_floating_bus sw m0 v = do {
     (_, scanner_addr, v) \<leftarrow> video_scannerAddress sw v;
     Some (m0 scanner_addr, v) }"

section \<open>Saved state\<close>

text \<open>A single unused byte, kept for the format of the file.\<close>

definition video_saveState :: "'f helper \<Rightarrow> video \<times> 'f \<Rightarrow> (video \<times> 'f) outcome" where
  "video_saveState h = run_steps [save_step h (\<lambda>v. [0x0])]"

definition video_loadState :: "'f helper \<Rightarrow> video \<times> 'f \<Rightarrow> (video \<times> 'f) outcome" where
  "video_loadState h = run_steps [load_step h 1 (\<lambda>bs v. v)]"

context state_helper
begin

lemma video_save:
  "good f \<Longrightarrow> \<exists>f'. video_saveState h (v, f) = Cont (v, f') \<and> good f' \<and> written f' = written f @ [0]"
  by (simp add: video_saveState_def file_simps)

lemma video_load:
  "good f \<Longrightarrow> unread f = [b] @ rest \<Longrightarrow>
   \<exists>f'. video_loadState h (v, f) = Cont (v, f') \<and> good f' \<and> unread f' = rest"
  by (simp add: video_loadState_def file_simps)

end

section \<open>The scanner's invariant\<close>

text \<open>Number of visible columns scanned when the beam is at \<open>(h, vc)\<close>.\<close>

definition vis :: "nat \<Rightarrow> nat \<Rightarrow> nat" where
  "vis h vc = (if vc < SCANLINES_VBL_BEGIN then h - CYCLES_VIS_BEGIN else 0)"

definition pos_h :: "nat \<Rightarrow> nat" where
  "pos_h x = x mod CYCLES_SCANLINE"

definition pos_v :: "nat \<Rightarrow> nat" where
  "pos_v x = (x div CYCLES_SCANLINE) mod SCANLINES_FRAME"

lemma pos_h_Suc: "pos_h (Suc x) = (if pos_h x = 64 then 0 else Suc (pos_h x))"
  by (simp add: pos_h_def scan_consts mod_Suc)

lemma pos_v_Suc:
  "pos_v (Suc x) = (if pos_h x = 64 then (if pos_v x = 261 then 0 else Suc (pos_v x)) else pos_v x)"
  by (simp add: pos_h_def pos_v_def scan_consts div_Suc mod_Suc)

lemma pos_less: "pos_h x < 65" "pos_v x < 262"
  by (simp_all add: pos_h_def pos_v_def scan_consts)

lemma frame_end:
  assumes "pos_h x = 64" "pos_v x = 261"
  shows "Suc x mod CYCLES_FRAME = 0" "CYCLES_FRAME \<le> Suc x"
proof -
  have q: "x mod 65 = 64" "(x div 65) mod 262 = 261"
    using assms by (simp_all add: pos_h_def pos_v_def scan_consts)
  define q where "q = x div 65"
  define k where "k = q div 262"
  have "x = q * 65 + 64" using div_mult_mod_eq [of x 65] q(1) unfolding q_def by simp
  moreover have "q = k * 262 + 261"
    using div_mult_mod_eq [of q 262] q(2) unfolding k_def q_def by simp
  ultimately have e: "Suc x = 17030 * Suc k" by simp
  have "Suc x mod 17030 = 0" "17030 \<le> Suc x" unfolding e by simp_all
  then show "Suc x mod CYCLES_FRAME = 0" "CYCLES_FRAME \<le> Suc x"
    by (simp_all add: scan_consts)
qed

text \<open>The bytes a flushed scanline must show.\<close>

definition shows_row :: "u32 \<Rightarrow> ram \<Rightarrow> ram \<Rightarrow> byte list \<Rightarrow> nat \<Rightarrow> nat \<Rightarrow> nat \<Rightarrow> bool" where
  "shows_row sw m0 m1 bs row col scanend \<longleftrightarrow>
     length bs = 80 \<and>
     (\<forall>c. col \<le> c \<and> c < scanend \<longrightarrow>
        bs ! (2 * c) = m1 (display_address (currentMode sw row) (video_currentPage sw) row c) \<and>
        bs ! (2 * c + 1) = m0 (display_address (currentMode sw row) (video_currentPage sw) row c))"

fun event_ok :: "u32 \<Rightarrow> ram \<Rightarrow> ram \<Rightarrow> video_event \<Rightarrow> bool" where
  "event_ok sw m0 m1 (FlushScanline bs sw' row col scanend) \<longleftrightarrow>
     sw' = sw \<and> row < SCANLINES_VIS \<and> col < scanend \<and> scanend \<le> CYCLES_VIS \<and>
     shows_row sw m0 m1 bs row col scanend"
| "event_ok sw m0 m1 _ \<longleftrightarrow> True"

text \<open>
  In the loop started in \<open>v0\<close>, with \<open>n\<close> cycles to go in this call and \<open>m\<close> to catch up
  with the CPU.  The dirty count either ends on a scanline boundary (\<open>al\<close>) or outlasts the call.
\<close>

definition since :: "u32 \<Rightarrow> ram \<Rightarrow> ram \<Rightarrow> video \<Rightarrow> video \<Rightarrow> bool" where
  "since sw m0 m1 v0 v \<longleftrightarrow>
     cpu65_cycle_count v = cpu65_cycle_count v0 \<and>
     cycles_checkpoint_count v = cycles_checkpoint_count v0 \<and>
     reset_scanner v = reset_scanner v0 \<and>
     cycles_video_frame v \<le> cycles_video_frame v0 \<and>
     (\<exists>new. vlog v = vlog v0 @ new \<and> (\<forall>e \<in> set new. event_ok sw m0 m1 e))"

definition aligned :: "video \<Rightarrow> bool" where
  "aligned v \<longleftrightarrow> (cyclesFrameLast v + cyclesDirty v) mod CYCLES_SCANLINE = 0"

definition loop_inv ::
    "u32 \<Rightarrow> ram \<Rightarrow> ram \<Rightarrow> video \<Rightarrow> bool \<Rightarrow> nat \<Rightarrow> nat \<Rightarrow> beam \<times> video \<Rightarrow> bool" where
  "loop_inv sw m0 m1 v0 al n m = (\<lambda>(beam, v).
     beam = (pos_h (cyclesFrameLast v), pos_v (cyclesFrameLast v),
             currentMode sw (pos_v (cyclesFrameLast v))) \<and>
     cycles_video_frame v = cyclesFrameLast v + m \<and> n \<le> m \<and> m \<le> CYCLES_FRAME \<and>
     n \<le> cyclesDirty v \<and>
     (if al then aligned v else n < cyclesDirty v) \<and>
     scancol v + scanidx v = vis (pos_h (cyclesFrameLast v)) (pos_v (cyclesFrameLast v)) \<and>
     (scancol v = 0 \<or> scancol v < CYCLES_VIS) \<and>
     shows_row sw m0 m1 (scanline v) (pos_v (cyclesFrameLast v)) (scancol v) (scancol v + scanidx v) \<and>
     since sw m0 m1 v0 v)"

lemma since_refl [simp]: "since sw m0 m1 v v"
  by (simp add: since_def)

lemma since_trans: "since sw m0 m1 u v \<Longrightarrow> since sw m0 m1 v w \<Longrightarrow> since sw m0 m1 u w"
  by (auto simp: since_def)

lemma since_emit: "since sw m0 m1 v0 v \<Longrightarrow> event_ok sw m0 m1 e \<Longrightarrow> since sw m0 m1 v0 (vemit e v)"
  by (auto simp: since_def vemit_def)

lemma currentPage_le [simp]: "video_currentPage sw \<le> Suc 0"
  using video_currentPage_le [of sw] by simp

lemma shows_row_fetch:
  assumes "shows_row sw m0 m1 bs row col e" "e < CYCLES_VIS" "row < SCANLINES_VIS"
    "addr = getScannerAddress (currentMode sw row) (video_currentPage sw) row (CYCLES_VIS_BEGIN + e)"
  shows "shows_row sw m0 m1 (bs[2 * e := m1 addr, 2 * e + 1 := m0 addr]) row col (Suc e)"
proof -
  have "addr = display_address (currentMode sw row) (video_currentPage sw) row e"
    using assms(2,3,4) by (simp add: getScannerAddress_visible SCANLINES_VBL_BEGIN_def)
  moreover have "length bs = 80" "e < 40" using assms by (simp_all add: shows_row_def scan_consts)
  ultimately show ?thesis
    using assms(1) by (auto simp: shows_row_def nth_list_update less_Suc_eq)
qed

lemma shows_row_empty: "length bs = 80 \<Longrightarrow> shows_row sw m0 m1 bs row e e"
  by (auto simp: shows_row_def)

text \<open>The fetch advances the column count and cannot run over the line buffer.\<close>

lemma scan_fetch_ok:
  assumes "scancol v + scanidx v = vis h vc" "h < 65"
    "shows_row sw m0 m1 (scanline v) vc (scancol v) (scancol v + scanidx v)"
    "page = video_currentPage sw"
  obtains v' bs where
    "scan_fetch m0 m1 page (h, vc, currentMode sw vc) v = Some v'"
    "v' = v\<lparr>scanline := bs, scanidx := scanidx v'\<rparr>"
    "scancol v + scanidx v' = vis (Suc h) vc"
    "shows_row sw m0 m1 (scanline v') vc (scancol v) (scancol v + scanidx v')"
proof (cases "h \<ge> CYCLES_VIS_BEGIN \<and> vc < SCANLINES_VBL_BEGIN")
  case True
  let ?e = "h - CYCLES_VIS_BEGIN"
  let ?addr = "getScannerAddress (currentMode sw vc) page vc h"
  let ?bs = "(scanline v)[2 * ?e := m1 ?addr, 2 * ?e + 1 := m0 ?addr]"
  have e: "scancol v + scanidx v = ?e" using True assms(1) by (simp add: vis_def)
  have idx: "2 * scancol v + 2 * scanidx v = 2 * ?e" using e by linarith
  have h: "CYCLES_VIS_BEGIN + ?e = h" "?e < CYCLES_VIS"
    using True assms(2) by (simp_all add: scan_consts)
  have f: "scan_fetch m0 m1 page (h, vc, currentMode sw vc) v =
      Some (v\<lparr>scanline := ?bs, scanidx := scanidx v + 1\<rparr>)"
    using True h unfolding scan_fetch_def Let_def prod.case idx by (simp add: scan_consts)
  have r: "shows_row sw m0 m1 ?bs vc (scancol v) (Suc ?e)"
    by (rule shows_row_fetch) (use assms True e h in \<open>simp_all add: SCANLINES_VBL_BEGIN_def\<close>)
  show ?thesis
    by (rule that [OF f]) (use r e True in \<open>auto simp: vis_def Suc_diff_le\<close>)
next
  case False
  then have f: "scan_fetch m0 m1 page (h, vc, currentMode sw vc) v = Some v"
    by (auto simp: scan_fetch_def)
  show ?thesis
    by (rule that [OF f, of "scanline v"]) (use assms False in \<open>auto simp: vis_def scan_consts\<close>)
qed

lemma setScannerDirty_ok:
  "\<exists>x. setScannerDirty v = Some (v\<lparr>cyclesDirty := CYCLES_FRAME + x\<rparr>) \<and>
       (cyclesFrameLast v + (CYCLES_FRAME + x)) mod CYCLES_SCANLINE = 0 \<and> x < 8 * CYCLES_SCANLINE \<and>
       (cyclesFrameLast v = 0 \<longrightarrow> x = 0)"
proof -
  let ?c = "cyclesFrameLast v"
  define l where "l = 7 - ?c div 65 mod 262 mod 8"
  define x where "x = (l * 65 + (65 - ?c mod 65)) mod 520"
  have "?c + (17030 + x) = (?c + x) + 262 * 65" by simp
  then have "(?c + (17030 + x)) mod 65 = (?c + x) mod 65" by (metis mod_mult_self1)
  also have "\<dots> = (?c mod 65 + x mod 65) mod 65" by (rule mod_add_eq [symmetric])
  also have "x mod 65 = (l * 65 + (65 - ?c mod 65)) mod 65"
    unfolding x_def by (rule mod_mod_cancel) simp
  also have "\<dots> = (65 - ?c mod 65) mod 65" by (rule mod_mult_self3)
  also have "(?c mod 65 + (65 - ?c mod 65) mod 65) mod 65 = (?c mod 65 + (65 - ?c mod 65)) mod 65"
    by (rule mod_add_right_eq)
  also have "?c mod 65 + (65 - ?c mod 65) = 65" by (simp add: less_imp_le)
  finally have al: "(?c + (17030 + x)) mod 65 = 0" by simp
  have x: "x < 520" unfolding x_def by simp
  have z: "?c = 0 \<longrightarrow> x = 0" by (simp add: x_def l_def)
  have "setScannerDirty v = c_assert (17030 \<le> 17030 + x \<and> 17030 + x \<le> 17030 + 520 \<and>
      (?c + (17030 + x)) mod 65 = 0) (v\<lparr>cyclesDirty := 17030 + x\<rparr>)"
    by (simp add: setScannerDirty_def Let_def scan_consts x_def l_def)
  with al x z show ?thesis by (intro exI [of _ x]) (simp add: scan_consts)
qed

lemma setScannerDirty_zero:
  "cyclesFrameLast v = 0 \<Longrightarrow> setScannerDirty v = Some (v\<lparr>cyclesDirty := CYCLES_FRAME\<rparr>)"
  using setScannerDirty_ok [of v] by auto

lemma endOfFrame_ok:
  assumes "cyclesFrameLast v mod CYCLES_FRAME = 0" "CYCLES_FRAME \<le> cyclesFrameLast v"
  obtains v' cd es where "endOfFrame sw v = Some v'"
    "v' = v\<lparr>cyclesFrameLast := 0, cycles_video_frame := cycles_video_frame v mod CYCLES_FRAME,
           textFlashCounter := textFlashCounter v', cyclesDirty := cd, vlog := vlog v @ es\<rparr>"
    "cd = cyclesDirty v \<or> cd = CYCLES_FRAME" "\<forall>e \<in> set es. event_ok sw m0 m1 e"
proof -
  let ?t = "(textFlashCounter v + 1) AND 0xf"
  let ?v = "v\<lparr>cyclesFrameLast := 0, cycles_video_frame := cycles_video_frame v mod CYCLES_FRAME,
          textFlashCounter := ?t\<rparr>"
  consider (flash) "?t = 0" "\<not> flag_on sw SS_80COL" "flag_on sw (SS_TEXT OR SS_MIXED)"
    | (plain) "?t = 0" "flag_on sw SS_80COL \<or> \<not> flag_on sw (SS_TEXT OR SS_MIXED)"
    | (none) "?t \<noteq> 0" by blast
  then show ?thesis
  proof cases
    case flash
    then show ?thesis using assms
      by (intro that [where v' = "vemit (FrameCallbacks ?t) ((vemit FlashText ?v)\<lparr>cyclesDirty := CYCLES_FRAME\<rparr>)"
            and cd = CYCLES_FRAME and es = "[FlashText, FrameCallbacks ?t]"])
        (simp_all add: endOfFrame_def vemit_def setScannerDirty_zero)
  next
    case plain
    then show ?thesis using assms
      by (intro that [where v' = "vemit (FrameCallbacks ?t) (vemit FlashText ?v)"
            and cd = "cyclesDirty v" and es = "[FlashText, FrameCallbacks ?t]"])
        (auto simp add: endOfFrame_def vemit_def)
  next
    case none
    then show ?thesis using assms
      by (intro that [where v' = "vemit (FrameCallbacks ?t) ?v" and cd = "cyclesDirty v"
            and es = "[FrameCallbacks ?t]"])
        (simp_all add: endOfFrame_def vemit_def)
  qed
qed

text \<open>One cycle keeps the invariant and fails no assertion.\<close>

lemma vis_line_end: "vis 65 vc = (if vc < SCANLINES_VBL_BEGIN then CYCLES_VIS else 0)"
  by (simp add: vis_def scan_consts)

lemma vis_0 [simp]: "vis 0 vc = 0"
  by (simp add: vis_def)

lemma scan_line_end_ok:
  assumes "pos_h x = 64" and x: "cyclesFrameLast v = Suc x"
    and "scancol v + scanidx v = vis 65 (pos_v x)" "scancol v = 0 \<or> scancol v < CYCLES_VIS"
    and "shows_row sw m0 m1 (scanline v) (pos_v x) (scancol v) (scancol v + scanidx v)"
    and inv: "cycles_video_frame v = Suc x + m" "n \<le> m" "m < CYCLES_FRAME" "n \<le> cyclesDirty v"
      "if al then aligned v else n < cyclesDirty v"
    and log: "since sw m0 m1 v0 v"
  shows "\<exists>bv. scan_line_end sw (65, pos_v x, mode) v = Some bv \<and> loop_inv sw m0 m1 v0 al n m bv"
proof -
  let ?v1 = "(if pos_v x < SCANLINES_VBL_BEGIN
              then flushScanline sw (pos_v x) (scancol v) (scancol v + scanidx v) v else v)"
  let ?v2 = "?v1\<lparr>scancol := 0, scanidx := 0\<rparr>"
  have ev: "pos_v x < SCANLINES_VBL_BEGIN \<Longrightarrow>
      event_ok sw m0 m1 (FlushScanline (scanline v) sw (pos_v x) (scancol v) (scancol v + scanidx v))"
    using assms(3,4,5) by (auto simp: vis_line_end SCANLINES_VBL_BEGIN_def scan_consts)
  have log1: "since sw m0 m1 v0 ?v2"
    using log ev by (auto simp: since_def flushScanline_def vemit_def)
  have f: "(if pos_v x < SCANLINES_VBL_BEGIN
      then c_assert (scancol v + scanidx v = CYCLES_VIS)
             (flushScanline sw (pos_v x) (scancol v) (scancol v + scanidx v) v)
      else Some v) = Some ?v1"
    using assms(3) by (simp add: vis_line_end)
  have sh: "shows_row sw m0 m1 (scanline ?v2) r 0 0" for r
    using assms(5) by (simp add: shows_row_def flushScanline_def vemit_def)
  have fields: "cyclesFrameLast ?v2 = Suc x" "cycles_video_frame ?v2 = Suc x + m"
    "cyclesDirty ?v2 = cyclesDirty v" "scancol ?v2 = 0" "scanidx ?v2 = 0"
    using x inv by (simp_all add: flushScanline_def vemit_def)
  show ?thesis
  proof (cases "pos_v x = 261")
    case False
    then have p: "pos_h (Suc x) = 0" "pos_v (Suc x) = Suc (pos_v x)" "Suc (pos_v x) \<noteq> SCANLINES_FRAME"
      using assms(1) pos_less(2) [of x] by (simp_all add: pos_h_Suc pos_v_Suc scan_consts)
    have "scan_line_end sw (65, pos_v x, mode) v =
        Some ((0, Suc (pos_v x), currentMode sw (Suc (pos_v x))), ?v2)"
      using p(3) by (simp add: scan_line_end_def f)
    moreover have "loop_inv sw m0 m1 v0 al n m ((0, Suc (pos_v x), currentMode sw (Suc (pos_v x))), ?v2)"
      using p inv log1 fields sh x unfolding loop_inv_def prod.case aligned_def
      by (cases al) simp_all
    ultimately show ?thesis by blast
  next
    case True
    note fr = frame_end [OF assms(1) True]
    obtain v3 cd es' where e: "endOfFrame sw ?v2 = Some v3"
      "v3 = ?v2\<lparr>cyclesFrameLast := 0, cycles_video_frame := cycles_video_frame ?v2 mod CYCLES_FRAME,
           textFlashCounter := textFlashCounter v3, cyclesDirty := cd, vlog := vlog ?v2 @ es'\<rparr>"
      "cd = cyclesDirty ?v2 \<or> cd = CYCLES_FRAME" "\<forall>e \<in> set es'. event_ok sw m0 m1 e"
      using endOfFrame_ok [of ?v2 sw m0 m1] fr fields by metis
    have f3: "cyclesFrameLast v3 = 0" "cycles_video_frame v3 = m" "cyclesDirty v3 = cd"
      "scancol v3 = 0" "scanidx v3 = 0" "scanline v3 = scanline ?v2" "vlog v3 = vlog ?v2 @ es'"
      "cpu65_cycle_count v3 = cpu65_cycle_count ?v2" "reset_scanner v3 = reset_scanner ?v2"
      "cycles_checkpoint_count v3 = cycles_checkpoint_count ?v2"
    proof -
      have "(Suc x + m) mod CYCLES_FRAME = m"
        using fr(1) inv(3) by (metis add.left_neutral mod_add_left_eq mod_less)
      then show "cycles_video_frame v3 = m" using fields by (subst e(2)) simp
    qed (subst e(2), simp)+
    have al: "n \<le> cd \<and> (if al then cd mod CYCLES_SCANLINE = 0 else n < cd)"
    proof (cases "cd = CYCLES_FRAME")
      case True
      with inv show ?thesis by (simp add: CYCLES_FRAME_def)
    next
      case False
      with e(3) fields have "cd = cyclesDirty v" by simp
      moreover have "(Suc x + cyclesDirty v) mod CYCLES_SCANLINE = cyclesDirty v mod CYCLES_SCANLINE"
      proof -
        have "Suc x mod CYCLES_SCANLINE = 0"
          using assms(1) pos_h_Suc [of x] by (simp add: pos_h_def)
        then show ?thesis by (metis add.left_neutral mod_add_left_eq)
      qed
      ultimately show ?thesis using inv x by (cases al) (simp_all add: aligned_def)
    qed
    have vbl: "\<not> 261 < SCANLINES_VBL_BEGIN" by (simp add: scan_consts)
    have "scan_line_end sw (65, pos_v x, mode) v =
        Some ((0, 0, currentMode sw 0), vemit FrameComplete v3)"
      using True vbl fr(1) x e(1) by (simp add: scan_line_end_def SCANLINES_FRAME_def SCANLINES_VIS_def)
    moreover have "loop_inv sw m0 m1 v0 al n m ((0, 0, currentMode sw 0), vemit FrameComplete v3)"
    proof -
      have "pos_h 0 = 0" "pos_v 0 = 0" by (simp_all add: pos_h_def pos_v_def)
      moreover have "since sw m0 m1 v0 (vemit FrameComplete v3)"
        using log1 f3 e(4) fields by (intro since_emit) (auto simp: since_def)
      ultimately show ?thesis using inv f3 al sh
        unfolding loop_inv_def prod.case aligned_def by (simp add: vemit_def)
    qed
    ultimately show ?thesis by blast
  qed
qed

lemma scan_cycle_ok:
  assumes "loop_inv sw m0 m1 v0 al (Suc n) (Suc m) bv" "page = video_currentPage sw"
  shows "\<exists>bv'. scan_cycle sw m0 m1 page bv = Some bv' \<and> loop_inv sw m0 m1 v0 al n m bv'"
proof -
  obtain beam v where bv: "bv = (beam, v)" by (cases bv)
  let ?x = "cyclesFrameLast v"
  note inv = assms(1) [unfolded bv loop_inv_def prod.case]
  have beam: "beam = (pos_h ?x, pos_v ?x, currentMode sw (pos_v ?x))" using inv by simp
  obtain v1 bs where f: "scan_fetch m0 m1 page beam v = Some v1"
    "v1 = v\<lparr>scanline := bs, scanidx := scanidx v1\<rparr>"
    "scancol v + scanidx v1 = vis (Suc (pos_h ?x)) (pos_v ?x)"
    "shows_row sw m0 m1 (scanline v1) (pos_v ?x) (scancol v) (scancol v + scanidx v1)"
    using scan_fetch_ok [of v "pos_h ?x" "pos_v ?x" sw m0 m1 page] inv pos_less(1) [of ?x] assms(2) beam
    by metis
  let ?v2 = "v1\<lparr>cyclesFrameLast := Suc ?x, cyclesDirty := cyclesDirty v - 1\<rparr>"
  have same: "cyclesFrameLast v1 = ?x" "cycles_video_frame v1 = cycles_video_frame v"
    "cyclesDirty v1 = cyclesDirty v" "scancol v1 = scancol v" "vlog v1 = vlog v"
    "cpu65_cycle_count v1 = cpu65_cycle_count v" "reset_scanner v1 = reset_scanner v"
    "cycles_checkpoint_count v1 = cycles_checkpoint_count v"
    by (subst f(2), simp)+
  have d: "n \<le> cyclesDirty ?v2" "if al then aligned ?v2 else n < cyclesDirty ?v2" "0 < cyclesDirty v"
    using inv by (auto simp: aligned_def split: if_splits)
  have l: "since sw m0 m1 v0 ?v2" using inv same by (simp add: since_def)
  have cyc: "scan_cycle sw m0 m1 page bv =
     (if Suc (pos_h ?x) = CYCLES_SCANLINE
      then scan_line_end sw (Suc (pos_h ?x), pos_v ?x, currentMode sw (pos_v ?x)) ?v2
      else Some ((Suc (pos_h ?x), pos_v ?x, currentMode sw (pos_v ?x)), ?v2))"
    using d f(1) same unfolding scan_cycle_def bv prod.case Let_def by (simp add: beam)
  show ?thesis
  proof (cases "pos_h ?x = 64")
    case True
    have "\<exists>bv. scan_line_end sw (65, pos_v ?x, currentMode sw (pos_v ?x)) ?v2 = Some bv \<and>
        loop_inv sw m0 m1 v0 al n m bv"
      by (rule scan_line_end_ok) (use True inv f d same l in auto)
    then show ?thesis using True cyc by (simp add: CYCLES_SCANLINE_def)
  next
    case False
    then have "pos_h (Suc ?x) = Suc (pos_h ?x)" "pos_v (Suc ?x) = pos_v ?x"
      by (simp_all add: pos_h_Suc pos_v_Suc)
    then have "loop_inv sw m0 m1 v0 al n m ((Suc (pos_h ?x), pos_v ?x, currentMode sw (pos_v ?x)), ?v2)"
      using inv f d same l unfolding loop_inv_def prod.case by auto
    then show ?thesis using False cyc pos_less(1) [of ?x] by (auto simp: CYCLES_SCANLINE_def)
  qed
qed

lemma scan_cycles_ok:
  assumes "loop_inv sw m0 m1 v0 al (k + n) (k + m) bv" "page = video_currentPage sw"
  shows "\<exists>bv'. scan_cycles sw m0 m1 page k bv = Some bv' \<and> loop_inv sw m0 m1 v0 al n m bv'"
  using assms(1)
proof (induction k arbitrary: bv)
  case 0
  then show ?case by simp
next
  case (Suc k)
  then have "loop_inv sw m0 m1 v0 al (Suc (k + n)) (Suc (k + m)) bv" by simp
  from scan_cycle_ok [OF this assms(2)] Suc.IH show ?case by fastforce
qed

section \<open>Update and dirty marks\<close>

text \<open>Between calls: the line buffer, and the columns of the current scanline already flushed.\<close>

definition scan_pos_ok :: "video \<Rightarrow> bool" where
  "scan_pos_ok v \<longleftrightarrow> length (scanline v) = 80 \<and> scanidx v = 0 \<and>
     scancol v = (if cyclesDirty v = 0 then 0
                  else vis (pos_h (cyclesFrameLast v)) (pos_v (cyclesFrameLast v)))"

definition lag_ok :: "video \<Rightarrow> bool" where
  "lag_ok v \<longleftrightarrow> cyclesFrameLast v \<le> cycles_video_frame v \<and>
     cycles_video_frame v \<le> cyclesFrameLast v + CYCLES_FRAME"

lemma scan_run_ok:
  assumes pos: "scan_pos_ok v" and lag: "lag_ok v" and d: "0 < cyclesDirty v"
    and al: "if al then aligned v else cycles_video_frame v - cyclesFrameLast v < cyclesDirty v"
  obtains v' where "scan_run sw m0 m1 v = Some v'" "scan_pos_ok v'" "lag_ok v'" "since sw m0 m1 v v'"
    "al \<Longrightarrow> 0 < cyclesDirty v' \<Longrightarrow> aligned v'" "\<not> al \<Longrightarrow> 0 < cyclesDirty v'"
    "cycles_video_frame v - cyclesFrameLast v < cyclesDirty v \<Longrightarrow> cyclesFrameLast v' = cycles_video_frame v'"
proof -
  let ?m = "cycles_video_frame v - cyclesFrameLast v"
  let ?n = "min ?m (cyclesDirty v)"
  have m: "cycles_video_frame v = cyclesFrameLast v + ?m" "?n \<le> ?m"
    using lag by (simp_all add: lag_ok_def)
  have beam: "start_beam sw v = (pos_h (cyclesFrameLast v), pos_v (cyclesFrameLast v),
      currentMode sw (pos_v (cyclesFrameLast v)))"
    by (simp add: start_beam_def pos_h_def pos_v_def Let_def)
  have col: "scancol v = 0 \<or> scancol v < CYCLES_VIS"
    using pos pos_less(1) [of "cyclesFrameLast v"]
    by (auto simp: scan_pos_ok_def vis_def scan_consts split: if_splits)
  have "loop_inv sw m0 m1 v al (?n + 0) (?n + (?m - ?n)) (start_beam sw v, v)"
    using m lag d pos col al shows_row_empty
    unfolding loop_inv_def prod.case by (auto simp: beam scan_pos_ok_def lag_ok_def)
  then obtain bv where run: "scan_cycles sw m0 m1 (video_currentPage sw) ?n (start_beam sw v, v) = Some bv"
    "loop_inv sw m0 m1 v al 0 (?m - ?n) bv"
    using scan_cycles_ok by blast
  obtain h vc mode w where bv: "bv = ((h, vc, mode), w)" by (metis prod_cases3 surj_pair)
  note inv = run(2) [unfolded bv loop_inv_def prod.case]
  have hv: "vc = pos_v (cyclesFrameLast w)" "h = pos_h (cyclesFrameLast w)" using inv by simp_all
  let ?c = "scancol w + scanidx w"
  define w1 where "w1 = (if scanidx w > 0 \<and> vc < SCANLINES_VBL_BEGIN
    then (flushScanline sw vc (scancol w) ?c w)\<lparr>scancol := ?c, scanidx := 0\<rparr> else w)"
  have lt: "?c < CYCLES_VIS" if "vc < SCANLINES_VBL_BEGIN"
    using inv hv that pos_less(1) [of "cyclesFrameLast w"] by (simp add: vis_def scan_consts)
  have f1: "scan_flush_partial sw vc w = Some w1"
    using lt by (auto simp: scan_flush_partial_def w1_def Let_def)
  have w1: "scancol w1 = ?c" "scanidx w1 = 0" "cyclesFrameLast w1 = cyclesFrameLast w"
    "cyclesDirty w1 = cyclesDirty w" "cycles_video_frame w1 = cycles_video_frame w" "scanline w1 = scanline w"
    using inv hv by (auto simp: w1_def flushScanline_def vemit_def vis_def)
  have e1: "since sw m0 m1 v w1"
    using inv lt hv unfolding w1_def
    by (auto simp: since_def flushScanline_def vemit_def SCANLINES_VBL_BEGIN_def)
  have len: "length (scanline w) = 80" using inv by (simp add: shows_row_def)
  have c0: "?c = 0" if "cyclesDirty w = 0"
  proof -
    from inv that have "al" "aligned w" by (simp_all split: if_splits)
    then have "pos_h (cyclesFrameLast w) = 0" using that by (simp add: aligned_def pos_h_def)
    with inv show ?thesis by simp
  qed
  define v' where "v' = (if cyclesDirty w = 0 then vemit FrameComplete
      (video_clearDirty A2_DIRTY_FLAG (w1\<lparr>cyclesFrameLast := cycles_video_frame w1\<rparr>)) else w1)"
  have f2: "scan_finish w1 = Some v'"
    using c0 w1 by (simp add: scan_finish_def v'_def)
  have "scan_run sw m0 m1 v = Some v'"
    using lag run(1) f1 f2 by (simp add: scan_run_def lag_ok_def bv Let_def)
  moreover have "scan_pos_ok v'"
    using c0 w1 inv len by (auto simp: scan_pos_ok_def v'_def vemit_def video_clearDirty_def)
  moreover have "lag_ok v'"
    using inv w1 by (auto simp: lag_ok_def v'_def vemit_def video_clearDirty_def)
  moreover have "since sw m0 m1 v v'"
    using e1 by (auto simp: since_def v'_def vemit_def video_clearDirty_def)
  moreover have "aligned v'" if "al" "0 < cyclesDirty v'"
    using that inv w1
    by (auto simp: aligned_def v'_def vemit_def video_clearDirty_def split: if_splits)
  moreover have "0 < cyclesDirty v'" if "\<not> al"
    using that inv w1 by (auto simp: v'_def split: if_splits)
  moreover have "cyclesFrameLast v' = cycles_video_frame v'" if "?m < cyclesDirty v"
    using that inv w1 by (auto simp: v'_def vemit_def video_clearDirty_def)
  ultimately show ?thesis by (rule that)
qed

lemma scan_idle_ok:
  assumes "scan_pos_ok v" "cyclesDirty v = 0"
  obtains v' where "scan_idle sw v = Some v'" "scan_pos_ok v'" "lag_ok v'" "since sw m0 m1 v v'"
    "0 < cyclesDirty v' \<Longrightarrow> aligned v'" "cycles_video_frame v' < CYCLES_FRAME"
proof (cases "cycles_video_frame v < CYCLES_FRAME")
  case True
  show ?thesis
    by (rule that [of "v\<lparr>cyclesFrameLast := cycles_video_frame v\<rparr>"])
      (use True assms in \<open>auto simp: scan_idle_def scan_pos_ok_def lag_ok_def since_def\<close>)
next
  case False
  let ?t = "(textFlashCounter v + 1) AND 0xf"
  let ?r = "cycles_video_frame v mod CYCLES_FRAME"
  let ?v = "v\<lparr>cyclesFrameLast := ?r, cycles_video_frame := ?r, textFlashCounter := ?t\<rparr>"
  have r: "?r < CYCLES_FRAME" by (simp add: scan_consts)
  have z: "pos_h 0 = 0" "CYCLES_FRAME mod CYCLES_SCANLINE = 0" "0 < CYCLES_FRAME"
    by (simp_all add: pos_h_def CYCLES_FRAME_def scan_consts)
  note defs = scan_idle_def endOfFrame_def vemit_def setScannerDirty_zero
    scan_pos_ok_def lag_ok_def since_def aligned_def
  consider (flash) "?t = 0" "\<not> flag_on sw SS_80COL" "flag_on sw (SS_TEXT OR SS_MIXED)"
    | (plain) "?t = 0" "flag_on sw SS_80COL \<or> \<not> flag_on sw (SS_TEXT OR SS_MIXED)"
    | (none) "?t \<noteq> 0" by blast
  then show ?thesis
  proof cases
    case flash
    show ?thesis
      by (rule that [of "vemit (FrameCallbacks ?t)
            ((vemit FlashText ?v)\<lparr>cyclesFrameLast := 0, cyclesDirty := CYCLES_FRAME\<rparr>)"])
        (use False flash assms r z in \<open>simp_all add: defs\<close>)
  next
    case plain
    show ?thesis
      by (rule that [of "vemit (FrameCallbacks ?t) (vemit FlashText ?v)"])
        (use False plain assms r in \<open>auto simp: defs\<close>)
  next
    case none
    show ?thesis
      by (rule that [of "vemit (FrameCallbacks ?t) ?v"])
        (use False none assms r in \<open>simp_all add: defs\<close>)
  qed
qed

text \<open>
  The state the emulator keeps between two calls: the CPU is ahead of the checkpoint by less
  than a frame of cycles, and the scanner is ready to resume.
\<close>

definition pending :: "video \<Rightarrow> int" where
  "pending v = cpu65_cycle_count v - cycles_checkpoint_count v"

definition video_inv :: "video \<Rightarrow> bool" where
  "video_inv v \<longleftrightarrow> scan_pos_ok (apply_reset v) \<and> 0 \<le> pending v \<and>
     (0 < cyclesDirty v \<longrightarrow> aligned v \<and> cyclesFrameLast v \<le> cycles_video_frame v)"

definition in_time :: "video \<Rightarrow> bool" where
  "in_time v \<longleftrightarrow> int (cycles_video_frame v) + pending v < 2 ^ 32 \<and>
     (0 < cyclesDirty v \<longrightarrow>
        int (cycles_video_frame v) + pending v \<le> int (cyclesFrameLast v) + int CYCLES_FRAME)"

lemma checkpoint_ok:
  assumes "0 \<le> pending v" "int (cycles_video_frame v) + pending v < 2 ^ 32"
  obtains v' t where "timing_checkpointCycles v = Some v'"
    "v' = v\<lparr>cycles_video_frame := cycles_video_frame v + nat (pending v),
            cycles_count_total := t, cycles_checkpoint_count := cpu65_cycle_count v\<rparr>"
proof -
  have "int (cycles_video_frame v + nat (pending v)) < int (2 ^ 32)" using assms by simp
  then have "cycles_video_frame v + nat (pending v) < 2 ^ 32" by (simp only: of_nat_less_iff)
  then have "(cycles_video_frame v + nat (pending v)) mod 2 ^ 32 = cycles_video_frame v + nat (pending v)"
    by (rule mod_less)
  with assms show ?thesis
    by (intro that [where t = "(cycles_count_total v + nat (pending v)) mod 2 ^ 64"])
      (simp_all add: timing_checkpointCycles_def pending_def Let_def)
qed

lemma apply_reset_simps [simp]:
  "cyclesFrameLast (apply_reset v) = cyclesFrameLast v"
  "cyclesDirty (apply_reset v) = cyclesDirty v"
  "cycles_video_frame (apply_reset v) = cycles_video_frame v"
  "cpu65_cycle_count (apply_reset v) = cpu65_cycle_count v"
  "cycles_checkpoint_count (apply_reset v) = cycles_checkpoint_count v"
  "vlog (apply_reset v) = vlog v" "\<not> reset_scanner (apply_reset v)" "pending (apply_reset v) = pending v"
  by (simp_all add: apply_reset_def pending_def)

lemma apply_reset_id: "\<not> reset_scanner v \<Longrightarrow> apply_reset v = v"
  by (simp add: apply_reset_def)

lemma checkpoint_fields:
  assumes "v' = v\<lparr>cycles_video_frame := c, cycles_count_total := t, cycles_checkpoint_count := cpu65_cycle_count v\<rparr>"
  shows "cycles_video_frame v' = c" "cyclesFrameLast v' = cyclesFrameLast v" "cyclesDirty v' = cyclesDirty v"
    "scan_pos_ok v' = scan_pos_ok v" "aligned v' = aligned v" "pending v' = 0" "vlog v' = vlog v"
    "reset_scanner v' = reset_scanner v" "apply_reset v' = (apply_reset v)
      \<lparr>cycles_video_frame := c, cycles_count_total := t, cycles_checkpoint_count := cpu65_cycle_count v\<rparr>"
  by (simp_all add: assms scan_pos_ok_def aligned_def pending_def apply_reset_def)

lemma scannerUpdate_ok:
  assumes "video_inv v" "in_time v"
  obtains v' new where "video_scannerUpdate sw m0 m1 v = Some v'" "video_inv v'" "pending v' = 0" "lag_ok v'"
    "in_time v'" "vlog v' = vlog v @ new" "\<forall>e \<in> set new. event_ok sw m0 m1 e"
proof -
  have p: "0 \<le> pending (apply_reset v)"
    "int (cycles_video_frame (apply_reset v)) + pending (apply_reset v) < 2 ^ 32"
    using assms by (simp_all add: video_inv_def in_time_def)
  obtain u t where cp: "timing_checkpointCycles (apply_reset v) = Some u"
    "u = (apply_reset v)\<lparr>cycles_video_frame := cycles_video_frame (apply_reset v) + nat (pending (apply_reset v)),
        cycles_count_total := t,
        cycles_checkpoint_count := cpu65_cycle_count (apply_reset v)\<rparr>"
    by (rule checkpoint_ok [OF p])
  note u = checkpoint_fields [OF cp(2)]
  have pos: "scan_pos_ok u" using assms(1) u by (simp add: video_inv_def)
  have nr: "\<not> reset_scanner u" using u by simp
  show ?thesis
  proof (cases "cyclesDirty v = 0")
    case True
    then have d: "cyclesDirty u = 0" using u by simp
    obtain v' where v': "scan_idle sw u = Some v'" "scan_pos_ok v'" "lag_ok v'" "since sw m0 m1 u v'"
      "0 < cyclesDirty v' \<Longrightarrow> aligned v'"
      using scan_idle_ok [OF pos d] by metis
    have "video_scannerUpdate sw m0 m1 v = Some v'"
      using d cp(1) v'(1) by (simp add: video_scannerUpdate_def)
    moreover have "pending v' = 0" "\<not> reset_scanner v'"
      using v'(4) u nr by (simp_all add: since_def pending_def)
    moreover from this have "video_inv v'"
      using v' by (simp add: video_inv_def apply_reset_id lag_ok_def)
    moreover have "in_time v'"
      using v'(3,4) u p calculation(2) by (auto simp: in_time_def since_def lag_ok_def)
    moreover obtain new where "vlog v' = vlog v @ new" "\<forall>e \<in> set new. event_ok sw m0 m1 e"
      using v'(4) u by (auto simp: since_def)
    ultimately show ?thesis using v'(3) that by blast
  next
    case False
    then have d: "0 < cyclesDirty u" using u by simp
    have lag: "lag_ok u" and al: "aligned u"
      using assms d u False by (auto simp: video_inv_def in_time_def lag_ok_def aligned_def)
    obtain v' where v': "scan_run sw m0 m1 u = Some v'" "scan_pos_ok v'" "lag_ok v'" "since sw m0 m1 u v'"
      "0 < cyclesDirty v' \<Longrightarrow> aligned v'"
      using scan_run_ok [OF pos lag d, of True] al by (metis (full_types))
    have "video_scannerUpdate sw m0 m1 v = Some v'"
      using d cp(1) v'(1) by (simp add: video_scannerUpdate_def)
    moreover have "pending v' = 0" "\<not> reset_scanner v'"
      using v'(4) u nr by (simp_all add: since_def pending_def)
    moreover from this have "video_inv v'"
      using v' by (simp add: video_inv_def apply_reset_id lag_ok_def)
    moreover have "in_time v'"
      using v'(3,4) u p calculation(2) by (auto simp: in_time_def since_def lag_ok_def)
    moreover obtain new where "vlog v' = vlog v @ new" "\<forall>e \<in> set new. event_ok sw m0 m1 e"
      using v'(4) u by (auto simp: since_def)
    ultimately show ?thesis using v'(3) that by blast
  qed
qed

lemma setDirty_ok:
  assumes "video_inv v" "in_time v"
  obtains v' new where "video_setDirty A2_DIRTY_FLAG sw m0 m1 v = Some v'" "video_inv v'" "pending v' = 0"
    "in_time v'" "cyclesFrameLast v' = cycles_video_frame v'"
    "CYCLES_FRAME \<le> cyclesDirty v'" "cyclesDirty v' < CYCLES_FRAME + 8 * CYCLES_SCANLINE"
    "vlog v' = vlog v @ new" "\<forall>e \<in> set new. event_ok sw m0 m1 e"
proof -
  let ?v = "v\<lparr>dirty := dirty v OR A2_DIRTY_FLAG\<rparr>"
  have p: "0 \<le> pending ?v" "int (cycles_video_frame ?v) + pending ?v < 2 ^ 32"
    using assms by (simp_all add: video_inv_def in_time_def pending_def)
  obtain u t where cp: "timing_checkpointCycles ?v = Some u"
    "u = ?v\<lparr>cycles_video_frame := cycles_video_frame ?v + nat (pending ?v), cycles_count_total := t,
        cycles_checkpoint_count := cpu65_cycle_count ?v\<rparr>"
    by (rule checkpoint_ok [OF p])
  note u = checkpoint_fields [OF cp(2)]
  define w where "w = (if cyclesDirty u = 0
    then u\<lparr>cyclesFrameLast := cycles_video_frame u - cycles_video_frame u mod CYCLES_SCANLINE\<rparr> else u)
      \<lparr>cyclesDirty := 2 ^ 32 - 1\<rparr>"
  have wf: "cycles_video_frame w = cycles_video_frame u" "cyclesDirty w = 2 ^ 32 - 1" "pending w = 0"
    "vlog w = vlog v" "reset_scanner w = reset_scanner v"
    using u by (simp_all add: w_def pending_def)
  have pos0: "scan_pos_ok (apply_reset ?v) = scan_pos_ok (apply_reset v)"
    by (simp add: scan_pos_ok_def apply_reset_def)
  have posu: "scan_pos_ok (apply_reset u)"
    using assms(1) pos0 u by (simp add: video_inv_def scan_pos_ok_def)
  have h0: "pos_h (cycles_video_frame u - cycles_video_frame u mod CYCLES_SCANLINE) = 0"
    by (simp add: pos_h_def minus_mod_eq_mult_div)
  have pos: "scan_pos_ok (apply_reset w)"
    using posu h0 by (auto simp: w_def scan_pos_ok_def apply_reset_def)
  have lag: "lag_ok w"
    using assms u by (auto simp: w_def lag_ok_def video_inv_def in_time_def pending_def scan_consts
      intro: order_trans [OF less_imp_le [OF mod_less_divisor]])
  obtain w1 t1 where cp1: "timing_checkpointCycles (apply_reset w) = Some w1"
    "w1 = (apply_reset w)\<lparr>cycles_video_frame := cycles_video_frame (apply_reset w) + nat (pending (apply_reset w)),
        cycles_count_total := t1, cycles_checkpoint_count := cpu65_cycle_count (apply_reset w)\<rparr>"
  proof (rule checkpoint_ok [of "apply_reset w"])
    have "int (cycles_video_frame u) < 2 ^ 32"
      using assms u p by (simp add: pending_def)
    then show "int (cycles_video_frame (apply_reset w)) + pending (apply_reset w) < 2 ^ 32"
      using wf by simp
  qed (use wf in simp_all)
  note w1 = checkpoint_fields [OF cp1(2)]
  have pos1: "scan_pos_ok w1" and lag1: "lag_ok w1" and d1: "0 < cyclesDirty w1"
    using pos lag wf w1 by (simp_all add: lag_ok_def)
  have m1: "cycles_video_frame w1 - cyclesFrameLast w1 < cyclesDirty w1"
    using lag1 w1(3) wf(2) unfolding lag_ok_def scan_consts by (simp, linarith)
  obtain x where x: "scan_run sw m0 m1 w1 = Some x" "scan_pos_ok x" "lag_ok x" "since sw m0 m1 w1 x"
    "0 < cyclesDirty x" "cyclesFrameLast x = cycles_video_frame x"
  proof (rule scan_run_ok [OF pos1 lag1 d1, of False sw m0 m1])
    show "if False then aligned w1 else cycles_video_frame w1 - cyclesFrameLast w1 < cyclesDirty w1"
      using m1 by simp
  qed (use m1 that in blast)
  obtain y where y: "setScannerDirty x = Some (x\<lparr>cyclesDirty := CYCLES_FRAME + y\<rparr>)"
    "(cyclesFrameLast x + (CYCLES_FRAME + y)) mod CYCLES_SCANLINE = 0" "y < 8 * CYCLES_SCANLINE"
    using setScannerDirty_ok [of x] by (elim exE conjE) (rule that)
  let ?x = "x\<lparr>cyclesDirty := CYCLES_FRAME + y\<rparr>"
  have upd: "video_scannerUpdate sw m0 m1 w = Some x"
    using cp1(1) x(1) d1 by (simp add: video_scannerUpdate_def)
  have "video_setDirty A2_DIRTY_FLAG sw m0 m1 v = Some ?x"
    using cp(1) upd x(6) y(1)
    by (cases "cyclesDirty u = 0") (simp_all add: video_setDirty_def A2_DIRTY_FLAG_def w_def Let_def)
  moreover have "\<not> reset_scanner x" "pending x = 0"
    using x(4) w1 by (simp_all add: since_def pending_def)
  moreover have "video_inv ?x"
  proof -
    from x y \<open>\<not> reset_scanner x\<close> \<open>pending x = 0\<close> show ?thesis
      by (simp add: video_inv_def scan_pos_ok_def apply_reset_def aligned_def pending_def scan_consts)
  qed
  moreover have "in_time ?x"
    using x(4,6) p u wf w1 calculation(3) by (auto simp: in_time_def since_def pending_def)
  moreover obtain new where "vlog x = vlog v @ new" "\<forall>e \<in> set new. event_ok sw m0 m1 e"
    using x(4) wf w1 by (auto simp: since_def)
  ultimately show ?thesis
    using x y by (intro that [of ?x new]) (simp_all add: pending_def)
qed

lemma checkpoint_ready:
  assumes "video_inv v" "in_time v"
  obtains v' where "timing_checkpointCycles v = Some v'" "video_inv v'" "in_time v'" "pending v' = 0"
    "vlog v' = vlog v"
proof -
  have p: "0 \<le> pending v" "int (cycles_video_frame v) + pending v < 2 ^ 32"
    using assms by (simp_all add: video_inv_def in_time_def)
  obtain v' t where cp: "timing_checkpointCycles v = Some v'"
    "v' = v\<lparr>cycles_video_frame := cycles_video_frame v + nat (pending v), cycles_count_total := t,
            cycles_checkpoint_count := cpu65_cycle_count v\<rparr>"
    by (rule checkpoint_ok [OF p])
  note v' = checkpoint_fields [OF cp(2)]
  have "scan_pos_ok (apply_reset v') = scan_pos_ok (apply_reset v)"
    by (simp add: v'(9)) (simp add: scan_pos_ok_def)
  then show ?thesis
    using cp(1) v' assms p
    by (intro that [of v']) (auto simp: video_inv_def in_time_def pending_def)
qed

section \<open>The floating bus stays in video memory\<close>

lemma scannerAddress_ok:
  assumes "video_inv v" "in_time v"
  obtains b a v' where "video_scannerAddress sw v = Some (b, a, v')" "a < 0x6000"
    "video_inv v'" "in_time v'" "pending v' = 0" "vlog v' = vlog v"
    "b \<longleftrightarrow> SCANLINES_VBL_BEGIN \<le> (cycles_video_frame v' div CYCLES_SCANLINE) mod SCANLINES_FRAME"
proof -
  obtain v' where cp: "timing_checkpointCycles v = Some v'" "video_inv v'" "in_time v'" "pending v' = 0"
    "vlog v' = vlog v"
    by (rule checkpoint_ready [OF assms])
  let ?h = "cycles_video_frame v' mod CYCLES_SCANLINE"
  let ?v = "(cycles_video_frame v' div CYCLES_SCANLINE) mod SCANLINES_FRAME"
  have "\<exists>h vc mode. h < CYCLES_SCANLINE \<and> vc < SCANLINES_FRAME \<and>
      video_scannerAddress sw v = Some (?v \<ge> SCANLINES_VBL_BEGIN,
        getScannerAddress mode (video_currentPage sw) vc h, v')"
  proof (cases "int ?h - 2 < 0")
    case True
    let ?vc = "if int ?v - 1 < 0 then SCANLINES_FRAME - 1 else ?v - 1"
    show ?thesis
      by (rule exI [of _ "?h + CYCLES_SCANLINE - 2"], rule exI [of _ ?vc], rule exI
            [of _ "if ?vc < SCANLINES_VIS then video_currentMainMode sw else video_currentMixedMode sw"])
        (use True cp(1) in \<open>simp add: video_scannerAddress_def Let_def scan_consts less_imp_diff_less\<close>)
  next
    case False
    have "?h < 65" "?v < 262" by (simp_all add: scan_consts)
    then show ?thesis
      by (intro exI [of _ "?h - 2"] exI [of _ ?v] exI
            [of _ "if ?v < SCANLINES_VIS then video_currentMainMode sw else video_currentMixedMode sw"])
        (use False cp(1) in \<open>simp add: video_scannerAddress_def Let_def scan_consts\<close>)
  qed
  then show ?thesis
    using that cp getScannerAddress_bound [OF video_currentPage_le] by metis
qed

lemma floating_bus_ok:
  assumes "video_inv v" "in_time v"
  obtains a v' where "video_floating_bus sw m0 v = Some (m0 a, v')" "a < 0x6000"
    "video_inv v'" "in_time v'" "pending v' = 0" "vlog v' = vlog v"
proof -
  obtain b a v' where "video_scannerAddress sw v = Some (b, a, v')" "a < 0x6000"
    "video_inv v'" "in_time v'" "pending v' = 0" "vlog v' = vlog v"
    by (rule scannerAddress_ok [OF assms])
  then show ?thesis by (intro that [of a v']) (auto simp: video_floating_bus_def)
qed

section \<open>Guarantees\<close>


definition video_start :: video where
  "video_start = \<lparr>cpu65_cycle_count = 1000, cycles_checkpoint_count = 0, cycles_count_total = 0,
     cycles_video_frame = 0, cyclesFrameLast = 0, cyclesDirty = CYCLES_FRAME, dirty = 0,
     reset_scanner = False, textFlashCounter = 0, scanline = replicate 80 0, scancol = 0, scanidx = 0, vlog = []\<rparr>"

lemma video_start_ok: "video_inv video_start" "in_time video_start"
  by (simp_all add: video_inv_def in_time_def video_start_def apply_reset_def scan_pos_ok_def pending_def
      aligned_def scan_consts vis_def pos_h_def pos_v_def)


text \<open>C28: marking the display dirty first brings the scanner exactly up to the CPU, showing memory
  as it was before the change, and then schedules at least one full frame, ending on a scanline
  boundary; none of its assertions fails.\<close>

theorem set_dirty_catches_up:
  assumes "video_inv v" and "in_time v"
  shows "\<exists>v' new. video_setDirty A2_DIRTY_FLAG sw m0 m1 v = Some v' \<and> video_inv v' \<and> in_time v' \<and>
    cyclesFrameLast v' = cycles_video_frame v' \<and>
    CYCLES_FRAME \<le> cyclesDirty v' \<and> cyclesDirty v' < CYCLES_FRAME + 8 * CYCLES_SCANLINE \<and>
    vlog v' = vlog v @ new \<and> (\<forall>e \<in> set new. event_ok sw m0 m1 e)"
  by (rule setDirty_ok [OF assms]) blast

theorem set_dirty_catches_up_witness:
  "\<exists>v' new. video_setDirty A2_DIRTY_FLAG SS_HIRES (\<lambda>_. 0) (\<lambda>_. 1) video_start = Some v' \<and> video_inv v' \<and>
    in_time v' \<and> cyclesFrameLast v' = cycles_video_frame v' \<and>
    CYCLES_FRAME \<le> cyclesDirty v' \<and> cyclesDirty v' < CYCLES_FRAME + 8 * CYCLES_SCANLINE \<and>
    vlog v' = vlog video_start @ new \<and> (\<forall>e \<in> set new. event_ok SS_HIRES (\<lambda>_. 0) (\<lambda>_. 1) e)"
  by (rule set_dirty_catches_up [OF video_start_ok])

end
