(* ===== verification/A2_Nibble.thy ===== *)
theory A2_Nibble
  imports A2_Prelude "HOL-Library.Monad_Syntax"
begin

text \<open>
  Group code recording of 5.25 inch disks (\<^verbatim>\<open>disk.c\<close>): the 6-and-2 encoding of
  sectors, the layout of a nibblized track, and the search that takes a track apart again.
  The main results are that a sector survives the encoding, and that a whole track does,
  for every sector interleave that is a permutation.
\<close>

section \<open>Tables\<close>

definition translate_table_6 :: "byte list" where
  "translate_table_6 =
  [0x96, 0x97, 0x9a, 0x9b, 0x9d, 0x9e, 0x9f, 0xa6,
   0xa7, 0xab, 0xac, 0xad, 0xae, 0xaf, 0xb2, 0xb3,
   0xb4, 0xb5, 0xb6, 0xb7, 0xb9, 0xba, 0xbb, 0xbc,
   0xbd, 0xbe, 0xbf, 0xcb, 0xcd, 0xce, 0xcf, 0xd3,
   0xd6, 0xd7, 0xd9, 0xda, 0xdb, 0xdc, 0xdd, 0xde,
   0xdf, 0xe5, 0xe6, 0xe7, 0xe9, 0xea, 0xeb, 0xec,
   0xed, 0xee, 0xef, 0xf2, 0xf3, 0xf4, 0xf5, 0xf6,
   0xf7, 0xf9, 0xfa, 0xfb, 0xfc, 0xfd, 0xfe, 0xff]"

text \<open>C initialises the first entry with \<open>0x01\<close> and the others with 0.\<close>

definition rev_table_start :: "byte list" where
  "rev_table_start = 0x01 # replicate 0x7F 0"

definition init_rev_table :: "byte list \<Rightarrow> byte list" where
  "init_rev_table t = fold (\<lambda>i t. t[unat (translate_table_6 ! i - 0x80) := push_bit 2 (of_nat i)]) [0..<0x40] t"

definition rev_translate_table_6 :: "byte list" where
  "rev_translate_table_6 = init_rev_table rev_table_start"

definition skew_table_6_po :: "nat list" where
  "skew_table_6_po = [0x00, 0x08, 0x01, 0x09, 0x02, 0x0A, 0x03, 0x0B, 0x04, 0x0C, 0x05, 0x0D, 0x06, 0x0E, 0x07, 0x0F]"

definition skew_table_6_do :: "nat list" where
  "skew_table_6_do = [0x00, 0x07, 0x0E, 0x06, 0x0D, 0x05, 0x0C, 0x04, 0x0B, 0x03, 0x0A, 0x02, 0x09, 0x01, 0x08, 0x0F]"

definition SIXBIT_MASK :: byte where "SIXBIT_MASK = 0x3F"
definition SIXBIT_EXTRA_BYTES :: nat where "SIXBIT_EXTRA_BYTES = 0x56"
definition SIXBIT_EXTRA_WRAP :: nat where "SIXBIT_EXTRA_WRAP = 0x53"
definition SIXBIT_OFF_BEGIN :: byte where "SIXBIT_OFF_BEGIN = 0xAC"
definition NUM_SIXBIT_NIBS :: nat where "NUM_SIXBIT_NIBS = 0x100 + SIXBIT_EXTRA_BYTES"

lemmas sixbit_consts = SIXBIT_EXTRA_BYTES_def SIXBIT_EXTRA_WRAP_def SIXBIT_OFF_BEGIN_def
  NUM_SIXBIT_NIBS_def

section \<open>Sectors\<close>

text \<open>
  Three sectors' worth of low bit pairs per byte, swapped; \<open>offset\<close> is an 8 bit counter that
  walks down by 86, 86 and 83, that is up by one.
\<close>

definition low_pair :: "byte \<Rightarrow> byte" where
  "low_pair b = (push_bit 1 (b AND 0x01) OR drop_bit 1 (b AND 0x02))"

definition low_value :: "byte list \<Rightarrow> byte \<Rightarrow> byte" where
  "low_value src offset =
    (let value = low_pair (src ! unat offset);
         offset = offset - of_nat SIXBIT_EXTRA_BYTES;
         value = (push_bit 2 value OR low_pair (src ! unat offset));
         offset = offset - of_nat SIXBIT_EXTRA_BYTES;
         value = (push_bit 2 value OR low_pair (src ! unat offset))
     in push_bit 2 value)"

definition next_offset :: "byte \<Rightarrow> byte" where
  "next_offset offset = offset - of_nat SIXBIT_EXTRA_BYTES - of_nat SIXBIT_EXTRA_BYTES - of_nat SIXBIT_EXTRA_WRAP"

lemma next_offset_eq: "next_offset offset = offset + 1"
proof -
  have "(0 :: byte) - 0x56 - 0x56 - 0x53 = 1" by simp
  then show ?thesis by (simp add: next_offset_def sixbit_consts algebra_simps)
qed

lemma offset_measure:
  fixes offset :: byte
  assumes "offset \<noteq> 2"
  shows "unat (2 - next_offset offset) < unat (2 - offset)"
proof -
  have ne: "2 - offset \<noteq> 0" using assms by simp
  have eq: "2 - next_offset offset = 2 - offset - 1" by (simp add: next_offset_eq)
  from ne have "unat (2 - offset) \<noteq> 0" by (simp only: unat_eq_0 not_False_eq_True)
  then show ?thesis unfolding eq unat_minus_one [OF ne] by linarith
qed

function low_loop :: "byte list \<Rightarrow> byte \<Rightarrow> byte list \<Rightarrow> byte list" where
  "low_loop src offset work_buf =
    (if offset = 0x02 then work_buf
     else low_loop src (next_offset offset) (work_buf @ [low_value src offset]))"
  by pat_completeness auto
termination
  by (relation "measure (\<lambda>(_, offset, _). unat (2 - offset))") (auto intro: offset_measure)

declare low_loop.simps [simp del]

fun xor_chain :: "byte \<Rightarrow> byte list \<Rightarrow> byte list" where
  "xor_chain savedval [] = [savedval]"
| "xor_chain savedval (w # ws) = (savedval XOR w) # xor_chain w ws"

definition six_bytes :: "byte list \<Rightarrow> byte list option" where
  "six_bytes src = do {
     let work_buf = low_loop src SIXBIT_OFF_BEGIN [];
     let counter = length work_buf;
     work_buf \<leftarrow> c_assert (counter = SIXBIT_EXTRA_BYTES) work_buf;
     let work_buf = work_buf[counter - 2 := work_buf ! (counter - 2) AND SIXBIT_MASK];
     let work_buf = work_buf[counter - 1 := work_buf ! (counter - 1) AND SIXBIT_MASK];
     Some (work_buf @ take 0x100 src) }"

definition nibblize_sector :: "byte list \<Rightarrow> byte list option" where
  "nibblize_sector src = do {
     work_buf \<leftarrow> six_bytes src;
     Some (map (\<lambda>w. translate_table_6 ! unat (drop_bit 2 w)) (xor_chain 0 work_buf)) }"

fun unxor :: "byte \<Rightarrow> byte list \<Rightarrow> byte list" where
  "unxor savedval [] = []"
| "unxor savedval (w # ws) = (savedval XOR w) # unxor (savedval XOR w) ws"

text \<open>One turn of the loop that puts three bytes together again.\<close>

type_synonym denib = "byte \<times> byte list \<times> nat"

definition denib_body :: "byte list \<Rightarrow> nat \<Rightarrow> denib \<Rightarrow> denib" where
  "denib_body work_buf i = (\<lambda>(offset, out, counter).
    (let low = work_buf ! i;
         base = (\<lambda>off :: byte. work_buf ! (SIXBIT_EXTRA_BYTES + unat off) AND 0xFC);
         (out, counter) =
           (if offset \<ge> SIXBIT_OFF_BEGIN
            then (out[unat offset := base offset OR drop_bit 7 (low AND 0x80) OR drop_bit 5 (low AND 0x40)],
                  counter + 1)
            else (out, counter));
         offset = offset - of_nat SIXBIT_EXTRA_BYTES;
         out = out[unat offset := base offset OR drop_bit 5 (low AND 0x20) OR drop_bit 3 (low AND 0x10)];
         counter = counter + 1;
         offset = offset - of_nat SIXBIT_EXTRA_BYTES;
         out = out[unat offset := base offset OR drop_bit 3 (low AND 0x08) OR drop_bit 1 (low AND 0x04)];
         counter = counter + 1
     in (offset - of_nat SIXBIT_EXTRA_WRAP, out, counter)))"

definition denibblize_sector :: "byte list \<Rightarrow> byte list \<Rightarrow> byte list option" where
  "denibblize_sector src out = do {
     let work_buf = map (\<lambda>b. rev_translate_table_6 ! unat (b AND 0x7F)) (take (NUM_SIXBIT_NIBS + 1) src);
     work_buf \<leftarrow> c_assert (\<forall>w \<in> set work_buf. w \<noteq> 0x1) work_buf;
     let work_buf = unxor 0 (take NUM_SIXBIT_NIBS work_buf) @ drop NUM_SIXBIT_NIBS work_buf;
     let (offset, out, counter) = fold (denib_body work_buf) [0..<SIXBIT_EXTRA_BYTES] (SIXBIT_OFF_BEGIN, out, 0);
     c_assert (counter = 0x100 \<and> offset = 2) out }"

section \<open>Tracks\<close>

definition NUM_SECTORS :: nat where "NUM_SECTORS = 16"
definition DSK_TRACK_SIZE :: nat where "DSK_TRACK_SIZE = 0x1000"
definition NIB_TRACK_SIZE :: nat where "NIB_TRACK_SIZE = 0x1A00"
definition NI2_TRACK_SIZE :: nat where "NI2_TRACK_SIZE = 0x18F0"
definition DSK_VOLUME :: byte where "DSK_VOLUME = 254"

definition CODE44A :: "byte \<Rightarrow> byte" where "CODE44A a = (drop_bit 1 a AND 0x55) OR 0xAA"
definition CODE44B :: "byte \<Rightarrow> byte" where "CODE44B b = (b AND 0x55) OR 0xAA"

definition code44 :: "byte \<Rightarrow> byte list" where
  "code44 b = [CODE44A b, CODE44B b]"

text \<open>\<open>CONFORMANT_TRACKS\<close> is a build option.\<close>

definition lead_gap :: "bool \<Rightarrow> byte list" where
  "lead_gap conformant = replicate (if conformant then 48 else 8) 0xFF"

definition sector_gap :: "bool \<Rightarrow> byte list" where
  "sector_gap conformant = replicate (if conformant then 27 else 8) 0xFF"

definition address_field :: "byte \<Rightarrow> byte \<Rightarrow> byte list" where
  "address_field track sector =
    [0xD5, 0xAA, 0x96] @ code44 DSK_VOLUME @ code44 track @ code44 sector @
    code44 (DSK_VOLUME XOR track XOR sector) @ [0xDE, 0xAA, 0xEB] @ replicate 6 0xFF"

definition sector_field :: "bool \<Rightarrow> byte \<Rightarrow> nat list \<Rightarrow> byte list \<Rightarrow> nat \<Rightarrow> byte list option" where
  "sector_field conformant track skew_table buf sector = do {
     let sec_off = 256 * skew_table ! sector;
     data \<leftarrow> nibblize_sector (take 256 (drop sec_off buf));
     Some (address_field track (of_nat sector) @ [0xD5, 0xAA, 0xAD] @ data @ [0xDE, 0xAA, 0xEB] @
           sector_gap conformant) }"

fun sector_fields :: "bool \<Rightarrow> byte \<Rightarrow> nat list \<Rightarrow> byte list \<Rightarrow> nat list \<Rightarrow> byte list option" where
  "sector_fields conformant track skew_table buf [] = Some []"
| "sector_fields conformant track skew_table buf (s # ss) = do {
     f \<leftarrow> sector_field conformant track skew_table buf s;
     fs \<leftarrow> sector_fields conformant track skew_table buf ss;
     Some (f @ fs) }"

definition nibblize_track :: "bool \<Rightarrow> byte \<Rightarrow> nat list \<Rightarrow> byte list \<Rightarrow> byte list option" where
  "nibblize_track conformant track skew_table buf = do {
     fs \<leftarrow> sector_fields conformant track skew_table buf [0..<16];
     Some (lead_gap conformant @ fs) }"

text \<open>
  The search for a prologue: at most \<open>n\<close> bytes are read, from a track read as a ring.
\<close>

type_synonym prologue = "nat \<times> byte list"

fun find_prologue :: "byte list \<Rightarrow> nat \<Rightarrow> nat \<Rightarrow> prologue \<Rightarrow> nat \<Rightarrow> byte list \<times> nat" where
  "find_prologue trackimage trackwidth 0 (idx, prologue) offset = (prologue, offset)"
| "find_prologue trackimage trackwidth (Suc n) (idx, prologue) offset =
    (let byte = trackimage ! offset;
         (idx, prologue) = (if idx \<noteq> 0 \<or> byte = 0xD5 then (idx + 1, prologue[idx := byte]) else (idx, prologue));
         offset = (offset + 1) mod trackwidth
     in if idx \<ge> 3 then (prologue, offset)
        else find_prologue trackimage trackwidth n (idx, prologue) offset)"

fun read_ring :: "byte list \<Rightarrow> nat \<Rightarrow> nat \<Rightarrow> nat \<Rightarrow> byte list \<times> nat" where
  "read_ring trackimage trackwidth 0 offset = ([], offset)"
| "read_ring trackimage trackwidth (Suc n) offset =
    (let (bs, offset') = read_ring trackimage trackwidth n ((offset + 1) mod trackwidth)
     in (trackimage ! offset # bs, offset'))"

text \<open>The state of the search: where it is, the sector announced by the last header, the result.\<close>

type_synonym search = "nat \<times> int \<times> byte list"

definition search_step :: "byte list \<Rightarrow> nat \<Rightarrow> nat list \<Rightarrow> search \<Rightarrow> search option" where
  "search_step trackimage trackwidth skew_table = (\<lambda>(offset, sector, dst).
    (let (prologue, offset) = find_prologue trackimage trackwidth NIB_TRACK_SIZE (0, [0, 0, 0]) offset in
     if prologue ! 1 \<noteq> 0xAA then Some (offset, sector, dst)
     else if prologue ! 2 = 0x96 then
       (let offset = (offset + 0x4) mod trackwidth;
            hi = trackimage ! offset AND 0x55;
            offset = (offset + 1) mod trackwidth;
            sector = uint (push_bit 1 hi) OR uint (trackimage ! offset AND 0x55)
        in Some ((offset + 1) mod trackwidth, sector, dst))
     else if prologue ! 2 \<noteq> 0xAD then Some (offset, sector, dst)
     else
       (let (work_buf, offset) = read_ring trackimage trackwidth (NUM_SIXBIT_NIBS + 1) offset in
        do {
          sector \<leftarrow> c_assert (sector \<ge> 0 \<and> sector < 16) sector;
          let sec_off = 256 * skew_table ! nat sector;
          out \<leftarrow> denibblize_sector work_buf (take 256 (drop sec_off dst));
          Some (offset, -1, take sec_off dst @ out @ drop (sec_off + 256) dst) })))"

fun search_steps :: "byte list \<Rightarrow> nat \<Rightarrow> nat list \<Rightarrow> nat \<Rightarrow> search \<Rightarrow> search option" where
  "search_steps trackimage trackwidth skew_table 0 s = Some s"
| "search_steps trackimage trackwidth skew_table (Suc n) s = do {
     s \<leftarrow> search_step trackimage trackwidth skew_table s;
     search_steps trackimage trackwidth skew_table n s }"

definition denibblize_track :: "byte list \<Rightarrow> nat \<Rightarrow> nat list \<Rightarrow> byte list \<Rightarrow> byte list option" where
  "denibblize_track src trackwidth skew_table dst = do {
     (_, _, dst) \<leftarrow> search_steps src trackwidth skew_table (2 * NUM_SECTORS + 1) (0, -1, dst);
     Some dst }"

section \<open>The sector round trip\<close>

lemma byte_offset:
  "i \<le> 86 \<Longrightarrow> unat ((0xAC :: byte) + of_nat i) = (0xAC + i) mod 256"
  "i < 86 \<Longrightarrow> unat ((0x56 :: byte) + of_nat i) = 0x56 + i"
  "i < 86 \<Longrightarrow> unat (of_nat i :: byte) = i"
  by (simp_all add: unat_word_ariths unsigned_of_nat take_bit_nat_def)

lemma offset_end: "i \<le> 86 \<Longrightarrow> (0xAC :: byte) + of_nat i = 2 \<longleftrightarrow> i = 86"
proof -
  assume i: "i \<le> 86"
  show ?thesis
  proof
    assume "(0xAC :: byte) + of_nat i = 2"
    then have "unat ((0xAC :: byte) + of_nat i) = unat (2 :: byte)" by (rule arg_cong)
    then have "unat ((0xAC :: byte) + of_nat i) = 2" by (rule trans) simp
    then have "(0xAC + i) mod 256 = 2" by (simp only: byte_offset(1) [OF i])
    moreover from i have "i < 84 \<or> i = 84 \<or> i = 85 \<or> i = 86" by linarith
    ultimately show "i = 86" by auto
  qed simp
qed

text \<open>The \<open>i\<close>th byte of low bits.\<close>

definition low_byte :: "byte list \<Rightarrow> nat \<Rightarrow> byte" where
  "low_byte src i = push_bit 2 (push_bit 2 (push_bit 2 (low_pair (src ! ((0xAC + i) mod 256)))
     OR low_pair (src ! (0x56 + i))) OR low_pair (src ! i))"

lemma low_value_eq: "i < 86 \<Longrightarrow> low_value src (0xAC + of_nat i) = low_byte src i"
proof -
  assume i: "i < 86"
  have "(0xAC :: byte) + of_nat i - 0x56 = 0x56 + of_nat i" "(0x56 :: byte) + of_nat i - 0x56 = of_nat i"
    by (simp_all add: algebra_simps)
  then show ?thesis
    using i by (simp add: low_value_def low_byte_def sixbit_consts byte_offset)
qed

lemma low_loop_eq:
  "i \<le> 86 \<Longrightarrow> low_loop src (0xAC + of_nat i) w = w @ map (low_byte src) [i..<86]"
proof (induction "86 - i" arbitrary: i w)
  case 0
  then have "i = 86" by simp
  then show ?case by (simp add: low_loop.simps)
next
  case (Suc n)
  then have i: "i < 86" "i \<le> 86" by simp_all
  have "low_loop src (0xAC + of_nat i) w = low_loop src (0xAC + of_nat (Suc i)) (w @ [low_byte src i])"
    using i offset_end [of i] low_value_eq [OF i(1), of src]
    by (subst low_loop.simps) (simp add: next_offset_eq add.commute)
  also have "\<dots> = (w @ [low_byte src i]) @ map (low_byte src) [Suc i..<86]"
    using Suc.hyps i by (intro Suc.hyps(1)) simp_all
  also have "\<dots> = w @ map (low_byte src) [i..<86]"
    using i by (simp add: upt_conv_Cons)
  finally show ?case .
qed

lemma low_loop_start: "low_loop src SIXBIT_OFF_BEGIN [] = map (low_byte src) [0..<86]"
  using low_loop_eq [of 0 src "[]"] by (simp add: sixbit_consts)

lemma six_bytes_eq:
  assumes "length src = 256"
  obtains lows where "six_bytes src = Some (lows @ src)" "length lows = 86"
    "\<forall>i < 84. lows ! i = low_byte src i"
    "\<forall>i < 86. 84 \<le> i \<longrightarrow> lows ! i = low_byte src i AND 0x3F"
proof -
  let ?l = "map (low_byte src) [0..<86]"
  let ?lows = "?l[84 := low_byte src 84 AND 0x3F, 85 := low_byte src 85 AND 0x3F]"
  have "six_bytes src = Some (?lows @ src)"
    unfolding six_bytes_def low_loop_start Let_def
    using assms by (simp add: sixbit_consts SIXBIT_MASK_def)
  moreover have "?lows ! i = low_byte src i AND 0x3F" if "84 \<le> i" "i < 86" for i
  proof -
    from that have "i = 84 \<or> i = 85" by linarith
    then show ?thesis by auto
  qed
  ultimately show ?thesis
    by (intro that [of ?lows]) simp_all
qed

text \<open>XOR chaining and its inverse; the tables keep the top six bits.\<close>

abbreviation six :: "byte \<Rightarrow> byte" where "six w \<equiv> w AND 0xFC"

lemma length_xor_chain [simp]: "length (xor_chain s ws) = Suc (length ws)"
  by (induction ws arbitrary: s) auto

lemma length_unxor [simp]: "length (unxor s ws) = length ws"
  by (induction ws arbitrary: s) auto

lemma six_xor: "six (a XOR b) = six a XOR six b"
  by (rule bit_eqI) (auto simp: bit_simps)

lemma unxor_chain: "unxor (six s) (map six (take (length ws) (xor_chain s ws))) = map six ws"
proof (induction ws arbitrary: s)
  case Nil
  then show ?case by simp
next
  case (Cons w ws)
  have "six s XOR six (s XOR w) = six w" by (simp add: six_xor)
  with Cons.IH [of w] show ?case by simp
qed

lemma rev_table_entries:
  "\<forall>i < 64. rev_translate_table_6 ! unat (translate_table_6 ! i AND 0x7F) = push_bit 2 (of_nat i)"
proof -
  have "list_all (\<lambda>i. rev_translate_table_6 ! unat (translate_table_6 ! i AND 0x7F) = push_bit 2 (of_nat i)) [0..<64]"
    by code_simp
  then show ?thesis by (auto simp: list_all_iff)
qed

lemma bit_FC: "n < 8 \<Longrightarrow> bit (0xFC :: byte) n \<longleftrightarrow> 2 \<le> n"
  by (drule less_8_cases; elim disjE; simp)

lemma six_as_index: "push_bit 2 (drop_bit 2 w) = six (w :: byte)"
proof (rule bit_word_eqI)
  fix n assume "n < LENGTH(8)"
  then have n: "n < 8" by simp
  have "2 \<le> n \<Longrightarrow> Suc (Suc (n - 2)) = n" by simp
  with bit_FC [OF n] n show "bit (push_bit 2 (drop_bit 2 w)) n = bit (six w) n"
    by (auto simp: bit_simps)
qed

lemma drop_2_less: "unat (drop_bit 2 (w :: byte)) < 64"
proof -
  have "unat w < 2 ^ LENGTH(8)" by (rule unsigned_less)
  then show ?thesis by (simp add: unat_drop_bit_eq drop_bit_nat_def)
qed

lemma rev_translate: "rev_translate_table_6 ! unat (translate_table_6 ! unat (drop_bit 2 w) AND 0x7F) = six w"
  using rev_table_entries drop_2_less [of w] by (simp add: six_as_index)

lemma six_ne_1: "six w \<noteq> 1"
proof
  assume "six w = 1"
  then have "bit (six w) 0" by simp
  then show False by (simp add: bit_and_iff)
qed

text \<open>Reassembling a byte from its six high and two low bits.\<close>

definition join_a :: "byte \<Rightarrow> byte \<Rightarrow> byte" where
  "join_a b l = six b OR drop_bit 7 (l AND 0x80) OR drop_bit 5 (l AND 0x40)"

definition join_b :: "byte \<Rightarrow> byte \<Rightarrow> byte" where
  "join_b b l = six b OR drop_bit 5 (l AND 0x20) OR drop_bit 3 (l AND 0x10)"

definition join_c :: "byte \<Rightarrow> byte \<Rightarrow> byte" where
  "join_c b l = six b OR drop_bit 3 (l AND 0x08) OR drop_bit 1 (l AND 0x04)"

definition lows_of :: "byte \<Rightarrow> byte \<Rightarrow> byte \<Rightarrow> byte" where
  "lows_of a b c = push_bit 2 (push_bit 2 (push_bit 2 (low_pair a) OR low_pair b) OR low_pair c)"

lemma bit_low_pair: "bit (low_pair b) n \<longleftrightarrow> n = 0 \<and> bit b 1 \<or> n = 1 \<and> bit b 0"
proof -
  have *: "bit (0x01 :: byte) m \<longleftrightarrow> m = 0" "bit (0x02 :: byte) m \<longleftrightarrow> m = 1" for m
    by (rule single_flag_bit; simp)+
  show ?thesis
    unfolding low_pair_def bit_or_iff bit_push_bit_iff bit_drop_bit_eq comp_apply bit_and_iff *
    by (auto simp: possible_bit_def)
qed

lemma join_lows:
  "join_a (six a) (six (lows_of a b c)) = a"
  "join_b (six b) (six (lows_of a b c)) = b" "join_b (six b) (six (lows_of a b c AND 0x3F)) = b"
  "join_c (six c) (six (lows_of a b c)) = c" "join_c (six c) (six (lows_of a b c AND 0x3F)) = c"
  by (rule bit_word_eqI; simp; drule less_8_cases; elim disjE;
      simp add: join_a_def join_b_def join_c_def lows_of_def bit_low_pair bit_simps)+

definition denib_out :: "byte list \<Rightarrow> nat \<Rightarrow> byte list \<Rightarrow> byte list" where
  "denib_out w i out =
    (let out = (if i < 84 then out[172 + i := join_a (w ! (258 + i)) (w ! i)] else out)
     in out[86 + i := join_b (w ! (172 + i)) (w ! i), i := join_c (w ! (86 + i)) (w ! i)])"

lemma denib_body_eq:
  assumes "i < 86"
  shows "denib_body w i (0xAC + of_nat i, out, c) =
    (0xAC + of_nat (Suc i), denib_out w i out, c + (if i < 84 then 3 else 2))"
proof -
  have m: "(0xAC :: byte) + of_nat i - 0x56 = 0x56 + of_nat i" "(0x56 :: byte) + of_nat i - 0x56 = of_nat i"
    by (simp_all add: algebra_simps)
  have "(of_nat i :: byte) - 0x53 = of_nat i + (0 - 0x53)" by simp
  also have "(0 :: byte) - 0x53 = 0xAD" by simp
  also have "of_nat i + 0xAD = 0xAC + (of_nat (Suc i) :: byte)" by simp
  finally have m3: "(of_nat i :: byte) - 0x53 = 0xAC + of_nat (Suc i)" .
  have "(0xAC :: byte) \<le> 0xAC + of_nat i \<longleftrightarrow> unat (0xAC :: byte) \<le> unat ((0xAC :: byte) + of_nat i)"
    by (rule word_le_nat_alt)
  also have "\<dots> \<longleftrightarrow> 172 \<le> (0xAC + i) mod 256"
    using assms by (subst byte_offset) simp_all
  also have "\<dots> \<longleftrightarrow> i < 84"
  proof -
    from assms have "i < 84 \<or> i = 84 \<or> i = 85" by linarith
    then show ?thesis by auto
  qed
  finally have le: "(0xAC :: byte) \<le> 0xAC + of_nat i \<longleftrightarrow> i < 84" .
  have u: "unat ((0x56 :: byte) + of_nat i) = 86 + i" "unat (of_nat i :: byte) = i"
    "i < 84 \<Longrightarrow> unat ((0xAC :: byte) + of_nat i) = 172 + i"
    using byte_offset [of i] assms by simp_all
  show ?thesis
    unfolding denib_body_def prod.case Let_def sixbit_consts of_nat_numeral m m3 le u
    by (simp add: denib_out_def join_a_def join_b_def join_c_def u)
qed

lemma denib_loop:
  assumes "length out = 256" and "n \<le> 86"
    and hi: "\<And>k. k < 256 \<Longrightarrow> w ! (86 + k) = six (src ! k)"
    and lo: "\<And>i. i < 86 \<Longrightarrow> w ! i = six (lows_of (src ! (172 + i)) (src ! (86 + i)) (src ! i)) \<or>
        84 \<le> i \<and> (\<exists>a. w ! i = six (lows_of a (src ! (86 + i)) (src ! i) AND 0x3F))"
  shows "\<exists>out'. fold (denib_body w) [0..<n] (0xAC, out, 0) = (0xAC + of_nat n, out', 2 * n + min n 84) \<and>
      length out' = 256 \<and>
      (\<forall>k < 256. k < n \<or> 86 \<le> k \<and> k < 86 + n \<or> 172 \<le> k \<and> k < 172 + n \<longrightarrow> out' ! k = src ! k)"
  using assms(2)
proof (induction n)
  case 0
  then show ?case using assms(1) by auto
next
  case (Suc n)
  then obtain o1 where IH: "fold (denib_body w) [0..<n] (0xAC, out, 0) = (0xAC + of_nat n, o1, 2 * n + min n 84)"
    "length o1 = 256"
    "\<forall>k < 256. k < n \<or> 86 \<le> k \<and> k < 86 + n \<or> 172 \<le> k \<and> k < 172 + n \<longrightarrow> o1 ! k = src ! k"
    by auto
  have n: "n < 86" using Suc.prems by simp
  have jc: "join_c (w ! (86 + n)) (w ! n) = src ! n"
    using lo [OF n] hi [of n] n by (auto simp: join_lows)
  have jb: "join_b (w ! (172 + n)) (w ! n) = src ! (86 + n)"
    using lo [OF n] hi [of "86 + n"] n by (auto simp: join_lows)
  have ja: "n < 84 \<Longrightarrow> join_a (w ! (258 + n)) (w ! n) = src ! (172 + n)"
    using lo [OF n] hi [of "172 + n"] by (auto simp: join_lows)
  have "fold (denib_body w) [0..<Suc n] (0xAC, out, 0) =
      (0xAC + of_nat (Suc n), denib_out w n o1, 2 * Suc n + min (Suc n) 84)"
    using IH(1) denib_body_eq [OF n, of w o1 "2 * n + min n 84"] by simp
  moreover have "length (denib_out w n o1) = 256"
    using IH(2) by (simp add: denib_out_def Let_def)
  moreover have "denib_out w n o1 ! k = src ! k"
    if "k < 256" "k < Suc n \<or> 86 \<le> k \<and> k < 86 + Suc n \<or> 172 \<le> k \<and> k < 172 + Suc n" for k
    using that IH(2,3) n jc jb ja
    by (auto simp: denib_out_def Let_def nth_list_update less_Suc_eq)
  ultimately show ?case by blast
qed

text \<open>Decoding what was encoded gives the sector back, whatever the target held.\<close>

lemma sector_decode:
  assumes "length src = 256" and "length out = 256"
  shows "\<exists>nibs. nibblize_sector src = Some nibs \<and> length nibs = 343 \<and> denibblize_sector nibs out = Some src"
proof -
  obtain lows where l: "six_bytes src = Some (lows @ src)" "length lows = 86"
    "\<forall>i < 84. lows ! i = low_byte src i"
    "\<forall>i < 86. 84 \<le> i \<longrightarrow> lows ! i = low_byte src i AND 0x3F"
    by (rule six_bytes_eq [OF assms(1)])
  let ?ws = "lows @ src"
  let ?nibs = "map (\<lambda>w. translate_table_6 ! unat (drop_bit 2 w)) (xor_chain 0 ?ws)"
  have len: "length ?ws = 342" using l(2) assms(1) by simp
  have w1: "map (\<lambda>b. rev_translate_table_6 ! unat (b AND 0x7F)) (take (NUM_SIXBIT_NIBS + 1) ?nibs) =
      map six (xor_chain 0 ?ws)"
    using len by (simp add: rev_translate sixbit_consts o_def)
  have ux: "unxor 0 (take NUM_SIXBIT_NIBS (map six (xor_chain 0 ?ws))) = map six ?ws"
    using unxor_chain [of 0 ?ws] len by (simp add: take_map sixbit_consts)
  let ?w = "map six ?ws @ drop NUM_SIXBIT_NIBS (map six (xor_chain 0 ?ws))"
  have hi: "?w ! (86 + k) = six (src ! k)" if "k < 256" for k
    using that l(2) assms(1) by (simp add: nth_append)
  have lo: "?w ! i = six (lows_of (src ! (172 + i)) (src ! (86 + i)) (src ! i)) \<or>
      84 \<le> i \<and> (\<exists>a. ?w ! i = six (lows_of a (src ! (86 + i)) (src ! i) AND 0x3F))" if "i < 86" for i
  proof (cases "i < 84")
    case True
    then show ?thesis using l(2,3) that by (simp add: nth_append low_byte_def lows_of_def)
  next
    case False
    have "?w ! i = six (lows ! i)" using l(2) that by (simp add: nth_append)
    then show ?thesis using l(4) that False by (auto simp: low_byte_def lows_of_def)
  qed
  obtain out' where f: "fold (denib_body ?w) [0..<86] (0xAC, out, 0) = (0xAC + of_nat 86, out', 2 * 86 + min 86 84)"
    "length out' = 256"
    "\<forall>k < 256. k < 86 \<or> 86 \<le> k \<and> k < 86 + 86 \<or> 172 \<le> k \<and> k < 172 + 86 \<longrightarrow> out' ! k = src ! k"
    using denib_loop [OF assms(2) order_refl hi lo] by blast
  have "out' = src"
    by (rule nth_equalityI) (use f(2,3) assms(1) in auto)
  moreover have "(0xAC :: byte) + of_nat 86 = 2" by simp
  ultimately have fold: "fold (denib_body ?w) [0..<SIXBIT_EXTRA_BYTES] (SIXBIT_OFF_BEGIN, out, 0) = (2, src, 0x100)"
    using f(1) by (simp add: sixbit_consts del: fold_simps)
  have "denibblize_sector ?nibs out = Some src"
    unfolding denibblize_sector_def Let_def w1
    by (simp add: ux fold six_ne_1 del: map_append)
  moreover have "nibblize_sector src = Some ?nibs"
    using l(1) by (simp add: nibblize_sector_def)
  ultimately show ?thesis using len by (intro exI [of _ ?nibs]) simp
qed

section \<open>The track round trip\<close>

lemma CODE44_no_D5: "CODE44A b \<noteq> 0xD5" "CODE44B b \<noteq> 0xD5"
proof -
  have "bit (0xAA :: byte) 5" "\<not> bit (0xD5 :: byte) 5" by simp_all
  then show "CODE44A b \<noteq> 0xD5" "CODE44B b \<noteq> 0xD5"
    by (auto simp: CODE44A_def CODE44B_def bit_or_iff dest!: arg_cong [of _ _ "\<lambda>w. bit w 5"])
qed

lemma decode44: "push_bit 1 (CODE44A b AND 0x55) OR (CODE44B b AND 0x55) = b"
proof (rule bit_word_eqI)
  fix n assume "n < LENGTH(8)"
  then have n: "n < 8" by simp
  show "bit (push_bit 1 (CODE44A b AND 0x55) OR (CODE44B b AND 0x55)) n = bit b n"
    unfolding CODE44A_def CODE44B_def bit_or_iff bit_and_iff bit_push_bit_iff bit_drop_bit_eq comp_apply
    using n by (drule_tac less_8_cases; elim disjE; simp add: eval_nat_numeral)
qed

lemma find_gap:
  assumes "img = pre @ gap @ post" "0xD5 \<notin> set gap" "length gap \<le> n"
  shows "find_prologue img (length img) n (0, p) (length pre) =
    (if gap = [] then find_prologue img (length img) n (0, p) (length pre)
     else find_prologue img (length img) (n - length gap) (0, p) ((length pre + length gap) mod length img))"
  using assms
proof (induction gap arbitrary: pre n)
  case Nil
  then show ?case by simp
next
  case (Cons b gap)
  then obtain n' where n: "n = Suc n'" "length gap \<le> n'" by (cases n) auto
  have b: "img ! length pre = b" "b \<noteq> 0xD5" using Cons.prems by auto
  have step: "find_prologue img (length img) n (0, p) (length pre) =
      find_prologue img (length img) n' (0, p) ((length pre + 1) mod length img)"
    using b by (simp add: n Let_def)
  show ?case
  proof (cases "gap = []")
    case True
    then show ?thesis using step n by simp
  next
    case False
    then have m: "(length pre + 1) mod length img = length (pre @ [b])" using Cons.prems by simp
    have "find_prologue img (length img) n' (0, p) (length (pre @ [b])) =
        find_prologue img (length img) (n' - length gap) (0, p) ((length (pre @ [b]) + length gap) mod length img)"
      using Cons.IH [of "pre @ [b]" n'] Cons.prems n False by simp
    then show ?thesis using step n m by simp
  qed
qed

lemma find_hit:
  assumes "img = pre @ [0xD5, b1, b2] @ post" "3 \<le> n"
  shows "find_prologue img (length img) n (0, [0, 0, 0]) (length pre) =
    ([0xD5, b1, b2], (length pre + 3) mod length img)"
proof -
  obtain m where n: "n = Suc (Suc (Suc m))" using assms(2) by (metis add.commute add_Suc_right le_add_diff_inverse numeral_3_eq_3 plus_nat.add_0)
  have "img ! length pre = 0xD5" "img ! (length pre + 1) = b1" "img ! (length pre + 2) = b2"
    "length pre + 1 < length img" "length pre + 2 < length img"
    using assms by (simp_all add: nth_append)
  then show ?thesis by (simp add: n Let_def numeral_3_eq_3)
qed

lemma find_next:
  assumes "img = pre @ gap @ [0xD5, b1, b2] @ post" "0xD5 \<notin> set gap" "length gap + 3 \<le> n"
  shows "find_prologue img (length img) n (0, [0, 0, 0]) (length pre) =
    ([0xD5, b1, b2], (length pre + length gap + 3) mod length img)"
proof -
  have h: "find_prologue img (length img) (n - length gap) (0, [0, 0, 0]) (length (pre @ gap)) =
      ([0xD5, b1, b2], (length pre + length gap + 3) mod length img)"
    using find_hit [of img "pre @ gap" b1 b2 post "n - length gap"] assms by (simp add: add.assoc)
  show ?thesis
  proof (cases "gap = []")
    case True
    then show ?thesis using h by simp
  next
    case False
    have "(length pre + length gap) mod length img = length (pre @ gap)" using assms(1) by simp
    then show ?thesis
      using find_gap [OF assms(1,2), of n "[0, 0, 0]"] assms(3) h False by simp
  qed
qed

lemma read_ring_eq:
  assumes "img = pre @ data @ post" "post \<noteq> []"
  shows "read_ring img (length img) (length data) (length pre) = (data, length pre + length data)"
  using assms
proof (induction data arbitrary: pre)
  case Nil
  then show ?case by simp
next
  case (Cons b data)
  have "(length pre + 1) mod length img = length (pre @ [b])" using Cons.prems by (cases post) auto
  moreover have "img ! length pre = b" using Cons.prems by simp
  ultimately show ?case using Cons.IH [of "pre @ [b]"] Cons.prems by simp
qed

text \<open>One turn of the search at a header, and at the data that follows it.\<close>

definition header :: "byte \<Rightarrow> byte \<Rightarrow> byte list" where
  "header track sector = [0xD5, 0xAA, 0x96] @ code44 DSK_VOLUME @ code44 track @ code44 sector"

definition header_end :: "byte \<Rightarrow> byte \<Rightarrow> byte list" where
  "header_end track sector =
    code44 (DSK_VOLUME XOR track XOR sector) @ [0xDE, 0xAA, 0xEB] @ replicate 6 0xFF"

lemma address_field_eq: "address_field track sector = header track sector @ header_end track sector"
  by (simp add: address_field_def header_def header_end_def)

lemma header_end_no_D5: "0xD5 \<notin> set (header_end track sector)" "length (header_end track sector) = 11"
  by (auto simp: header_end_def code44_def CODE44_no_D5 [symmetric])

lemma search_header:
  assumes "img = pre @ gap @ header track sector @ post" "post \<noteq> []" "0xD5 \<notin> set gap"
    "length gap + 3 \<le> NIB_TRACK_SIZE"
  shows "search_step img (length img) skew (length pre, s, dst) =
    Some (length (pre @ gap @ header track sector), uint sector, dst)"
proof -
  let ?vt = "code44 DSK_VOLUME @ code44 track"
  have img: "img = pre @ gap @ [0xD5, 0xAA, 0x96] @ (?vt @ code44 sector @ post)"
    using assms(1) by (simp add: header_def)
  have len: "length img = length pre + length gap + 9 + length post"
    by (simp add: img code44_def)
  have f: "find_prologue img (length img) NIB_TRACK_SIZE (0, [0, 0, 0]) (length pre) =
      ([0xD5, 0xAA, 0x96], length pre + length gap + 3)"
    using find_next [OF img assms(3,4)] len by simp
  have m: "(length pre + length gap + 3 + 4) mod length img = length pre + length gap + 7"
    "(length pre + length gap + 7 + 1) mod length img = length pre + length gap + 8"
    "(length pre + length gap + 8 + 1) mod length img = length pre + length gap + 9"
    using len assms(2) by simp_all
  have "drop (length pre + length gap + 7) img = code44 sector @ post"
    by (simp add: img code44_def)
  then have b: "img ! (length pre + length gap + 7) = CODE44A sector"
    "img ! (length pre + length gap + 8) = CODE44B sector"
    using nth_via_drop [of "length pre + length gap + 7" img]
      nth_drop [of "length pre + length gap + 7" img 1] len
    by (simp_all add: code44_def ac_simps)
  have "uint (push_bit 1 (CODE44A sector AND 0x55)) OR uint (CODE44B sector AND 0x55) = uint sector"
    by (simp only: decode44 flip: unsigned_or_eq)
  then show ?thesis
    unfolding search_step_def prod.case f Let_def m b
    by (simp add: header_def code44_def)
qed

definition put_sector :: "byte list \<Rightarrow> nat \<Rightarrow> byte list \<Rightarrow> byte list" where
  "put_sector dst k out = take (256 * k) dst @ out @ drop (256 * k + 256) dst"

lemma search_data:
  assumes "img = pre @ gap @ [0xD5, 0xAA, 0xAD] @ data @ post" "post \<noteq> []" "0xD5 \<notin> set gap"
    "length gap + 3 \<le> NIB_TRACK_SIZE" "length data = 343" "sector < 16"
    "denibblize_sector data (take 256 (drop (256 * skew ! sector) dst)) = Some out"
  shows "search_step img (length img) skew (length pre, int sector, dst) =
    Some (length (pre @ gap @ [0xD5, 0xAA, 0xAD] @ data), -1, put_sector dst (skew ! sector) out)"
proof -
  have img: "img = pre @ gap @ [0xD5, 0xAA, 0xAD] @ (data @ post)" using assms(1) by simp
  have len: "length img = length pre + length gap + 3 + length data + length post"
    by (simp add: img)
  have f: "find_prologue img (length img) NIB_TRACK_SIZE (0, [0, 0, 0]) (length pre) =
      ([0xD5, 0xAA, 0xAD], length pre + length gap + 3)"
    using find_next [OF img assms(3,4)] len assms(2) by simp
  have "read_ring img (length img) (length data) (length (pre @ gap @ [0xD5, 0xAA, 0xAD])) =
      (data, length (pre @ gap @ [0xD5, 0xAA, 0xAD]) + length data)"
    by (rule read_ring_eq) (use assms(1,2) in simp_all)
  moreover have "length (pre @ gap @ [0xD5, 0xAA, 0xAD]) = length pre + length gap + 3" by simp
  moreover have "NUM_SIXBIT_NIBS + 1 = 343" by (simp add: sixbit_consts)
  ultimately have r: "read_ring img (length img) (NUM_SIXBIT_NIBS + 1) (length pre + length gap + 3) =
      (data, length pre + length gap + 3 + 343)"
    using assms(5) by (simp only:)
  show ?thesis
    unfolding search_step_def prod.case f Let_def
    unfolding r prod.case
    using assms(5,6,7) by (simp add: put_sector_def)
qed

lemma nth_put_sector:
  assumes "length out = 256" "256 * k + 256 \<le> length dst" "i < length dst"
  shows "put_sector dst k out ! i = (if 256 * k \<le> i \<and> i < 256 * k + 256 then out ! (i - 256 * k) else dst ! i)"
  using assms by (auto simp: put_sector_def nth_append)

lemma length_put_sector:
  "length out = 256 \<Longrightarrow> 256 * k + 256 \<le> length dst \<Longrightarrow> length (put_sector dst k out) = length dst"
  by (simp add: put_sector_def)

definition field_tail :: "bool \<Rightarrow> byte list" where
  "field_tail conformant = [0xDE, 0xAA, 0xEB] @ sector_gap conformant"

lemma field_tail_props:
  "field_tail c \<noteq> []" "0xD5 \<notin> set (field_tail c)" "length (field_tail c) \<le> 48"
  by (auto simp: field_tail_def sector_gap_def)

lemma sector_field_eq:
  assumes "length buf = 4096" "skew ! s < 16"
  obtains data where "sector_field c track skew buf s =
      Some (header track (of_nat s) @ header_end track (of_nat s) @ [0xD5, 0xAA, 0xAD] @ data @ field_tail c)"
    "length data = 343"
    "\<And>out. length out = 256 \<Longrightarrow> denibblize_sector data out = Some (take 256 (drop (256 * skew ! s) buf))"
proof -
  let ?src = "take 256 (drop (256 * skew ! s) buf)"
  have "length ?src = 256" using assms by simp
  from sector_decode [OF this] obtain data where "nibblize_sector ?src = Some data" "length data = 343"
    "\<And>out. length out = 256 \<Longrightarrow> denibblize_sector data out = Some ?src"
    by (metis Ex_list_of_length option.inject)
  then show ?thesis
    by (intro that) (simp_all add: sector_field_def address_field_eq field_tail_def Let_def)
qed

lemma uint_small: "s < 16 \<Longrightarrow> uint (of_nat s :: byte) = int s"
  by (simp add: unsigned_of_nat take_bit_nat_eq_self uint_nat)

lemma search_sectors:
  assumes "sector_fields c track skew buf ss = Some fs" "img = pre @ J @ fs @ post"
    "J \<noteq> []" "0xD5 \<notin> set J" "length J \<le> 48" "length buf = 4096" "length dst = 4096"
    "\<forall>s \<in> set ss. s < 16 \<and> skew ! s < 16"
  shows "\<exists>pre' J' s' dst'. search_steps img (length img) skew (2 * length ss) (length pre, s, dst) =
      Some (length pre', s', dst') \<and> img = pre' @ J' @ post \<and> J' \<noteq> [] \<and> 0xD5 \<notin> set J' \<and>
      length J' \<le> 48 \<and> length dst' = 4096 \<and>
      (\<forall>i < 4096. dst ! i = buf ! i \<or> i div 256 \<in> (!) skew ` set ss \<longrightarrow> dst' ! i = buf ! i)"
  using assms
proof (induction ss arbitrary: fs pre J s dst)
  case Nil
  then show ?case by auto
next
  case (Cons t ss)
  have t: "t < 16" "skew ! t < 16" using Cons.prems(8) by simp_all
  obtain data where f: "sector_field c track skew buf t =
      Some (header track (of_nat t) @ header_end track (of_nat t) @ [0xD5, 0xAA, 0xAD] @ data @ field_tail c)"
    "length data = 343"
    "\<And>out. length out = 256 \<Longrightarrow> denibblize_sector data out = Some (take 256 (drop (256 * skew ! t) buf))"
    by (rule sector_field_eq [OF Cons.prems(6) t(2), of c track]) blast
  from Cons.prems(1) f(1) obtain fs' where fs': "sector_fields c track skew buf ss = Some fs'"
    "fs = (header track (of_nat t) @ header_end track (of_nat t) @ [0xD5, 0xAA, 0xAD] @ data @ field_tail c) @ fs'"
    by (cases "sector_fields c track skew buf ss") auto
  let ?h = "header track (of_nat t)" and ?e = "header_end track (of_nat t)"
  let ?pre1 = "pre @ J @ ?h"
  let ?pre2 = "?pre1 @ ?e @ [0xD5, 0xAA, 0xAD] @ data"
  let ?src = "take 256 (drop (256 * skew ! t) buf)"
  let ?dst1 = "put_sector dst (skew ! t) ?src"
  have lsrc: "length ?src = 256" using Cons.prems(6) t by simp
  have k: "256 * skew ! t + 256 \<le> length dst" using Cons.prems(7) t by simp
  have s1: "search_step img (length img) skew (length pre, s, dst) = Some (length ?pre1, int t, dst)"
    using search_header [of img pre J track "of_nat t" "?e @ [0xD5, 0xAA, 0xAD] @ data @ field_tail c @ fs' @ post" skew s dst]
      Cons.prems(2,4,5) fs'(2) t by (simp add: NIB_TRACK_SIZE_def uint_small)
  have s2: "search_step img (length img) skew (length ?pre1, int t, dst) = Some (length ?pre2, -1, ?dst1)"
    using search_data [of img ?pre1 ?e data "field_tail c @ fs' @ post" t skew dst ?src]
      Cons.prems(2) fs'(2) t(1) f(2) f(3) [of "take 256 (drop (256 * skew ! t) dst)"] k header_end_no_D5 field_tail_props(1)
    by (simp add: NIB_TRACK_SIZE_def)
  have img': "img = ?pre2 @ field_tail c @ fs' @ post" using Cons.prems(2) fs'(2) by simp
  have dst1: "length ?dst1 = 4096" using length_put_sector [OF lsrc k] Cons.prems(7) by simp
  have keep: "?dst1 ! i = buf ! i" if "i < 4096" "dst ! i = buf ! i \<or> i div 256 = skew ! t" for i
  proof (cases "i div 256 = skew ! t")
    case True
    then have "256 * skew ! t \<le> i" "i < 256 * skew ! t + 256" by (simp_all add: algebra_simps)
    then show ?thesis
      using nth_put_sector [OF lsrc k, of i] Cons.prems(6,7) that by simp
  next
    case False
    then have out: "\<not> (256 * skew ! t \<le> i \<and> i < 256 * skew ! t + 256)" by (auto simp: div_nat_eqI)
    have "i < length dst" using that Cons.prems(7) by simp
    from nth_put_sector [OF lsrc k this] that False show ?thesis
      by (simp only: if_not_P [OF out] simp_thms)
  qed
  obtain pre' J' s' dst' where IH: "search_steps img (length img) skew (2 * length ss) (length ?pre2, -1, ?dst1) =
      Some (length pre', s', dst')" "img = pre' @ J' @ post" "J' \<noteq> []" "0xD5 \<notin> set J'" "length J' \<le> 48"
      "length dst' = 4096"
      "\<forall>i < 4096. ?dst1 ! i = buf ! i \<or> i div 256 \<in> (!) skew ` set ss \<longrightarrow> dst' ! i = buf ! i"
    using Cons.IH [OF fs'(1) img' field_tail_props Cons.prems(6) dst1, of "-1"] Cons.prems(8) by auto
  have "search_steps img (length img) skew (2 * length (t # ss)) (length pre, s, dst) = Some (length pre', s', dst')"
    using s1 s2 IH(1) by simp
  moreover have "\<forall>i < 4096. dst ! i = buf ! i \<or> i div 256 \<in> (!) skew ` set (t # ss) \<longrightarrow> dst' ! i = buf ! i"
    using IH(7) keep by auto
  ultimately show ?case using IH(2-6) by blast
qed

lemma sector_fields_Some:
  assumes "length buf = 4096" "\<forall>s \<in> set ss. skew ! s < 16"
  shows "\<exists>fs. sector_fields c track skew buf ss = Some fs \<and> length fs = length ss * (if c then 396 else 377)"
  using assms(2)
proof (induction ss)
  case Nil
  then show ?case by simp
next
  case (Cons s ss)
  then have "skew ! s < 16" by simp
  with assms(1) obtain data where f: "sector_field c track skew buf s =
      Some (header track (of_nat s) @ header_end track (of_nat s) @ [0xD5, 0xAA, 0xAD] @ data @ field_tail c)"
    "length data = 343"
    by (rule sector_field_eq)
  from Cons obtain fs where "sector_fields c track skew buf ss = Some fs"
    "length fs = length ss * (if c then 396 else 377)" by auto
  with f show ?case by (auto simp: header_def code44_def header_end_no_D5 field_tail_def sector_gap_def)
qed

lemma search_wraps:
  assumes "img = pre @ J" "J \<noteq> []" "0xD5 \<notin> set J" "length J \<le> 48"
    "img = lead_gap c @ [0xD5, 0xAA, 0x96] @ rest"
  shows "\<exists>off s'. search_step img (length img) skew (length pre, s, dst) = Some (off, s', dst)"
proof -
  have l: "length (lead_gap c) \<le> 48" "0xD5 \<notin> set (lead_gap c)" by (auto simp: lead_gap_def)
  have "find_prologue img (length img) NIB_TRACK_SIZE (0, [0, 0, 0]) (length pre) =
      find_prologue img (length img) (NIB_TRACK_SIZE - length J) (0, [0, 0, 0]) 0"
    using find_gap [of img pre J "[]" NIB_TRACK_SIZE "[0, 0, 0]"] assms(1-4) by (simp add: NIB_TRACK_SIZE_def)
  also have "\<dots> = ([0xD5, 0xAA, 0x96], (length (lead_gap c) + 3) mod length img)"
    using find_next [of img "[]" "lead_gap c" "0xAA" "0x96" rest "NIB_TRACK_SIZE - length J"] l assms(4,5)
    by (simp add: NIB_TRACK_SIZE_def)
  finally have f: "find_prologue img (length img) NIB_TRACK_SIZE (0, [0, 0, 0]) (length pre) =
      ([0xD5, 0xAA, 0x96], (length (lead_gap c) + 3) mod length img)" .
  show ?thesis unfolding search_step_def prod.case f Let_def by simp
qed

lemma search_steps_add:
  "search_steps img w skew (m + n) s = search_steps img w skew m s \<bind> search_steps img w skew n"
proof (induction m arbitrary: s)
  case (Suc m)
  have "search_steps img w skew (m + n) = (\<lambda>s. search_steps img w skew m s \<bind> search_steps img w skew n)"
    using Suc.IH by (rule ext)
  then show ?case by simp
qed simp

lemma track_decode:
  assumes buf: "length buf = 4096" and dst: "length dst = 4096"
    and skew: "\<forall>s < 16. skew ! s < 16" "\<forall>k < 16. \<exists>s < 16. skew ! s = k"
  shows "\<exists>img. nibblize_track c track skew buf = Some img \<and>
    length img = (if c then NI2_TRACK_SIZE else 6040) \<and>
    denibblize_track img (length img) skew dst = Some buf"
proof -
  obtain fs where fs: "sector_fields c track skew buf [0..<16] = Some fs"
    "length fs = 16 * (if c then 396 else 377)"
    using sector_fields_Some [OF buf, of "[0..<16]" skew c track] skew(1) by (auto simp del: upt_rec_numeral)
  define img where "img = lead_gap c @ fs"
  have nib: "nibblize_track c track skew buf = Some img"
    using fs(1) by (simp add: nibblize_track_def img_def del: upt_rec_numeral)
  have len: "length img = (if c then NI2_TRACK_SIZE else 6040)"
    using fs(2) by (simp add: img_def lead_gap_def NI2_TRACK_SIZE_def)
  have lead: "lead_gap c \<noteq> []" "0xD5 \<notin> set (lead_gap c)" "length (lead_gap c) \<le> 48"
    by (auto simp: lead_gap_def)
  have "\<forall>s \<in> set [0..<16]. s < 16 \<and> skew ! s < 16" using skew(1) by (simp del: upt_rec_numeral)
  from search_sectors [OF fs(1) _ lead buf dst this, of img "[]" "[]" "-1"]
  obtain pre J s' dst' where r: "search_steps img (length img) skew (2 * length [0..<16]) (0, -1, dst) =
      Some (length pre, s', dst')" "img = pre @ J" "J \<noteq> []" "0xD5 \<notin> set J" "length J \<le> 48"
    "length dst' = 4096"
    "\<forall>i < 4096. dst ! i = buf ! i \<or> i div 256 \<in> (!) skew ` set [0..<16] \<longrightarrow> dst' ! i = buf ! i"
    by (auto simp: img_def)
  have "\<exists>rest. fs = [0xD5, 0xAA, 0x96] @ rest"
  proof -
    have "[0..<16] = 0 # [1..<16]" by (simp add: upt_conv_Cons)
    with fs(1) have "sector_fields c track skew buf (0 # [1..<16]) = Some fs" by simp
    then show ?thesis
      by (auto simp: sector_field_def address_field_def Let_def bind_eq_Some_conv simp del: upt_rec_numeral)
  qed
  then obtain rest where rest: "img = lead_gap c @ [0xD5, 0xAA, 0x96] @ rest" by (auto simp: img_def)
  obtain off s2 where last: "search_step img (length img) skew (length pre, s', dst') = Some (off, s2, dst')"
    using search_wraps [OF r(2-5) rest] by blast
  have "dst' = buf"
  proof (rule nth_equalityI)
    show "length dst' = length buf" using r(6) buf by simp
    fix i assume "i < length dst'"
    then have i: "i < 4096" using r(6) by simp
    then have "i div 256 < 16" by simp
    then obtain s where "s < 16" "skew ! s = i div 256" using skew(2) by metis
    then have "i div 256 \<in> (!) skew ` set [0..<16]" by (auto simp del: upt_rec_numeral intro!: image_eqI)
    with r(7) i show "dst' ! i = buf ! i" by blast
  qed
  moreover have "search_steps img (length img) skew (2 * NUM_SECTORS + 1) (0, -1, dst) = Some (off, s2, dst')"
    using r(1) last search_steps_add [of img "length img" skew 32 1 "(0, -1, dst)"]
    by (simp add: NUM_SECTORS_def)
  ultimately have "denibblize_track img (length img) skew dst = Some buf"
    by (simp add: denibblize_track_def)
  with nib len show ?thesis by blast
qed

lemma skew_tables_ok:
  "\<forall>s < 16. skew_table_6_po ! s < 16" "\<forall>k < 16. \<exists>s < 16. skew_table_6_po ! s = k"
  "\<forall>s < 16. skew_table_6_do ! s < 16" "\<forall>k < 16. \<exists>s < 16. skew_table_6_do ! s = k"
proof -
  have a: "(\<forall>s < 16. P s) = list_all P [0..<16]" and e: "(\<exists>s < 16. P s) = list_ex P [0..<16]" for P :: "nat \<Rightarrow> bool"
    by (auto simp: list_all_iff list_ex_iff)
  show "\<forall>s < 16. skew_table_6_po ! s < 16" "\<forall>k < 16. \<exists>s < 16. skew_table_6_po ! s = k"
    "\<forall>s < 16. skew_table_6_do ! s < 16" "\<forall>k < 16. \<exists>s < 16. skew_table_6_do ! s = k"
    unfolding a e by code_simp+
qed

section \<open>Guarantees\<close>

text \<open>C25: 6-and-2 encoding loses nothing: every 256 byte sector encodes to 343 nibbles, which decode,
  into any target buffer, to the same sector with no assertion failing.\<close>

theorem sector_roundtrip:
  assumes "length src = 256" and "length out = 256"
  shows "\<exists>nibs. nibblize_sector src = Some nibs \<and> length nibs = 343 \<and> denibblize_sector nibs out = Some src"
  by (rule sector_decode [OF assms])

theorem sector_roundtrip_witness:
  "\<exists>nibs. nibblize_sector (replicate 256 0xC5) = Some nibs \<and> length nibs = 343 \<and>
    denibblize_sector nibs (replicate 256 0) = Some (replicate 256 0xC5)"
  by (rule sector_roundtrip) simp_all

text \<open>C1: a whole track survives: for any sector interleave that is a permutation, in both builds
  (conformant and short gaps), nibblizing 4096 bytes gives a track of the expected width whose
  denibblizing finds all sixteen sectors and restores the 4096 bytes.\<close>

theorem track_roundtrip:
  assumes "length buf = 4096" and "length dst = 4096"
    and "\<forall>s < 16. skew ! s < 16" and "\<forall>k < 16. \<exists>s < 16. skew ! s = k"
  shows "\<exists>img. nibblize_track conformant track skew buf = Some img \<and>
    length img = (if conformant then NI2_TRACK_SIZE else 6040) \<and>
    denibblize_track img (length img) skew dst = Some buf"
  by (rule track_decode [OF assms])

theorem track_roundtrip_witness:
  "\<exists>img. nibblize_track True 17 skew_table_6_do (replicate 4096 0x42) = Some img \<and>
    length img = (if True then NI2_TRACK_SIZE else 6040) \<and>
    denibblize_track img (length img) skew_table_6_do (replicate 4096 0) = Some (replicate 4096 0x42)"
  by (rule track_roundtrip [OF _ _ skew_tables_ok(3,4)]) simp_all

end
