(* ===== verification/A2_Disk.thy ===== *)
theory A2_Disk
  imports A2_Nibble A2_Io
begin

text \<open>
  The Disk ][ controller and its two drives (\<^verbatim>\<open>disk.c\<close>, \<^verbatim>\<open>disk.h\<close>): images, the
  track buffers, the read/write latch, the stepper, and the softswitches of slot 6.  A failed
  assertion and an access outside a buffer are \<open>None\<close>.  What the operating system and zlib
  answer is an argument; animation and the motor's wall-clock time are left out.
\<close>

section \<open>File names\<close>

definition is_gz :: "string \<Rightarrow> bool" where
  "is_gz name = (let len = length name in
     if len \<le> 3 then False else take 3 (drop (len - 3) name) = ''.gz'')"

definition has_ext :: "string \<Rightarrow> string \<Rightarrow> bool" where
  "has_ext ext name = (let len = length name; n = length ext in
     if len \<le> n then False
     else if is_gz name \<and> len \<le> n + 3 then False
     else (let len = (if is_gz name then len - 3 else len)
           in take n (drop (len - n) name) = ext))"

definition is_nib :: "string \<Rightarrow> bool" where
  "is_nib name = has_ext ''.nib'' name"

definition is_po :: "string \<Rightarrow> bool" where
  "is_po name = has_ext ''.po'' name"

section \<open>State\<close>

definition NUM_TRACKS :: nat where "NUM_TRACKS = 35"
definition DSK_SIZE :: nat where "DSK_SIZE = NUM_TRACKS * DSK_TRACK_SIZE"
definition NIB_SIZE :: nat where "NIB_SIZE = NUM_TRACKS * NIB_TRACK_SIZE"
definition READONLY_FD :: int where "READONLY_FD = 0x00DEADFD"

lemmas disk_consts = NUM_TRACKS_def DSK_SIZE_def NIB_SIZE_def DSK_TRACK_SIZE_def NIB_TRACK_SIZE_def
  NI2_TRACK_SIZE_def

text \<open>
  \<open>raw_image_data\<close> is the mapped file (or the buffer of a read-only image), \<open>None\<close> for
  \<open>MAP_FAILED\<close>.  \<open>nib_image_data\<close> points into it for \<open>.nib\<close> images and to the drive's own
  buffer \<open>disk_a\<close> or \<open>disk_b\<close> otherwise.
\<close>

datatype nib_pointer = Nib_NULL | Nib_raw | Nib_own

record diskette =
  file_name :: "string option"
  dfd :: int
  raw_image_data :: "byte list option"
  whole_len :: nat
  nib_image_data :: nib_pointer
  own_buffer :: "byte list"
  nibblized :: bool
  is_protected :: bool
  track_valid :: bool
  track_dirty :: bool
  skew_table :: "nat list option"
  track_width :: nat
  phase :: nat
  run_byte :: nat

record drives =
  motor_off :: nat
  drive :: nat
  ddrw :: nat
  disk_byte :: byte
  disk :: "nat \<Rightarrow> diskette"
  stepper_phases :: nat

text \<open>Access to the current drive's entry of \<open>disk6.disk[2]\<close>.\<close>

definition on_disk :: "nat \<Rightarrow> (diskette \<Rightarrow> diskette option) \<Rightarrow> drives \<Rightarrow> drives option" where
  "on_disk i f s = (if i < 2 then (case f (disk s i) of None \<Rightarrow> None | Some d \<Rightarrow> Some (s\<lparr>disk := (disk s)(i := d)\<rparr>))
                    else None)"

definition init_disk6 :: "drives \<Rightarrow> drives" where
  "init_disk6 s =
    (let d = \<lparr>file_name = None, dfd = -1, raw_image_data = None, whole_len = 0, nib_image_data = Nib_NULL,
              own_buffer = [], nibblized = False, is_protected = False, track_valid = False,
              track_dirty = False, skew_table = None, track_width = 0, phase = 0, run_byte = 0\<rparr>
     in s\<lparr>motor_off := 0, drive := 0, ddrw := 0, disk_byte := 0,
          disk := (\<lambda>i. d\<lparr>own_buffer := own_buffer (disk s i)\<rparr>)\<rparr>)"

section \<open>Track data\<close>

text \<open>Reads and writes through \<open>nib_image_data\<close>.\<close>

definition nib_data :: "diskette \<Rightarrow> byte list option" where
  "nib_data d = (case nib_image_data d of Nib_NULL \<Rightarrow> None | Nib_raw \<Rightarrow> raw_image_data d
     | Nib_own \<Rightarrow> Some (own_buffer d))"

definition set_nib_data :: "byte list \<Rightarrow> diskette \<Rightarrow> diskette" where
  "set_nib_data bs d = (case nib_image_data d of Nib_NULL \<Rightarrow> d | Nib_raw \<Rightarrow> d\<lparr>raw_image_data := Some bs\<rparr>
     | Nib_own \<Rightarrow> d\<lparr>own_buffer := bs\<rparr>)"

definition splice :: "'a list \<Rightarrow> nat \<Rightarrow> 'a list \<Rightarrow> 'a list" where
  "splice xs n ys = take n xs @ ys @ drop (n + length ys) xs"

definition trk :: "diskette \<Rightarrow> nat" where
  "trk d = drop_bit 1 (phase d)"

definition load_track_data :: "bool \<Rightarrow> diskette \<Rightarrow> (nat \<times> diskette) option" where
  "load_track_data conformant d =
    (if nibblized d then Some (NIB_TRACK_SIZE, d)
     else do {
       raw \<leftarrow> raw_image_data d;
       skew \<leftarrow> skew_table d;
       let dskoff = DSK_TRACK_SIZE * trk d;
       let niboff = NIB_TRACK_SIZE * trk d;
       raw \<leftarrow> c_assert (dskoff + DSK_TRACK_SIZE \<le> length raw) raw;
       out \<leftarrow> nibblize_track conformant (of_nat (trk d)) skew (take DSK_TRACK_SIZE (drop dskoff raw));
       nib \<leftarrow> nib_data d;
       nib \<leftarrow> c_assert (niboff + length out \<le> length nib) nib;
       Some (length out, set_nib_data (splice nib niboff out) d) })"

definition save_track_data :: "diskette \<Rightarrow> diskette option" where
  "save_track_data d = do {
     d \<leftarrow> (if nibblized d then Some d
          else do {
            raw \<leftarrow> raw_image_data d;
            skew \<leftarrow> skew_table d;
            nib \<leftarrow> nib_data d;
            let niboff = NIB_TRACK_SIZE * trk d;
            let dskoff = DSK_TRACK_SIZE * trk d;
            raw \<leftarrow> c_assert (dskoff + DSK_TRACK_SIZE \<le> length raw \<and> niboff + track_width d \<le> length nib \<and>
                             0 < track_width d) raw;
            dst \<leftarrow> denibblize_track (take (track_width d) (drop niboff nib)) (track_width d) skew
                     (take DSK_TRACK_SIZE (drop dskoff raw));
            Some (d\<lparr>raw_image_data := Some (splice raw dskoff dst)\<rparr>) });
     Some (d\<lparr>track_dirty := False\<rparr>) }"

section \<open>The controller\<close>

definition reload_track :: "bool \<Rightarrow> diskette \<Rightarrow> (bool \<times> diskette) option" where
  "reload_track conformant d =
    (if track_valid d then Some (True, d)
     else do {
       d \<leftarrow> c_assert (\<not> track_dirty d) d;
       (width, d) \<leftarrow> load_track_data conformant d;
       if width \<noteq> track_width d then Some (False, d)
       else Some (True, d\<lparr>track_valid := True, run_byte := 0\<rparr>) })"

text \<open>The transfer of one nibble, up to the point where the head moves on.\<close>

definition transfer_byte :: "bool \<Rightarrow> drives \<Rightarrow> drives option" where
  "transfer_byte conformant s = do {
     s \<leftarrow> c_assert (drive s < 2) s;
     let d = disk s (drive s);
     if dfd d < 0 then Some (s\<lparr>disk_byte := 0xFF\<rparr>)
     else do {
       (ok, d) \<leftarrow> reload_track conformant d;
       let s = s\<lparr>disk := (disk s)(drive s := d)\<rparr>;
       if \<not> ok then Some (s\<lparr>disk_byte := 0xFF\<rparr>)
       else
         (let track_idx = NIB_TRACK_SIZE * trk d + run_byte d in
          if ddrw s \<noteq> 0 then
            (if is_protected d then Some s
             else if disk_byte s < 0x96 then Some s
             else do {
               nib \<leftarrow> nib_data d;
               nib \<leftarrow> c_assert (track_idx < length nib) nib;
               Some (s\<lparr>disk := (disk s)(drive s := (set_nib_data (nib[track_idx := disk_byte s]) d)\<lparr>track_dirty := True\<rparr>)\<rparr>) })
          else if motor_off s > 99 then Some (s\<lparr>disk_byte := 0xFF\<rparr>)
          else do {
            let s = (if motor_off s \<noteq> 0 then s\<lparr>motor_off := motor_off s + 1\<rparr> else s);
            nib \<leftarrow> nib_data d;
            b \<leftarrow> c_assert (track_idx < length nib) (nib ! track_idx);
            Some (s\<lparr>disk_byte := b\<rparr>) }) } }"

definition advance_head :: "diskette \<Rightarrow> diskette" where
  "advance_head d = (if run_byte d + 1 \<ge> track_width d then d\<lparr>run_byte := 0\<rparr> else d\<lparr>run_byte := run_byte d + 1\<rparr>)"

definition disk_readWriteByte :: "bool \<Rightarrow> drives \<Rightarrow> drives option" where
  "disk_readWriteByte conformant s = do {
     s \<leftarrow> transfer_byte conformant s;
     on_disk (drive s) (\<lambda>d. Some (advance_head d)) s }"

text \<open>
  The stepper: the magnet switch \<open>ea\<close> changes one of the four magnets, and the cog moves to an
  energised neighbour of the current phase, between phases 0 and 69.
\<close>

definition set_magnet :: "addr \<Rightarrow> nat \<Rightarrow> nat" where
  "set_magnet ea m =
    (let ph = unat (drop_bit 1 (ea AND 0xFF)) mod 4 in
     if odd (unat ea) then set_bit ph m else unset_bit ph m)"

definition step_direction :: "nat \<Rightarrow> nat \<Rightarrow> int" where
  "step_direction m cur_phase =
    (if bit m ((cur_phase + 1) mod 4) then 1 else 0) - (if bit m ((cur_phase + 3) mod 4) then 1 else 0)"

definition next_phase :: "nat \<Rightarrow> int \<Rightarrow> nat" where
  "next_phase cur_phase direction =
    (let next = int cur_phase + direction;
         next = (if next < 0 then 0 else next);
         next = (if next > 69 then 69 else next)
     in nat next)"

definition move_head :: "nat \<Rightarrow> diskette \<Rightarrow> diskette option" where
  "move_head m d =
    (let direction = step_direction m (phase d) in
     if direction = 0 then Some d
     else do {
       let next = next_phase (phase d) direction;
       d \<leftarrow> (if drop_bit 1 (phase d) \<noteq> drop_bit 1 next then do {
              d \<leftarrow> (if track_dirty d then save_track_data d else Some d);
              Some (d\<lparr>track_valid := False\<rparr>)
            } else Some d);
       Some (d\<lparr>phase := next\<rparr>) })"

definition disk6_phaseChange :: "addr \<Rightarrow> drives \<Rightarrow> drives option" where
  "disk6_phaseChange ea s =
    (let s = s\<lparr>stepper_phases := set_magnet ea (stepper_phases s)\<rparr>
     in on_disk (drive s) (move_head (stepper_phases s)) s)"

definition disk6_motorControl :: "addr \<Rightarrow> drives \<Rightarrow> drives" where
  "disk6_motorControl ea s = s\<lparr>motor_off := (if odd (unat ea) then 0 else 1)\<rparr>"

definition disk6_driveSelect :: "addr \<Rightarrow> drives \<Rightarrow> drives" where
  "disk6_driveSelect ea s = s\<lparr>drive := (if odd (unat ea) then 1 else 0)\<rparr>"

definition disk_readLatch :: "drives \<Rightarrow> drives option" where
  "disk_readLatch s =
    (if motor_off s = 0 \<and> ddrw s = 0 then
       c_assert (drive s < 2)
         (if is_protected (disk s (drive s)) then s\<lparr>disk_byte := disk_byte s OR 0x80\<rparr>
          else s\<lparr>disk_byte := disk_byte s AND 0x7F\<rparr>)
     else Some s)"

definition disk_modeSelect :: "addr \<Rightarrow> drives \<Rightarrow> drives" where
  "disk_modeSelect ea s = s\<lparr>ddrw := (if odd (unat ea) then 1 else 0)\<rparr>"

text \<open>
  \<open>disk6_ioRead\<close>; the result \<open>None\<close> of the pair stands for the floating bus, which odd
  addresses return.
\<close>

definition disk6_access :: "bool \<Rightarrow> bool \<Rightarrow> addr \<Rightarrow> drives \<Rightarrow> drives option" where
  "disk6_access conformant reading ea s =
    (let sw = unat (ea AND 0xf) in
     if sw \<le> 0x7 then disk6_phaseChange ea s
     else if sw = 0x8 \<or> sw = 0x9 then Some (disk6_motorControl ea s)
     else if sw = 0xA \<or> sw = 0xB then Some (disk6_driveSelect ea s)
     else if sw = 0xC then disk_readWriteByte conformant s
     else if sw = 0xD then (if reading then disk_readLatch s else Some s)
     else Some (disk_modeSelect ea s))"

definition disk6_ioRead :: "bool \<Rightarrow> addr \<Rightarrow> drives \<Rightarrow> (byte option \<times> drives) option" where
  "disk6_ioRead conformant ea s = do {
     s \<leftarrow> disk6_access conformant True ea s;
     Some (if odd (unat ea) then None else Some (disk_byte s), s) }"

definition disk6_ioWrite :: "bool \<Rightarrow> addr \<Rightarrow> byte \<Rightarrow> drives \<Rightarrow> drives option" where
  "disk6_ioWrite conformant ea b s = do {
     s \<leftarrow> disk6_access conformant False ea s;
     Some (if ddrw s \<noteq> 0 then s\<lparr>disk_byte := b\<rparr> else s) }"

section \<open>Flush, eject, insert\<close>

definition flush_disk :: "diskette \<Rightarrow> diskette option" where
  "flush_disk d =
    (if dfd d < 0 then Some d
     else if is_protected d then Some d
     else if raw_image_data d = None then Some d
     else if track_dirty d then save_track_data d
     else Some d)"

definition disk6_flush :: "nat \<Rightarrow> drives \<Rightarrow> drives option" where
  "disk6_flush i s = on_disk i flush_disk s"

text \<open>\<open>disk6_init\<close> also copies the slot ROM into main memory, which the machine model does.\<close>

definition disk6_init :: "drives \<Rightarrow> drives option" where
  "disk6_init s = do {
     s \<leftarrow> disk6_flush 0 s;
     s \<leftarrow> disk6_flush 1 s;
     let fresh = (\<lambda>d. d\<lparr>phase := 0, run_byte := 0, track_valid := False, track_dirty := False\<rparr>);
     Some (s\<lparr>stepper_phases := 0, disk := (\<lambda>i. if i < 2 then fresh (disk s i) else disk s i),
             motor_off := 1, drive := 0, ddrw := 0, disk_byte := 0\<rparr>) }"

text \<open>
  \<open>deflate\<close> is zlib's compressor, \<open>None\<close> when it reports an error or no size.  The second
  component of the result is what the image file holds after the eject.
\<close>

definition eject_disk :: "(byte list \<Rightarrow> byte list option) \<Rightarrow> diskette \<Rightarrow> (byte list option \<times> diskette) option" where
  "eject_disk deflate d = do {
     (left, d) \<leftarrow>
       (if dfd d > 0 \<and> \<not> is_protected d then do {
          d \<leftarrow> flush_disk d;
          (case raw_image_data d of
             None \<Rightarrow> Some (None, d)
           | Some raw \<Rightarrow>
               (if (case file_name d of Some n \<Rightarrow> is_gz n | None \<Rightarrow> False) then
                  (case deflate raw of
                     None \<Rightarrow> Some (Some raw, d)
                   | Some z \<Rightarrow> c_assert (length z < whole_len d) (Some z, d))
                else Some (Some raw, d)))
        } else Some (None, d));
     Some (left, d\<lparr>file_name := None, dfd := -1, raw_image_data := None, whole_len := 0,
       nib_image_data := Nib_NULL, nibblized := False, is_protected := False, track_valid := False,
       track_dirty := False, skew_table := None, track_width := 0\<rparr>) }"

definition disk6_eject :: "(byte list \<Rightarrow> byte list option) \<Rightarrow> nat \<Rightarrow> drives \<Rightarrow> drives option" where
  "disk6_eject deflate i s = on_disk i (\<lambda>d. map_option snd (eject_disk deflate d)) s"

datatype disk_error = ERR_CANNOT_DUP | ERR_INFLATE | ERR_MMAP_FAILED

text \<open>
  What the operating system and zlib answer when an image is opened: the duplicated descriptor,
  whether inflating failed, whether mapping it worked, and the bytes then found in the image.
\<close>

record open_env =
  env_dup :: "int option"
  env_inflate_ok :: bool
  env_mmap_ok :: bool
  env_image :: "byte list"

definition open_image :: "open_env \<Rightarrow> bool \<Rightarrow> diskette \<Rightarrow> disk_error option \<times> bool \<times> diskette" where
  "open_image env readonly d =
    (if readonly then
       (if env_inflate_ok env then None else Some ERR_INFLATE, True,
        d\<lparr>dfd := READONLY_FD, raw_image_data := Some (env_image env)\<rparr>)
     else (case env_dup env of
         None \<Rightarrow> (Some ERR_CANNOT_DUP, False, d)
       | Some fd \<Rightarrow>
           (let d = d\<lparr>dfd := fd\<rparr> in
            if \<not> env_inflate_ok env then (Some ERR_INFLATE, False, d)
            else if \<not> env_mmap_ok env then (Some ERR_MMAP_FAILED, False, d\<lparr>raw_image_data := None\<rparr>)
            else (None, True, d\<lparr>raw_image_data := Some (env_image env)\<rparr>))))"

text \<open>Nibblizing the tracks \<open>trks\<close> of an image in turn; all must come out equally wide.\<close>

fun load_all_tracks :: "bool \<Rightarrow> nat list \<Rightarrow> diskette \<Rightarrow> diskette option" where
  "load_all_tracks conformant [] d = Some d"
| "load_all_tracks conformant (t # ts) d = do {
     (width, d) \<leftarrow> load_track_data conformant (d\<lparr>phase := push_bit 1 t\<rparr>);
     d \<leftarrow> c_assert (width \<le> NIB_TRACK_SIZE) d;
     d \<leftarrow> (if track_width d = 0 then Some (d\<lparr>track_width := width\<rparr>)
          else c_assert (track_width d = width) d);
     load_all_tracks conformant ts d }"

definition prepare_image :: "string \<Rightarrow> bool \<Rightarrow> diskette \<Rightarrow> diskette" where
  "prepare_image name readonly d =
    (let nib = is_nib name;
         d = d\<lparr>file_name := Some name, nibblized := nib,
               whole_len := (if nib then NIB_SIZE else DSK_SIZE), is_protected := readonly\<rparr>
     in if nib then d
        else d\<lparr>skew_table := Some (if is_po name then skew_table_6_po else skew_table_6_do)\<rparr>)"

definition insert_disk ::
    "bool \<Rightarrow> (byte list \<Rightarrow> byte list option) \<Rightarrow> open_env \<Rightarrow> string \<Rightarrow> bool \<Rightarrow> diskette \<Rightarrow>
     (disk_error option \<times> diskette) option" where
  "insert_disk conformant deflate env name readonly d = do {
     (_, d) \<leftarrow> eject_disk deflate d;
     let (err, opened, d) = open_image env readonly (prepare_image name readonly d);
     d \<leftarrow> (if opened then do {
            let d = d\<lparr>nib_image_data := Nib_raw, track_width := NIB_TRACK_SIZE\<rparr>;
            let lastphase = phase d;
            d \<leftarrow> (if nibblized d then Some d
                 else load_all_tracks conformant [0..<NUM_TRACKS]
                        (d\<lparr>nib_image_data := Nib_own, track_width := 0\<rparr>));
            Some (d\<lparr>phase := lastphase\<rparr>)
          } else Some d);
     if err = None then Some (None, d)
     else do {
       (_, d) \<leftarrow> eject_disk deflate d;
       Some (err, d) } }"

definition disk6_insert ::
    "bool \<Rightarrow> (byte list \<Rightarrow> byte list option) \<Rightarrow> open_env \<Rightarrow> nat \<Rightarrow> string \<Rightarrow> bool \<Rightarrow> drives \<Rightarrow> drives option" where
  "disk6_insert conformant deflate env i name readonly s =
     on_disk i (\<lambda>d. map_option snd (insert_disk conformant deflate env name readonly d)) s"

end
