(* ===== verification/A2_VM.thy ===== *)
theory A2_VM
  imports A2_Switches A2_Video A2_Disk
begin

text \<open>
  The virtual machine's softswitches (\<^verbatim>\<open>vm.c\<close>): the state of the //e's memory
  management, one definition per handler of a switch in \<open>$C000\<close>--\<open>$C0FF\<close>, and the two dispatchers
  \<open>read_softswitch\<close> and \<open>write_softswitch\<close>.

  The base pointers of the banks are offsets into the memory arrays: the code forms
  \<^verbatim>\<open>language_banks[0]-0xD000\<close> and indexes it with the CPU's address.  A handler that
  fails an assertion is \<open>None\<close>.  What the speaker, the font loader and the Mockingboard do with an
  access is recorded or left to parameters.
\<close>

section \<open>State\<close>

datatype region = Apple_ii_64k | Language_card | Language_banks

text \<open>\<open>Obj r n\<close> points \<open>n\<close> bytes from the start of an array, \<open>Raw 0\<close> is the null pointer, and
  \<open>Peripheral_card\<close> the function \<open>iie_read_peripheral_card\<close>.\<close>

datatype pointer = Obj region int | Raw int | Peripheral_card

datatype font_mode = FONT_MODE_NORMAL | FONT_MODE_MOUSETEXT | FONT_MODE_INVERSE | FONT_MODE_FLASH

datatype glyphs = Ucase_glyphs | Lcase_glyphs | Mousetext_glyphs

datatype vm_event =
    Load_font nat nat glyphs font_mode
  | Speaker_toggled
  | Mockingboard_written addr byte

record vm =
  softswitches :: u32
  cpu65_rw :: byte
  base_ramrd :: pointer
  base_ramwrt :: pointer
  base_textrd :: pointer
  base_textwrt :: pointer
  base_hgrrd :: pointer
  base_hgrwrt :: pointer
  base_stackzp :: pointer
  base_d000_rd :: pointer
  base_d000_wrt :: pointer
  base_e000_rd :: pointer
  base_e000_wrt :: pointer
  base_c3rom :: pointer
  base_c4rom :: pointer
  base_c5rom :: pointer
  base_cxrom :: pointer
  apple_ii_64k :: ram
  language_card :: ram
  language_banks :: ram
  joy_button0 :: byte
  joy_button1 :: byte
  joy_x :: nat
  joy_y :: nat
  gc_cycles_timer_0 :: int
  gc_cycles_timer_1 :: int
  vid :: video
  disk6 :: drives
  vm_log :: "vm_event list"

text \<open>\<open>apple_ii_64k[b]\<close> as a base pointer, and main and auxiliary memory as arrays.\<close>

definition bank64k :: "nat \<Rightarrow> pointer" where
  "bank64k b = Obj Apple_ii_64k (65536 * int b)"

definition main_ram :: "vm \<Rightarrow> ram" where
  "main_ram s = apple_ii_64k s"

definition aux_ram :: "vm \<Rightarrow> ram" where
  "aux_ram s = (\<lambda>i. apple_ii_64k s (65536 + i))"

text \<open>Pointer arithmetic, \<open>p += n\<close>.\<close>

fun ptr_add :: "int \<Rightarrow> pointer \<Rightarrow> pointer" where
  "ptr_add n (Obj r k) = Obj r (k + n)"
| "ptr_add n (Raw k) = Raw (k + n)"
| "ptr_add n Peripheral_card = Peripheral_card"

definition MEM_WRITE_FLAG :: byte where "MEM_WRITE_FLAG = 0x2"

abbreviation ss :: "vm \<Rightarrow> u32 \<Rightarrow> bool" where
  "ss s f \<equiv> flag_on (softswitches s) f"

definition set_switch :: "u32 \<Rightarrow> vm \<Rightarrow> vm" where
  "set_switch f s = s\<lparr>softswitches := softswitches s OR f\<rparr>"

definition clear_switch :: "u32 \<Rightarrow> vm \<Rightarrow> vm" where
  "clear_switch f s = s\<lparr>softswitches := softswitches s AND NOT f\<rparr>"

definition vm_emit :: "vm_event \<Rightarrow> vm \<Rightarrow> vm" where
  "vm_emit e s = s\<lparr>vm_log := vm_log s @ [e]\<rparr>"

text \<open>The video routines on the machine's state.\<close>

type_synonym handler = "vm \<Rightarrow> (byte \<times> vm) option"

definition set_dirty :: "vm \<Rightarrow> vm option" where
  "set_dirty s = (case video_setDirty A2_DIRTY_FLAG (softswitches s) (main_ram s) (aux_ram s) (vid s) of
     None \<Rightarrow> None | Some v \<Rightarrow> Some (s\<lparr>vid := v\<rparr>))"

definition floating_bus :: handler where
  "floating_bus s = (case video_floating_bus (softswitches s) (main_ram s) (vid s) of
     None \<Rightarrow> None | Some (b, v) \<Rightarrow> Some (b, s\<lparr>vid := v\<rparr>))"

definition write_flag_set :: "vm \<Rightarrow> bool" where
  "write_flag_set s \<longleftrightarrow> cpu65_rw s AND MEM_WRITE_FLAG \<noteq> 0"

section \<open>Keyboard and display switches\<close>

definition read_keyboard_strobe :: handler where
  "read_keyboard_strobe s =
    (let s = s\<lparr>apple_ii_64k := (apple_ii_64k s)(0xC000 := apple_ii_64k s 0xC000 AND 0x7F)\<rparr>;
         s = s\<lparr>apple_ii_64k := (apple_ii_64k s)(65536 + 0xC000 := apple_ii_64k s (65536 + 0xC000) AND 0x7F)\<rparr>
     in Some (apple_ii_64k s 0xC000, s))"

definition iie_page2_off :: handler where
  "iie_page2_off s =
    (if \<not> ss s SS_PAGE2 then floating_bus s
     else do {
       s \<leftarrow> set_dirty s;
       let s = clear_switch (SS_PAGE2 OR SS_SCREEN) s;
       let s =
         (if ss s SS_80STORE then
            (let s = clear_switch (SS_TEXTRD OR SS_TEXTWRT) s;
                 s = s\<lparr>base_textrd := bank64k 0, base_textwrt := bank64k 0\<rparr>
             in if ss s SS_HIRES then
                  (let s = clear_switch (SS_HGRRD OR SS_HGRWRT) s
                   in s\<lparr>base_hgrrd := bank64k 0, base_hgrwrt := bank64k 0\<rparr>)
                else s)
          else s);
       floating_bus s })"

definition iie_page2_on :: handler where
  "iie_page2_on s =
    (if ss s SS_PAGE2 then floating_bus s
     else do {
       s \<leftarrow> set_dirty s;
       let s = set_switch SS_PAGE2 s;
       let s =
         (if ss s SS_80STORE then
            (let s = set_switch (SS_TEXTRD OR SS_TEXTWRT) s;
                 s = s\<lparr>base_textrd := bank64k 1, base_textwrt := bank64k 1\<rparr>
             in if ss s SS_HIRES then
                  (let s = set_switch (SS_HGRRD OR SS_HGRWRT) s
                   in s\<lparr>base_hgrrd := bank64k 1, base_hgrwrt := bank64k 1\<rparr>)
                else s)
          else set_switch SS_SCREEN s);
       floating_bus s })"

definition read_switch_graphics :: handler where
  "read_switch_graphics s = do {
     s \<leftarrow> (if ss s SS_TEXT then do { s \<leftarrow> set_dirty s; Some (clear_switch SS_TEXT s) } else Some s);
     floating_bus s }"

definition read_switch_text :: handler where
  "read_switch_text s = do {
     s \<leftarrow> (if \<not> ss s SS_TEXT then do { s \<leftarrow> set_dirty s; Some (set_switch SS_TEXT s) } else Some s);
     floating_bus s }"

definition read_switch_no_mixed :: handler where
  "read_switch_no_mixed s = do {
     s \<leftarrow> (if ss s SS_MIXED then do { s \<leftarrow> set_dirty s; Some (clear_switch SS_MIXED s) } else Some s);
     floating_bus s }"

definition read_switch_mixed :: handler where
  "read_switch_mixed s = do {
     s \<leftarrow> (if \<not> ss s SS_MIXED then do { s \<leftarrow> set_dirty s; Some (set_switch SS_MIXED s) } else Some s);
     floating_bus s }"

definition iie_annunciator :: "addr \<Rightarrow> handler" where
  "iie_annunciator ea s = floating_bus s"

definition iie_hires_off :: handler where
  "iie_hires_off s =
    (if \<not> ss s SS_HIRES then floating_bus s
     else do {
       s \<leftarrow> set_dirty s;
       let s = clear_switch (SS_HIRES OR SS_HGRRD OR SS_HGRWRT) s;
       let s = s\<lparr>base_hgrrd := bank64k 0, base_hgrwrt := bank64k 0\<rparr>;
       let s = (if ss s SS_RAMRD then set_switch SS_HGRRD (s\<lparr>base_hgrrd := bank64k 1\<rparr>) else s);
       let s = (if ss s SS_RAMWRT then set_switch SS_HGRWRT (s\<lparr>base_hgrwrt := bank64k 1\<rparr>) else s);
       floating_bus s })"

definition iie_hires_on :: handler where
  "iie_hires_on s =
    (if ss s SS_HIRES then floating_bus s
     else do {
       s \<leftarrow> set_dirty s;
       let s = set_switch SS_HIRES s;
       let s =
         (if ss s SS_80STORE then
            (if ss s SS_PAGE2 then
               (let s = set_switch (SS_HGRRD OR SS_HGRWRT) s
                in s\<lparr>base_hgrrd := bank64k 1, base_hgrwrt := bank64k 1\<rparr>)
             else
               (let s = clear_switch (SS_HGRRD OR SS_HGRWRT) s
                in s\<lparr>base_hgrrd := bank64k 0, base_hgrwrt := bank64k 0\<rparr>))
          else s);
       floating_bus s })"

section \<open>Game controller\<close>

text \<open>
  \<open>(int)(n * JOY_STEP_CYCLES)\<close>, where \<open>JOY_STEP_CYCLES\<close> is the double nearest to
  \<open>(3300 / 256) / (CLK_6502 / 1000000)\<close>, about 12.63, and the conversion truncates.
\<close>

definition joy_cycles :: "int \<Rightarrow> int" where
  "joy_cycles n = trunc_div (n * 7111109576459319) (2 ^ 49)"

definition read_button0 :: handler where
  "read_button0 s = do {
     (b0, s) \<leftarrow> floating_bus s;
     Some ((b0 AND NOT 0x80) OR (joy_button0 s AND 0x80), s) }"

definition read_button1 :: handler where
  "read_button1 s = do {
     (b0, s) \<leftarrow> floating_bus s;
     Some ((b0 AND NOT 0x80) OR (joy_button1 s AND 0x80), s) }"

definition read_button2 :: handler where
  "read_button2 s = do {
     (b, s) \<leftarrow> floating_bus s;
     Some ((b AND NOT 0x80) OR (joy_button0 s AND 0x80) OR (joy_button1 s AND 0x80), s) }"

definition read_gc_strobe :: handler where
  "read_gc_strobe s =
    (let s = (if gc_cycles_timer_0 s \<le> 0 then s\<lparr>gc_cycles_timer_0 := joy_cycles (int (joy_x s) - 5)\<rparr> else s);
         s = (if gc_cycles_timer_1 s \<le> 0 then s\<lparr>gc_cycles_timer_1 := joy_cycles (int (joy_y s)) + 2\<rparr> else s)
     in floating_bus s)"

definition read_gc0 :: handler where
  "read_gc0 s = (if gc_cycles_timer_0 s \<le> 0 then Some (0, s\<lparr>gc_cycles_timer_0 := 0\<rparr>) else Some (0xFF, s))"

definition read_gc1 :: handler where
  "read_gc1 s = (if gc_cycles_timer_1 s \<le> 0 then Some (0, s\<lparr>gc_cycles_timer_1 := 0\<rparr>) else Some (0xFF, s))"

definition iie_read_gc2 :: handler where "iie_read_gc2 s = floating_bus s"

definition iie_read_gc3 :: handler where "iie_read_gc3 s = floating_bus s"

section \<open>Language card\<close>

definition lc_to_auxmem :: "vm \<Rightarrow> vm" where
  "lc_to_auxmem s =
    (let s = (if ss s SS_LCRAM then
                s\<lparr>base_d000_rd := ptr_add 0x2000 (base_d000_rd s), base_e000_rd := Obj Language_card (- 0xC000)\<rparr>
              else s)
     in if ss s SS_LCWRT then
          s\<lparr>base_d000_wrt := ptr_add 0x2000 (base_d000_wrt s), base_e000_wrt := Obj Language_card (- 0xC000)\<rparr>
        else s)"

definition iie_c080 :: handler where
  "iie_c080 s =
    (let s = set_switch (SS_LCRAM OR SS_BANK2) s;
         s = clear_switch (SS_LCSEC OR SS_LCWRT) s;
         s = s\<lparr>base_d000_rd := Obj Language_banks (- 0xD000), base_e000_rd := Obj Language_card (- 0xE000)\<rparr>;
         s = s\<lparr>base_d000_wrt := Raw 0, base_e000_wrt := Raw 0\<rparr>;
         s = (if ss s SS_ALTZP then lc_to_auxmem s else s)
     in floating_bus s)"

definition iie_c081 :: handler where
  "iie_c081 s =
    (let s = (if ss s SS_LCSEC then
                (set_switch SS_LCWRT s)\<lparr>base_d000_wrt := Obj Language_banks (- 0xD000), base_e000_wrt := Obj Language_card (- 0xE000)\<rparr>
              else s);
         s = set_switch (SS_LCSEC OR SS_BANK2) s;
         s = clear_switch SS_LCRAM s;
         s = s\<lparr>base_d000_rd := bank64k 0, base_e000_rd := bank64k 0\<rparr>;
         s = (if ss s SS_ALTZP then lc_to_auxmem s else s)
     in floating_bus s)"

definition lc_c082 :: handler where
  "lc_c082 s =
    (let s = clear_switch (SS_LCRAM OR SS_LCWRT OR SS_LCSEC) s;
         s = set_switch SS_BANK2 s;
         s = s\<lparr>base_d000_rd := bank64k 0, base_e000_rd := bank64k 0\<rparr>;
         s = s\<lparr>base_d000_wrt := Raw 0, base_e000_wrt := Raw 0\<rparr>
     in floating_bus s)"

definition iie_c083 :: handler where
  "iie_c083 s =
    (let s = (if ss s SS_LCSEC then
                (set_switch SS_LCWRT s)\<lparr>base_d000_wrt := Obj Language_banks (- 0xD000), base_e000_wrt := Obj Language_card (- 0xE000)\<rparr>
              else s);
         s = set_switch (SS_LCSEC OR SS_LCRAM OR SS_BANK2) s;
         s = s\<lparr>base_d000_rd := Obj Language_banks (- 0xD000), base_e000_rd := Obj Language_card (- 0xE000)\<rparr>;
         s = (if ss s SS_ALTZP then lc_to_auxmem s else s)
     in floating_bus s)"

definition iie_c088 :: handler where
  "iie_c088 s =
    (let s = set_switch SS_LCRAM s;
         s = clear_switch (SS_LCWRT OR SS_LCSEC OR SS_BANK2) s;
         s = s\<lparr>base_d000_rd := Obj Language_banks (- 0xC000), base_e000_rd := Obj Language_card (- 0xE000)\<rparr>;
         s = s\<lparr>base_d000_wrt := Raw 0, base_e000_wrt := Raw 0\<rparr>;
         s = (if ss s SS_ALTZP then lc_to_auxmem s else s)
     in floating_bus s)"

definition iie_c089 :: handler where
  "iie_c089 s =
    (let s = (if ss s SS_LCSEC then
                (set_switch SS_LCWRT s)\<lparr>base_d000_wrt := Obj Language_banks (- 0xC000), base_e000_wrt := Obj Language_card (- 0xE000)\<rparr>
              else s);
         s = set_switch SS_LCSEC s;
         s = clear_switch (SS_LCRAM OR SS_BANK2) s;
         s = s\<lparr>base_d000_rd := bank64k 0, base_e000_rd := bank64k 0\<rparr>;
         s = (if ss s SS_ALTZP then lc_to_auxmem s else s)
     in floating_bus s)"

definition lc_c08a :: handler where
  "lc_c08a s =
    (let s = clear_switch (SS_LCRAM OR SS_LCWRT OR SS_LCSEC OR SS_BANK2) s;
         s = s\<lparr>base_d000_rd := bank64k 0, base_e000_rd := bank64k 0\<rparr>;
         s = s\<lparr>base_d000_wrt := Raw 0, base_e000_wrt := Raw 0\<rparr>
     in floating_bus s)"

definition iie_c08b :: handler where
  "iie_c08b s =
    (let s = (if ss s SS_LCSEC then
                (set_switch SS_LCWRT s)\<lparr>base_d000_wrt := Obj Language_banks (- 0xC000), base_e000_wrt := Obj Language_card (- 0xE000)\<rparr>
              else s);
         s = set_switch (SS_LCRAM OR SS_LCSEC) s;
         s = clear_switch SS_BANK2 s;
         s = s\<lparr>base_d000_rd := Obj Language_banks (- 0xC000), base_e000_rd := Obj Language_card (- 0xE000)\<rparr>;
         s = (if ss s SS_ALTZP then lc_to_auxmem s else s)
     in floating_bus s)"

section \<open>The //e's own switches\<close>

text \<open>These are only reached by writes, which the code asserts.\<close>

definition iie_80store_off :: handler where
  "iie_80store_off s = do {
     s \<leftarrow> c_assert (write_flag_set s) s;
     if \<not> ss s SS_80STORE then Some (0, s)
     else do {
       s \<leftarrow> set_dirty s;
       let s = clear_switch (SS_80STORE OR SS_TEXTRD OR SS_TEXTWRT OR SS_HGRRD OR SS_HGRWRT) s;
       let s = s\<lparr>base_textrd := bank64k 0, base_textwrt := bank64k 0, base_hgrrd := bank64k 0, base_hgrwrt := bank64k 0\<rparr>;
       let s = (if ss s SS_RAMRD then
                  (set_switch (SS_TEXTRD OR SS_HGRRD) s)\<lparr>base_textrd := bank64k 1, base_hgrrd := bank64k 1\<rparr> else s);
       let s = (if ss s SS_RAMWRT then
                  (set_switch (SS_TEXTWRT OR SS_HGRWRT) s)\<lparr>base_textwrt := bank64k 1, base_hgrwrt := bank64k 1\<rparr> else s);
       let s = (if ss s SS_PAGE2 then set_switch SS_SCREEN s else s);
       Some (0, s) } }"

definition iie_80store_on :: handler where
  "iie_80store_on s = do {
     s \<leftarrow> c_assert (write_flag_set s) s;
     if ss s SS_80STORE then Some (0, s)
     else do {
       s \<leftarrow> set_dirty s;
       let s = set_switch SS_80STORE s;
       let s =
         (if ss s SS_PAGE2 then
            (let s = (set_switch (SS_TEXTRD OR SS_TEXTWRT) s)\<lparr>base_textrd := bank64k 1, base_textwrt := bank64k 1\<rparr>
             in if ss s SS_HIRES then
                  (set_switch (SS_HGRRD OR SS_HGRWRT) s)\<lparr>base_hgrrd := bank64k 1, base_hgrwrt := bank64k 1\<rparr>
                else s)
          else
            (let s = (clear_switch (SS_TEXTRD OR SS_TEXTWRT) s)\<lparr>base_textrd := bank64k 0, base_textwrt := bank64k 0\<rparr>
             in if ss s SS_HIRES then
                  (clear_switch (SS_HGRRD OR SS_HGRWRT) s)\<lparr>base_hgrrd := bank64k 0, base_hgrwrt := bank64k 0\<rparr>
                else s));
       let s = clear_switch SS_SCREEN s;
       Some (0, s) } }"

definition iie_ramrd_main :: handler where
  "iie_ramrd_main s = do {
     s \<leftarrow> c_assert (write_flag_set s) s;
     if \<not> ss s SS_RAMRD then Some (0, s)
     else do {
       s \<leftarrow> set_dirty s;
       let s = (clear_switch SS_RAMRD s)\<lparr>base_ramrd := bank64k 0\<rparr>;
       let s =
         (if ss s SS_80STORE then
            (if \<not> ss s SS_HIRES then (clear_switch SS_HGRRD s)\<lparr>base_hgrrd := bank64k 0\<rparr> else s)
          else (clear_switch (SS_TEXTRD OR SS_HGRRD) s)\<lparr>base_textrd := bank64k 0, base_hgrrd := bank64k 0\<rparr>);
       Some (0, s) } }"

definition iie_ramrd_aux :: handler where
  "iie_ramrd_aux s = do {
     s \<leftarrow> c_assert (write_flag_set s) s;
     if ss s SS_RAMRD then Some (0, s)
     else do {
       s \<leftarrow> set_dirty s;
       let s = (set_switch SS_RAMRD s)\<lparr>base_ramrd := bank64k 1\<rparr>;
       let s =
         (if ss s SS_80STORE then
            (if \<not> ss s SS_HIRES then (set_switch SS_HGRRD s)\<lparr>base_hgrrd := bank64k 1\<rparr> else s)
          else (set_switch (SS_TEXTRD OR SS_HGRRD) s)\<lparr>base_textrd := bank64k 1, base_hgrrd := bank64k 1\<rparr>);
       Some (0, s) } }"

definition iie_ramwrt_main :: handler where
  "iie_ramwrt_main s = do {
     s \<leftarrow> c_assert (write_flag_set s) s;
     if \<not> ss s SS_RAMWRT then Some (0, s)
     else (let s = (clear_switch SS_RAMWRT s)\<lparr>base_ramwrt := bank64k 0\<rparr>;
               s = (if ss s SS_80STORE then
                      (if \<not> ss s SS_HIRES then (clear_switch SS_HGRWRT s)\<lparr>base_hgrwrt := bank64k 0\<rparr> else s)
                    else (clear_switch (SS_TEXTWRT OR SS_HGRWRT) s)\<lparr>base_textwrt := bank64k 0, base_hgrwrt := bank64k 0\<rparr>)
           in Some (0, s)) }"

definition iie_ramwrt_aux :: handler where
  "iie_ramwrt_aux s = do {
     s \<leftarrow> c_assert (write_flag_set s) s;
     if ss s SS_RAMWRT then Some (0, s)
     else (let s = (set_switch SS_RAMWRT s)\<lparr>base_ramwrt := bank64k 1\<rparr>;
               s = (if ss s SS_80STORE then
                      (if \<not> ss s SS_HIRES then (set_switch SS_HGRWRT s)\<lparr>base_hgrwrt := bank64k 1\<rparr> else s)
                    else (set_switch (SS_TEXTWRT OR SS_HGRWRT) s)\<lparr>base_textwrt := bank64k 1, base_hgrwrt := bank64k 1\<rparr>)
           in Some (0, s)) }"

definition iie_altzp_main :: handler where
  "iie_altzp_main s = do {
     s \<leftarrow> c_assert (write_flag_set s) s;
     if \<not> ss s SS_ALTZP then Some (0, s)
     else (let s = (clear_switch SS_ALTZP s)\<lparr>base_stackzp := bank64k 0\<rparr>;
               s = (if ss s SS_LCRAM then
                      s\<lparr>base_d000_rd := ptr_add (- 0x2000) (base_d000_rd s), base_e000_rd := Obj Language_card (- 0xE000)\<rparr>
                    else s);
               s = (if ss s SS_LCWRT then
                      s\<lparr>base_d000_wrt := ptr_add (- 0x2000) (base_d000_wrt s), base_e000_wrt := Obj Language_card (- 0xE000)\<rparr>
                    else s)
           in Some (0, s)) }"

definition iie_altzp_aux :: handler where
  "iie_altzp_aux s = do {
     s \<leftarrow> c_assert (write_flag_set s) s;
     if ss s SS_ALTZP then Some (0, s)
     else (let s = (set_switch SS_ALTZP s)\<lparr>base_stackzp := bank64k 1\<rparr>;
               s = lc_to_auxmem s
           in Some (0, s)) }"

definition iie_80col_off :: handler where
  "iie_80col_off s = do {
     s \<leftarrow> c_assert (write_flag_set s) s;
     if \<not> ss s SS_80COL then Some (0, s)
     else do { s \<leftarrow> set_dirty s; Some (0, clear_switch SS_80COL s) } }"

definition iie_80col_on :: handler where
  "iie_80col_on s = do {
     s \<leftarrow> c_assert (write_flag_set s) s;
     if ss s SS_80COL then Some (0, s)
     else do { s \<leftarrow> set_dirty s; Some (0, set_switch SS_80COL s) } }"

definition iie_altchar_off :: handler where
  "iie_altchar_off s = do {
     s \<leftarrow> c_assert (write_flag_set s) s;
     s \<leftarrow> (if ss s SS_ALTCHAR then do {
            s \<leftarrow> set_dirty s;
            let s = clear_switch SS_ALTCHAR s;
            Some (vm_emit (Load_font 0x40 0x40 Ucase_glyphs FONT_MODE_FLASH) s)
          } else Some s);
     Some (0, s) }"

definition iie_altchar_on :: handler where
  "iie_altchar_on s = do {
     s \<leftarrow> c_assert (write_flag_set s) s;
     s \<leftarrow> (if \<not> ss s SS_ALTCHAR then do {
            s \<leftarrow> set_dirty s;
            let s = set_switch SS_ALTCHAR s;
            let s = vm_emit (Load_font 0x40 0x20 Mousetext_glyphs FONT_MODE_MOUSETEXT) s;
            Some (vm_emit (Load_font 0x60 0x20 Lcase_glyphs FONT_MODE_INVERSE) s)
          } else Some s);
     Some (0, s) }"

definition iie_dhires_on :: handler where
  "iie_dhires_on s = do {
     s \<leftarrow> (if \<not> ss s SS_DHIRES then do { s \<leftarrow> set_dirty s; Some (set_switch SS_DHIRES s) } else Some s);
     floating_bus s }"

definition iie_dhires_off :: handler where
  "iie_dhires_off s = do {
     s \<leftarrow> (if ss s SS_DHIRES then do { s \<leftarrow> set_dirty s; Some (clear_switch SS_DHIRES s) } else Some s);
     floating_bus s }"

definition iie_check_vbl :: handler where
  "iie_check_vbl s =
    (case video_scannerAddress (softswitches s) (vid s) of
       None \<Rightarrow> None
     | Some (isVBL, _, v) \<Rightarrow>
         (let s = s\<lparr>vid := v\<rparr>; key = apple_ii_64k s 0xC000
          in Some ((key AND NOT 0x80) OR (if isVBL then 0x00 else 0x80), s)))"

definition iie_c3rom_peripheral :: handler where
  "iie_c3rom_peripheral s = do {
     s \<leftarrow> c_assert (write_flag_set s) s;
     let s = clear_switch SS_C3ROM s;
     let s = (if \<not> ss s SS_CXROM then s\<lparr>base_c3rom := Peripheral_card\<rparr> else s);
     Some (0, s) }"

definition iie_c3rom_internal :: handler where
  "iie_c3rom_internal s = do {
     s \<leftarrow> c_assert (write_flag_set s) s;
     let s = set_switch SS_C3ROM s;
     Some (0, s\<lparr>base_c3rom := bank64k 1\<rparr>) }"

definition iie_cxrom_peripheral :: handler where
  "iie_cxrom_peripheral s = do {
     s \<leftarrow> c_assert (write_flag_set s) s;
     let s = clear_switch SS_CXROM s;
     let s = s\<lparr>base_cxrom := Peripheral_card, base_c4rom := Peripheral_card, base_c5rom := Peripheral_card\<rparr>;
     let s = (if \<not> ss s SS_C3ROM then s\<lparr>base_c3rom := Peripheral_card\<rparr> else s);
     Some (0, s) }"

definition iie_cxrom_internal :: handler where
  "iie_cxrom_internal s = do {
     s \<leftarrow> c_assert (write_flag_set s) s;
     let s = set_switch SS_CXROM s;
     Some (0, s\<lparr>base_cxrom := bank64k 1, base_c3rom := bank64k 1, base_c4rom := bank64k 1, base_c5rom := bank64k 1\<rparr>) }"

text \<open>\<open>speaker_toggle\<close> brings the clock up to date and reads the floating bus; the sound itself is
  only recorded.\<close>

definition speaker_toggle :: handler where
  "speaker_toggle s = (case timing_checkpointCycles (vid s) of
     None \<Rightarrow> None | Some v \<Rightarrow> floating_bus (vm_emit Speaker_toggled (s\<lparr>vid := v\<rparr>)))"

definition vm_disk_read :: "bool \<Rightarrow> addr \<Rightarrow> handler" where
  "vm_disk_read conformant ea s =
    (case disk6_ioRead conformant ea (disk6 s) of
       None \<Rightarrow> None
     | Some (r, d) \<Rightarrow>
         (let s = s\<lparr>disk6 := d\<rparr> in
          case r of None \<Rightarrow> floating_bus s | Some b \<Rightarrow> Some (b, s)))"

definition vm_disk_write :: "bool \<Rightarrow> addr \<Rightarrow> byte \<Rightarrow> handler" where
  "vm_disk_write conformant ea b s =
    (case disk6_ioWrite conformant ea b (disk6 s) of
       None \<Rightarrow> None
     | Some d \<Rightarrow> Some (0, s\<lparr>disk6 := d\<rparr>))"

section \<open>The dispatchers\<close>

text \<open>\<open>(softswitches & SS_x) SS_x_SHIFT\<close>, as the byte returned.\<close>

definition shown_left :: "u32 \<Rightarrow> nat \<Rightarrow> handler" where
  "shown_left f n s = Some (ucast (push_bit n (softswitches s AND f)), s)"

definition shown_right :: "u32 \<Rightarrow> nat \<Rightarrow> handler" where
  "shown_right f n s = Some (ucast (drop_bit n (softswitches s AND f)), s)"

definition then_shown :: "handler \<Rightarrow> handler \<Rightarrow> handler" where
  "then_shown f g s = do { (_, s) \<leftarrow> f s; g s }"

definition read_status :: "nat \<Rightarrow> handler" where
  "read_status sw =
    (if sw = 0x11 then shown_left SS_BANK2 3
     else if sw = 0x12 then shown_left SS_LCRAM 2
     else if sw = 0x13 then shown_right SS_RAMRD 3
     else if sw = 0x14 then shown_right SS_RAMWRT 4
     else if sw = 0x15 then shown_right SS_CXROM 8
     else if sw = 0x16 then shown_right SS_ALTZP 5
     else if sw = 0x17 then (\<lambda>s. Some (if ss s SS_C3ROM then 0x00 else 0x80, s))
     else if sw = 0x18 then shown_right SS_80STORE 1
     else if sw = 0x19 then iie_check_vbl
     else if sw = 0x1A then shown_left SS_TEXT 7
     else if sw = 0x1B then shown_left SS_MIXED 6
     else if sw = 0x1C then shown_left SS_PAGE2 4
     else if sw = 0x1D then shown_left SS_HIRES 5
     else if sw = 0x1E then shown_right SS_ALTCHAR 10
     else shown_right SS_80COL 2)"

definition read_softswitch :: "bool \<Rightarrow> addr \<Rightarrow> handler" where
  "read_softswitch conformant ea =
    (let sw = unat (ea AND 0xFF) in
     if sw < 0x10 then (\<lambda>s. Some (apple_ii_64k s 0xC000, s))
     else if sw = 0x10 then read_keyboard_strobe
     else if 0x11 \<le> sw \<and> sw < 0x20 then read_status sw
     else if 0x30 \<le> sw \<and> sw < 0x40 then speaker_toggle
     else if sw = 0x50 then read_switch_graphics
     else if sw = 0x51 then read_switch_text
     else if sw = 0x52 then read_switch_no_mixed
     else if sw = 0x53 then read_switch_mixed
     else if sw = 0x54 then iie_page2_off
     else if sw = 0x55 then iie_page2_on
     else if sw = 0x56 then iie_hires_off
     else if sw = 0x57 then iie_hires_on
     else if 0x58 \<le> sw \<and> sw < 0x5E then iie_annunciator ea
     else if sw = 0x5E then iie_dhires_on
     else if sw = 0x5F then iie_dhires_off
     else if sw = 0x61 \<or> sw = 0x69 then read_button0
     else if sw = 0x62 \<or> sw = 0x6A then read_button1
     else if sw = 0x63 \<or> sw = 0x6B then read_button2
     else if sw = 0x64 \<or> sw = 0x6C then read_gc0
     else if sw = 0x65 \<or> sw = 0x6D then read_gc1
     else if sw = 0x66 then iie_read_gc2
     else if sw = 0x67 then iie_read_gc3
     else if 0x70 \<le> sw \<and> sw < 0x7E then read_gc_strobe
     else if sw = 0x7E then then_shown read_gc_strobe (shown_right SS_IOUDIS 7)
     else if sw = 0x7F then then_shown read_gc_strobe (shown_right SS_DHIRES 6)
     else if sw = 0x80 \<or> sw = 0x84 then iie_c080
     else if sw = 0x81 \<or> sw = 0x85 then iie_c081
     else if sw = 0x82 \<or> sw = 0x86 then lc_c082
     else if sw = 0x83 \<or> sw = 0x87 then iie_c083
     else if sw = 0x88 \<or> sw = 0x8C then iie_c088
     else if sw = 0x89 \<or> sw = 0x8D then iie_c089
     else if sw = 0x8A \<or> sw = 0x8E then lc_c08a
     else if sw = 0x8B \<or> sw = 0x8F then iie_c08b
     else if 0xE0 \<le> sw \<and> sw < 0xF0 then vm_disk_read conformant ea
     else floating_bus)"

text \<open>\<open>write_softswitch\<close> tests the address against every switch in turn.\<close>

definition ioudis_strobe :: "bool \<Rightarrow> handler" where
  "ioudis_strobe on s = read_gc_strobe (if on then set_switch SS_IOUDIS s else clear_switch SS_IOUDIS s)"

definition when_switch :: "bool \<times> handler \<Rightarrow> vm \<Rightarrow> vm option" where
  "when_switch = (\<lambda>(c, f) s. if c then map_option snd (f s) else Some s)"

fun in_turn :: "(bool \<times> handler) list \<Rightarrow> vm \<Rightarrow> vm option" where
  "in_turn [] s = Some s"
| "in_turn (x # xs) s = do { s \<leftarrow> when_switch x s; in_turn xs s }"

definition write_softswitch :: "bool \<Rightarrow> addr \<Rightarrow> byte \<Rightarrow> vm \<Rightarrow> vm option" where
  "write_softswitch conformant ea b =
    (let sw = unat (ea AND 0xFF) in in_turn
      [(sw = 0x00, iie_80store_off),
       (sw = 0x01, iie_80store_on),
       (sw = 0x02, iie_ramrd_main),
       (sw = 0x03, iie_ramrd_aux),
       (sw = 0x04, iie_ramwrt_main),
       (sw = 0x05, iie_ramwrt_aux),
       (sw = 0x06, iie_cxrom_peripheral),
       (sw = 0x07, iie_cxrom_internal),
       (sw = 0x08, iie_altzp_main),
       (sw = 0x09, iie_altzp_aux),
       (sw = 0x0A, iie_c3rom_internal),
       (sw = 0x0B, iie_c3rom_peripheral),
       (sw = 0x0C, iie_80col_off),
       (sw = 0x0D, iie_80col_on),
       (sw = 0x0E, iie_altchar_off),
       (sw = 0x0F, iie_altchar_on),
       (0x10 \<le> sw \<and> sw < 0x20, read_keyboard_strobe),
       (0x30 \<le> sw \<and> sw < 0x40, speaker_toggle),
       (sw = 0x50, read_switch_graphics),
       (sw = 0x51, read_switch_text),
       (sw = 0x52, read_switch_no_mixed),
       (sw = 0x53, read_switch_mixed),
       (sw = 0x54, iie_page2_off),
       (sw = 0x55, iie_page2_on),
       (sw = 0x56, iie_hires_off),
       (sw = 0x57, iie_hires_on),
       (0x58 \<le> sw \<and> sw < 0x5E, iie_annunciator ea),
       (sw = 0x5E, iie_dhires_on),
       (sw = 0x5F, iie_dhires_off),
       (0x70 \<le> sw \<and> sw < 0x7E, read_gc_strobe),
       (sw = 0x7E, ioudis_strobe True),
       (sw = 0x7F, ioudis_strobe False),
       (sw = 0x80 \<or> sw = 0x84, iie_c080),
       (sw = 0x81 \<or> sw = 0x85, iie_c081),
       (sw = 0x82 \<or> sw = 0x86, lc_c082),
       (sw = 0x83 \<or> sw = 0x87, iie_c083),
       (sw = 0x88 \<or> sw = 0x8C, iie_c088),
       (sw = 0x89 \<or> sw = 0x8D, iie_c089),
       (sw = 0x8A \<or> sw = 0x8E, lc_c08a),
       (sw = 0x8B \<or> sw = 0x8F, iie_c08b),
       (0xE0 \<le> sw \<and> sw < 0xF0, vm_disk_write conformant ea b)])"

end
