(* ===== verification/A2_DiskProps.thy ===== *)
theory A2_DiskProps
  imports A2_Disk
begin

text \<open>
  Well-formed drives and what the controller guarantees on them: every access stays inside
  the image and track buffers, reading goes round the track, bytes written are read back, and
  converting a track to nibbles and back leaves the disk image as it was.
\<close>

section \<open>Well-formed drives\<close>

definition conf_width :: "bool \<Rightarrow> nat" where
  "conf_width conformant = (if conformant then NI2_TRACK_SIZE else 6040)"

definition image_ok :: "bool \<Rightarrow> diskette \<Rightarrow> bool" where
  "image_ok conformant d \<longleftrightarrow>
     (if nibblized d then
        (\<exists>raw. raw_image_data d = Some raw \<and> length raw = NIB_SIZE) \<and> nib_image_data d = Nib_raw \<and>
        track_width d = NIB_TRACK_SIZE
      else
        (\<exists>raw. raw_image_data d = Some raw \<and> length raw = DSK_SIZE) \<and> nib_image_data d = Nib_own \<and>
        length (own_buffer d) = NIB_SIZE \<and> track_width d = conf_width conformant \<and>
        (skew_table d = Some skew_table_6_do \<or> skew_table d = Some skew_table_6_po))"

definition disk_ok :: "bool \<Rightarrow> diskette \<Rightarrow> bool" where
  "disk_ok conformant d \<longleftrightarrow> phase d \<le> 69 \<and>
     (track_dirty d \<longrightarrow> track_valid d) \<and>
     (if dfd d < 0 then \<not> track_valid d else image_ok conformant d) \<and>
     (track_valid d \<longrightarrow> run_byte d < track_width d)"

definition drives_ok :: "bool \<Rightarrow> drives \<Rightarrow> bool" where
  "drives_ok conformant s \<longleftrightarrow> drive s < 2 \<and> (\<forall>i < 2. disk_ok conformant (disk s i))"

lemma conf_width_bounds: "0 < conf_width c" "conf_width c \<le> NIB_TRACK_SIZE"
  by (simp_all add: conf_width_def disk_consts)

lemma image_width: "image_ok c d \<Longrightarrow> 0 < track_width d \<and> track_width d \<le> NIB_TRACK_SIZE"
  using conf_width_bounds [of c] by (auto simp: image_ok_def NIB_TRACK_SIZE_def split: if_splits)

lemma trk_bound: "phase d \<le> 69 \<Longrightarrow> trk d < NUM_TRACKS"
  by (simp add: trk_def drop_bit_nat_def NUM_TRACKS_def)

lemma image_nib:
  assumes "image_ok c d"
  obtains nib where "nib_data d = Some nib" "length nib = NIB_SIZE"
  using assms by (cases "nibblized d") (auto simp: image_ok_def nib_data_def)

lemma track_fits:
  assumes "t < NUM_TRACKS" "i < NIB_TRACK_SIZE"
  shows "NIB_TRACK_SIZE * t + i < NIB_SIZE"
proof -
  have "NIB_TRACK_SIZE * t + i < NIB_TRACK_SIZE * Suc t" using assms(2) by simp
  also have "\<dots> \<le> NIB_TRACK_SIZE * NUM_TRACKS" using assms(1) by (intro mult_le_mono2) simp
  finally show ?thesis by (simp add: NIB_SIZE_def mult.commute)
qed

lemma track_end:
  assumes "t < NUM_TRACKS" "w \<le> NIB_TRACK_SIZE"
  shows "NIB_TRACK_SIZE * t + w \<le> NIB_SIZE"
proof -
  have "NIB_TRACK_SIZE * t + w \<le> NIB_TRACK_SIZE * Suc t" using assms(2) by simp
  also have "\<dots> \<le> NIB_TRACK_SIZE * NUM_TRACKS" using assms(1) by (intro mult_le_mono2) simp
  finally show ?thesis by (simp add: NIB_SIZE_def mult.commute)
qed

lemma dsk_track_end:
  assumes "t < NUM_TRACKS"
  shows "DSK_TRACK_SIZE * t + DSK_TRACK_SIZE \<le> DSK_SIZE"
proof -
  have "DSK_TRACK_SIZE * Suc t \<le> DSK_TRACK_SIZE * NUM_TRACKS" using assms by (intro mult_le_mono2) simp
  then show ?thesis by (simp add: DSK_SIZE_def mult.commute add.commute)
qed

lemma length_splice: "n + length ys \<le> length xs \<Longrightarrow> length (splice xs n ys) = length xs"
  by (simp add: splice_def)

lemma splice_self: "n + k \<le> length xs \<Longrightarrow> splice xs n (take k (drop n xs)) = xs"
  by (simp add: splice_def min_def) (metis append_take_drop_id drop_drop add.commute)

lemma take_splice: "n + length ys \<le> length xs \<Longrightarrow> take (length ys) (drop n (splice xs n ys)) = ys"
  by (simp add: splice_def)

section \<open>Loading and saving a track\<close>

definition dsk_track :: "diskette \<Rightarrow> byte list" where
  "dsk_track d = take DSK_TRACK_SIZE (drop (DSK_TRACK_SIZE * trk d) (the (raw_image_data d)))"

definition nib_track :: "diskette \<Rightarrow> byte list" where
  "nib_track d = take (track_width d) (drop (NIB_TRACK_SIZE * trk d) (the (nib_data d)))"

lemma skew_ok:
  assumes "image_ok c d" "\<not> nibblized d"
  obtains skew where "skew_table d = Some skew" "\<forall>s < 16. skew ! s < 16" "\<forall>k < 16. \<exists>s < 16. skew ! s = k"
proof -
  have "skew_table d = Some skew_table_6_do \<or> skew_table d = Some skew_table_6_po"
    using assms by (simp add: image_ok_def)
  then show ?thesis using that skew_tables_ok by (elim disjE) blast+
qed

lemma track_decode_all:
  assumes len: "length buf = 4096"
    and skew: "\<forall>s < 16. skew ! s < 16" "\<forall>k < 16. \<exists>s < 16. skew ! s = k"
  obtains out where "nibblize_track c track skew buf = Some out" "length out = conf_width c"
    "\<forall>dst. length dst = 4096 \<longrightarrow> denibblize_track out (length out) skew dst = Some buf"
proof -
  obtain out where out: "nibblize_track c track skew buf = Some out" "length out = conf_width c"
    using track_decode [OF len length_replicate [of 4096 0] skew, of c track]
    unfolding conf_width_def by blast
  have "denibblize_track out (length out) skew dst = Some buf" if "length dst = 4096" for dst
    using track_decode [OF len that skew, of c track] out(1) by auto
  with out show ?thesis using that by blast
qed

lemma load_track_ok:
  assumes "image_ok c d" "phase d \<le> 69" "\<not> nibblized d"
  obtains out where
    "load_track_data c d = Some (track_width d, d\<lparr>own_buffer := splice (own_buffer d) (NIB_TRACK_SIZE * trk d) out\<rparr>)"
    "length out = track_width d"
    "nibblize_track c (of_nat (trk d)) (the (skew_table d)) (dsk_track d) = Some out"
    "\<And>dst. length dst = 4096 \<Longrightarrow>
       denibblize_track out (track_width d) (the (skew_table d)) dst = Some (dsk_track d)"
proof -
  obtain raw where raw: "raw_image_data d = Some raw" "length raw = DSK_SIZE"
    using assms by (auto simp: image_ok_def)
  have img: "nib_image_data d = Nib_own" "length (own_buffer d) = NIB_SIZE" "track_width d = conf_width c"
    using assms by (auto simp: image_ok_def)
  obtain skew where skew: "skew_table d = Some skew" "\<forall>s < 16. skew ! s < 16" "\<forall>k < 16. \<exists>s < 16. skew ! s = k"
    by (rule skew_ok [OF assms(1,3)])
  have t: "trk d < NUM_TRACKS" by (rule trk_bound [OF assms(2)])
  have le: "DSK_TRACK_SIZE * trk d + DSK_TRACK_SIZE \<le> length raw"
    using dsk_track_end [OF t] raw(2) by simp
  have len: "length (dsk_track d) = 4096" using raw(1) le by (simp add: dsk_track_def DSK_TRACK_SIZE_def)
  obtain out where out: "nibblize_track c (of_nat (trk d)) skew (dsk_track d) = Some out"
    "length out = conf_width c"
    "\<forall>dst. length dst = 4096 \<longrightarrow> denibblize_track out (length out) skew dst = Some (dsk_track d)"
    by (rule track_decode_all [OF len skew(2,3)])
  have fits: "NIB_TRACK_SIZE * trk d + length out \<le> length (own_buffer d)"
    using track_end [OF t conf_width_bounds(2)] out(2) img(2) by simp
  show ?thesis
    using assms(3) raw img skew(1) out le fits
    by (intro that [of out]) (simp_all add: load_track_data_def dsk_track_def Let_def nib_data_def set_nib_data_def)
qed

lemma length_fold_denib:
  "length (fst (snd (fold (denib_body w) is (off, out, c)))) = length out"
proof (induction "is" arbitrary: off out c)
  case Nil
  then show ?case by simp
next
  case (Cons i "is")
  obtain off' out' c' where b: "denib_body w i (off, out, c) = (off', out', c')" by (metis prod_cases3)
  then have "length out' = length out" by (auto simp: denib_body_def Let_def split: if_splits)
  with Cons b show ?case by simp
qed

lemma length_denibblize_sector: "denibblize_sector src out = Some out' \<Longrightarrow> length out' = length out"
  using length_fold_denib by (auto simp: denibblize_sector_def Let_def bind_eq_Some_conv split: prod.splits)
    (metis fst_conv snd_conv)

lemma length_search_step:
  assumes "search_step img w skew (off, sec, dst) = Some (off', sec', dst')"
    and "\<forall>s < 16. skew ! s < 16" "length dst = 4096"
  shows "length dst' = 4096"
proof -
  have len: "length (take (256 * k) dst @ out @ drop (256 * k + 256) dst) = 4096"
    if "denibblize_sector wb (take 256 (drop (256 * k) dst)) = Some out" "k < 16" for wb out k
  proof -
    have "256 * k + 256 \<le> 4096" using that(2) by simp
    moreover from this have "length out = 256" using length_denibblize_sector [OF that(1)] assms(3) by simp
    ultimately show ?thesis using assms(3) by simp
  qed
  obtain p o1 where f: "find_prologue img w NIB_TRACK_SIZE (0, [0, 0, 0]) off = (p, o1)" by fastforce
  obtain wb o2 where r: "read_ring img w (NUM_SIXBIT_NIBS + 1) o1 = (wb, o2)" by fastforce
  note step = assms(1) [unfolded search_step_def prod.case f Let_def r]
  show ?thesis
  proof (cases "p ! 1 = 0xAA \<and> p ! 2 = 0xAD")
    case True
    then obtain out where sec: "0 \<le> sec" "sec < 16"
      and out: "denibblize_sector wb (take 256 (drop (256 * skew ! nat sec) dst)) = Some out"
      and dst': "dst' = take (256 * skew ! nat sec) dst @ out @ drop (256 * skew ! nat sec + 256) dst"
      using step by (auto simp: bind_eq_Some_conv)
    have "nat sec < 16" using sec by simp
    then show ?thesis using len [OF out] assms(2) unfolding dst' by blast
  next
    case False
    then show ?thesis using step assms(3) by (auto split: if_splits)
  qed
qed

lemma length_search_steps:
  assumes "search_steps img w skew n (off, sec, dst) = Some (off', sec', dst')"
    and "\<forall>s < 16. skew ! s < 16" "length dst = 4096"
  shows "length dst' = 4096"
  using assms(1,3)
proof (induction n arbitrary: off sec dst)
  case 0
  then show ?case by simp
next
  case (Suc n)
  then obtain off1 sec1 dst1 where "search_step img w skew (off, sec, dst) = Some (off1, sec1, dst1)"
    "search_steps img w skew n (off1, sec1, dst1) = Some (off', sec', dst')"
    by (auto simp: bind_eq_Some_conv)
  with Suc length_search_step [OF _ assms(2)] show ?case by blast
qed

lemma length_denibblize_track:
  "denibblize_track src w skew dst = Some dst' \<Longrightarrow> \<forall>s < 16. skew ! s < 16 \<Longrightarrow> length dst = 4096 \<Longrightarrow>
   length dst' = 4096"
  using length_search_steps [of src w skew "2 * NUM_SECTORS + 1" 0 "-1" dst]
  by (auto simp: denibblize_track_def bind_eq_Some_conv simp del: search_steps.simps)

text \<open>The decoding of the current track, as a save performs it.\<close>

definition decode_track :: "diskette \<Rightarrow> byte list option" where
  "decode_track d = denibblize_track (nib_track d) (track_width d) (the (skew_table d)) (dsk_track d)"

lemma save_track_eq:
  assumes "image_ok c d" "phase d \<le> 69" "\<not> nibblized d"
  shows "save_track_data d = (case decode_track d of None \<Rightarrow> None
    | Some dst \<Rightarrow> Some (d\<lparr>raw_image_data := Some (splice (the (raw_image_data d)) (DSK_TRACK_SIZE * trk d) dst),
                       track_dirty := False\<rparr>))"
proof -
  obtain raw where raw: "raw_image_data d = Some raw" "length raw = DSK_SIZE"
    using assms by (auto simp: image_ok_def)
  obtain skew where skew: "skew_table d = Some skew" by (rule skew_ok [OF assms(1,3)])
  obtain nib where nib: "nib_data d = Some nib" "length nib = NIB_SIZE" by (rule image_nib [OF assms(1)])
  have t: "trk d < NUM_TRACKS" by (rule trk_bound [OF assms(2)])
  have "DSK_TRACK_SIZE * trk d + DSK_TRACK_SIZE \<le> length raw \<and>
      NIB_TRACK_SIZE * trk d + track_width d \<le> length nib \<and> 0 < track_width d"
    using dsk_track_end [OF t] raw(2) track_end [OF t] nib(2) image_width [OF assms(1)] by simp
  then show ?thesis
    using assms(3) raw nib skew
    by (auto simp: save_track_data_def decode_track_def nib_track_def dsk_track_def Let_def split: option.splits)
qed

lemma save_track_ok:
  assumes "image_ok c d" "phase d \<le> 69" "save_track_data d = Some d'"
  shows "image_ok c d'" "d' = d\<lparr>raw_image_data := raw_image_data d', track_dirty := False\<rparr>"
proof -
  have "image_ok c d' \<and> d' = d\<lparr>raw_image_data := raw_image_data d', track_dirty := False\<rparr>"
  proof (cases "nibblized d")
    case True
    then show ?thesis using assms by (auto simp: save_track_data_def image_ok_def)
  next
    case False
    obtain raw where raw: "raw_image_data d = Some raw" "length raw = DSK_SIZE"
      using assms False by (auto simp: image_ok_def)
    obtain skew where skew: "skew_table d = Some skew" "\<forall>s < 16. skew ! s < 16"
      by (rule skew_ok [OF assms(1) False])
    have t: "trk d < NUM_TRACKS" by (rule trk_bound [OF assms(2)])
    have le: "DSK_TRACK_SIZE * trk d + DSK_TRACK_SIZE \<le> length raw"
      using dsk_track_end [OF t] raw(2) by simp
    obtain dst where dst: "decode_track d = Some dst"
      "d' = d\<lparr>raw_image_data := Some (splice raw (DSK_TRACK_SIZE * trk d) dst), track_dirty := False\<rparr>"
      using assms(3) raw(1) unfolding save_track_eq [OF assms(1,2) False] by (auto split: option.splits)
    have "length (dsk_track d) = 4096" using raw(1) le by (simp add: dsk_track_def DSK_TRACK_SIZE_def)
    then have "length dst = 4096"
      using dst(1) skew length_denibblize_track by (simp add: decode_track_def)
    then have "length (splice raw (DSK_TRACK_SIZE * trk d) dst) = DSK_SIZE"
      using le raw(2) by (subst length_splice) (simp_all add: DSK_TRACK_SIZE_def)
    then show ?thesis using assms(1) False dst(2) by (simp add: image_ok_def)
  qed
  then show "image_ok c d'" "d' = d\<lparr>raw_image_data := raw_image_data d', track_dirty := False\<rparr>" by simp_all
qed

text \<open>Nibblizing a track and saving it at once gives the image back.\<close>

lemma load_save_track:
  assumes "image_ok c d" "phase d \<le> 69" "load_track_data c d = Some (w, d')"
  shows "w = track_width d" "image_ok c d'"
    "\<exists>d''. save_track_data d' = Some d'' \<and> raw_image_data d'' = raw_image_data d"
proof -
  have "w = track_width d \<and> image_ok c d' \<and>
      (\<exists>d''. save_track_data d' = Some d'' \<and> raw_image_data d'' = raw_image_data d)"
  proof (cases "nibblized d")
    case True
    then show ?thesis using assms by (auto simp: load_track_data_def save_track_data_def image_ok_def)
  next
    case False
    obtain out where out:
      "load_track_data c d = Some (track_width d, d\<lparr>own_buffer := splice (own_buffer d) (NIB_TRACK_SIZE * trk d) out\<rparr>)"
      "length out = track_width d"
      "\<And>dst. length dst = 4096 \<Longrightarrow>
         denibblize_track out (track_width d) (the (skew_table d)) dst = Some (dsk_track d)"
      by (rule load_track_ok [OF assms(1,2) False]) blast
    have d': "w = track_width d" "d' = d\<lparr>own_buffer := splice (own_buffer d) (NIB_TRACK_SIZE * trk d) out\<rparr>"
      using out(1) assms(3) by simp_all
    obtain raw where raw: "raw_image_data d = Some raw" "length raw = DSK_SIZE"
      using assms False by (auto simp: image_ok_def)
    have own: "length (own_buffer d) = NIB_SIZE" "nib_image_data d = Nib_own"
      using assms(1) False by (auto simp: image_ok_def)
    have t: "trk d < NUM_TRACKS" by (rule trk_bound [OF assms(2)])
    have fits: "NIB_TRACK_SIZE * trk d + length out \<le> length (own_buffer d)"
      using track_end [OF t] image_width [OF assms(1)] out(2) own(1) by simp
    have ok: "image_ok c d'"
      using assms(1) False fits unfolding d'(2) by (simp add: image_ok_def length_splice)
    have le: "DSK_TRACK_SIZE * trk d + DSK_TRACK_SIZE \<le> length raw"
      using dsk_track_end [OF t] raw(2) by simp
    have len: "length (dsk_track d) = 4096" using raw(1) le by (simp add: dsk_track_def DSK_TRACK_SIZE_def)
    have "nib_track d' = out"
      using own take_splice [OF fits] out(2) unfolding d'(2)
      by (simp add: nib_track_def nib_data_def trk_def)
    moreover have "dsk_track d' = dsk_track d" unfolding d'(2) by (simp add: dsk_track_def trk_def)
    ultimately have "decode_track d' = Some (dsk_track d)"
      using out(3) [OF len] unfolding d'(2) by (simp add: decode_track_def)
    moreover have "splice raw (DSK_TRACK_SIZE * trk d) (dsk_track d) = raw"
      using splice_self [OF le] raw(1) by (simp add: dsk_track_def)
    moreover have "phase d' \<le> 69" "\<not> nibblized d'" using assms(2) False unfolding d'(2) by simp_all
    ultimately show ?thesis
      using save_track_eq [OF ok, of] raw(1) ok d'(1) unfolding d'(2) by (auto simp: trk_def)
  qed
  then show "w = track_width d" "image_ok c d'"
    "\<exists>d''. save_track_data d' = Some d'' \<and> raw_image_data d'' = raw_image_data d" by simp_all
qed

section \<open>Every access is safe\<close>

lemma image_ok_cong:
  "image_ok c (d\<lparr>track_valid := v\<rparr>) = image_ok c d" "image_ok c (d\<lparr>track_dirty := v\<rparr>) = image_ok c d"
  "image_ok c (d\<lparr>run_byte := n\<rparr>) = image_ok c d" "image_ok c (d\<lparr>phase := n\<rparr>) = image_ok c d"
  by (simp_all add: image_ok_def)

lemma reload_ok:
  assumes "disk_ok c d" "0 \<le> dfd d"
  obtains d' where "reload_track c d = Some (True, d')" "disk_ok c d'" "track_valid d'" "dfd d' = dfd d"
    "phase d' = phase d" "is_protected d' = is_protected d" "track_width d' = track_width d"
    "raw_image_data d' = raw_image_data d" "nibblized d' = nibblized d" "skew_table d' = skew_table d"
proof (cases "track_valid d")
  case True
  then show ?thesis using assms by (intro that [of d]) (simp_all add: reload_track_def)
next
  case False
  have img: "image_ok c d" and ph: "phase d \<le> 69" and nd: "\<not> track_dirty d"
    using assms False by (auto simp: disk_ok_def)
  have w: "0 < track_width d" using image_width [OF img] by simp
  show ?thesis
  proof (cases "nibblized d")
    case True
    then have "track_width d = NIB_TRACK_SIZE" using img by (simp add: image_ok_def)
    then show ?thesis
      using True False nd img ph assms(2) w
      by (intro that [of "d\<lparr>track_valid := True, run_byte := 0\<rparr>"])
        (simp_all add: reload_track_def load_track_data_def disk_ok_def image_ok_cong)
  next
    case nn: False
    obtain out where out:
      "load_track_data c d = Some (track_width d, d\<lparr>own_buffer := splice (own_buffer d) (NIB_TRACK_SIZE * trk d) out\<rparr>)"
      by (rule load_track_ok [OF img ph nn]) blast
    let ?d = "d\<lparr>own_buffer := splice (own_buffer d) (NIB_TRACK_SIZE * trk d) out\<rparr>"
    have "image_ok c ?d" using load_save_track(2) [OF img ph out] .
    then show ?thesis
      using False nd ph assms(2) w out
      by (intro that [of "?d\<lparr>track_valid := True, run_byte := 0\<rparr>"])
        (simp_all add: reload_track_def disk_ok_def image_ok_cong)
  qed
qed

lemma track_index:
  assumes "disk_ok c d" "track_valid d"
  obtains nib where "nib_data d = Some nib" "length nib = NIB_SIZE"
    "NIB_TRACK_SIZE * trk d + run_byte d < length nib"
proof -
  have img: "image_ok c d" using assms by (auto simp: disk_ok_def split: if_splits)
  obtain nib where nib: "nib_data d = Some nib" "length nib = NIB_SIZE" by (rule image_nib [OF img])
  have "run_byte d < NIB_TRACK_SIZE" "trk d < NUM_TRACKS"
    using assms image_width [OF img] trk_bound [of d] by (auto simp: disk_ok_def)
  then have "NIB_TRACK_SIZE * trk d + run_byte d < length nib" using track_fits nib(2) by simp
  with nib show ?thesis by (rule that)
qed

lemma set_nib_ok:
  assumes "disk_ok c d" "track_valid d" "nib_data d = Some nib" "length bs = length nib"
  shows "disk_ok c ((set_nib_data bs d)\<lparr>track_dirty := True\<rparr>)" "track_valid (set_nib_data bs d)"
proof -
  have img: "image_ok c d" using assms by (auto simp: disk_ok_def split: if_splits)
  then show "disk_ok c ((set_nib_data bs d)\<lparr>track_dirty := True\<rparr>)" "track_valid (set_nib_data bs d)"
    using assms
    by (auto simp: disk_ok_def image_ok_def set_nib_data_def nib_data_def split: nib_pointer.splits if_splits)
qed

lemma transfer_ok:
  assumes "drives_ok c s"
  shows "\<exists>s'. transfer_byte c s = Some s' \<and> drives_ok c s'"
proof -
  let ?d = "disk s (drive s)"
  have dr: "drive s < 2" and dk: "disk_ok c ?d" using assms by (auto simp: drives_ok_def)
  show ?thesis
  proof (cases "dfd ?d < 0")
    case True
    then show ?thesis using assms dr by (simp add: transfer_byte_def drives_ok_def Let_def)
  next
    case False
    then have fd: "0 \<le> dfd ?d" by simp
    obtain d where d: "reload_track c ?d = Some (True, d)" "disk_ok c d" "track_valid d"
      by (rule reload_ok [OF dk fd]) blast
    obtain nib where nib: "nib_data d = Some nib" "length nib = NIB_SIZE"
      "NIB_TRACK_SIZE * trk d + run_byte d < length nib"
      by (rule track_index [OF d(2,3)])
    let ?w = "(set_nib_data (nib[NIB_TRACK_SIZE * trk d + run_byte d := disk_byte s]) d)\<lparr>track_dirty := True\<rparr>"
    have w: "disk_ok c ?w" by (rule set_nib_ok [OF d(2,3) nib(1)]) simp
    have upd: "drives_ok c (s\<lparr>disk := (disk s)(drive s := x)\<rparr>)" if "disk_ok c x" for x
      using assms that dr by (auto simp: drives_ok_def)
    have oth: "drives_ok c (t\<lparr>disk_byte := b\<rparr>) = drives_ok c t" "drives_ok c (t\<lparr>motor_off := m\<rparr>) = drives_ok c t" for t b m
      by (simp_all add: drives_ok_def)
    show ?thesis
      using False dr d nib upd [OF d(2)] upd [OF w]
      unfolding transfer_byte_def Let_def by (simp add: oth)
  qed
qed

lemma advance_ok: "disk_ok c d \<Longrightarrow> disk_ok c (advance_head d)"
proof -
  assume d: "disk_ok c d"
  have "track_valid d \<Longrightarrow> 0 < track_width d" using d by (auto simp: disk_ok_def)
  with d show ?thesis by (auto simp: disk_ok_def advance_head_def image_ok_cong)
qed

lemma on_disk_ok:
  assumes "drives_ok c s" "i < 2" "f (disk s i) = Some d" "disk_ok c d"
  shows "\<exists>s'. on_disk i f s = Some s' \<and> drives_ok c s'"
  using assms by (auto simp: on_disk_def drives_ok_def)

lemma readWriteByte_ok:
  assumes "drives_ok c s"
  shows "\<exists>s'. disk_readWriteByte c s = Some s' \<and> drives_ok c s'"
proof -
  obtain t where t: "transfer_byte c s = Some t" "drives_ok c t" using transfer_ok [OF assms] by blast
  have dr: "drive t < 2" and dk: "disk_ok c (disk t (drive t))" using t(2) by (auto simp: drives_ok_def)
  show ?thesis
    using on_disk_ok [where f = "\<lambda>d. Some (advance_head d)", OF t(2) dr refl advance_ok [OF dk]] t(1)
    by (simp add: disk_readWriteByte_def)
qed

lemma next_phase_le: "next_phase p dir \<le> 69"
  by (auto simp: next_phase_def Let_def)

lemma move_head_ok:
  assumes "disk_ok c d"
  shows "(\<exists>d'. move_head m d = Some d' \<and> disk_ok c d') \<or>
         move_head m d = None \<and> track_dirty d \<and> \<not> nibblized d \<and> decode_track d = None"
proof -
  let ?n = "next_phase (phase d) (step_direction m (phase d))"
  have ph: "phase d \<le> 69" using assms by (simp add: disk_ok_def)
  consider "step_direction m (phase d) = 0"
    | (same) "step_direction m (phase d) \<noteq> 0" "drop_bit 1 (phase d) = drop_bit 1 ?n"
    | (clean) "step_direction m (phase d) \<noteq> 0" "drop_bit 1 (phase d) \<noteq> drop_bit 1 ?n" "\<not> track_dirty d"
    | (dirty) "step_direction m (phase d) \<noteq> 0" "drop_bit 1 (phase d) \<noteq> drop_bit 1 ?n" "track_dirty d"
    by blast
  then show ?thesis
  proof cases
    case 1
    then show ?thesis using assms by (simp add: move_head_def)
  next
    case same
    then show ?thesis using assms next_phase_le
      by (simp add: move_head_def disk_ok_def image_ok_cong Let_def)
  next
    case clean
    then show ?thesis using assms next_phase_le
      by (simp add: move_head_def disk_ok_def image_ok_cong Let_def)
  next
    case dirty
    have img: "image_ok c d" "0 \<le> dfd d" using assms dirty(3) by (auto simp: disk_ok_def split: if_splits)
    show ?thesis
    proof (cases "save_track_data d")
      case None
      then show ?thesis
        using dirty save_track_eq [OF img(1) ph]
        by (cases "nibblized d") (auto simp: move_head_def Let_def save_track_data_def split: option.splits)
    next
      case (Some d')
      note sv = save_track_ok [OF img(1) ph Some]
      have "dfd d' = dfd d" by (subst sv(2)) simp
      moreover have "\<not> track_dirty d'" by (subst sv(2)) simp
      ultimately show ?thesis
        using dirty Some sv(1) img(2) next_phase_le
        by (simp add: move_head_def Let_def disk_ok_def image_ok_cong)
    qed
  qed
qed

lemma phaseChange_ok:
  assumes "drives_ok c s"
  shows "(\<exists>s'. disk6_phaseChange ea s = Some s' \<and> drives_ok c s') \<or>
         disk6_phaseChange ea s = None \<and>
         (let d = disk s (drive s) in track_dirty d \<and> \<not> nibblized d \<and> decode_track d = None)"
proof -
  let ?m = "set_magnet ea (stepper_phases s)"
  let ?s = "s\<lparr>stepper_phases := ?m\<rparr>"
  have s: "drives_ok c ?s" using assms by (simp add: drives_ok_def)
  have dr: "drive ?s < 2" and dk: "disk_ok c (disk ?s (drive ?s))" using s by (auto simp: drives_ok_def)
  from move_head_ok [OF dk, of ?m] show ?thesis
  proof
    assume "\<exists>d'. move_head ?m (disk ?s (drive ?s)) = Some d' \<and> disk_ok c d'"
    then obtain d' where d': "move_head ?m (disk ?s (drive ?s)) = Some d'" "disk_ok c d'" by blast
    show ?thesis
      using on_disk_ok [where f = "move_head ?m", OF s dr d'] by (simp add: disk6_phaseChange_def Let_def)
  next
    assume "move_head ?m (disk ?s (drive ?s)) = None \<and> track_dirty (disk ?s (drive ?s)) \<and>
      \<not> nibblized (disk ?s (drive ?s)) \<and> decode_track (disk ?s (drive ?s)) = None"
    then show ?thesis using dr by (simp add: disk6_phaseChange_def Let_def on_disk_def)
  qed
qed

lemma access_ok:
  assumes "drives_ok c s"
  shows "(\<exists>s'. disk6_access c rd ea s = Some s' \<and> drives_ok c s') \<or>
         disk6_access c rd ea s = None \<and> unat (ea AND 0xf) \<le> 7 \<and>
         (let d = disk s (drive s) in track_dirty d \<and> \<not> nibblized d \<and> decode_track d = None)"
  using phaseChange_ok [OF assms, of ea] readWriteByte_ok [OF assms] assms
  by (auto simp: disk6_access_def Let_def disk6_motorControl_def disk6_driveSelect_def disk_readLatch_def
      disk_modeSelect_def drives_ok_def)

section \<open>Reading round the track\<close>

fun read_nibbles :: "bool \<Rightarrow> nat \<Rightarrow> drives \<Rightarrow> (byte list \<times> drives) option" where
  "read_nibbles c 0 s = Some ([], s)"
| "read_nibbles c (Suc n) s = do {
     (r, s) \<leftarrow> disk6_ioRead c 0xC0EC s;
     b \<leftarrow> r;
     (bs, s) \<leftarrow> read_nibbles c n s;
     Some (b # bs, s) }"

lemma nib_track_nth:
  assumes "disk_ok c d" "track_valid d" "i < track_width d"
  shows "nib_track d ! i = the (nib_data d) ! (NIB_TRACK_SIZE * trk d + i)"
    "length (nib_track d) = track_width d"
proof -
  have img: "image_ok c d" using assms by (auto simp: disk_ok_def split: if_splits)
  obtain nib where nib: "nib_data d = Some nib" "length nib = NIB_SIZE" by (rule image_nib [OF img])
  have "NIB_TRACK_SIZE * trk d + track_width d \<le> NIB_SIZE"
    using track_end [OF trk_bound] assms(1) image_width [OF img] by (simp add: disk_ok_def)
  then show "nib_track d ! i = the (nib_data d) ! (NIB_TRACK_SIZE * trk d + i)"
    "length (nib_track d) = track_width d"
    using nib assms(3) by (simp_all add: nib_track_def)
qed

definition ready_to_read :: "bool \<Rightarrow> drives \<Rightarrow> bool" where
  "ready_to_read c s \<longleftrightarrow> drives_ok c s \<and> 0 \<le> dfd (disk s (drive s)) \<and> ddrw s = 0 \<and> motor_off s = 0"

lemma io_C0EC: "unat ((0xC0EC :: addr) AND 0xf) = 0xC" "even (unat (0xC0EC :: addr))"
  by simp_all

lemma on_disk_Some: "i < 2 \<Longrightarrow> on_disk i (\<lambda>d. Some (f d)) s = Some (s\<lparr>disk := (disk s)(i := f (disk s i))\<rparr>)"
  by (simp add: on_disk_def)

lemma run_byte_advance:
  "run_byte d < track_width d \<Longrightarrow> run_byte (advance_head d) = (run_byte d + 1) mod track_width d"
  by (auto simp: advance_head_def not_le) (metis Suc_lessI leD mod_self)

lemma nib_data_advance [simp]: "nib_data (advance_head d) = nib_data d"
  by (cases "nib_image_data d") (simp_all add: advance_head_def nib_data_def)

lemma advance_same [simp]:
  "nib_track (advance_head d) = nib_track d" "track_valid (advance_head d) = track_valid d"
  "track_width (advance_head d) = track_width d" "dfd (advance_head d) = dfd d"
  "raw_image_data (advance_head d) = raw_image_data d" "skew_table (advance_head d) = skew_table d"
  "phase (advance_head d) = phase d" "nibblized (advance_head d) = nibblized d"
  "is_protected (advance_head d) = is_protected d" "track_dirty (advance_head d) = track_dirty d"
  by (simp_all add: nib_track_def) (simp_all add: advance_head_def trk_def)

lemma read_one:
  assumes r: "ready_to_read c s" and re: "reload_track c (disk s (drive s)) = Some (True, d)"
    and d: "disk_ok c d" "track_valid d" "dfd d = dfd (disk s (drive s))"
  shows "\<exists>s'. disk6_ioRead c 0xC0EC s = Some (Some (nib_track d ! run_byte d), s') \<and> ready_to_read c s' \<and>
     drive s' = drive s \<and> disk s' (drive s) = advance_head d"
proof -
  obtain nib where nib: "nib_data d = Some nib" "NIB_TRACK_SIZE * trk d + run_byte d < length nib"
    by (rule track_index [OF d(1,2)])
  have rb: "run_byte d < track_width d" using d by (simp add: disk_ok_def)
  let ?b = "nib ! (NIB_TRACK_SIZE * trk d + run_byte d)"
  have b: "nib_track d ! run_byte d = ?b" using nib_track_nth [OF d(1,2) rb] nib(1) by simp
  let ?s = "s\<lparr>disk := (disk s)(drive s := d), disk_byte := ?b\<rparr>"
  have dr: "drive s < 2" using r by (simp add: ready_to_read_def drives_ok_def)
  have t: "transfer_byte c s = Some ?s"
    using r re nib dr by (simp add: transfer_byte_def ready_to_read_def Let_def)
  let ?s' = "?s\<lparr>disk := (disk ?s)(drive s := advance_head d)\<rparr>"
  have "disk_readWriteByte c s = Some ?s'"
    using t dr by (simp add: disk_readWriteByte_def on_disk_Some)
  then have "disk6_ioRead c 0xC0EC s = Some (Some (nib_track d ! run_byte d), ?s')"
    by (simp add: disk6_ioRead_def disk6_access_def b)
  moreover have "ready_to_read c ?s'"
    using r d(3) advance_ok [OF d(1)] by (auto simp: ready_to_read_def drives_ok_def)
  ultimately show ?thesis by (intro exI [of _ ?s']) simp
qed

lemma read_valid:
  assumes "ready_to_read c s" "track_valid (disk s (drive s))"
  shows "\<exists>s'. read_nibbles c n s = Some
     (map (\<lambda>k. nib_track (disk s (drive s)) ! ((run_byte (disk s (drive s)) + k) mod track_width (disk s (drive s)))) [0..<n], s')"
  using assms
proof (induction n arbitrary: s)
  case 0
  then show ?case by simp
next
  case (Suc n)
  let ?d = "disk s (drive s)"
  have d: "disk_ok c ?d" using Suc.prems by (simp add: ready_to_read_def drives_ok_def)
  have rb: "run_byte ?d < track_width ?d" using d Suc.prems by (simp add: disk_ok_def)
  obtain s1 where s1: "disk6_ioRead c 0xC0EC s = Some (Some (nib_track ?d ! run_byte ?d), s1)"
    "ready_to_read c s1" "drive s1 = drive s" "disk s1 (drive s) = advance_head ?d"
    using read_one [OF Suc.prems(1) _ d Suc.prems(2) refl] Suc.prems(2) by (auto simp: reload_track_def)
  have v: "track_valid (disk s1 (drive s1))" using s1 Suc.prems by simp
  obtain s2 where "read_nibbles c n s1 = Some
     (map (\<lambda>k. nib_track ?d ! ((run_byte (advance_head ?d) + k) mod track_width ?d)) [0..<n], s2)"
    using Suc.IH [OF s1(2) v] s1(3,4) by auto
  moreover have "(run_byte (advance_head ?d) + k) mod track_width ?d = (run_byte ?d + Suc k) mod track_width ?d" for k
    using run_byte_advance [OF rb] by (simp add: mod_simps)
  ultimately have "read_nibbles c (Suc n) s = Some (nib_track ?d ! run_byte ?d #
      map (\<lambda>k. nib_track ?d ! ((run_byte ?d + Suc k) mod track_width ?d)) [0..<n], s2)"
    using s1(1) by simp
  moreover have "map (\<lambda>k. nib_track ?d ! ((run_byte ?d + k) mod track_width ?d)) [0..<Suc n] =
      nib_track ?d ! run_byte ?d # map (\<lambda>k. nib_track ?d ! ((run_byte ?d + Suc k) mod track_width ?d)) [0..<n]"
    using rb by (subst upt_conv_Cons) (auto simp: map_Suc_upt [symmetric] simp del: upt_Suc)
  ultimately show ?case by simp
qed

text \<open>
  The first revolution after the head arrived on a track of a sector image: the nibbles read
  are the track's encoding, and decode to its sectors.
\<close>

lemma read_first:
  assumes r: "ready_to_read c s" and d: "d = disk s (drive s)"
    and nv: "\<not> track_valid d" "\<not> nibblized d"
  shows "\<exists>bs s'. read_nibbles c (track_width d) s = Some (bs, s') \<and> length bs = track_width d \<and>
     (\<forall>dst. length dst = 4096 \<longrightarrow> denibblize_track bs (track_width d) (the (skew_table d)) dst = Some (dsk_track d))"
proof -
  have dk: "disk_ok c d" and fd: "0 \<le> dfd d" using r d by (simp_all add: ready_to_read_def drives_ok_def)
  have img: "image_ok c d" and ph: "phase d \<le> 69" and nd: "\<not> track_dirty d"
    using dk fd nv by (auto simp: disk_ok_def)
  obtain out where out:
    "load_track_data c d = Some (track_width d, d\<lparr>own_buffer := splice (own_buffer d) (NIB_TRACK_SIZE * trk d) out\<rparr>)"
    "length out = track_width d"
    "\<And>dst. length dst = 4096 \<Longrightarrow>
       denibblize_track out (track_width d) (the (skew_table d)) dst = Some (dsk_track d)"
    by (rule load_track_ok [OF img ph nv(2)]) blast
  define d1 where "d1 = d\<lparr>own_buffer := splice (own_buffer d) (NIB_TRACK_SIZE * trk d) out,
    track_valid := True, run_byte := 0\<rparr>"
  have re: "reload_track c (disk s (drive s)) = Some (True, d1)"
    using out(1) nv(1) nd by (simp add: reload_track_def d [symmetric] d1_def)
  obtain d1' where "reload_track c d = Some (True, d1')" "disk_ok c d1'"
    by (rule reload_ok [OF dk fd]) blast
  with re have ok1: "disk_ok c d1" by (simp add: d [symmetric])
  have own: "length (own_buffer d) = NIB_SIZE" "nib_image_data d = Nib_own"
    using img nv by (auto simp: image_ok_def)
  have fits: "NIB_TRACK_SIZE * trk d + length out \<le> length (own_buffer d)"
    using track_end [OF trk_bound [OF ph]] image_width [OF img] out(2) own(1) by simp
  have d1: "nib_track d1 = out" "track_valid d1" "dfd d1 = dfd d" "track_width d1 = track_width d" "run_byte d1 = 0"
    using own out(2) take_splice [OF fits] by (simp_all add: d1_def nib_track_def nib_data_def trk_def)
  obtain n where n: "track_width d = Suc n" using image_width [OF img] by (cases "track_width d") auto
  obtain s1 where s1: "disk6_ioRead c 0xC0EC s = Some (Some (out ! 0), s1)" "ready_to_read c s1"
    "drive s1 = drive s" "disk s1 (drive s) = advance_head d1"
    using read_one [OF r re ok1 d1(2)] d1 d by auto
  have w: "run_byte d1 < track_width d1" using d1 n by simp
  have "track_valid (disk s1 (drive s1))" using s1 d1 by simp
  from read_valid [OF s1(2) this, of n] obtain s2 tl where
    tl: "read_nibbles c n s1 = Some (tl, s2)"
    "tl = map (\<lambda>k. out ! ((1 mod track_width d + k) mod track_width d)) [0..<n]"
    using s1(3,4) d1 run_byte_advance [OF w] by auto
  have "tl = map (\<lambda>k. out ! Suc k) [0..<n]"
    using n by (auto simp: tl(2) mod_simps)
  moreover have "out ! 0 # map (\<lambda>k. out ! Suc k) [0..<n] = out"
    using out(2) n by (intro nth_equalityI) (auto simp: nth_Cons split: nat.splits)
  ultimately have "out ! 0 # tl = out" by simp
  then have "read_nibbles c (track_width d) s = Some (out, s2)"
    using s1(1) n tl(1) by simp
  then show ?thesis using out(2,3) by blast
qed

section \<open>Writing\<close>

text \<open>
  A program loads the latch with an odd access and shifts it out with a read of the data
  register, as \<open>STA $C08D,X\<close> and \<open>ORA $C08C,X\<close> do.
\<close>

fun write_nibbles :: "bool \<Rightarrow> byte list \<Rightarrow> drives \<Rightarrow> drives option" where
  "write_nibbles c [] s = Some s"
| "write_nibbles c (b # bs) s = do {
     s \<leftarrow> disk6_ioWrite c 0xC0ED b s;
     (_, s) \<leftarrow> disk6_ioRead c 0xC0EC s;
     write_nibbles c bs s }"

definition ready_to_write :: "bool \<Rightarrow> drives \<Rightarrow> bool" where
  "ready_to_write c s \<longleftrightarrow> drives_ok c s \<and> ddrw s \<noteq> 0 \<and>
     (let d = disk s (drive s) in 0 \<le> dfd d \<and> track_valid d \<and> \<not> is_protected d)"

lemma write_one:
  assumes w: "ready_to_write c s" and b: "\<not> b < 0x96" and d: "d = disk s (drive s)"
  shows "\<exists>s1 r s'. disk6_ioWrite c 0xC0ED b s = Some s1 \<and> disk6_ioRead c 0xC0EC s1 = Some (r, s') \<and>
     ready_to_write c s' \<and> drive s' = drive s \<and>
     (let d' = disk s' (drive s) in
        nib_track d' = (nib_track d)[run_byte d := b] \<and> run_byte d' = (run_byte d + 1) mod track_width d \<and>
        track_width d' = track_width d \<and> phase d' = phase d \<and> nibblized d' = nibblized d \<and>
        skew_table d' = skew_table d \<and> (\<not> nibblized d \<longrightarrow> raw_image_data d' = raw_image_data d) \<and> track_dirty d')"
proof -
  have dk: "disk_ok c d" "track_valid d" "0 \<le> dfd d" "\<not> is_protected d" and dr: "drive s < 2" and wr: "ddrw s \<noteq> 0"
    using w d by (simp_all add: ready_to_write_def drives_ok_def Let_def)
  obtain nib where nib: "nib_data d = Some nib" "length nib = NIB_SIZE" "NIB_TRACK_SIZE * trk d + run_byte d < length nib"
    by (rule track_index [OF dk(1,2)])
  let ?i = "NIB_TRACK_SIZE * trk d + run_byte d"
  define d1 where "d1 = (set_nib_data (nib[?i := b]) d)\<lparr>track_dirty := True\<rparr>"
  have ok1: "disk_ok c d1" unfolding d1_def by (rule set_nib_ok [OF dk(1,2) nib(1)]) simp
  let ?s1 = "s\<lparr>disk_byte := b\<rparr>"
  have s1: "disk6_ioWrite c 0xC0ED b s = Some ?s1"
    using wr by (simp add: disk6_ioWrite_def disk6_access_def)
  let ?s2 = "?s1\<lparr>disk := (disk s)(drive s := advance_head d1)\<rparr>"
  have "transfer_byte c ?s1 = Some (?s1\<lparr>disk := (disk s)(drive s := d1)\<rparr>)"
    using dk dr wr b nib d by (simp add: transfer_byte_def reload_track_def Let_def d1_def)
  then have "disk_readWriteByte c ?s1 = Some ?s2"
    using dr by (simp add: disk_readWriteByte_def on_disk_Some)
  then have s2: "\<exists>r. disk6_ioRead c 0xC0EC ?s1 = Some (r, ?s2)"
    by (simp add: disk6_ioRead_def disk6_access_def)
  have rb: "run_byte d < track_width d" using dk by (simp add: disk_ok_def)
  have f: "track_width d1 = track_width d" "run_byte d1 = run_byte d" "phase d1 = phase d" "dfd d1 = dfd d"
    "nibblized d1 = nibblized d" "skew_table d1 = skew_table d" "track_valid d1" "is_protected d1 = is_protected d"
    "track_dirty d1" "trk d1 = trk d"
    using dk(2) by (cases "nib_image_data d"; simp add: d1_def set_nib_data_def trk_def)+
  have nd: "nib_data d1 = Some (nib[?i := b])"
    using nib(1) by (cases "nib_image_data d") (simp_all add: d1_def set_nib_data_def nib_data_def)
  have rawsame: "\<not> nibblized d \<longrightarrow> raw_image_data d1 = raw_image_data d"
    using dk by (auto simp: d1_def set_nib_data_def disk_ok_def image_ok_def split: if_splits)
  have tr: "nib_track d1 = (nib_track d)[run_byte d := b]"
    using nib rb f by (simp add: nib_track_def nd drop_update_swap take_update_swap)
  have "ready_to_write c ?s2"
    using w advance_ok [OF ok1] f dk by (auto simp: ready_to_write_def drives_ok_def Let_def)
  then show ?thesis
    using s1 s2 tr f rawsame run_byte_advance [of d1] rb by (auto simp: Let_def)
qed

definition frame_same :: "diskette \<Rightarrow> diskette \<Rightarrow> bool" where
  "frame_same d d' \<longleftrightarrow> track_width d' = track_width d \<and> phase d' = phase d \<and> nibblized d' = nibblized d \<and>
     skew_table d' = skew_table d \<and> (\<not> nibblized d \<longrightarrow> raw_image_data d' = raw_image_data d)"

lemma write_many:
  assumes "ready_to_write c s" "\<forall>b \<in> set bs. \<not> b < 0x96"
    "run_byte (disk s (drive s)) + length bs \<le> track_width (disk s (drive s))"
  shows "\<exists>s'. write_nibbles c bs s = Some s' \<and> ready_to_write c s' \<and> drive s' = drive s \<and>
     frame_same (disk s (drive s)) (disk s' (drive s)) \<and>
     nib_track (disk s' (drive s)) = splice (nib_track (disk s (drive s))) (run_byte (disk s (drive s))) bs"
  using assms
proof (induction bs arbitrary: s)
  case Nil
  then show ?case by (simp add: frame_same_def splice_def)
next
  case (Cons b bs)
  let ?d = "disk s (drive s)"
  have b: "\<not> b < 0x96" using Cons.prems(2) by simp
  obtain s1 r s2 where st: "disk6_ioWrite c 0xC0ED b s = Some s1" "disk6_ioRead c 0xC0EC s1 = Some (r, s2)"
    "ready_to_write c s2" "drive s2 = drive s" "nib_track (disk s2 (drive s)) = (nib_track ?d)[run_byte ?d := b]"
    "run_byte (disk s2 (drive s)) = (run_byte ?d + 1) mod track_width ?d" "frame_same ?d (disk s2 (drive s))"
    using write_one [OF Cons.prems(1) b refl] by (auto simp: frame_same_def Let_def)
  have len: "length (nib_track ?d) = track_width ?d"
  proof (rule nib_track_nth(2))
    show "disk_ok c ?d" "track_valid ?d" "run_byte ?d < track_width ?d"
      using Cons.prems by (auto simp: ready_to_write_def drives_ok_def disk_ok_def Let_def)
  qed
  have width: "track_width (disk s2 (drive s)) = track_width ?d" using st(7) by (simp add: frame_same_def)
  show ?case
  proof (cases "bs = []")
    case True
    then show ?thesis
      using st len Cons.prems(3) by (auto simp: splice_def upd_conv_take_nth_drop)
  next
    case False
    then have lt: "run_byte ?d + 1 < track_width ?d" using Cons.prems(3) by (cases bs) auto
    then have rb: "run_byte (disk s2 (drive s2)) = run_byte ?d + 1" using st by simp
    have "\<exists>s'. write_nibbles c bs s2 = Some s' \<and> ready_to_write c s' \<and> drive s' = drive s2 \<and>
        frame_same (disk s2 (drive s2)) (disk s' (drive s2)) \<and>
        nib_track (disk s' (drive s2)) = splice (nib_track (disk s2 (drive s2))) (run_byte (disk s2 (drive s2))) bs"
      by (rule Cons.IH) (use Cons.prems rb width st in auto)
    then obtain s' where s': "write_nibbles c bs s2 = Some s'" "ready_to_write c s'" "drive s' = drive s"
      "frame_same (disk s2 (drive s)) (disk s' (drive s))"
      "nib_track (disk s' (drive s)) = splice (nib_track (disk s2 (drive s))) (run_byte ?d + 1) bs"
      using st(4) rb by auto
    have "splice ((nib_track ?d)[run_byte ?d := b]) (run_byte ?d + 1) bs = splice (nib_track ?d) (run_byte ?d) (b # bs)"
      using lt len by (simp add: splice_def upd_conv_take_nth_drop add.commute)
    moreover have "frame_same ?d (disk s' (drive s))"
      using st(7) s'(4) by (auto simp: frame_same_def)
    ultimately show ?thesis using st s' by auto
  qed
qed

text \<open>Every byte of an encoded track is one the controller will write.\<close>

lemma table_valid: "\<forall>b \<in> set translate_table_6. \<not> b < 0x96"
  by (simp add: translate_table_6_def)

lemma code44_valid: "b \<in> set (code44 x) \<Longrightarrow> \<not> b < 0x96"
proof -
  have "(0x96 :: byte) \<le> 0xAA" by simp
  moreover have "(0xAA :: byte) \<le> y OR 0xAA" for y by (rule le_word_or1)
  ultimately have "\<not> (y OR 0xAA) < (0x96 :: byte)" for y by (meson leD order_trans)
  then show "b \<in> set (code44 x) \<Longrightarrow> \<not> b < 0x96" by (auto simp: code44_def CODE44A_def CODE44B_def)
qed

lemma sector_valid: "nibblize_sector src = Some nibs \<Longrightarrow> b \<in> set nibs \<Longrightarrow> \<not> b < 0x96"
proof -
  have "translate_table_6 ! unat (drop_bit 2 w) \<in> set translate_table_6" for w :: byte
    using drop_2_less [of w] by (intro nth_mem) (simp add: translate_table_6_def)
  then show "nibblize_sector src = Some nibs \<Longrightarrow> b \<in> set nibs \<Longrightarrow> \<not> b < 0x96"
    using table_valid by (auto simp: nibblize_sector_def bind_eq_Some_conv)
qed

lemma fields_valid:
  "sector_fields c t skew buf ss = Some fs \<Longrightarrow> b \<in> set fs \<Longrightarrow> \<not> b < 0x96"
proof (induction ss arbitrary: fs)
  case Nil
  then show ?case by simp
next
  case (Cons s ss)
  then obtain f fs' where f: "sector_field c t skew buf s = Some f" "sector_fields c t skew buf ss = Some fs'"
    "fs = f @ fs'" by (auto simp: bind_eq_Some_conv)
  show ?case
  proof (cases "b \<in> set fs'")
    case True
    then show ?thesis using Cons.IH f(2) by blast
  next
    case False
    then have "b \<in> set f" using Cons.prems(2) f(3) by simp
    then show ?thesis
      using f(1) code44_valid sector_valid
      by (auto simp: sector_field_def address_field_def sector_gap_def Let_def bind_eq_Some_conv)
  qed
qed

lemma track_valid_bytes: "nibblize_track c t skew buf = Some img \<Longrightarrow> b \<in> set img \<Longrightarrow> \<not> b < 0x96"
  using fields_valid by (auto simp: nibblize_track_def lead_gap_def bind_eq_Some_conv simp del: upt_rec_numeral)

text \<open>A track written by the program ends up, sector by sector, in the disk image.\<close>

lemma write_track_saved:
  assumes w: "ready_to_write c s" and d: "d = disk s (drive s)" "\<not> nibblized d" "run_byte d = 0"
    and buf: "length buf = 4096" "nibblize_track c t (the (skew_table d)) buf = Some img"
  shows "\<exists>s' d'. write_nibbles c img s = Some s' \<and> save_track_data (disk s' (drive s)) = Some d' \<and>
     raw_image_data d' = Some (splice (the (raw_image_data d)) (DSK_TRACK_SIZE * trk d) buf)"
proof -
  have dk: "disk_ok c d" "track_valid d" "0 \<le> dfd d"
    using w d by (simp_all add: ready_to_write_def drives_ok_def Let_def)
  have img: "image_ok c d" using dk by (auto simp: disk_ok_def)
  obtain skew where skew: "skew_table d = Some skew" "\<forall>s < 16. skew ! s < 16" "\<forall>k < 16. \<exists>s < 16. skew ! s = k"
    by (rule skew_ok [OF img d(2)])
  obtain out where out: "nibblize_track c t skew buf = Some out" "length out = conf_width c"
    "\<forall>dst. length dst = 4096 \<longrightarrow> denibblize_track out (length out) skew dst = Some buf"
    by (rule track_decode_all [OF buf(1) skew(2,3)])
  with buf(2) skew(1) have io: "img = out" by simp
  have width: "track_width d = conf_width c" using img d(2) by (simp add: image_ok_def)
  have len: "length (nib_track d) = track_width d"
    using nib_track_nth(2) [OF dk(1,2), of 0] dk(1,2) by (simp add: disk_ok_def)
  have "\<forall>b \<in> set img. \<not> b < 0x96" using track_valid_bytes [OF buf(2)] by blast
  then have "\<exists>s'. write_nibbles c img s = Some s' \<and> ready_to_write c s' \<and> drive s' = drive s \<and>
     frame_same d (disk s' (drive s)) \<and> nib_track (disk s' (drive s)) = splice (nib_track d) 0 img"
    using write_many [OF w, of img] d out(2) width io by simp
  then obtain s' where s': "write_nibbles c img s = Some s'" "ready_to_write c s'" "drive s' = drive s"
    "frame_same d (disk s' (drive s))" "nib_track (disk s' (drive s)) = splice (nib_track d) 0 img" by blast
  let ?d = "disk s' (drive s)"
  have dk': "disk_ok c ?d" "0 \<le> dfd ?d" using s'(2,3) by (simp_all add: ready_to_write_def drives_ok_def Let_def)
  have img': "image_ok c ?d" "phase ?d \<le> 69" "\<not> nibblized ?d"
    using dk' s'(4) d(2) by (auto simp: disk_ok_def frame_same_def)
  have tr: "nib_track ?d = img" using s'(5) len out(2) width io by (simp add: splice_def)
  have same: "dsk_track ?d = dsk_track d" "trk ?d = trk d" "raw_image_data ?d = raw_image_data d"
    "skew_table ?d = Some skew" "track_width ?d = length out"
    using s'(4) d(2) skew(1) out(2) width by (auto simp: frame_same_def dsk_track_def trk_def)
  obtain raw where raw: "raw_image_data d = Some raw" "length raw = DSK_SIZE"
    using img d(2) by (auto simp: image_ok_def)
  have "trk d < NUM_TRACKS" using dk(1) trk_bound by (simp add: disk_ok_def)
  then have "length (dsk_track d) = 4096"
    using raw dsk_track_end [of "trk d"] by (simp add: dsk_track_def DSK_TRACK_SIZE_def)
  then have "decode_track ?d = Some buf"
    using out(3) tr io same by (simp add: decode_track_def)
  then show ?thesis
    using s'(1) save_track_eq [OF img'] same by auto
qed

end
