(* ===== verification/A2_DiskGuarantees.thy ===== *)
theory A2_DiskGuarantees
  imports A2_DiskProps
begin

text \<open>
  What a program that drives the Disk ][ sees: every access is safe, the nibbles of a revolution
  decode to the image, written nibbles reach it, the head goes where the magnets pull it, an inserted
  image leaves a well-formed drive; and the one way a program can make the emulator fail an assertion.
\<close>

section \<open>Positioning the head\<close>

text \<open>\<open>pull k\<close> energises magnet \<open>k\<close> and releases it again, as the slot ROM and the disk
  operating systems do through the eight stepper switches.\<close>

definition pull :: "bool \<Rightarrow> nat \<Rightarrow> drives \<Rightarrow> drives option" where
  "pull c k s = do {
     (_, s) \<leftarrow> disk6_ioRead c (0xC0E1 + 2 * of_nat k) s;
     (_, s) \<leftarrow> disk6_ioRead c (0xC0E0 + 2 * of_nat k) s;
     Some s }"

fun pulls :: "bool \<Rightarrow> nat list \<Rightarrow> drives \<Rightarrow> drives option" where
  "pulls c [] s = Some s"
| "pulls c (k # ks) s = do { s \<leftarrow> pull c k s; pulls c ks s }"

text \<open>Where one pull leaves the cog.\<close>

definition cog :: "nat \<Rightarrow> nat \<Rightarrow> nat" where
  "cog k p = (if k = (p + 1) mod 4 then min 69 (p + 1) else if k = (p + 3) mod 4 then p - 1 else p)"

definition clean :: "bool \<Rightarrow> drives \<Rightarrow> bool" where
  "clean c s \<longleftrightarrow> drives_ok c s \<and> stepper_phases s = 0 \<and> \<not> track_dirty (disk s (drive s))"

lemma magnet_addr:
  assumes "k < 4"
  shows "unat ((0xC0E1 + 2 * of_nat k :: addr) AND 0xf) = 2 * k + 1"
    "unat ((0xC0E0 + 2 * of_nat k :: addr) AND 0xf) = 2 * k"
    "set_magnet (0xC0E1 + 2 * of_nat k) 0 = 2 ^ k"
    "set_magnet (0xC0E0 + 2 * of_nat k) (2 ^ k) = 0"
proof -
  have "k = 0 \<or> k = 1 \<or> k = 2 \<or> k = 3" using assms by linarith
  then show "unat ((0xC0E1 + 2 * of_nat k :: addr) AND 0xf) = 2 * k + 1"
    "unat ((0xC0E0 + 2 * of_nat k :: addr) AND 0xf) = 2 * k"
    "set_magnet (0xC0E1 + 2 * of_nat k) 0 = 2 ^ k"
    "set_magnet (0xC0E0 + 2 * of_nat k) (2 ^ k) = 0"
    by (elim disjE; simp add: set_magnet_def set_bit_eq_or unset_bit_eq_and_not flip_bit_eq_xor; code_simp)+
qed

lemma direction_none: "step_direction 0 p = 0"
  by (simp add: step_direction_def)

lemma direction_cog:
  assumes "k < 4" "p \<le> 69"
  shows "next_phase p (step_direction (2 ^ k) p) = cog k p"
proof -
  have "bit (2 ^ k :: nat) n \<longleftrightarrow> n = k" for n by (auto simp: bit_simps)
  then show ?thesis using assms
    by (auto simp: step_direction_def next_phase_def cog_def split: if_splits; presburger)
qed

lemma move_head_clean:
  assumes "disk_ok c d" "\<not> track_dirty d"
  shows "\<exists>v. move_head m d = Some (d\<lparr>phase := next_phase (phase d) (step_direction m (phase d)), track_valid := v\<rparr>) \<and>
    (v \<longrightarrow> track_valid d)"
proof -
  have p: "next_phase (phase d) 0 = phase d" using assms(1) by (simp add: next_phase_def disk_ok_def)
  show ?thesis
  proof (cases "step_direction m (phase d) = 0 \<or>
      drop_bit 1 (phase d) = drop_bit 1 (next_phase (phase d) (step_direction m (phase d)))")
    case True
    then show ?thesis using assms(2)
      by (intro exI [of _ "track_valid d"]) (auto simp: move_head_def Let_def p)
  next
    case False
    then show ?thesis using assms(2)
      by (intro exI [of _ False]) (auto simp: move_head_def Let_def p)
  qed
qed

lemma phase_access:
  assumes "drives_ok c s" "\<not> track_dirty (disk s (drive s))" "unat (ea AND 0xf) \<le> 7"
  shows "\<exists>r v. disk6_ioRead c ea s = Some (r, s\<lparr>stepper_phases := set_magnet ea (stepper_phases s),
      disk := (disk s)(drive s := (disk s (drive s))\<lparr>
        phase := next_phase (phase (disk s (drive s)))
          (step_direction (set_magnet ea (stepper_phases s)) (phase (disk s (drive s)))), track_valid := v\<rparr>)\<rparr>) \<and>
      (v \<longrightarrow> track_valid (disk s (drive s)))"
proof -
  have d: "drive s < 2" "disk_ok c (disk s (drive s))" using assms(1) by (auto simp: drives_ok_def)
  obtain v where v: "move_head (set_magnet ea (stepper_phases s)) (disk s (drive s)) =
      Some ((disk s (drive s))\<lparr>phase := next_phase (phase (disk s (drive s)))
        (step_direction (set_magnet ea (stepper_phases s)) (phase (disk s (drive s)))), track_valid := v\<rparr>)"
    "v \<longrightarrow> track_valid (disk s (drive s))"
    using move_head_clean [OF d(2) assms(2)] by blast
  show ?thesis using assms(3) d(1) v
    by (auto simp: disk6_ioRead_def disk6_access_def disk6_phaseChange_def on_disk_def)
qed

lemma disk_ok_moved:
  "disk_ok c d \<Longrightarrow> \<not> track_dirty d \<Longrightarrow> p \<le> 69 \<Longrightarrow> (v \<longrightarrow> track_valid d) \<Longrightarrow>
   disk_ok c (d\<lparr>phase := p, track_valid := v\<rparr>)"
  by (auto simp: disk_ok_def image_ok_cong split: if_splits)

lemma pull_ok:
  assumes "clean c s" "k < 4"
  shows "\<exists>s'. pull c k s = Some s' \<and> clean c s' \<and> drive s' = drive s \<and>
    phase (disk s' (drive s)) = cog k (phase (disk s (drive s))) \<and>
    raw_image_data (disk s' (drive s)) = raw_image_data (disk s (drive s))"
proof -
  let ?d = "disk s (drive s)"
  let ?p = "cog k (phase ?d)"
  have s: "drives_ok c s" "stepper_phases s = 0" "\<not> track_dirty ?d" using assms(1) by (simp_all add: clean_def)
  have ph: "phase ?d \<le> 69" and dr: "drive s < 2" and dk: "disk_ok c ?d" using s(1) by (auto simp: drives_ok_def disk_ok_def)
  obtain r v where v: "disk6_ioRead c (0xC0E1 + 2 * of_nat k) s = Some (r, s\<lparr>stepper_phases := 2 ^ k,
      disk := (disk s)(drive s := ?d\<lparr>phase := ?p, track_valid := v\<rparr>)\<rparr>)" "v \<longrightarrow> track_valid ?d"
    using phase_access [OF s(1,3), of "0xC0E1 + 2 * of_nat k"] assms(2)
    unfolding s(2) magnet_addr [OF assms(2)] direction_cog [OF assms(2) ph] by auto
  let ?s = "s\<lparr>stepper_phases := 2 ^ k, disk := (disk s)(drive s := ?d\<lparr>phase := ?p, track_valid := v\<rparr>)\<rparr>"
  have p69: "?p \<le> 69" using ph by (auto simp: cog_def)
  have ok: "drives_ok c ?s"
    using s(1) disk_ok_moved [OF dk s(3) p69 v(2)] by (auto simp: drives_ok_def)
  have np: "next_phase ?p 0 = ?p" using p69 by (simp add: next_phase_def)
  obtain r' v' where v': "disk6_ioRead c (0xC0E0 + 2 * of_nat k) ?s = Some (r', ?s\<lparr>stepper_phases := 0,
      disk := (disk s)(drive s := ?d\<lparr>phase := ?p, track_valid := v'\<rparr>)\<rparr>)" "v' \<longrightarrow> v"
    using phase_access [OF ok, of "0xC0E0 + 2 * of_nat k"] assms(2) s(3)
    by (auto simp: magnet_addr [OF assms(2)] direction_none np)
  have "drives_ok c (?s\<lparr>stepper_phases := 0, disk := (disk s)(drive s := ?d\<lparr>phase := ?p, track_valid := v'\<rparr>)\<rparr>)"
    using s(1) disk_ok_moved [OF dk s(3) p69, of v'] v(2) v'(2) by (auto simp: drives_ok_def)
  then show ?thesis using v v' s(3) by (auto simp: pull_def clean_def)
qed

lemma pulls_ok:
  assumes "clean c s" "\<forall>k \<in> set ks. k < 4"
  shows "\<exists>s'. pulls c ks s = Some s' \<and> clean c s' \<and> drive s' = drive s \<and>
    phase (disk s' (drive s)) = fold cog ks (phase (disk s (drive s))) \<and>
    raw_image_data (disk s' (drive s)) = raw_image_data (disk s (drive s))"
  using assms
proof (induction ks arbitrary: s)
  case Nil
  then show ?case by simp
next
  case (Cons k ks)
  obtain s1 where s1: "pull c k s = Some s1" "clean c s1" "drive s1 = drive s"
      "phase (disk s1 (drive s)) = cog k (phase (disk s (drive s)))"
      "raw_image_data (disk s1 (drive s)) = raw_image_data (disk s (drive s))"
    using pull_ok [OF Cons.prems(1), of k] Cons.prems(2) by auto
  show ?case using Cons.IH [OF s1(2)] Cons.prems(2) s1 by auto
qed

lemma cog_inwards: "p + n \<le> 69 \<Longrightarrow> fold cog (map (\<lambda>i. (p + Suc i) mod 4) [0..<n]) p = p + n"
proof (induction n)
  case (Suc n)
  then show ?case by (simp add: cog_def)
qed simp

text \<open>Pulling magnets 0, 3, 2, 1, 0, ... drags the cog outwards to phase 0, where it stays near
  the stop.\<close>

lemma cog_outwards:
  "(p \<le> y \<and> p mod 4 = y mod 4) \<or> p = 0 \<Longrightarrow> fold cog (map (\<lambda>i. i mod 4) (rev [0..<y])) p = 0"
proof (induction y arbitrary: p)
  case (Suc y)
  have "(cog (y mod 4) p \<le> y \<and> cog (y mod 4) p mod 4 = y mod 4) \<or> cog (y mod 4) p = 0"
  proof (cases "p = 0")
    case True
    moreover have "y mod 4 = 1 \<Longrightarrow> 1 \<le> y" by (cases y) simp_all
    ultimately show ?thesis by (auto simp: cog_def)
  next
    case False
    then obtain q where q: "p = Suc q" by (cases p) auto
    have qy: "q mod 4 = y mod 4" "q \<le> y"
      using Suc.prems False q by (simp_all add: mod_Suc split: if_splits)
    have "(p + 3) mod 4 = q mod 4" using q by simp
    moreover have "(p + 1) mod 4 \<noteq> q mod 4" using q by (simp add: mod_Suc)
    ultimately show ?thesis using qy q by (simp add: cog_def)
  qed
  then show ?case using Suc.IH by simp
qed auto

lemma cog_recalibrate:
  assumes "p \<le> 69"
  shows "fold cog (map (\<lambda>i. i mod 4) (rev [0..<81])) p = 0"
proof -
  let ?p = "cog 3 (cog 0 p)"
  obtain q r where p: "p = 4 * q + r" "r < 4" using mult_div_mod_eq [of 4 p] by (metis mod_less_divisor zero_less_numeral)
  have "r = 0 \<or> r = 1 \<or> r = 2 \<or> r = 3" using p(2) by linarith
  then have "?p \<le> 79 \<and> ?p mod 4 = 3 \<or> ?p = 0"
  proof (elim disjE)
    assume r: "r = 0"
    show ?thesis
    proof (cases q)
      case 0
      then show ?thesis using p r by (simp add: cog_def)
    next
      case (Suc q')
      then have e: "?p = 4 * q' + 3" using p r by (simp add: cog_def mod_Suc)
      show ?thesis unfolding e using assms p Suc by (simp add: mod_Suc)
    qed
  next
    assume r: "r = 1"
    show ?thesis
    proof (cases q)
      case 0
      then show ?thesis using p r by (simp add: cog_def)
    next
      case (Suc q')
      then have e: "?p = 4 * q' + 3" using p r by (simp add: cog_def mod_Suc)
      show ?thesis unfolding e using assms p Suc by (simp add: mod_Suc)
    qed
  next
    assume r: "r = 2"
    have "?p = 4 * q + 3" using p r assms by (simp add: cog_def mod_Suc)
    then show ?thesis using assms p by (simp add: mod_Suc)
  next
    assume r: "r = 3"
    have "q \<le> 16" using p r assms by simp
    then have m: "cog 0 p = 4 * q + 4" using p r by (simp add: cog_def mod_Suc min_def)
    have "?p = 4 * q + 3" unfolding m by (simp add: cog_def mod_Suc)
    then show ?thesis using assms p by (simp add: mod_Suc)
  qed
  then have "(?p \<le> 79 \<and> ?p mod 4 = 79 mod 4) \<or> ?p = 0" by simp
  then have "fold cog (map (\<lambda>i. i mod 4) (rev [0..<79])) ?p = 0" by (rule cog_outwards)
  moreover have "rev [0..<81] = 80 # 79 # rev [0..<79]"
    using upt_Suc_append [of 0 80] upt_Suc_append [of 0 79] by (simp del: upt_rec_numeral)
  ultimately show ?thesis by (simp del: upt_rec_numeral)
qed

section \<open>Guarantees\<close>

text \<open>A drive with a blank sector image, and the same with its first track loaded.\<close>

definition blank_disk :: diskette where
  "blank_disk = \<lparr>file_name = Some ''blank.dsk'', dfd = 3, raw_image_data = Some (replicate DSK_SIZE 0),
     whole_len = DSK_SIZE, nib_image_data = Nib_own, own_buffer = replicate NIB_SIZE 0, nibblized = False,
     is_protected = False, track_valid = False, track_dirty = False, skew_table = Some skew_table_6_do,
     track_width = NI2_TRACK_SIZE, phase = 0, run_byte = 0\<rparr>"

definition blank_drives :: "bool \<Rightarrow> drives" where
  "blank_drives v = \<lparr>motor_off = 0, drive = 0, ddrw = (if v then 1 else 0), disk_byte = 0,
     disk = (\<lambda>_. blank_disk\<lparr>track_valid := v\<rparr>), stepper_phases = 0\<rparr>"

lemma blank_ok:
  "image_ok True blank_disk" "drives_ok True (blank_drives v)" "clean True (blank_drives v)"
  "ready_to_read True (blank_drives False)" "ready_to_write True (blank_drives True)"
  by (simp_all add: image_ok_def disk_ok_def drives_ok_def clean_def ready_to_read_def ready_to_write_def
      blank_disk_def blank_drives_def conf_width_def disk_consts)

text \<open>C5: no access to the sixteen Disk ][ switches leaves a buffer or fails an assertion, and
  every one keeps the drives well-formed, with one exception: a head movement off a track the
  program has overwritten with nibbles that do not decode.\<close>

theorem disk_access_safe:
  assumes "drives_ok c s"
  shows "(\<exists>s'. disk6_access c rd ea s = Some s' \<and> drives_ok c s') \<or>
         disk6_access c rd ea s = None \<and> unat (ea AND 0xf) \<le> 7 \<and>
         (let d = disk s (drive s) in track_dirty d \<and> \<not> nibblized d \<and> decode_track d = None)"
  by (rule access_ok [OF assms])

theorem disk_access_safe_witness:
  "\<exists>s'. disk6_access True True 0xC0EC (blank_drives True) = Some s' \<and> drives_ok True s'"
  using disk_access_safe [where ea = "0xC0EC" and rd = True, OF blank_ok(2) [of True]] by (simp add: io_C0EC)

text \<open>C7: on a track not yet loaded, the first revolution of nibbles that a program reads through
  the data latch decodes to exactly the 4096 bytes the sector image holds for the track.\<close>

theorem first_revolution_decodes:
  assumes "ready_to_read c s" and "d = disk s (drive s)" and "\<not> track_valid d" "\<not> nibblized d"
  shows "\<exists>bs s'. read_nibbles c (track_width d) s = Some (bs, s') \<and> length bs = track_width d \<and>
     (\<forall>dst. length dst = 4096 \<longrightarrow> denibblize_track bs (track_width d) (the (skew_table d)) dst = Some (dsk_track d))"
  by (rule read_first [OF assms])

theorem first_revolution_decodes_witness:
  "\<exists>bs s'. read_nibbles True NI2_TRACK_SIZE (blank_drives False) = Some (bs, s') \<and> length bs = NI2_TRACK_SIZE \<and>
     (\<forall>dst. length dst = 4096 \<longrightarrow>
        denibblize_track bs NI2_TRACK_SIZE skew_table_6_do dst = Some (dsk_track blank_disk))"
  using first_revolution_decodes [OF blank_ok(4) refl]
  by (simp add: blank_drives_def blank_disk_def dsk_track_def trk_def)

text \<open>C6: a program that writes a whole track through the latch, a nibble at a time, and lets the
  track be saved, finds exactly its 4096 data bytes in the image file, and nothing else changed.\<close>

theorem written_track_reaches_image:
  assumes "ready_to_write c s" and "d = disk s (drive s)" "\<not> nibblized d" "run_byte d = 0"
    and "length buf = 4096" "nibblize_track c t (the (skew_table d)) buf = Some img"
  shows "\<exists>s' d'. write_nibbles c img s = Some s' \<and> save_track_data (disk s' (drive s)) = Some d' \<and>
     raw_image_data d' = Some (splice (the (raw_image_data d)) (DSK_TRACK_SIZE * trk d) buf)"
  by (rule write_track_saved [OF assms])

theorem written_track_reaches_image_witness:
  "\<exists>img s' d'. nibblize_track True 0 skew_table_6_do (replicate 4096 7) = Some img \<and>
     write_nibbles True img (blank_drives True) = Some s' \<and> save_track_data (disk s' 0) = Some d' \<and>
     raw_image_data d' = Some (splice (replicate DSK_SIZE 0) 0 (replicate 4096 7))"
proof -
  obtain img where img: "nibblize_track True 0 skew_table_6_do (replicate 4096 7) = Some img"
    by (rule track_decode_all [of "replicate 4096 7" skew_table_6_do True 0])
      (rule skew_tables_ok length_replicate | assumption)+
  show ?thesis
    using written_track_reaches_image [OF blank_ok(5) refl, of "replicate 4096 7" 0 img] img
    by (simp add: blank_drives_def blank_disk_def trk_def)
qed

text \<open>C34: loading a track of a sector image and saving it again, with nothing written in between,
  leaves the image unchanged: conversion to nibbles and back is stable.\<close>

theorem load_save_stable:
  assumes "image_ok c d" "phase d \<le> 69"
  shows "\<exists>w d' d''. load_track_data c d = Some (w, d') \<and> w = track_width d \<and>
    save_track_data d' = Some d'' \<and> raw_image_data d'' = raw_image_data d"
proof -
  obtain w d' where l: "load_track_data c d = Some (w, d')"
  proof (cases "nibblized d")
    case True
    then show ?thesis using that by (simp add: load_track_data_def)
  next
    case False
    show ?thesis by (rule load_track_ok [OF assms False]) (rule that)
  qed
  show ?thesis using l load_save_track [OF assms l] by blast
qed

theorem load_save_stable_witness:
  "\<exists>w d' d''. load_track_data True blank_disk = Some (w, d') \<and> w = NI2_TRACK_SIZE \<and>
    save_track_data d' = Some d'' \<and> raw_image_data d'' = Some (replicate DSK_SIZE 0)"
  using load_save_stable [OF blank_ok(1)] by (simp add: blank_disk_def)

text \<open>C33: pulling the magnets in rising order moves the head one phase per pull, and the
  recalibration of the slot ROM, 81 pulls in falling order, brings it to phase 0 from anywhere;
  the image is left alone.\<close>

theorem seek_and_recalibrate:
  assumes "clean c s" and "phase (disk s (drive s)) + n \<le> 69"
  shows "(\<exists>s'. pulls c (map (\<lambda>i. (phase (disk s (drive s)) + Suc i) mod 4) [0..<n]) s = Some s' \<and> clean c s' \<and>
        phase (disk s' (drive s)) = phase (disk s (drive s)) + n) \<and>
    (\<exists>s'. pulls c (map (\<lambda>i. i mod 4) (rev [0..<81])) s = Some s' \<and> clean c s' \<and>
        phase (disk s' (drive s)) = 0 \<and> raw_image_data (disk s' (drive s)) = raw_image_data (disk s (drive s)))"
proof -
  have p: "phase (disk s (drive s)) \<le> 69" using assms(2) by simp
  have "\<forall>k \<in> set (map (\<lambda>i. i mod 4) xs). k < 4" for xs :: "nat list" by simp
  from pulls_ok [OF assms(1) this, of "rev [0..<81]"]
  have "\<exists>s'. pulls c (map (\<lambda>i. i mod 4) (rev [0..<81])) s = Some s' \<and> clean c s' \<and>
        phase (disk s' (drive s)) = 0 \<and> raw_image_data (disk s' (drive s)) = raw_image_data (disk s (drive s))"
    unfolding cog_recalibrate [OF p] by blast
  moreover have "\<forall>k \<in> set (map (\<lambda>i. (phase (disk s (drive s)) + Suc i) mod 4) [0..<n]). k < 4" by simp
  from pulls_ok [OF assms(1) this]
  have "\<exists>s'. pulls c (map (\<lambda>i. (phase (disk s (drive s)) + Suc i) mod 4) [0..<n]) s = Some s' \<and> clean c s' \<and>
        phase (disk s' (drive s)) = phase (disk s (drive s)) + n"
    unfolding cog_inwards [OF assms(2)] by blast
  ultimately show ?thesis by blast
qed

theorem seek_and_recalibrate_witness:
  "(\<exists>s'. pulls True (map (\<lambda>i. (0 + Suc i) mod 4) [0..<34]) (blank_drives False) = Some s' \<and>
     clean True s' \<and> phase (disk s' 0) = 0 + 34) \<and>
   (\<exists>s'. pulls True (map (\<lambda>i. i mod 4) (rev [0..<81])) (blank_drives False) = Some s' \<and>
     clean True s' \<and> phase (disk s' 0) = 0)"
proof -
  have z: "drive (blank_drives False) = 0" "phase (disk (blank_drives False) 0) = 0"
    by (simp_all add: blank_drives_def blank_disk_def)
  have "(0 :: nat) + 34 \<le> 69" by simp
  from seek_and_recalibrate [OF blank_ok(3) [of False], unfolded z, OF this]
  show ?thesis by blast
qed
section \<open>A program can stop the emulator\<close>

lemma orphan_data_field:
  assumes "img = [0xD5, 0xAA, 0xAD] @ post"
  shows "denibblize_track img (length img) skew dst = None"
proof -
  have f: "find_prologue img (length img) NIB_TRACK_SIZE (0, [0, 0, 0]) 0 = ([0xD5, 0xAA, 0xAD], 3 mod length img)"
    using find_hit [of img "[]" "0xAA" "0xAD" post NIB_TRACK_SIZE] assms by (simp add: NIB_TRACK_SIZE_def)
  have "search_step img (length img) skew (0, -1, dst) = None"
    by (simp add: search_step_def f Let_def c_assert_def split: prod.split)
  then show ?thesis by (simp add: denibblize_track_def)
qed

text \<open>C35: three bytes written at the start of a track are enough to make the emulator fail the
  assertion on the decoded sector number when the track is saved: a data prologue with no
  address field before it.\<close>

theorem orphan_data_field_aborts:
  assumes w: "ready_to_write c s" and d: "d = disk s (drive s)" "\<not> nibblized d" "run_byte d = 0"
  shows "\<exists>s'. write_nibbles c [0xD5, 0xAA, 0xAD] s = Some s' \<and> save_track_data (disk s' (drive s)) = None"
proof -
  have dk: "disk_ok c d" "track_valid d" "0 \<le> dfd d"
    using w d(1) by (auto simp: ready_to_write_def drives_ok_def Let_def)
  have img: "image_ok c d" "phase d \<le> 69" using dk by (auto simp: disk_ok_def)
  have wd: "3 \<le> track_width d" using img(1) d(2) by (simp add: image_ok_def conf_width_def NI2_TRACK_SIZE_def)
  have len: "length (nib_track d) = track_width d" using nib_track_nth [OF dk(1,2), of 0] wd by simp
  obtain s' where s': "write_nibbles c [0xD5, 0xAA, 0xAD] s = Some s'" "ready_to_write c s'" "drive s' = drive s"
      "frame_same d (disk s' (drive s))"
      "nib_track (disk s' (drive s)) = splice (nib_track d) 0 [0xD5, 0xAA, 0xAD]"
    using write_many [OF w, of "[0xD5, 0xAA, 0xAD]"] wd d by auto
  let ?d = "disk s' (drive s)"
  have dk': "disk_ok c ?d" "0 \<le> dfd ?d" using s'(2,3) by (auto simp: ready_to_write_def drives_ok_def Let_def)
  then have img': "image_ok c ?d" "phase ?d \<le> 69" by (auto simp: disk_ok_def)
  have "nib_track ?d = [0xD5, 0xAA, 0xAD] @ drop 3 (nib_track d)" using s'(5) by (simp add: splice_def numeral_3_eq_3)
  moreover from this have "length (nib_track ?d) = track_width ?d"
    using s'(4) len wd by (simp add: frame_same_def)
  ultimately have "decode_track ?d = None" using orphan_data_field unfolding decode_track_def by metis
  moreover have "\<not> nibblized ?d" using s'(4) d(2) by (simp add: frame_same_def)
  ultimately show ?thesis using s'(1) save_track_eq [OF img'] by auto
qed

theorem orphan_data_field_aborts_witness:
  "\<exists>s'. write_nibbles True [0xD5, 0xAA, 0xAD] (blank_drives True) = Some s' \<and> save_track_data (disk s' 0) = None"
  using orphan_data_field_aborts [OF blank_ok(5) refl] by (simp add: blank_drives_def blank_disk_def)

section \<open>Inserting an image\<close>

text \<open>An empty drive, whose head is in range and whose own buffer has its full size.\<close>

definition empty_drive :: "diskette \<Rightarrow> bool" where
  "empty_drive d \<longleftrightarrow> dfd d < 0 \<and> phase d \<le> 69 \<and> \<not> track_valid d \<and> \<not> track_dirty d \<and> length (own_buffer d) = NIB_SIZE"

lemma load_all_ok:
  assumes "raw_image_data d = Some raw" "length raw = DSK_SIZE" "nib_image_data d = Nib_own"
    "length (own_buffer d) = NIB_SIZE" "skew_table d = Some skew_table_6_do \<or> skew_table d = Some skew_table_6_po"
    "\<not> nibblized d" "\<forall>t \<in> set ts. t < NUM_TRACKS" "track_width d = 0 \<or> track_width d = conf_width c"
  shows "\<exists>buf p. load_all_tracks c ts d = Some (d\<lparr>own_buffer := buf, phase := p,
    track_width := (if ts = [] then track_width d else conf_width c)\<rparr>) \<and> length buf = NIB_SIZE"
  using assms
proof (induction ts arbitrary: d)
  case Nil
  have "d = d\<lparr>own_buffer := own_buffer d, phase := phase d, track_width := track_width d\<rparr>" by simp
  then show ?case using Nil.prems(4) by (metis load_all_tracks.simps(1))
next
  case (Cons t ts)
  let ?e = "d\<lparr>phase := 2 * t, track_width := conf_width c\<rparr>"
  have img: "image_ok c ?e" "phase ?e \<le> 69" "\<not> nibblized ?e"
    using Cons.prems by (auto simp: image_ok_def NUM_TRACKS_def)
  obtain out where out: "nibblize_track c (of_nat (trk ?e)) (the (skew_table ?e)) (dsk_track ?e) = Some out"
    "length out = track_width ?e"
    by (rule load_track_ok [OF img]) (rule that)
  have te: "trk ?e = t" by (simp add: trk_def drop_bit_eq_div)
  have fits: "NIB_TRACK_SIZE * t + conf_width c \<le> NIB_SIZE" "DSK_TRACK_SIZE * t + DSK_TRACK_SIZE \<le> DSK_SIZE"
    using Cons.prems(7) conf_width_bounds(2) [of c] track_end [of t "conf_width c"] dsk_track_end [of t] by auto
  let ?buf = "splice (own_buffer d) (NIB_TRACK_SIZE * t) out"
  have ld: "load_track_data c (d\<lparr>phase := push_bit 1 t\<rparr>) =
      Some (conf_width c, d\<lparr>phase := 2 * t, own_buffer := ?buf\<rparr>)"
    using Cons.prems out fits te
    by (auto simp: load_track_data_def nib_data_def set_nib_data_def trk_def dsk_track_def c_assert_def Let_def
        push_bit_eq_mult drop_bit_eq_div mult.commute)
  have lb: "length ?buf = NIB_SIZE" using fits(1) out(2) Cons.prems(4) by (simp add: length_splice)
  have w0: "conf_width c \<noteq> 0" "conf_width c \<le> NIB_TRACK_SIZE" using conf_width_bounds [of c] by auto
  let ?d1 = "d\<lparr>phase := 2 * t, own_buffer := ?buf, track_width := conf_width c\<rparr>"
  have step: "load_all_tracks c (t # ts) d = load_all_tracks c ts ?d1"
    unfolding load_all_tracks.simps(2) ld
    using Cons.prems(8) w0 by (auto simp: c_assert_def intro!: arg_cong [of _ _ "load_all_tracks c ts"])
  obtain buf p where b: "load_all_tracks c ts ?d1 = Some (?d1\<lparr>own_buffer := buf, phase := p,
      track_width := (if ts = [] then track_width ?d1 else conf_width c)\<rparr>)" "length buf = NIB_SIZE"
    using Cons.IH [of ?d1] Cons.prems lb by auto
  show ?case unfolding step b(1) using b(2) by (intro exI [of _ buf] exI [of _ p]) simp
qed

lemma eject_empty:
  "dfd d < 0 \<Longrightarrow> \<exists>d'. eject_disk deflate d = Some (None, d') \<and> dfd d' = -1 \<and> phase d' = phase d \<and>
     \<not> track_valid d' \<and> \<not> track_dirty d' \<and> own_buffer d' = own_buffer d \<and> run_byte d' = run_byte d"
  by (simp add: eject_disk_def)

lemma insert_ok:
  assumes "empty_drive d"
    and "length (env_image env) = (if is_nib name then NIB_SIZE else DSK_SIZE)" and "env_inflate_ok env"
    and "readonly \<or> env_mmap_ok env" and "\<forall>fd. env_dup env = Some fd \<longrightarrow> 0 \<le> fd"
  shows "\<exists>err d'. insert_disk c deflate env name readonly d = Some (err, d') \<and> disk_ok c d' \<and> phase d' = phase d \<and>
    (if readonly \<or> env_dup env \<noteq> None
     then err = None \<and> 0 \<le> dfd d' \<and> raw_image_data d' = Some (env_image env) \<and> file_name d' = Some name \<and>
          is_protected d' = readonly
     else err = Some ERR_CANNOT_DUP \<and> dfd d' < 0)"
proof -
  have e: "dfd d < 0" "phase d \<le> 69" "\<not> track_valid d" "\<not> track_dirty d" "length (own_buffer d) = NIB_SIZE"
    using assms(1) by (simp_all add: empty_drive_def)
  obtain d1 where d1: "eject_disk deflate d = Some (None, d1)" "dfd d1 = -1" "phase d1 = phase d"
      "\<not> track_valid d1" "\<not> track_dirty d1" "own_buffer d1 = own_buffer d"
    using eject_empty [OF e(1)] by blast
  show ?thesis
  proof (cases "readonly \<or> env_dup env \<noteq> None")
    case False
    then have o: "\<not> readonly" "env_dup env = None" by auto
    show ?thesis using o d1 e
      by (simp add: insert_disk_def open_image_def eject_disk_def disk_ok_def prepare_image_def Let_def)
  next
    case True
    obtain fd where fd: "0 \<le> fd" "open_image env readonly (prepare_image name readonly d1) =
        (None, True, (prepare_image name readonly d1)\<lparr>dfd := fd, raw_image_data := Some (env_image env)\<rparr>)"
    proof (cases readonly)
      case True
      then show ?thesis using that [of READONLY_FD] assms(3) by (simp add: open_image_def READONLY_FD_def)
    next
      case False
      then show ?thesis using True assms(3,4,5) that by (auto simp: open_image_def)
    qed
    let ?o = "(prepare_image name readonly d1)\<lparr>dfd := fd, raw_image_data := Some (env_image env)\<rparr>"
    show ?thesis
    proof (cases "is_nib name")
      case nib: True
      show ?thesis using True nib d1 e fd assms(2)
        by (simp add: insert_disk_def disk_ok_def image_ok_def prepare_image_def Let_def)
    next
      case nib: False
      let ?l = "?o\<lparr>nib_image_data := Nib_own, track_width := 0\<rparr>"
      obtain buf p where lt: "load_all_tracks c [0..<NUM_TRACKS] ?l = Some (?l\<lparr>own_buffer := buf, phase := p,
          track_width := (if [0..<NUM_TRACKS] = [] then track_width ?l else conf_width c)\<rparr>)" "length buf = NIB_SIZE"
      proof -
        have "skew_table ?l = Some skew_table_6_do \<or> skew_table ?l = Some skew_table_6_po"
          using nib by (simp add: prepare_image_def Let_def)
        then have "\<exists>buf p. load_all_tracks c [0..<NUM_TRACKS] ?l = Some (?l\<lparr>own_buffer := buf, phase := p,
          track_width := (if [0..<NUM_TRACKS] = [] then track_width ?l else conf_width c)\<rparr>) \<and> length buf = NIB_SIZE"
          using nib assms(2) e(5) d1(6)
          by (intro load_all_ok [of ?l "env_image env" "[0..<NUM_TRACKS]" c]) (simp_all add: prepare_image_def Let_def)
        then show ?thesis by (elim exE conjE) (rule that)
      qed
      have ne: "[0..<NUM_TRACKS] \<noteq> []" by (simp add: NUM_TRACKS_def)
      show ?thesis using True nib d1 e fd assms(2) lt ne
        by (simp add: insert_disk_def disk_ok_def image_ok_def prepare_image_def Let_def)
    qed
  qed
qed



end
