(* ===== verification/A2_VMProps.thy ===== *)
theory A2_VMProps
  imports A2_VM A2_DiskGuarantees
begin

text \<open>
  The invariant of the //e's memory management: the pseudo switches and base pointers that the handlers
  maintain incrementally are at all times what the real switches determine; and every access to a
  softswitch keeps it, without failing an assertion.
\<close>

section \<open>The invariant\<close>

abbreviation sb :: "vm \<Rightarrow> nat \<Rightarrow> bool" where
  "sb s n \<equiv> bit (softswitches s) n"

text \<open>What the switches say about the banks of the display pages (\<^verbatim>\<open>vm.h\<close>).\<close>

definition text_page2 :: "u32 \<Rightarrow> u32 \<Rightarrow> bool" where
  "text_page2 sw f = (if flag_on sw SS_80STORE then flag_on sw SS_PAGE2 else flag_on sw f)"

definition hgr_page2 :: "u32 \<Rightarrow> u32 \<Rightarrow> bool" where
  "hgr_page2 sw f = (if flag_on sw SS_80STORE \<and> flag_on sw SS_HIRES then flag_on sw SS_PAGE2 else flag_on sw f)"

definition pseudo_ok :: "vm \<Rightarrow> bool" where
  "pseudo_ok s \<longleftrightarrow>
     (ss s SS_SCREEN \<longleftrightarrow> ss s SS_PAGE2 \<and> \<not> ss s SS_80STORE) \<and>
     (ss s SS_TEXTRD \<longleftrightarrow> text_page2 (softswitches s) SS_RAMRD) \<and>
     (ss s SS_TEXTWRT \<longleftrightarrow> text_page2 (softswitches s) SS_RAMWRT) \<and>
     (ss s SS_HGRRD \<longleftrightarrow> hgr_page2 (softswitches s) SS_RAMRD) \<and>
     (ss s SS_HGRWRT \<longleftrightarrow> hgr_page2 (softswitches s) SS_RAMWRT)"

definition banks_ok :: "vm \<Rightarrow> bool" where
  "banks_ok s \<longleftrightarrow>
     base_ramrd s = bank64k (if ss s SS_RAMRD then 1 else 0) \<and>
     base_ramwrt s = bank64k (if ss s SS_RAMWRT then 1 else 0) \<and>
     base_textrd s = bank64k (if ss s SS_TEXTRD then 1 else 0) \<and>
     base_textwrt s = bank64k (if ss s SS_TEXTWRT then 1 else 0) \<and>
     base_hgrrd s = bank64k (if ss s SS_HGRRD then 1 else 0) \<and>
     base_hgrwrt s = bank64k (if ss s SS_HGRWRT then 1 else 0) \<and>
     base_stackzp s = bank64k (if ss s SS_ALTZP then 1 else 0)"

text \<open>The language card: bank 2 of \<open>$D000\<close> comes first in each half of \<open>language_banks\<close>.\<close>

definition lc_d000 :: "u32 \<Rightarrow> pointer" where
  "lc_d000 sw = Obj Language_banks
     ((if flag_on sw SS_BANK2 then - 0xD000 else - 0xC000) + (if flag_on sw SS_ALTZP then 0x2000 else 0))"

definition lc_e000 :: "u32 \<Rightarrow> pointer" where
  "lc_e000 sw = Obj Language_card (if flag_on sw SS_ALTZP then - 0xC000 else - 0xE000)"

text \<open>With \<open>SS_LCWRT\<close> off the card is write-protected, except that until the first switch access the
  pointers of start-up stay in place.\<close>

definition lc_ok :: "vm \<Rightarrow> bool" where
  "lc_ok s \<longleftrightarrow>
     (ss s SS_LCWRT \<longrightarrow> ss s SS_LCSEC) \<and>
     base_d000_rd s = (if ss s SS_LCRAM then lc_d000 (softswitches s) else bank64k 0) \<and>
     base_e000_rd s = (if ss s SS_LCRAM then lc_e000 (softswitches s) else bank64k 0) \<and>
     (if ss s SS_LCWRT then base_d000_wrt s = lc_d000 (softswitches s) \<and> base_e000_wrt s = lc_e000 (softswitches s)
      else base_d000_wrt s = Raw 0 \<and> base_e000_wrt s = Raw 0 \<or>
           base_d000_wrt s = Obj Language_banks (- 0xD000) \<and> base_e000_wrt s = Obj Language_card (- 0xE000))"

definition slots_ok :: "vm \<Rightarrow> bool" where
  "slots_ok s \<longleftrightarrow>
     base_cxrom s = (if ss s SS_CXROM then bank64k 1 else Peripheral_card) \<and>
     base_c4rom s = base_cxrom s \<and> base_c5rom s = base_cxrom s \<and>
     base_c3rom s = (if ss s SS_CXROM \<or> ss s SS_C3ROM then bank64k 1 else Peripheral_card)"

definition mmu_ok :: "vm \<Rightarrow> bool" where
  "mmu_ok s \<longleftrightarrow> pseudo_ok s \<and> banks_ok s \<and> lc_ok s \<and> slots_ok s"

definition video_ok :: "vm \<Rightarrow> bool" where
  "video_ok s \<longleftrightarrow> video_inv (vid s) \<and> in_time (vid s)"

definition vm_ok :: "bool \<Rightarrow> vm \<Rightarrow> bool" where
  "vm_ok c s \<longleftrightarrow> mmu_ok s \<and> video_ok s \<and> drives_ok c (disk6 s)"

lemmas mmu_defs = mmu_ok_def pseudo_ok_def banks_ok_def lc_ok_def slots_ok_def text_page2_def hgr_page2_def
  lc_d000_def lc_e000_def

section \<open>The video routines\<close>

text \<open>The invariant depends on the switches and the base pointers.\<close>

lemma mmu_ok_cong:
  assumes "softswitches s = softswitches t"
    "base_ramrd s = base_ramrd t" "base_ramwrt s = base_ramwrt t" "base_textrd s = base_textrd t" "base_textwrt s = base_textwrt t"
    "base_hgrrd s = base_hgrrd t" "base_hgrwrt s = base_hgrwrt t" "base_stackzp s = base_stackzp t"
    "base_d000_rd s = base_d000_rd t" "base_d000_wrt s = base_d000_wrt t" "base_e000_rd s = base_e000_rd t"
    "base_e000_wrt s = base_e000_wrt t" "base_c3rom s = base_c3rom t" "base_c4rom s = base_c4rom t"
    "base_c5rom s = base_c5rom t" "base_cxrom s = base_cxrom t"
  shows "mmu_ok s = mmu_ok t"
  by (simp only: assms mmu_ok_def pseudo_ok_def banks_ok_def lc_ok_def slots_ok_def)

lemma mmu_ok_frame [simp]:
  "mmu_ok (s\<lparr>vid := v\<rparr>) = mmu_ok s" "mmu_ok (s\<lparr>disk6 := d\<rparr>) = mmu_ok s"
  "mmu_ok (s\<lparr>vm_log := l\<rparr>) = mmu_ok s" "mmu_ok (s\<lparr>apple_ii_64k := m\<rparr>) = mmu_ok s"
  "mmu_ok (s\<lparr>language_card := m\<rparr>) = mmu_ok s" "mmu_ok (s\<lparr>language_banks := m\<rparr>) = mmu_ok s"
  "mmu_ok (s\<lparr>gc_cycles_timer_0 := t\<rparr>) = mmu_ok s" "mmu_ok (s\<lparr>gc_cycles_timer_1 := t\<rparr>) = mmu_ok s"
  "mmu_ok (s\<lparr>cpu65_rw := b\<rparr>) = mmu_ok s" "mmu_ok (s\<lparr>joy_button0 := b\<rparr>) = mmu_ok s"
  "mmu_ok (s\<lparr>joy_button1 := b\<rparr>) = mmu_ok s" "mmu_ok (s\<lparr>joy_x := n\<rparr>) = mmu_ok s"
  "mmu_ok (s\<lparr>joy_y := n\<rparr>) = mmu_ok s"
  by (rule mmu_ok_cong; simp)+

lemma vm_ok_vid: "vm_ok c s \<Longrightarrow> video_inv v \<Longrightarrow> in_time v \<Longrightarrow> vm_ok c (s\<lparr>vid := v\<rparr>)"
  by (simp add: vm_ok_def video_ok_def)

lemma set_dirty_ok:
  assumes "vm_ok c s"
  obtains v where "set_dirty s = Some (s\<lparr>vid := v\<rparr>)" "video_inv v" "in_time v"
proof -
  have v: "video_inv (vid s)" "in_time (vid s)" using assms by (simp_all add: vm_ok_def video_ok_def)
  obtain v' new where "video_setDirty A2_DIRTY_FLAG (softswitches s) (main_ram s) (aux_ram s) (vid s) = Some v'"
    "video_inv v'" "in_time v'"
    by (rule setDirty_ok [OF v])
  then show ?thesis using that by (simp add: set_dirty_def)
qed

lemma floating_ok:
  assumes "vm_ok c s"
  obtains b v where "floating_bus s = Some (b, s\<lparr>vid := v\<rparr>)" "video_inv v" "in_time v"
proof -
  have v: "video_inv (vid s)" "in_time (vid s)" using assms by (simp_all add: vm_ok_def video_ok_def)
  obtain a v' where "video_floating_bus (softswitches s) (main_ram s) (vid s) = Some (main_ram s a, v')"
    "video_inv v'" "in_time v'"
    by (rule floating_bus_ok [OF v])
  then show ?thesis using that by (simp add: floating_bus_def)
qed

section \<open>Handlers that keep the invariant\<close>

definition keeps :: "bool \<Rightarrow> handler \<Rightarrow> bool" where
  "keeps c f \<longleftrightarrow> (\<forall>s. vm_ok c s \<longrightarrow> write_flag_set s \<longrightarrow>
     (\<exists>b s'. f s = Some (b, s') \<and> vm_ok c s' \<and> write_flag_set s'))"

definition keeps_read :: "bool \<Rightarrow> handler \<Rightarrow> bool" where
  "keeps_read c f \<longleftrightarrow> (\<forall>s. vm_ok c s \<longrightarrow>
     (\<exists>b s'. f s = Some (b, s') \<and> vm_ok c s' \<and> cpu65_rw s' = cpu65_rw s))"

lemma keepsI:
  "(\<And>s. vm_ok c s \<Longrightarrow> write_flag_set s \<Longrightarrow> \<exists>b s'. f s = Some (b, s') \<and> vm_ok c s' \<and> write_flag_set s') \<Longrightarrow> keeps c f"
  by (simp add: keeps_def)

lemma keeps_readI:
  "(\<And>s. vm_ok c s \<Longrightarrow> \<exists>b s'. f s = Some (b, s') \<and> vm_ok c s' \<and> cpu65_rw s' = cpu65_rw s) \<Longrightarrow> keeps_read c f"
  by (simp add: keeps_read_def)

lemma keeps_read_keeps: "keeps_read c f \<Longrightarrow> keeps c f"
  unfolding keeps_read_def keeps_def write_flag_set_def by metis

lemma keeps_read_if: "keeps_read c f \<Longrightarrow> keeps_read c g \<Longrightarrow> keeps_read c (if p then f else g)"
  by simp

text \<open>The end of a read handler.\<close>

lemma floating_end:
  assumes "vm_ok c s" "cpu65_rw s = rw"
  shows "\<exists>b s'. floating_bus s = Some (b, s') \<and> vm_ok c s' \<and> cpu65_rw s' = rw"
proof -
  obtain b v where "floating_bus s = Some (b, s\<lparr>vid := v\<rparr>)" "video_inv v" "in_time v"
    by (rule floating_ok [OF assms(1)])
  then show ?thesis using vm_ok_vid [OF assms(1)] assms(2) by simp
qed

lemma keeps_floating: "keeps_read c floating_bus"
  by (rule keeps_readI) (auto intro: floating_end)

text \<open>A change of the memory management between the two video routines.\<close>

definition mmu_step :: "(vm \<Rightarrow> vm) \<Rightarrow> bool" where
  "mmu_step g \<longleftrightarrow> (\<forall>s. (mmu_ok s \<longrightarrow> mmu_ok (g s)) \<and> vid (g s) = vid s \<and> disk6 (g s) = disk6 s \<and> cpu65_rw (g s) = cpu65_rw s)"

lemma mmu_step_ok: "mmu_step g \<Longrightarrow> vm_ok c s \<Longrightarrow> vm_ok c (g s)"
  by (simp add: mmu_step_def vm_ok_def video_ok_def)

lemma mmu_step_rw: "mmu_step g \<Longrightarrow> cpu65_rw (g s) = cpu65_rw s"
  by (simp add: mmu_step_def)

lemma dirty_then:
  assumes "vm_ok c s" "mmu_ok s \<Longrightarrow> mmu_ok (g s)" "\<And>v. g (s\<lparr>vid := v\<rparr>) = (g s)\<lparr>vid := v\<rparr>"
    "disk6 (g s) = disk6 s" "cpu65_rw (g s) = cpu65_rw s"
  shows "\<exists>s'. set_dirty s = Some s' \<and> vm_ok c (g s') \<and> cpu65_rw (g s') = cpu65_rw s"
proof -
  obtain v where v: "set_dirty s = Some (s\<lparr>vid := v\<rparr>)" "video_inv v" "in_time v"
    by (rule set_dirty_ok [OF assms(1)])
  have "vm_ok c (g (s\<lparr>vid := v\<rparr>))" unfolding assms(3)
    using assms(1,2,4) v(2,3) by (simp add: vm_ok_def video_ok_def)
  then show ?thesis using v(1) assms(3,5) by auto
qed

text \<open>Rules for the shapes of the handlers.\<close>

definition frame_kept :: "(vm \<Rightarrow> vm) \<Rightarrow> bool" where
  "frame_kept g \<longleftrightarrow> (\<forall>s. vid (g s) = vid s \<and> disk6 (g s) = disk6 s \<and> cpu65_rw (g s) = cpu65_rw s)"

lemma keeps_read_ite:
  "keeps_read c f \<Longrightarrow> keeps_read c g \<Longrightarrow> keeps_read c (\<lambda>s. if p s then f s else g s)"
  by (simp add: keeps_read_def)

lemma keeps_floating_after:
  assumes "\<And>s. mmu_ok s \<Longrightarrow> mmu_ok (g s)" "frame_kept g"
  shows "keeps_read c (\<lambda>s. floating_bus (g s))"
proof (rule keeps_readI)
  fix s assume s: "vm_ok c s"
  then have "vm_ok c (g s)" using assms by (simp add: vm_ok_def video_ok_def frame_kept_def)
  then show "\<exists>b s'. floating_bus (g s) = Some (b, s') \<and> vm_ok c s' \<and> cpu65_rw s' = cpu65_rw s"
    by (rule floating_end) (use assms(2) in \<open>simp add: frame_kept_def\<close>)
qed

lemma keeps_dirty:
  assumes "keeps_read c f"
  shows "keeps_read c (\<lambda>s. set_dirty s \<bind> f)"
proof (rule keeps_readI)
  fix s assume s: "vm_ok c s"
  obtain v where v: "set_dirty s = Some (s\<lparr>vid := v\<rparr>)" "video_inv v" "in_time v"
    by (rule set_dirty_ok [OF s])
  have "vm_ok c (s\<lparr>vid := v\<rparr>)" using vm_ok_vid [OF s] v(2,3) by blast
  then obtain b s' where "f (s\<lparr>vid := v\<rparr>) = Some (b, s')" "vm_ok c s'" "cpu65_rw s' = cpu65_rw (s\<lparr>vid := v\<rparr>)"
    using assms unfolding keeps_read_def by blast
  then show "\<exists>b s'. (set_dirty s \<bind> f) = Some (b, s') \<and> vm_ok c s' \<and> cpu65_rw s' = cpu65_rw s"
    by (simp add: v(1))
qed

lemma keeps_pure:
  assumes "\<And>s. mmu_ok s \<Longrightarrow> mmu_ok (g s)" "frame_kept g"
  shows "keeps_read c (\<lambda>s. Some (b s, g s))"
  using assms by (auto simp: keeps_read_def vm_ok_def video_ok_def frame_kept_def)

text \<open>The branch of a handler may rely on the switches it tested.\<close>

definition keeps_when :: "bool \<Rightarrow> (vm \<Rightarrow> bool) \<Rightarrow> handler \<Rightarrow> bool" where
  "keeps_when c p f \<longleftrightarrow> (\<forall>s. vm_ok c s \<longrightarrow> p s \<longrightarrow>
     (\<exists>b s'. f s = Some (b, s') \<and> vm_ok c s' \<and> cpu65_rw s' = cpu65_rw s))"

lemma keeps_write_ite:
  assumes "keeps_when c p f" "keeps_when c (\<lambda>s. \<not> p s) g"
  shows "keeps c (\<lambda>s. c_assert (write_flag_set s) s \<bind> (\<lambda>s. if p s then f s else g s))"
proof (rule keepsI)
  fix s assume s: "vm_ok c s" "write_flag_set s"
  then show "\<exists>b s'. (c_assert (write_flag_set s) s \<bind> (\<lambda>s. if p s then f s else g s)) = Some (b, s') \<and>
      vm_ok c s' \<and> write_flag_set s'"
    using assms unfolding keeps_when_def write_flag_set_def by (cases "p s") (fastforce simp: c_assert_def)+
qed

lemma keeps_write:
  assumes "keeps_when c (\<lambda>s. True) f"
  shows "keeps c (\<lambda>s. c_assert (write_flag_set s) s \<bind> f)"
  using keeps_write_ite [of c "\<lambda>s. True" f f] assms by (simp add: keeps_when_def)

lemma keeps_when_pure:
  assumes "\<And>s. mmu_ok s \<Longrightarrow> p s \<Longrightarrow> mmu_ok (g s)" "frame_kept g"
  shows "keeps_when c p (\<lambda>s. Some (b, g s))"
  using assms by (auto simp: keeps_when_def vm_ok_def video_ok_def frame_kept_def)

lemma keeps_when_dirty:
  assumes "\<And>s. mmu_ok s \<Longrightarrow> p s \<Longrightarrow> mmu_ok (g s)" "frame_kept g"
    and "\<And>s v. p (s\<lparr>vid := v\<rparr>) = p s"
  shows "keeps_when c p (\<lambda>s. set_dirty s \<bind> (\<lambda>s. Some (b, g s)))"
  unfolding keeps_when_def
proof (intro allI impI)
  fix s assume s: "vm_ok c s" "p s"
  obtain v where v: "set_dirty s = Some (s\<lparr>vid := v\<rparr>)" "video_inv v" "in_time v"
    by (rule set_dirty_ok [OF s(1)])
  have "vm_ok c (s\<lparr>vid := v\<rparr>)" "p (s\<lparr>vid := v\<rparr>)" using vm_ok_vid [OF s(1)] v(2,3) s(2) assms(3) by simp_all
  then show "\<exists>ba s'. (set_dirty s \<bind> (\<lambda>s. Some (b, g s))) = Some (ba, s') \<and> vm_ok c s' \<and> cpu65_rw s' = cpu65_rw s"
    using assms(1,2) by (simp add: v(1) vm_ok_def video_ok_def frame_kept_def)
qed

lemma switch_bits_nonzero: "SS_CXROM \<noteq> 0" "SS_C3ROM \<noteq> 0" "SS_ALTZP \<noteq> 0" "SS_LCRAM \<noteq> 0" "SS_LCWRT \<noteq> 0"
  by (simp_all add: SS_defs)

lemmas update_defs = switch_bits_nonzero set_switch_def clear_switch_def frame_kept_def lc_to_auxmem_def vm_emit_def Let_def

section \<open>Each handler\<close>

lemma iie_page2_off_keeps: "keeps_read c iie_page2_off"
  unfolding iie_page2_off_def Let_def
  by (intro keeps_read_ite keeps_floating keeps_dirty keeps_floating_after)
    (simp_all add: mmu_defs update_defs flag_simps)

lemma iie_page2_on_keeps: "keeps_read c iie_page2_on"
  unfolding iie_page2_on_def Let_def
  by (intro keeps_read_ite keeps_floating keeps_dirty keeps_floating_after)
    (simp_all add: mmu_defs update_defs flag_simps)

lemma iie_hires_off_keeps: "keeps_read c iie_hires_off"
  unfolding iie_hires_off_def Let_def
  by (intro keeps_read_ite keeps_floating keeps_dirty keeps_floating_after)
    (simp_all add: mmu_defs update_defs flag_simps)

lemma iie_hires_on_keeps: "keeps_read c iie_hires_on"
  unfolding iie_hires_on_def Let_def
  by (intro keeps_read_ite keeps_floating keeps_dirty keeps_floating_after)
    (simp_all add: mmu_defs update_defs flag_simps)

lemma iie_c080_keeps: "keeps_read c iie_c080"
  unfolding iie_c080_def Let_def
  by (intro keeps_read_ite keeps_floating keeps_dirty keeps_floating_after)
    (simp_all add: mmu_defs update_defs flag_simps)

lemma lc_c082_keeps: "keeps_read c lc_c082"
  unfolding lc_c082_def Let_def
  by (intro keeps_read_ite keeps_floating keeps_dirty keeps_floating_after)
    (simp_all add: mmu_defs update_defs flag_simps)

lemma iie_c088_keeps: "keeps_read c iie_c088"
  unfolding iie_c088_def Let_def
  by (intro keeps_read_ite keeps_floating keeps_dirty keeps_floating_after)
    (simp_all add: mmu_defs update_defs flag_simps)

lemma lc_c08a_keeps: "keeps_read c lc_c08a"
  unfolding lc_c08a_def Let_def
  by (intro keeps_read_ite keeps_floating keeps_dirty keeps_floating_after)
    (simp_all add: mmu_defs update_defs flag_simps)

lemma iie_80store_off_keeps: "keeps c iie_80store_off"
  unfolding iie_80store_off_def Let_def
  by (intro keeps_write_ite keeps_write keeps_when_pure keeps_when_dirty)
    (simp_all add: mmu_defs update_defs flag_simps)

lemma iie_80store_on_keeps: "keeps c iie_80store_on"
  unfolding iie_80store_on_def Let_def
  by (intro keeps_write_ite keeps_write keeps_when_pure keeps_when_dirty)
    (simp_all add: mmu_defs update_defs flag_simps)

lemma iie_ramrd_main_keeps: "keeps c iie_ramrd_main"
  unfolding iie_ramrd_main_def Let_def
  by (intro keeps_write_ite keeps_write keeps_when_pure keeps_when_dirty)
    (simp_all add: mmu_defs update_defs flag_simps)

lemma iie_ramrd_aux_keeps: "keeps c iie_ramrd_aux"
  unfolding iie_ramrd_aux_def Let_def
  by (intro keeps_write_ite keeps_write keeps_when_pure keeps_when_dirty)
    (simp_all add: mmu_defs update_defs flag_simps)

lemma iie_ramwrt_main_keeps: "keeps c iie_ramwrt_main"
  unfolding iie_ramwrt_main_def Let_def
  by (intro keeps_write_ite keeps_write keeps_when_pure keeps_when_dirty)
    (simp_all add: mmu_defs update_defs flag_simps)

lemma iie_ramwrt_aux_keeps: "keeps c iie_ramwrt_aux"
  unfolding iie_ramwrt_aux_def Let_def
  by (intro keeps_write_ite keeps_write keeps_when_pure keeps_when_dirty)
    (simp_all add: mmu_defs update_defs flag_simps)

lemma iie_altzp_main_keeps: "keeps c iie_altzp_main"
  unfolding iie_altzp_main_def Let_def
  by (intro keeps_write_ite keeps_write keeps_when_pure keeps_when_dirty)
    (simp_all add: mmu_defs update_defs flag_simps)

lemma iie_altzp_aux_keeps: "keeps c iie_altzp_aux"
  unfolding iie_altzp_aux_def Let_def
  by (intro keeps_write_ite keeps_write keeps_when_pure keeps_when_dirty)
    (simp_all add: mmu_defs update_defs flag_simps)

lemma iie_80col_off_keeps: "keeps c iie_80col_off"
  unfolding iie_80col_off_def Let_def
  by (intro keeps_write_ite keeps_write keeps_when_pure keeps_when_dirty)
    (simp_all add: mmu_defs update_defs flag_simps)

lemma iie_80col_on_keeps: "keeps c iie_80col_on"
  unfolding iie_80col_on_def Let_def
  by (intro keeps_write_ite keeps_write keeps_when_pure keeps_when_dirty)
    (simp_all add: mmu_defs update_defs flag_simps)

lemma iie_c3rom_peripheral_keeps: "keeps c iie_c3rom_peripheral"
  unfolding iie_c3rom_peripheral_def Let_def
  by (intro keeps_write_ite keeps_write keeps_when_pure keeps_when_dirty)
    (simp_all add: mmu_defs update_defs flag_simps)

lemma iie_c3rom_internal_keeps: "keeps c iie_c3rom_internal"
  unfolding iie_c3rom_internal_def Let_def
  by (intro keeps_write_ite keeps_write keeps_when_pure keeps_when_dirty)
    (simp_all add: mmu_defs update_defs flag_simps)

lemma iie_cxrom_peripheral_keeps: "keeps c iie_cxrom_peripheral"
  unfolding iie_cxrom_peripheral_def Let_def
  by (intro keeps_write_ite keeps_write keeps_when_pure keeps_when_dirty)
    (simp_all add: mmu_defs update_defs flag_simps)

lemma iie_cxrom_internal_keeps: "keeps c iie_cxrom_internal"
  unfolding iie_cxrom_internal_def Let_def
  by (intro keeps_write_ite keeps_write keeps_when_pure keeps_when_dirty)
    (simp_all add: mmu_defs update_defs flag_simps)

lemma iie_c081_keeps: "keeps_read c iie_c081"
  unfolding iie_c081_def Let_def
  apply (rule keeps_floating_after)
  subgoal for s
    by (cases "sb s 6"; cases "sb s 7"; cases "sb s 12"; simp add: mmu_defs update_defs flag_simps)
  by (simp add: update_defs)

lemma iie_c083_keeps: "keeps_read c iie_c083"
  unfolding iie_c083_def Let_def
  apply (rule keeps_floating_after)
  subgoal for s
    by (cases "sb s 6"; cases "sb s 7"; cases "sb s 12"; simp add: mmu_defs update_defs flag_simps)
  by (simp add: update_defs)

lemma iie_c089_keeps: "keeps_read c iie_c089"
  unfolding iie_c089_def Let_def
  apply (rule keeps_floating_after)
  subgoal for s
    by (cases "sb s 6"; cases "sb s 7"; cases "sb s 12"; simp add: mmu_defs update_defs flag_simps)
  by (simp add: update_defs)

lemma iie_c08b_keeps: "keeps_read c iie_c08b"
  unfolding iie_c08b_def Let_def
  apply (rule keeps_floating_after)
  subgoal for s
    by (cases "sb s 6"; cases "sb s 7"; cases "sb s 12"; simp add: mmu_defs update_defs flag_simps)
  by (simp add: update_defs)

lemma keeps_maybe_dirty:
  assumes "\<And>s. mmu_ok s \<Longrightarrow> mmu_ok (g s)" "frame_kept g" "keeps_read c f"
  shows "keeps_read c (\<lambda>s. (if p s then set_dirty s \<bind> (\<lambda>s. Some (g s)) else Some s) \<bind> f)"
proof (rule keeps_readI)
  fix s assume s: "vm_ok c s"
  obtain v where v: "set_dirty s = Some (s\<lparr>vid := v\<rparr>)" "video_inv v" "in_time v"
    by (rule set_dirty_ok [OF s])
  have "vm_ok c (s\<lparr>vid := v\<rparr>)" using vm_ok_vid [OF s] v(2,3) by blast
  then have g: "vm_ok c (g (s\<lparr>vid := v\<rparr>))" "cpu65_rw (g (s\<lparr>vid := v\<rparr>)) = cpu65_rw s"
    using assms(1,2) by (simp_all add: vm_ok_def video_ok_def frame_kept_def)
  show "\<exists>b s'. ((if p s then set_dirty s \<bind> (\<lambda>s. Some (g s)) else Some s) \<bind> f) = Some (b, s') \<and>
      vm_ok c s' \<and> cpu65_rw s' = cpu65_rw s"
    using assms(3) s g unfolding keeps_read_def by (cases "p s") (simp_all add: v(1), metis)
qed

lemma keeps_then_pure: "keeps_read c (\<lambda>s. Some (b, s))"
  by (simp add: keeps_read_def)

lemma keeps_read_when: "keeps_read c f \<Longrightarrow> keeps_when c p f"
  by (auto simp: keeps_read_def keeps_when_def)

lemma keeps_mapped:
  assumes "keeps_read c f"
  shows "keeps_read c (\<lambda>s. f s \<bind> (\<lambda>(b, s). Some (h b s, s)))"
  using assms unfolding keeps_read_def by fastforce

lemma read_switch_keeps:
  "keeps_read c read_switch_graphics" "keeps_read c read_switch_text" "keeps_read c read_switch_no_mixed"
  "keeps_read c read_switch_mixed" "keeps_read c iie_dhires_on" "keeps_read c iie_dhires_off"
  unfolding read_switch_graphics_def read_switch_text_def read_switch_no_mixed_def read_switch_mixed_def
    iie_dhires_on_def iie_dhires_off_def
  by ((rule keeps_maybe_dirty; simp add: mmu_defs update_defs flag_simps keeps_floating)+)

lemma altchar_keeps: "keeps c iie_altchar_off" "keeps c iie_altchar_on"
  unfolding iie_altchar_off_def iie_altchar_on_def Let_def
  by (intro keeps_write keeps_read_when keeps_maybe_dirty keeps_then_pure;
      simp add: mmu_defs update_defs flag_simps)+

lemma button_keeps: "keeps_read c read_button0" "keeps_read c read_button1" "keeps_read c read_button2"
  unfolding read_button0_def read_button1_def read_button2_def
  by (rule keeps_mapped keeps_floating)+

lemma game_controller_keeps:
  "keeps_read c read_gc_strobe" "keeps_read c read_gc0" "keeps_read c read_gc1" "keeps_read c iie_read_gc2"
  "keeps_read c iie_read_gc3" "keeps_read c (iie_annunciator ea)"
proof -
  have g: "keeps_read c (\<lambda>s. floating_bus (g s))" if "\<And>s. mmu_ok s \<Longrightarrow> mmu_ok (g s)" "frame_kept g" for g
    using that by (rule keeps_floating_after)
  show "keeps_read c read_gc_strobe"
    unfolding read_gc_strobe_def Let_def by (rule g) (simp_all add: frame_kept_def)
  show "keeps_read c read_gc0" "keeps_read c read_gc1"
    by (simp_all add: keeps_read_def read_gc0_def read_gc1_def vm_ok_def video_ok_def)
  show "keeps_read c iie_read_gc2" "keeps_read c iie_read_gc3" "keeps_read c (iie_annunciator ea)"
    using keeps_floating [of c]
    by (simp_all add: keeps_read_def iie_read_gc2_def iie_read_gc3_def iie_annunciator_def)
qed

lemma keyboard_keeps: "keeps_read c read_keyboard_strobe" "keeps_read c (\<lambda>s. Some (apple_ii_64k s 0xC000, s))"
  by (simp_all add: keeps_read_def read_keyboard_strobe_def Let_def vm_ok_def video_ok_def)

lemma check_vbl_keeps: "keeps_read c iie_check_vbl"
proof (rule keeps_readI)
  fix s assume s: "vm_ok c s"
  then have v: "video_inv (vid s)" "in_time (vid s)" by (simp_all add: vm_ok_def video_ok_def)
  obtain b a v' where "video_scannerAddress (softswitches s) (vid s) = Some (b, a, v')" "video_inv v'" "in_time v'"
    by (rule scannerAddress_ok [OF v])
  then show "\<exists>b s'. iie_check_vbl s = Some (b, s') \<and> vm_ok c s' \<and> cpu65_rw s' = cpu65_rw s"
    using vm_ok_vid [OF s] by (simp add: iie_check_vbl_def Let_def)
qed

lemma speaker_keeps: "keeps_read c speaker_toggle"
proof (rule keeps_readI)
  fix s assume s: "vm_ok c s"
  then have v: "video_inv (vid s)" "in_time (vid s)" by (simp_all add: vm_ok_def video_ok_def)
  obtain v' where v': "timing_checkpointCycles (vid s) = Some v'" "video_inv v'" "in_time v'"
    by (rule checkpoint_ready [OF v])
  have "vm_ok c (vm_emit Speaker_toggled (s\<lparr>vid := v'\<rparr>))"
    using vm_ok_vid [OF s v'(2,3)] by (simp add: vm_ok_def video_ok_def vm_emit_def)
  then show "\<exists>b s'. speaker_toggle s = Some (b, s') \<and> vm_ok c s' \<and> cpu65_rw s' = cpu65_rw s"
    unfolding speaker_toggle_def v'(1) option.case by (rule floating_end) (simp add: vm_emit_def)
qed

lemma shown_keeps: "keeps_read c (shown_left f n)" "keeps_read c (shown_right f n)"
  "keeps_read c (\<lambda>s. Some (if ss s SS_C3ROM then 0x00 else 0x80, s))"
  by (simp_all add: keeps_read_def shown_left_def shown_right_def)

lemma then_shown_keeps: "keeps_read c f \<Longrightarrow> keeps_read c g \<Longrightarrow> keeps_read c (then_shown f g)"
  unfolding keeps_read_def then_shown_def by fastforce

lemma ioudis_keeps: "keeps_read c (ioudis_strobe on)"
proof -
  have "mmu_ok s \<Longrightarrow> mmu_ok (if on then set_switch SS_IOUDIS s else clear_switch SS_IOUDIS s)" for s
    by (simp add: mmu_defs update_defs flag_simps)
  then have "vm_ok c s \<Longrightarrow> vm_ok c (if on then set_switch SS_IOUDIS s else clear_switch SS_IOUDIS s)" for s
    by (simp add: vm_ok_def video_ok_def update_defs)
  moreover have "cpu65_rw (if on then set_switch SS_IOUDIS s else clear_switch SS_IOUDIS s) = cpu65_rw s" for s
    by (simp add: update_defs)
  ultimately show ?thesis
    using game_controller_keeps(1) [of c] unfolding keeps_read_def ioudis_strobe_def by metis
qed

lemmas keeps_reads =
  iie_page2_off_keeps iie_page2_on_keeps iie_hires_off_keeps iie_hires_on_keeps iie_c080_keeps lc_c082_keeps
  iie_c088_keeps lc_c08a_keeps iie_c081_keeps iie_c083_keeps iie_c089_keeps iie_c08b_keeps read_switch_keeps
  button_keeps game_controller_keeps keyboard_keeps check_vbl_keeps speaker_keeps shown_keeps ioudis_keeps
  keeps_floating

lemmas keeps_writes =
  iie_80store_off_keeps iie_80store_on_keeps iie_ramrd_main_keeps iie_ramrd_aux_keeps iie_ramwrt_main_keeps
  iie_ramwrt_aux_keeps iie_altzp_main_keeps iie_altzp_aux_keeps iie_80col_off_keeps iie_80col_on_keeps
  iie_c3rom_peripheral_keeps iie_c3rom_internal_keeps iie_cxrom_peripheral_keeps iie_cxrom_internal_keeps
  altchar_keeps keeps_reads [THEN keeps_read_keeps]

section \<open>The dispatchers\<close>

definition disk_switch :: "addr \<Rightarrow> bool" where
  "disk_switch ea \<longleftrightarrow> 0xE0 \<le> unat (ea AND 0xFF) \<and> unat (ea AND 0xFF) < 0xF0"

lemma read_status_keeps: "keeps_read c (read_status sw)"
  unfolding read_status_def by (intro keeps_read_if keeps_reads)

lemma read_softswitch_keeps:
  assumes "\<not> disk_switch ea"
  shows "keeps_read c (read_softswitch conformant ea)"
proof -
  have d: "(0xE0 \<le> unat (ea AND 0xFF) \<and> unat (ea AND 0xFF) < 0xF0) = False"
    using assms by (simp add: disk_switch_def)
  show ?thesis
    unfolding read_softswitch_def Let_def d if_False
    by (intro keeps_read_if keeps_reads read_status_keeps then_shown_keeps)
qed

lemma in_turn_keeps:
  assumes "\<forall>(p, f) \<in> set hs. p \<longrightarrow> keeps c f" "vm_ok c s" "write_flag_set s"
  shows "\<exists>s'. in_turn hs s = Some s' \<and> vm_ok c s' \<and> write_flag_set s'"
  using assms
proof (induction hs arbitrary: s)
  case (Cons h hs)
  obtain p f where h: "h = (p, f)" by (cases h)
  have "\<exists>s1. when_switch h s = Some s1 \<and> vm_ok c s1 \<and> write_flag_set s1"
    using Cons.prems h unfolding keeps_def by (cases p) (fastforce simp: when_switch_def)+
  then show ?case using Cons.IH Cons.prems(1) by auto
qed simp

lemma write_softswitch_keeps:
  assumes "\<not> disk_switch ea" "vm_ok c s" "write_flag_set s"
  shows "\<exists>s'. write_softswitch conformant ea b s = Some s' \<and> vm_ok c s' \<and> write_flag_set s'"
  unfolding write_softswitch_def Let_def
  by (rule in_turn_keeps [OF _ assms(2,3)])
    (use assms(1) in \<open>auto simp: keeps_writes disk_switch_def\<close>)

end
