(* ===== verification/A2_VMMem.thy ===== *)
theory A2_VMMem
  imports A2_VMProps
begin

text \<open>
  The memory of the virtual machine as the CPU sees it (\<^verbatim>\<open>vm.c\<close>, and the bank access
  trampolines of \<^verbatim>\<open>x86/glue-prologue.h\<close>): the tables of read and write handlers per page,
  accesses through base pointers, the writes to display pages, the slot ROMs, and the machine's
  start-up state.

  An access outside the array a base pointer points into is \<open>None\<close>, and so is a call through a
  pointer that is not a function.  The ROM images, the random words of a cold start and the values a
  Mockingboard answers are parameters.
\<close>

section \<open>Access through base pointers\<close>

definition region_size :: "region \<Rightarrow> int" where
  "region_size r = (case r of Apple_ii_64k \<Rightarrow> 131072 | Language_card \<Rightarrow> 16384 | Language_banks \<Rightarrow> 16384)"

definition region_of :: "vm \<Rightarrow> region \<Rightarrow> ram" where
  "region_of s r = (case r of Apple_ii_64k \<Rightarrow> apple_ii_64k s | Language_card \<Rightarrow> language_card s
     | Language_banks \<Rightarrow> language_banks s)"

definition put_region :: "region \<Rightarrow> nat \<Rightarrow> byte \<Rightarrow> vm \<Rightarrow> vm" where
  "put_region r i b s = (case r of
       Apple_ii_64k \<Rightarrow> s\<lparr>apple_ii_64k := (apple_ii_64k s)(i := b)\<rparr>
     | Language_card \<Rightarrow> s\<lparr>language_card := (language_card s)(i := b)\<rparr>
     | Language_banks \<Rightarrow> s\<lparr>language_banks := (language_banks s)(i := b)\<rparr>)"

text \<open>\<open>p[ea]\<close> as a place, when it exists.\<close>

definition ptr_index :: "pointer \<Rightarrow> addr \<Rightarrow> (region \<times> nat) option" where
  "ptr_index p ea = (case p of
       Obj r n \<Rightarrow> (let i = n + uint ea in if 0 \<le> i \<and> i < region_size r then Some (r, nat i) else None)
     | _ \<Rightarrow> None)"

definition ptr_read :: "pointer \<Rightarrow> addr \<Rightarrow> handler" where
  "ptr_read p ea s = (case ptr_index p ea of None \<Rightarrow> None | Some (r, i) \<Rightarrow> Some (region_of s r i, s))"

definition ptr_write :: "pointer \<Rightarrow> addr \<Rightarrow> byte \<Rightarrow> vm \<Rightarrow> vm option" where
  "ptr_write p ea b s = (case ptr_index p ea of None \<Rightarrow> None | Some (r, i) \<Rightarrow> Some (put_region r i b s))"

text \<open>\<open>GLUE_BANK_READ\<close>, \<open>GLUE_BANK_WRITE\<close>, \<open>GLUE_BANK_MAYBEWRITE\<close>: the last leaves memory
  alone when the pointer is null.\<close>

definition bank_read :: "(vm \<Rightarrow> pointer) \<Rightarrow> addr \<Rightarrow> handler" where
  "bank_read base ea s = ptr_read (base s) ea s"

definition bank_write :: "(vm \<Rightarrow> pointer) \<Rightarrow> addr \<Rightarrow> byte \<Rightarrow> vm \<Rightarrow> vm option" where
  "bank_write base ea b s = ptr_write (base s) ea b s"

definition bank_maybewrite :: "(vm \<Rightarrow> pointer) \<Rightarrow> addr \<Rightarrow> byte \<Rightarrow> vm \<Rightarrow> vm option" where
  "bank_maybewrite base ea b s = (if base s = Raw 0 then Some s else ptr_write (base s) ea b s)"

section \<open>Slots\<close>

definition mb_read :: "(vm \<Rightarrow> addr \<Rightarrow> byte) \<Rightarrow> addr \<Rightarrow> handler" where
  "mb_read mb ea s = Some (mb s ea, s)"

definition iie_read_peripheral_card :: "(vm \<Rightarrow> addr \<Rightarrow> byte) \<Rightarrow> addr \<Rightarrow> handler" where
  "iie_read_peripheral_card mb ea s = do {
     s \<leftarrow> c_assert ((drop_bit 12 ea) AND 0xf = 0xC) s;
     let slot = unat ((drop_bit 8 ea) AND 0xf);
     if slot = 0x1 \<or> slot = 0x2 \<or> slot = 0x3 \<or> slot = 0x7 then floating_bus s
     else if slot = 0x4 \<or> slot = 0x5 then mb_read mb ea s
     else if slot = 0x6 then Some (apple_ii_64k s (unat ea), s)
     else None }"

text \<open>\<open>GLUE_BANK_MAYBE_READ_CX\<close> and \<open>GLUE_BANK_MAYBE_READ_C3\<close> test the switches to tell whether
  the base pointer is memory or a function.\<close>

definition call_ptr :: "(vm \<Rightarrow> addr \<Rightarrow> byte) \<Rightarrow> pointer \<Rightarrow> addr \<Rightarrow> handler" where
  "call_ptr mb p ea s = (case p of Peripheral_card \<Rightarrow> iie_read_peripheral_card mb ea s | _ \<Rightarrow> None)"

definition maybe_read_cx :: "(vm \<Rightarrow> addr \<Rightarrow> byte) \<Rightarrow> (vm \<Rightarrow> pointer) \<Rightarrow> addr \<Rightarrow> handler" where
  "maybe_read_cx mb base ea s =
    (if ss s SS_CXROM then ptr_read (base s) ea s else call_ptr mb (base s) ea s)"

definition maybe_read_c3 :: "(vm \<Rightarrow> addr \<Rightarrow> byte) \<Rightarrow> (vm \<Rightarrow> pointer) \<Rightarrow> addr \<Rightarrow> handler" where
  "maybe_read_c3 mb base ea s =
    (if ss s SS_CXROM then ptr_read (base s) ea s
     else if ss s SS_C3ROM then ptr_read (base s) ea s
     else call_ptr mb (base s) ea s)"

definition iie_read_slot_expansion :: "addr \<Rightarrow> handler" where
  "iie_read_slot_expansion ea s =
    (if ea = 0xCFFF then floating_bus s else Some (apple_ii_64k s (65536 + unat ea), s))"

section \<open>Writes to display pages\<close>

text \<open>
  Each handler first asks whether the page is on display in the mode it is written for, and if so and
  the byte changes, marks the display dirty before the byte is stored.
\<close>

definition dirty_if_changed :: "(vm \<Rightarrow> pointer) \<Rightarrow> addr \<Rightarrow> byte \<Rightarrow> vm \<Rightarrow> vm option" where
  "dirty_if_changed base ea b s = do {
     (b0, _) \<leftarrow> ptr_read (base s) ea s;
     if b0 \<noteq> b then set_dirty s else Some s }"

definition write_page0 ::
    "(u32 \<Rightarrow> drawpage_mode) \<Rightarrow> drawpage_mode \<Rightarrow> (vm \<Rightarrow> pointer) \<Rightarrow> addr \<Rightarrow> byte \<Rightarrow> vm \<Rightarrow> vm option" where
  "write_page0 current hidden base ea b s = do {
     s \<leftarrow> (let mode = current (softswitches s) in
           if mode = hidden then Some s
           else if \<not> ss s SS_PAGE2 then dirty_if_changed base ea b s
           else Some s);
     ptr_write (base s) ea b s }"

definition write_page1 :: "(u32 \<Rightarrow> drawpage_mode) \<Rightarrow> drawpage_mode \<Rightarrow> addr \<Rightarrow> byte \<Rightarrow> vm \<Rightarrow> vm option" where
  "write_page1 current hidden ea b s = do {
     s \<leftarrow> (let mode = current (softswitches s) in
           if mode = hidden then Some s
           else if ss s SS_PAGE2 \<and> \<not> ss s SS_80STORE then dirty_if_changed base_ramwrt ea b s
           else Some s);
     ptr_write (base_ramwrt s) ea b s }"

definition video__write_2e_text0 :: "addr \<Rightarrow> byte \<Rightarrow> vm \<Rightarrow> vm option" where
  "video__write_2e_text0 = write_page0 video_currentMainMode DRAWPAGE_HIRES base_textwrt"

definition video__write_2e_text0_mixed :: "addr \<Rightarrow> byte \<Rightarrow> vm \<Rightarrow> vm option" where
  "video__write_2e_text0_mixed = write_page0 video_currentMixedMode DRAWPAGE_HIRES base_textwrt"

definition video__write_2e_text1 :: "addr \<Rightarrow> byte \<Rightarrow> vm \<Rightarrow> vm option" where
  "video__write_2e_text1 = write_page1 video_currentMainMode DRAWPAGE_HIRES"

definition video__write_2e_text1_mixed :: "addr \<Rightarrow> byte \<Rightarrow> vm \<Rightarrow> vm option" where
  "video__write_2e_text1_mixed = write_page1 video_currentMixedMode DRAWPAGE_HIRES"

definition video__write_2e_hgr0 :: "addr \<Rightarrow> byte \<Rightarrow> vm \<Rightarrow> vm option" where
  "video__write_2e_hgr0 = write_page0 video_currentMainMode DRAWPAGE_TEXT base_hgrwrt"

definition video__write_2e_hgr0_mixed :: "addr \<Rightarrow> byte \<Rightarrow> vm \<Rightarrow> vm option" where
  "video__write_2e_hgr0_mixed = write_page0 video_currentMixedMode DRAWPAGE_TEXT base_hgrwrt"

definition video__write_2e_hgr1 :: "addr \<Rightarrow> byte \<Rightarrow> vm \<Rightarrow> vm option" where
  "video__write_2e_hgr1 = write_page1 video_currentMainMode DRAWPAGE_TEXT"

definition video__write_2e_hgr1_mixed :: "addr \<Rightarrow> byte \<Rightarrow> vm \<Rightarrow> vm option" where
  "video__write_2e_hgr1_mixed = write_page1 video_currentMixedMode DRAWPAGE_TEXT"

section \<open>The page tables\<close>

datatype read_handler =
    R_ram_default | R_ram_bank | R_ram_lc | R_text_page0 | R_hires_page0 | R_zpage_and_stack
  | R_slot3 | R_slot4 | R_slot5 | R_slotx | R_softswitch | R_slot_expansion

datatype write_handler =
    W_ram_default | W_ram_bank | W_ram_lc | W_zpage_and_stack | W_nop | W_softswitch | W_mockingboard
  | W_text0 | W_text0_mixed | W_text1 | W_text1_mixed | W_hgr0 | W_hgr0_mixed | W_hgr1 | W_hgr1_mixed

definition TEXT_ROWS :: nat where "TEXT_ROWS = 24"
definition TEXT_COLS :: nat where "TEXT_COLS = 40"

definition set_range :: "nat \<Rightarrow> nat \<Rightarrow> 'a \<Rightarrow> (nat \<Rightarrow> 'a) \<Rightarrow> nat \<Rightarrow> 'a" where
  "set_range lo hi h t = fold (\<lambda>i t. t(i := h)) [lo..<hi] t"

definition read_table :: "nat \<Rightarrow> read_handler" where
  "read_table =
    (let r = set_range 0 0x100 R_ram_default (\<lambda>_. R_ram_default);
         r = set_range 0xD0 0xE0 R_ram_bank r;
         r = set_range 0xE0 0x100 R_ram_lc r;
         r = r(0 := R_zpage_and_stack, 1 := R_zpage_and_stack);
         r = r(4 := R_text_page0, 5 := R_text_page0, 6 := R_text_page0, 7 := R_text_page0);
         r = set_range 0x20 0x40 R_hires_page0 r;
         r = r(0xC0 := R_softswitch);
         r = r(0xC1 := R_slotx, 0xC2 := R_slotx, 0xC3 := R_slot3, 0xC4 := R_slot4, 0xC5 := R_slot5,
               0xC6 := R_slotx, 0xC7 := R_slotx)
     in set_range 0xC8 0xD0 R_slot_expansion r)"

text \<open>The loop over the character cells of the screen, which fills in the handlers of the display
  pages, last cell last.\<close>

definition cell_handlers :: "nat \<Rightarrow> nat \<Rightarrow> (nat \<Rightarrow> write_handler) \<Rightarrow> nat \<Rightarrow> write_handler" where
  "cell_handlers y x w =
    (let row = video_line_offset ! y; idx = row + x;
         w = (if y < 20 then w((idx + 0x400) div 256 := W_text0, (idx + 0x800) div 256 := W_text1)
              else w((idx + 0x400) div 256 := W_text0_mixed, (idx + 0x800) div 256 := W_text1_mixed))
     in fold (\<lambda>i w.
          let idx = row + 0x400 * i + x in
          (if y < 20 then w((idx + 0x2000) div 256 := W_hgr0, (idx + 0x4000) div 256 := W_hgr1)
           else w((idx + 0x2000) div 256 := W_hgr0_mixed, (idx + 0x4000) div 256 := W_hgr1_mixed))) [0..<8] w)"

definition write_table :: "nat \<Rightarrow> write_handler" where
  "write_table =
    (let w = set_range 0 0x100 W_ram_default (\<lambda>_. W_ram_default);
         w = set_range 0xC0 0xD0 W_nop w;
         w = set_range 0xD0 0xE0 W_ram_bank w;
         w = set_range 0xE0 0x100 W_ram_lc w;
         w = w(0 := W_zpage_and_stack, 1 := W_zpage_and_stack);
         w = fold (\<lambda>y. fold (cell_handlers y) [0..<TEXT_COLS]) [0..<TEXT_ROWS] w;
         w = w(0xC0 := W_softswitch)
     in w(0xC4 := W_mockingboard, 0xC5 := W_mockingboard))"

section \<open>Memory accesses of the CPU\<close>

definition page :: "addr \<Rightarrow> nat" where
  "page ea = unat ea div 256"

definition vm_read :: "bool \<Rightarrow> (vm \<Rightarrow> addr \<Rightarrow> byte) \<Rightarrow> addr \<Rightarrow> handler" where
  "vm_read conformant mb ea =
    (case read_table (page ea) of
       R_ram_default \<Rightarrow> bank_read base_ramrd ea
     | R_ram_bank \<Rightarrow> bank_read base_d000_rd ea
     | R_ram_lc \<Rightarrow> bank_read base_e000_rd ea
     | R_text_page0 \<Rightarrow> bank_read base_textrd ea
     | R_hires_page0 \<Rightarrow> bank_read base_hgrrd ea
     | R_zpage_and_stack \<Rightarrow> bank_read base_stackzp ea
     | R_slot3 \<Rightarrow> maybe_read_c3 mb base_c3rom ea
     | R_slot4 \<Rightarrow> maybe_read_cx mb base_c4rom ea
     | R_slot5 \<Rightarrow> maybe_read_cx mb base_c5rom ea
     | R_slotx \<Rightarrow> maybe_read_cx mb base_cxrom ea
     | R_softswitch \<Rightarrow> read_softswitch conformant ea
     | R_slot_expansion \<Rightarrow> iie_read_slot_expansion ea)"

definition vm_write :: "bool \<Rightarrow> addr \<Rightarrow> byte \<Rightarrow> vm \<Rightarrow> vm option" where
  "vm_write conformant ea b =
    (case write_table (page ea) of
       W_ram_default \<Rightarrow> bank_write base_ramwrt ea b
     | W_ram_bank \<Rightarrow> bank_maybewrite base_d000_wrt ea b
     | W_ram_lc \<Rightarrow> bank_maybewrite base_e000_wrt ea b
     | W_zpage_and_stack \<Rightarrow> bank_write base_stackzp ea b
     | W_nop \<Rightarrow> Some
     | W_softswitch \<Rightarrow> write_softswitch conformant ea b
     | W_mockingboard \<Rightarrow> (\<lambda>s. Some (vm_emit (Mockingboard_written ea b) s))
     | W_text0 \<Rightarrow> video__write_2e_text0 ea b
     | W_text0_mixed \<Rightarrow> video__write_2e_text0_mixed ea b
     | W_text1 \<Rightarrow> video__write_2e_text1 ea b
     | W_text1_mixed \<Rightarrow> video__write_2e_text1_mixed ea b
     | W_hgr0 \<Rightarrow> video__write_2e_hgr0 ea b
     | W_hgr0_mixed \<Rightarrow> video__write_2e_hgr0_mixed ea b
     | W_hgr1 \<Rightarrow> video__write_2e_hgr1 ea b
     | W_hgr1_mixed \<Rightarrow> video__write_2e_hgr1_mixed ea b)"

section \<open>Start-up\<close>

definition initialize_iie_switches :: "vm \<Rightarrow> vm" where
  "initialize_iie_switches s = s\<lparr>
     base_stackzp := bank64k 0, base_d000_rd := bank64k 0,
     base_d000_wrt := Obj Language_banks (- 0xD000), base_e000_rd := bank64k 0,
     base_e000_wrt := Obj Language_card (- 0xE000),
     base_ramrd := bank64k 0, base_ramwrt := bank64k 0, base_textrd := bank64k 0, base_textwrt := bank64k 0,
     base_hgrrd := bank64k 0, base_hgrwrt := bank64k 0,
     base_c3rom := Peripheral_card, base_c4rom := Peripheral_card, base_c5rom := Peripheral_card,
     base_cxrom := Peripheral_card,
     softswitches := SS_TEXT OR SS_BANK2\<rparr>"

definition initialize_font :: "vm \<Rightarrow> vm" where
  "initialize_font s = fold vm_emit
    [Load_font 0x00 0x40 Ucase_glyphs FONT_MODE_INVERSE, Load_font 0x40 0x40 Ucase_glyphs FONT_MODE_FLASH,
     Load_font 0x80 0x40 Ucase_glyphs FONT_MODE_NORMAL, Load_font 0xC0 0x20 Ucase_glyphs FONT_MODE_NORMAL,
     Load_font 0xE0 0x20 Lcase_glyphs FONT_MODE_NORMAL] s"

text \<open>\<open>rom\<close> is \<open>apple_iie_rom\<close>, \<open>rnd k\<close> the \<open>k\<close>th random word; the words are drawn in builds
  without tracing.\<close>

definition stripe :: "nat \<Rightarrow> ram \<Rightarrow> ram" where
  "stripe k m = m(4 * k := 0xFF, 4 * k + 1 := 0xFF)"

definition randomize :: "(nat \<Rightarrow> addr) \<Rightarrow> nat \<Rightarrow> ram \<Rightarrow> ram" where
  "randomize rnd k m =
    (let a = 0x200 * k; word = rnd (2 * k);
         m = m(a + 0x28 := ucast word, a + 0x29 := ucast (drop_bit 8 word));
         word = rnd (2 * k + 1)
     in m(a + 0x68 := ucast word, a + 0x69 := ucast (drop_bit 8 word)))"

definition initialize_main_memory :: "bool \<Rightarrow> (nat \<Rightarrow> addr) \<Rightarrow> ram" where
  "initialize_main_memory tracing rnd =
    (let m = fold stripe [0..<0x3000] (\<lambda>_. 0)
     in if tracing then m
        else (let m = fold (randomize rnd) [0..<96] m; word = rnd 192
              in m(0x4E := 0x20 OR ucast word, 0x4F := 0x20 OR ucast (drop_bit 8 word))))"

definition initialize_apple_ii_memory :: "bool \<Rightarrow> (nat \<Rightarrow> addr) \<Rightarrow> (nat \<Rightarrow> byte) \<Rightarrow> vm \<Rightarrow> vm" where
  "initialize_apple_ii_memory tracing rnd rom s =
    (let m = initialize_main_memory tracing rnd;
         m = store m 0xC000 (slice rom 0 0x4000);
         m = store m (65536 + 0xC000) (slice rom 0x4000 0x4000);
         banks = store (\<lambda>_. 0) 0 (slice rom 0x1000 0x1000);
         banks = store banks 0x2000 (slice rom 0x5000 0x1000);
         card = store (\<lambda>_. 0) 0 (slice rom 0x2000 0x2000);
         card = store card 0x2000 (slice rom 0x6000 0x2000);
         m = m(0xC000 := 0x00, 65536 + 0xC000 := 0x00)
     in s\<lparr>apple_ii_64k := m, language_card := card, language_banks := banks\<rparr>)"

text \<open>\<open>vm_initialize\<close>; \<open>joystick_reset\<close> centres the paddles and releases the buttons a frame
  later.\<close>

definition HALF_JOY_RANGE :: nat where "HALF_JOY_RANGE = 0x80"

definition vm_initialize :: "bool \<Rightarrow> (nat \<Rightarrow> addr) \<Rightarrow> (nat \<Rightarrow> byte) \<Rightarrow> byte list \<Rightarrow> vm \<Rightarrow> vm option" where
  "vm_initialize tracing rnd rom slot6_rom s = do {
     let s = initialize_font s;
     let s = initialize_apple_ii_memory tracing rnd rom s;
     d \<leftarrow> disk6_init (disk6 s);
     let s = s\<lparr>disk6 := d, apple_ii_64k := store (apple_ii_64k s) 0xC600 slot6_rom\<rparr>;
     let s = initialize_iie_switches s;
     Some (s\<lparr>joy_x := HALF_JOY_RANGE, joy_y := HALF_JOY_RANGE\<rparr>) }"

end
