(* ===== verification/A2_VMMap.thy ===== *)
theory A2_VMMap
  imports A2_VMMem
begin

text \<open>
  The memory map.  The page tables and base pointers are shown to implement the //e's bank switching as
  the manuals describe it: a function from the switches and the address to a place in memory.
\<close>

section \<open>The page tables, as tables\<close>

lemma set_range_eq: "set_range lo hi h t = (\<lambda>i. if lo \<le> i \<and> i < hi then h else t i)"
proof -
  have "fold (\<lambda>i t. t(i := h)) xs t = (\<lambda>i. if i \<in> set xs then h else t i)" for xs
    by (induction xs arbitrary: t) (auto simp: fun_eq_iff)
  then show ?thesis by (auto simp: set_range_def fun_eq_iff)
qed

lemma read_table_eq:
  "read_table p =
    (if p < 2 then R_zpage_and_stack
     else if 4 \<le> p \<and> p < 8 then R_text_page0
     else if 0x20 \<le> p \<and> p < 0x40 then R_hires_page0
     else if p = 0xC0 then R_softswitch
     else if p = 0xC3 then R_slot3
     else if p = 0xC4 then R_slot4
     else if p = 0xC5 then R_slot5
     else if 0xC1 \<le> p \<and> p < 0xC8 then R_slotx
     else if 0xC8 \<le> p \<and> p < 0xD0 then R_slot_expansion
     else if 0xD0 \<le> p \<and> p < 0xE0 then R_ram_bank
     else if 0xE0 \<le> p \<and> p < 0x100 then R_ram_lc
     else R_ram_default)"
  by (simp add: read_table_def set_range_eq less_2_cases_iff)

text \<open>A row of cells lies in one page of each display buffer, the same one modulo 4.\<close>

definition row_page :: "nat \<Rightarrow> nat" where
  "row_page y = video_line_offset ! y div 256"

definition display_page :: "nat \<Rightarrow> bool" where
  "display_page p \<longleftrightarrow> 4 \<le> p \<and> p < 12 \<or> 0x20 \<le> p \<and> p < 0x60"

definition display_handler :: "bool \<Rightarrow> nat \<Rightarrow> write_handler" where
  "display_handler mixed p =
    (if p < 8 then (if mixed then W_text0_mixed else W_text0)
     else if p < 12 then (if mixed then W_text1_mixed else W_text1)
     else if p < 0x40 then (if mixed then W_hgr0_mixed else W_hgr0)
     else (if mixed then W_hgr1_mixed else W_hgr1))"

definition row_step :: "nat \<Rightarrow> (nat \<Rightarrow> write_handler) \<Rightarrow> nat \<Rightarrow> write_handler" where
  "row_step y w = (\<lambda>p. if display_page p \<and> p mod 4 = row_page y then display_handler (\<not> y < 20) p else w p)"

lemma rows_ok:
  assumes "y < 24"
  shows "row_page y = (y div 2) mod 4" "video_line_offset ! y mod 256 + 40 \<le> 256"
proof -
  have "\<forall>y \<in> set [0..<24]. video_line_offset ! y div 256 = (y div 2) mod 4 \<and> video_line_offset ! y mod 256 + 40 \<le> 256"
    unfolding video_line_offset_def by (simp add: upt_rec)
  then show "row_page y = (y div 2) mod 4" "video_line_offset ! y mod 256 + 40 \<le> 256"
    using assms by (simp_all add: row_page_def)
qed

lemma cell_page:
  assumes "(r :: nat) mod 256 + 40 \<le> 256" "x < 40"
  shows "(r + x + 0x100 * k) div 256 = r div 256 + k"
proof -
  have "(r + x) div 256 = r div 256"
    using assms by (simp add: div_add1_eq [of r x])
  then show ?thesis by (simp add: mult.commute)
qed


lemma quarter:
  assumes "(q :: nat) < 4"
  shows "(\<exists>i < n. p = q + 4 * i + 4 * k) \<longleftrightarrow> 4 * k \<le> p \<and> p < 4 * k + 4 * n \<and> p mod 4 = q"
proof
  assume "\<exists>i < n. p = q + 4 * i + 4 * k"
  then obtain i where "i < n" "p = q + 4 * (i + k)" by auto
  moreover from this(2) have "p mod 4 = q" using assms by (simp only: mod_mult_self2 mod_less)
  ultimately show "4 * k \<le> p \<and> p < 4 * k + 4 * n \<and> p mod 4 = q" using assms by simp
next
  assume p: "4 * k \<le> p \<and> p < 4 * k + 4 * n \<and> p mod 4 = q"
  then have "p = q + 4 * (p div 4)" using mult_div_mod_eq [of 4 p] by linarith
  moreover have "k \<le> p div 4" "p div 4 < k + n" using p by linarith+
  ultimately show "\<exists>i < n. p = q + 4 * i + 4 * k" by (intro exI [of _ "p div 4 - k"]) auto
qed

lemma cell_handlers_eq:
  assumes "y < 24" "x < 40"
  shows "cell_handlers y x w = row_step y w"
proof -
  let ?r = "video_line_offset ! y"
  note r = rows_ok [OF assms(1)]
  have q: "row_page y < 4" using r(1) by simp
  have pg: "(?r + x + 0x100 * k) div 256 = row_page y + k" for k
    unfolding row_page_def by (rule cell_page [OF r(2) assms(2)])
  have t: "(?r + x + 0x400) div 256 = row_page y + 4" "(?r + x + 0x800) div 256 = row_page y + 8"
    using pg [of 4] pg [of 8] by simp_all
  have h: "(?r + 0x400 * i + x + 0x2000) div 256 = row_page y + 4 * i + 32"
    "(?r + 0x400 * i + x + 0x4000) div 256 = row_page y + 4 * i + 64" for i
    using pg [of "4 * i + 32"] pg [of "4 * i + 64"] by (simp_all add: algebra_simps)
  have f: "fold (\<lambda>i w. w(a + 4 * i + 32 := u, a + 4 * i + 64 := v)) [0..<n] w p =
      (if \<exists>i < n. p = a + 4 * i + 64 then v else if \<exists>i < n. p = a + 4 * i + 32 then u else w p)"
    if "n \<le> 8" for a u v n w p
    using that by (induction n) (auto simp: less_Suc_eq)
  have e: "(\<exists>i < 8. p = row_page y + 4 * i + 64) \<longleftrightarrow> 64 \<le> p \<and> p < 96 \<and> p mod 4 = row_page y"
    "(\<exists>i < 8. p = row_page y + 4 * i + 32) \<longleftrightarrow> 32 \<le> p \<and> p < 64 \<and> p mod 4 = row_page y" for p :: nat
    using quarter [OF q, of 8 p 16] quarter [OF q, of 8 p 8] by simp_all
  have d: "p = row_page y + 4 \<longleftrightarrow> 4 \<le> p \<and> p < 8 \<and> p mod 4 = row_page y"
    "p = row_page y + 8 \<longleftrightarrow> 8 \<le> p \<and> p < 12 \<and> p mod 4 = row_page y" for p :: nat
    using quarter [OF q, of 1 p 1] quarter [OF q, of 1 p 2] by simp_all
  show ?thesis
    by (cases "y < 20")
      (simp_all add: cell_handlers_def Let_def t h f e d fun_eq_iff row_step_def display_page_def display_handler_def)
qed

lemma row_handlers: "y < 24 \<Longrightarrow> fold (cell_handlers y) [0..<TEXT_COLS] w = row_step y w"
proof -
  assume y: "y < 24"
  have idem: "row_step y (row_step y w) = row_step y w" for w by (auto simp: row_step_def fun_eq_iff)
  have "fold (cell_handlers y) [0..<n] w = (if n = 0 then w else row_step y w)" if "n \<le> 40" for n
    using that by (induction n) (auto simp: cell_handlers_eq [OF y] idem)
  from this [of 40] show ?thesis by (simp add: TEXT_COLS_def)
qed

lemma all_rows:
  "fold (\<lambda>y. fold (cell_handlers y) [0..<TEXT_COLS]) [0..<TEXT_ROWS] w p =
    (if display_page p then display_handler (2 \<le> p mod 4) p else w p)"
proof -
  have "fold (\<lambda>y. fold (cell_handlers y) [0..<TEXT_COLS]) [0..<TEXT_ROWS] w = fold row_step [0..<24] w"
    by (rule fold_cong) (auto simp: TEXT_ROWS_def row_handlers fun_eq_iff)
  moreover have "fold row_step [0..<24] w p =
      (if display_page p then display_handler (2 \<le> p mod 4) p else w p)"
  proof (cases "display_page p")
    case False
    have "fold row_step ys w p = w p" for ys using False by (induction ys arbitrary: w) (auto simp: row_step_def)
    then show ?thesis using False by simp
  next
    case True
    have last: "fold row_step (xs @ [y] @ ys) w p = display_handler (\<not> y < 20) p"
      if "row_page y = p mod 4" "\<forall>z \<in> set ys. row_page z \<noteq> p mod 4" for xs y ys w
    proof -
      have "fold row_step ys w' p = w' p" for w' using that(2) by (induction ys arbitrary: w') (auto simp: row_step_def)
      then show ?thesis using that(1) True by (simp add: row_step_def)
    qed
    have split: "[0..<24] = [0..<17] @ [17] @ [18..<24]" "[0..<24] = [0..<19] @ [19] @ [20..<24]"
      "[0..<24] = [0..<21] @ [21] @ [22..<24]" "[0..<24] = [0..<23] @ [23] @ [24..<24]"
      by (simp_all add: upt_rec)
    have rp: "row_page y = (y div 2) mod 4" if "y < 24" for y using rows_ok(1) [OF that] .
    consider "p mod 4 = 0" | "p mod 4 = 1" | "p mod 4 = 2" | "p mod 4 = 3" by linarith
    then show ?thesis
    proof cases
      case 1 then show ?thesis unfolding split(1) using True by (subst last) (auto simp: rp)
    next
      case 2 then show ?thesis unfolding split(2) using True by (subst last) (auto simp: rp)
    next
      case 3 then show ?thesis unfolding split(3) using True by (subst last) (auto simp: rp)
    next
      case 4 then show ?thesis unfolding split(4) using True by (subst last) (auto simp: rp)
    qed
  qed
  ultimately show ?thesis by simp
qed

lemma write_table_eq:
  "write_table p =
    (if p < 2 then W_zpage_and_stack
     else if display_page p then display_handler (2 \<le> p mod 4) p
     else if p = 0xC0 then W_softswitch
     else if p = 0xC4 \<or> p = 0xC5 then W_mockingboard
     else if 0xC0 \<le> p \<and> p < 0xD0 then W_nop
     else if 0xD0 \<le> p \<and> p < 0xE0 then W_ram_bank
     else if 0xE0 \<le> p \<and> p < 0x100 then W_ram_lc
     else W_ram_default)"
  by (simp add: write_table_def Let_def all_rows set_range_eq display_page_def)

section \<open>The map the switches describe\<close>

text \<open>Main or auxiliary memory at an address, and the banks of the language card.\<close>

definition bank_loc :: "bool \<Rightarrow> nat \<Rightarrow> region \<times> nat" where
  "bank_loc aux a = (Apple_ii_64k, (if aux then 65536 else 0) + a)"

definition lc_loc :: "u32 \<Rightarrow> nat \<Rightarrow> region \<times> nat" where
  "lc_loc sw a =
    (let half = (if flag_on sw SS_ALTZP then 0x2000 else 0) in
     if a < 0xE000 then (Language_banks, half + (if flag_on sw SS_BANK2 then 0 else 0x1000) + (a - 0xD000))
     else (Language_card, half + (a - 0xE000)))"

definition ram_loc :: "u32 \<Rightarrow> u32 \<Rightarrow> nat \<Rightarrow> region \<times> nat" where
  "ram_loc sw f a =
    bank_loc
      (if a < 0x200 then flag_on sw SS_ALTZP
       else if 0x400 \<le> a \<and> a < 0x800 then text_page2 sw f
       else if 0x2000 \<le> a \<and> a < 0x4000 then hgr_page2 sw f
       else flag_on sw f) a"

definition read_loc :: "u32 \<Rightarrow> nat \<Rightarrow> region \<times> nat" where
  "read_loc sw a =
    (if a < 0xC000 then ram_loc sw SS_RAMRD a
     else if flag_on sw SS_LCRAM then lc_loc sw a
     else bank_loc False a)"

definition write_loc :: "u32 \<Rightarrow> nat \<Rightarrow> (region \<times> nat) option" where
  "write_loc sw a =
    (if a < 0xC000 then Some (ram_loc sw SS_RAMWRT a)
     else if flag_on sw SS_LCWRT then Some (lc_loc sw a)
     else None)"

text \<open>The addresses whose handlers are memory, not devices.\<close>

definition memory_addr :: "addr \<Rightarrow> bool" where
  "memory_addr ea \<longleftrightarrow> unat ea < 0xC000 \<or> 0xD000 \<le> unat ea"

lemma addr_less: "unat (ea :: addr) < 65536"
  using unsigned_less [of ea] by simp

lemma ptr_Obj:
  assumes "unat ea = n"
  shows "ptr_index (Obj r k) ea =
    (if 0 \<le> k + int n \<and> k + int n < region_size r then Some (r, nat (k + int n)) else None)"
proof -
  have "uint ea = int n" using assms by (metis uint_nat)
  then show ?thesis by (simp add: ptr_index_def Let_def)
qed

lemma ptr_bank:
  assumes "unat ea = n"
  shows "ptr_index (bank64k (if aux then 1 else 0)) ea = Some (bank_loc aux n)"
proof -
  have "n < 65536" using addr_less [of ea] assms by simp
  then show ?thesis
    unfolding bank64k_def ptr_Obj [OF assms] by (cases aux) (simp_all add: bank_loc_def region_size_def nat_add_distrib)
qed

lemma ptr_lc:
  assumes "unat ea = n" "0xD000 \<le> n"
  shows "n < 0xE000 \<Longrightarrow> ptr_index (lc_d000 sw) ea = Some (lc_loc sw n)"
    and "0xE000 \<le> n \<Longrightarrow> ptr_index (lc_e000 sw) ea = Some (lc_loc sw n)"
proof -
  obtain m where m: "n = 0xD000 + m" using assms(2) le_Suc_ex by blast
  have "n < 65536" using addr_less [of ea] assms(1) by simp
  then show "n < 0xE000 \<Longrightarrow> ptr_index (lc_d000 sw) ea = Some (lc_loc sw n)"
    "0xE000 \<le> n \<Longrightarrow> ptr_index (lc_e000 sw) ea = Some (lc_loc sw n)"
    using m unfolding lc_d000_def lc_e000_def ptr_Obj [OF assms(1)]
    by (auto simp: lc_loc_def region_size_def Let_def)
qed

lemma page_range: "page ea < n \<longleftrightarrow> unat ea < 256 * n" "m \<le> page ea \<longleftrightarrow> 256 * m \<le> unat ea"
  by (simp_all add: page_def div_less_iff_less_mult mult.commute) linarith

lemma page_eq: "page ea = n \<longleftrightarrow> 256 * n \<le> unat ea \<and> unat ea < 256 * n + 256"
  unfolding page_def by linarith

text \<open>The memory behind each address, as the base pointers have it.\<close>

definition read_ptr :: "vm \<Rightarrow> nat \<Rightarrow> pointer" where
  "read_ptr s a =
    (if a < 0x200 then base_stackzp s
     else if 0x400 \<le> a \<and> a < 0x800 then base_textrd s
     else if 0x2000 \<le> a \<and> a < 0x4000 then base_hgrrd s
     else if a < 0xC000 then base_ramrd s
     else if a < 0xE000 then base_d000_rd s
     else base_e000_rd s)"

lemma vm_read_ptr:
  "memory_addr ea \<Longrightarrow> vm_read c mb ea s = ptr_read (read_ptr s (unat ea)) ea s"
  using addr_less [of ea]
  by (auto simp: vm_read_def read_table_eq page_range page_eq memory_addr_def read_ptr_def bank_read_def)

lemma read_ptr_loc:
  assumes "mmu_ok s" "memory_addr ea"
  shows "ptr_index (read_ptr s (unat ea)) ea = Some (read_loc (softswitches s) (unat ea))"
proof -
  obtain n where n: "unat ea = n" by simp
  note b = assms(1) [unfolded mmu_ok_def pseudo_ok_def banks_ok_def lc_ok_def]
  have rom: "ptr_index (bank64k 0) ea = Some (bank_loc False n)" using ptr_bank [OF n, of False] by simp
  have "n < 0xC000 \<or> 0xD000 \<le> n \<and> n < 0xE000 \<or> 0xE000 \<le> n"
    using assms(2) by (simp add: memory_addr_def n) linarith
  then show ?thesis
  proof (elim disjE)
    assume "n < 0xC000"
    then show ?thesis using b ptr_bank [OF n] unfolding n
      by (simp add: read_ptr_def read_loc_def ram_loc_def)
  next
    assume "0xD000 \<le> n \<and> n < 0xE000"
    then show ?thesis using b rom ptr_lc(1) [OF n] unfolding n by (simp add: read_ptr_def read_loc_def)
  next
    assume "0xE000 \<le> n"
    then show ?thesis using b rom ptr_lc(2) [OF n] unfolding n by (simp add: read_ptr_def read_loc_def)
  qed
qed

end
