(* ===== verification/A2_VMWrite.thy ===== *)
theory A2_VMWrite
  imports A2_VMMap
begin

text \<open>
  Writes of the CPU to memory: each stores the byte at the place the memory map names, or nowhere when the
  language card is write-protected; and a write to a display page first brings the display up to date
  when the page is on display in the mode it is watched for.
\<close>

section \<open>Display pages\<close>

lemma put_region_frame [simp]:
  "vid (put_region r i b s) = vid s" "disk6 (put_region r i b s) = disk6 s"
  "softswitches (put_region r i b s) = softswitches s" "cpu65_rw (put_region r i b s) = cpu65_rw s"
  "mmu_ok (put_region r i b s) = mmu_ok s"
  by (simp_all add: put_region_def split: region.split)

lemma vm_ok_put [simp]: "vm_ok c (put_region r i b s) = vm_ok c s"
  by (simp add: vm_ok_def video_ok_def)

definition write_ptr :: "vm \<Rightarrow> nat \<Rightarrow> pointer" where
  "write_ptr s a =
    (if a < 0x200 then base_stackzp s
     else if 0x400 \<le> a \<and> a < 0x800 then base_textwrt s
     else if 0x2000 \<le> a \<and> a < 0x4000 then base_hgrwrt s
     else base_ramwrt s)"

text \<open>Whether a write to a page that changes memory brings the display up to date.\<close>

definition marks :: "u32 \<Rightarrow> nat \<Rightarrow> bool" where
  "marks sw p \<longleftrightarrow> display_page p \<and>
    (let mode = (if p mod 4 < 2 then video_currentMainMode sw else video_currentMixedMode sw) in
     (if p < 12 then mode = DRAWPAGE_TEXT else mode = DRAWPAGE_HIRES) \<and>
     (if p < 8 \<or> 0x20 \<le> p \<and> p < 0x40 then \<not> flag_on sw SS_PAGE2
      else flag_on sw SS_PAGE2 \<and> \<not> flag_on sw SS_80STORE))"

definition write_watched :: "bool \<Rightarrow> pointer \<Rightarrow> addr \<Rightarrow> byte \<Rightarrow> vm \<Rightarrow> vm option" where
  "write_watched m p ea b s = do {
     (b0, _) \<leftarrow> ptr_read p ea s;
     s \<leftarrow> (if m \<and> b0 \<noteq> b then set_dirty s else Some s);
     ptr_write p ea b s }"

lemma mode_cases: "(m \<noteq> DRAWPAGE_HIRES) = (m = DRAWPAGE_TEXT)" "(m \<noteq> DRAWPAGE_TEXT) = (m = DRAWPAGE_HIRES)"
  by (cases m; simp)+

lemma set_dirty_frame: "set_dirty s = Some s' \<Longrightarrow> \<exists>v. s' = s\<lparr>vid := v\<rparr>"
  by (auto simp: set_dirty_def split: option.splits)

lemma write_page0_eq:
  assumes "ptr_index (base s) ea = Some l" "\<And>v. base (s\<lparr>vid := v\<rparr>) = base s"
  shows "write_page0 current hidden base ea b s =
    write_watched (current (softswitches s) \<noteq> hidden \<and> \<not> ss s SS_PAGE2) (base s) ea b s"
proof (cases "set_dirty s")
  case None
  then show ?thesis using assms
    by (simp add: write_page0_def write_watched_def dirty_if_changed_def ptr_read_def Let_def split: prod.split)
next
  case (Some s')
  then have "base s' = base s" using set_dirty_frame [OF Some] assms(2) by auto
  then show ?thesis using assms Some
    by (simp add: write_page0_def write_watched_def dirty_if_changed_def ptr_read_def Let_def split: prod.split)
qed

lemma write_page1_eq:
  assumes "ptr_index (base_ramwrt s) ea = Some l"
  shows "write_page1 current hidden ea b s =
    write_watched (current (softswitches s) \<noteq> hidden \<and> ss s SS_PAGE2 \<and> \<not> ss s SS_80STORE) (base_ramwrt s) ea b s"
proof (cases "set_dirty s")
  case None
  then show ?thesis using assms
    by (simp add: write_page1_def write_watched_def dirty_if_changed_def ptr_read_def Let_def split: prod.split)
next
  case (Some s')
  then have "base_ramwrt s' = base_ramwrt s" using set_dirty_frame [OF Some] by auto
  then show ?thesis using assms Some
    by (simp add: write_page1_def write_watched_def dirty_if_changed_def ptr_read_def Let_def split: prod.split)
qed

text \<open>A write below \<open>$C000\<close>.\<close>

lemma write_ptr_loc:
  assumes "mmu_ok s" "unat ea < 0xC000"
  shows "ptr_index (write_ptr s (unat ea)) ea = Some (ram_loc (softswitches s) SS_RAMWRT (unat ea))"
proof -
  obtain n where n: "unat ea = n" by simp
  note b = assms(1) [unfolded mmu_ok_def pseudo_ok_def banks_ok_def]
  show ?thesis using b ptr_bank [OF n] unfolding n by (simp add: write_ptr_def ram_loc_def)
qed

lemma write_unwatched: "ptr_index p ea = Some l \<Longrightarrow> write_watched False p ea b s = ptr_write p ea b s"
  by (simp add: write_watched_def ptr_read_def split: prod.split)

lemma vm_write_ptr:
  assumes "mmu_ok s" "unat ea < 0xC000"
  shows "vm_write c ea b s = write_watched (marks (softswitches s) (page ea)) (write_ptr s (unat ea)) ea b s"
proof -
  define p where "p = page ea"
  have p: "p < 0xC0" using assms(2) by (simp add: p_def page_range)
  have ix: "ptr_index (write_ptr s (unat ea)) ea = Some (ram_loc (softswitches s) SS_RAMWRT (unat ea))"
    by (rule write_ptr_loc [OF assms])
  consider "p < 2" | "4 \<le> p" "p < 8" | "8 \<le> p" "p < 12" | "0x20 \<le> p" "p < 0x40" | "0x40 \<le> p" "p < 0x60"
    | "2 \<le> p" "\<not> display_page p"
    using p unfolding display_page_def by linarith
  then show ?thesis
  proof cases
    case 1
    then have w: "write_ptr s (unat ea) = base_stackzp s" by (simp add: p_def write_ptr_def page_range)
    show ?thesis using 1 ix write_unwatched [OF ix]
      by (simp add: vm_write_def write_table_eq p_def [symmetric] bank_write_def marks_def display_page_def w)
  next
    case 2
    then have w: "write_ptr s (unat ea) = base_textwrt s" by (simp add: p_def write_ptr_def page_range)
    show ?thesis using 2 write_page0_eq [where base = base_textwrt, OF ix [unfolded w]]
      by (simp add: vm_write_def write_table_eq p_def [symmetric] display_page_def display_handler_def marks_def
        video__write_2e_text0_def video__write_2e_text0_mixed_def w mode_cases not_less)
  next
    case 3
    then have w: "write_ptr s (unat ea) = base_ramwrt s" by (simp add: p_def write_ptr_def page_range)
    show ?thesis using 3 write_page1_eq [OF ix [unfolded w]]
      by (simp add: vm_write_def write_table_eq p_def [symmetric] display_page_def display_handler_def marks_def
        video__write_2e_text1_def video__write_2e_text1_mixed_def w mode_cases not_less)
  next
    case 4
    then have w: "write_ptr s (unat ea) = base_hgrwrt s" by (simp add: p_def write_ptr_def page_range)
    show ?thesis using 4 write_page0_eq [where base = base_hgrwrt, OF ix [unfolded w]]
      by (simp add: vm_write_def write_table_eq p_def [symmetric] display_page_def display_handler_def marks_def
        video__write_2e_hgr0_def video__write_2e_hgr0_mixed_def w mode_cases not_less)
  next
    case 5
    then have w: "write_ptr s (unat ea) = base_ramwrt s" by (simp add: p_def write_ptr_def page_range)
    show ?thesis using 5 write_page1_eq [OF ix [unfolded w]]
      by (simp add: vm_write_def write_table_eq p_def [symmetric] display_page_def display_handler_def marks_def
        video__write_2e_hgr1_def video__write_2e_hgr1_mixed_def w mode_cases not_less)
  next
    case 6
    then have w: "write_ptr s (unat ea) = base_ramwrt s" by (auto simp: p_def write_ptr_def page_range display_page_def)
    have "write_table p = W_ram_default" using 6 p by (auto simp: write_table_eq)
    then show ?thesis using 6 write_unwatched [OF ix]
      by (simp add: vm_write_def p_def [symmetric] bank_write_def marks_def w)
  qed
qed

text \<open>A write to the language card.\<close>

lemma vm_write_lc:
  assumes "mmu_ok s" "0xD000 \<le> unat ea" "ss s SS_LCWRT \<or> base_d000_wrt s = Raw 0"
  shows "vm_write c ea b s = Some (case write_loc (softswitches s) (unat ea) of
    None \<Rightarrow> s | Some (r, i) \<Rightarrow> put_region r i b s)"
proof -
  obtain n where n: "unat ea = n" by simp
  note lc = assms(1) [unfolded mmu_ok_def lc_ok_def] and n' = assms(2) [unfolded n]
  have p: "n < 65536" using addr_less [of ea] n by simp
  consider "n < 0xE000" | "0xE000 \<le> n" by linarith
  then show ?thesis
  proof cases
    case 1
    then have t: "write_table (page ea) = W_ram_bank" using n'
      by (auto simp: write_table_eq page_range page_eq display_page_def n)
    show ?thesis using lc assms(3) ptr_lc(1) [OF n n' 1] n'
      by (auto simp: vm_write_def t bank_maybewrite_def ptr_write_def write_loc_def n lc_d000_def split: prod.split)
  next
    case 2
    then have t: "write_table (page ea) = W_ram_lc" using n' p
      by (auto simp: write_table_eq page_range page_eq display_page_def n)
    show ?thesis using lc assms(3) ptr_lc(2) [OF n n' 2] n'
      by (auto simp: vm_write_def t bank_maybewrite_def ptr_write_def write_loc_def n lc_e000_def split: prod.split)
  qed
qed

end
