(* ===== verification/A2_Bus.thy ===== *)
theory A2_Bus
  imports A2_VMWrite
begin

text \<open>
  The CPU's side of the bus: every access of an instruction, to memory, a slot or a switch, as a step of
  the machine; the invariant of the machine holds in every state the steps reach, and no access fails,
  the undecodable disk track apart.
\<close>

section \<open>Reads\<close>

text \<open>The one access that can fail an assertion: a head movement off a track that does not decode.\<close>

definition undecodable_move :: "addr \<Rightarrow> vm \<Rightarrow> bool" where
  "undecodable_move ea s \<longleftrightarrow> unat (ea AND 0xf) \<le> 7 \<and>
    (let d = disk (disk6 s) (drive (disk6 s)) in track_dirty d \<and> \<not> nibblized d \<and> decode_track d = None)"

definition disk_addr :: "addr \<Rightarrow> bool" where
  "disk_addr ea \<longleftrightarrow> page ea = 0xC0 \<and> disk_switch ea"

lemma ptr_read_ok: "ptr_index p ea = Some l \<Longrightarrow> ptr_read p ea s = Some (region_of s (fst l) (snd l), s)"
  by (simp add: ptr_read_def split: prod.split)

lemma ptr_write_ok: "ptr_index p ea = Some l \<Longrightarrow> ptr_write p ea b s = Some (put_region (fst l) (snd l) b s)"
  by (simp add: ptr_write_def split: prod.split)

lemma vm_read_memory:
  assumes "mmu_ok s" "memory_addr ea"
  shows "vm_read c mb ea s =
    Some (region_of s (fst (read_loc (softswitches s) (unat ea))) (snd (read_loc (softswitches s) (unat ea))), s)"
  by (simp add: vm_read_ptr [OF assms(2)] ptr_read_ok [OF read_ptr_loc [OF assms]])

lemma keeps_readD:
  "keeps_read c f \<Longrightarrow> vm_ok c s \<Longrightarrow> \<exists>b s'. f s = Some (b, s') \<and> vm_ok c s' \<and> cpu65_rw s' = cpu65_rw s"
  by (simp add: keeps_read_def)

lemma nibble_unat: "unat ((w :: addr) AND 0xf) = unat w mod 16"
proof -
  have "w AND 0xf = take_bit 4 w" by (simp only: take_bit_eq_mask) (simp add: mask_eq_exp_minus_1)
  then have "unat (w AND 0xf) = take_bit 4 (unat w)" by (simp only: unsigned_take_bit_eq)
  then show ?thesis by (simp add: take_bit_eq_mod)
qed

lemma addr_drop: "unat (drop_bit n (w :: addr)) = unat w div 2 ^ n"
  unfolding unat_drop_bit_eq by (rule drop_bit_eq_div)

lemma peripheral_ok:
  assumes "0xC1 \<le> page ea" "page ea < 0xC8" "vm_ok c s"
  shows "\<exists>b s'. iie_read_peripheral_card mb ea s = Some (b, s') \<and> vm_ok c s' \<and> cpu65_rw s' = cpu65_rw s"
proof -
  obtain n where n: "unat ea = n" by simp
  have r: "0xC100 \<le> n" "n < 0xC800" using assms(1,2) by (simp_all add: page_range n)
  have a: "(drop_bit 12 ea) AND 0xf = 0xC"
    using r by (intro word_unat_eq_iff [THEN iffD2]) (simp add: nibble_unat addr_drop n)
  have sl: "unat ((drop_bit 8 ea) AND 0xf) = n div 256 mod 16"
    by (simp add: nibble_unat addr_drop n)
  have "n div 256 \<in> set [0xC1 ..< 0xC8]" using r by auto
  then have "n div 256 mod 16 \<in> {1, 2, 3, 7} \<or> n div 256 mod 16 \<in> {4, 5} \<or> n div 256 mod 16 = 6"
    by (auto simp: upt_rec)
  then show ?thesis using keeps_readD [OF keeps_floating assms(3)] assms(3)
    by (auto simp: iie_read_peripheral_card_def c_assert_def a sl Let_def mb_read_def)
qed

lemma slot_ptr:
  assumes "slots_ok s" "0xC1 \<le> page ea" "page ea < 0xC8"
  shows "ptr_index (bank64k 1) ea = Some (bank_loc True (unat ea))"
  using ptr_bank [OF refl, of True ea] by simp

lemma slot_read_ok:
  assumes "0xC1 \<le> page ea" "page ea < 0xC8" "vm_ok c s"
    and "f \<in> {maybe_read_cx mb base_cxrom, maybe_read_cx mb base_c4rom, maybe_read_cx mb base_c5rom,
      maybe_read_c3 mb base_c3rom}"
  shows "\<exists>b s'. f ea s = Some (b, s') \<and> vm_ok c s' \<and> cpu65_rw s' = cpu65_rw s"
proof -
  have sl: "slots_ok s" using assms(3) by (simp add: vm_ok_def mmu_ok_def)
  show ?thesis
    using assms(4) peripheral_ok [OF assms(1,2,3), of mb] assms(3) ptr_read_ok [OF slot_ptr [OF sl assms(1,2)]] sl
    by (auto simp: maybe_read_cx_def maybe_read_c3_def call_ptr_def slots_ok_def)
qed

lemma vm_read_ok:
  assumes "vm_ok c s" "\<not> disk_addr ea"
  shows "\<exists>b s'. vm_read d mb ea s = Some (b, s') \<and> vm_ok c s' \<and> cpu65_rw s' = cpu65_rw s"
proof -
  have p: "page ea < 0x100" using addr_less [of ea] by (simp add: page_range)
  have m: "mmu_ok s" using assms(1) by (simp add: vm_ok_def)
  consider "memory_addr ea" | "page ea = 0xC0" | "0xC1 \<le> page ea" "page ea < 0xC8" | "0xC8 \<le> page ea" "page ea < 0xD0"
    using p unfolding memory_addr_def page_eq page_range by linarith
  then show ?thesis
  proof cases
    case 1
    then show ?thesis using vm_read_memory [OF m] assms(1) by simp
  next
    case 2
    then show ?thesis using keeps_readD [OF read_softswitch_keeps assms(1)] assms(2)
      by (simp add: vm_read_def read_table_eq disk_addr_def)
  next
    case 3
    note r = slot_read_ok [OF 3 assms(1), where mb = mb]
    consider "page ea = 0xC3" | "page ea = 0xC4" | "page ea = 0xC5" | "page ea \<notin> {0xC3, 0xC4, 0xC5}" by blast
    then show ?thesis using 3 r by cases (simp_all add: vm_read_def read_table_eq)
  next
    case 4
    then have "read_table (page ea) = R_slot_expansion" by (simp add: read_table_eq)
    then show ?thesis using keeps_readD [OF keeps_floating assms(1)] assms(1)
      by (simp add: vm_read_def iie_read_slot_expansion_def)
  qed
qed

section \<open>Writes\<close>

lemma write_watched_ok:
  assumes "vm_ok c s" "ptr_index p ea = Some l"
  shows "\<exists>v. write_watched m p ea b s = Some (put_region (fst l) (snd l) b (s\<lparr>vid := v\<rparr>)) \<and>
    vm_ok c (s\<lparr>vid := v\<rparr>) \<and>
    (if m \<and> region_of s (fst l) (snd l) \<noteq> b then set_dirty s = Some (s\<lparr>vid := v\<rparr>) else v = vid s)"
proof -
  obtain v where v: "set_dirty s = Some (s\<lparr>vid := v\<rparr>)" "video_inv v" "in_time v"
    by (rule set_dirty_ok [OF assms(1)])
  show ?thesis
  proof (cases "m \<and> region_of s (fst l) (snd l) \<noteq> b")
    case True
    then show ?thesis using v vm_ok_vid [OF assms(1)] ptr_write_ok [OF assms(2)]
      by (intro exI [of _ v]) (simp add: write_watched_def ptr_read_ok [OF assms(2)])
  next
    case False
    then show ?thesis using assms(1) ptr_write_ok [OF assms(2)]
      by (intro exI [of _ "vid s"]) (auto simp: write_watched_def ptr_read_ok [OF assms(2)])
  qed
qed

text \<open>The effect of a write on memory, by the memory map.\<close>

definition put_loc :: "(region \<times> nat) option \<Rightarrow> byte \<Rightarrow> vm \<Rightarrow> vm" where
  "put_loc l b s = (case l of None \<Rightarrow> s | Some (r, i) \<Rightarrow> put_region r i b s)"

lemma vm_ok_put_loc [simp]: "vm_ok c (put_loc l b s) = vm_ok c s"
  "softswitches (put_loc l b s) = softswitches s" "cpu65_rw (put_loc l b s) = cpu65_rw s"
  "mmu_ok (put_loc l b s) = mmu_ok s"
  by (simp_all add: put_loc_def split: option.split)

definition card_settled :: "vm \<Rightarrow> bool" where
  "card_settled s \<longleftrightarrow> ss s SS_LCWRT \<or> base_d000_wrt s = Raw 0"

lemma vm_write_memory:
  assumes "vm_ok c s" "memory_addr ea" "unat ea < 0xC000 \<or> card_settled s"
  shows "\<exists>v. vm_write d ea b s = Some (put_loc (write_loc (softswitches s) (unat ea)) b (s\<lparr>vid := v\<rparr>)) \<and>
    vm_ok c (s\<lparr>vid := v\<rparr>)"
proof (cases "unat ea < 0xC000")
  case True
  have m: "mmu_ok s" using assms(1) by (simp add: vm_ok_def)
  have l: "put_loc (write_loc (softswitches s) (unat ea)) b =
      put_region (fst (ram_loc (softswitches s) SS_RAMWRT (unat ea)))
        (snd (ram_loc (softswitches s) SS_RAMWRT (unat ea))) b"
    using True by (simp add: write_loc_def put_loc_def fun_eq_iff split: prod.split)
  show ?thesis
    using write_watched_ok [OF assms(1) write_ptr_loc [OF m True]]
    unfolding vm_write_ptr [OF m True] l by blast
next
  case False
  have m: "mmu_ok s" using assms(1) by (simp add: vm_ok_def)
  have e: "0xD000 \<le> unat ea" using False assms(2) by (simp add: memory_addr_def)
  show ?thesis using vm_write_lc [OF m e] False assms(1,3)
    by (intro exI [of _ "vid s"]) (simp add: put_loc_def card_settled_def)
qed

lemma vm_write_card_ok:
  assumes "vm_ok c s" "0xD000 \<le> unat ea"
  shows "\<exists>s'. vm_write d ea b s = Some s' \<and> vm_ok c s' \<and> cpu65_rw s' = cpu65_rw s"
proof (cases "card_settled s")
  case True
  then show ?thesis using vm_write_memory [OF assms(1), of ea d b] assms(2) by (auto simp: memory_addr_def)
next
  case False
  then have "base_d000_wrt s = Obj Language_banks (- 0xD000)" "base_e000_wrt s = Obj Language_card (- 0xE000)"
    using assms(1) by (auto simp: vm_ok_def mmu_ok_def lc_ok_def card_settled_def split: if_splits)
  then have b: "base_d000_wrt s = lc_d000 SS_BANK2" "base_e000_wrt s = lc_e000 SS_BANK2"
    by (simp_all add: lc_d000_def lc_e000_def SS_defs)
  obtain n where n: "unat ea = n" by simp
  note n' = assms(2) [unfolded n]
  have p: "n < 65536" using addr_less [of ea] n by simp
  consider "n < 0xE000" | "0xE000 \<le> n" by linarith
  then show ?thesis
  proof cases
    case 1
    then have t: "write_table (page ea) = W_ram_bank" using n'
      by (auto simp: write_table_eq page_range page_eq display_page_def n)
    show ?thesis using ptr_write_ok [OF ptr_lc(1) [OF n n' 1]] assms(1)
      by (simp add: vm_write_def t bank_maybewrite_def b)
  next
    case 2
    then have t: "write_table (page ea) = W_ram_lc" using n' p
      by (auto simp: write_table_eq page_range page_eq display_page_def n)
    show ?thesis using ptr_write_ok [OF ptr_lc(2) [OF n n' 2]] assms(1)
      by (simp add: vm_write_def t bank_maybewrite_def b)
  qed
qed

lemma vm_write_ok:
  assumes "vm_ok c s" "write_flag_set s" "\<not> disk_addr ea"
  shows "\<exists>s'. vm_write d ea b s = Some s' \<and> vm_ok c s'"
proof -
  have p: "page ea < 0x100" using addr_less [of ea] by (simp add: page_range)
  consider "unat ea < 0xC000" | "0xD000 \<le> unat ea" | "page ea = 0xC0" | "0xC1 \<le> page ea" "page ea < 0xD0"
    using p unfolding page_eq page_range by linarith
  then show ?thesis
  proof cases
    case 1
    then show ?thesis using vm_write_memory [OF assms(1), of ea d b] by (auto simp: memory_addr_def)
  next
    case 2
    then show ?thesis using vm_write_card_ok [OF assms(1), of ea d b] by blast
  next
    case 3
    have t: "write_table 0xC0 = W_softswitch" by (simp add: write_table_eq display_page_def)
    show ?thesis using write_softswitch_keeps [of ea c s d b] assms 3
      by (auto simp: vm_write_def 3 t disk_addr_def)
  next
    case 4
    then have "write_table (page ea) = W_mockingboard \<or> write_table (page ea) = W_nop"
      by (auto simp: write_table_eq display_page_def)
    then show ?thesis using assms(1)
      by (auto simp: vm_write_def vm_ok_def video_ok_def vm_emit_def)
  qed
qed

section \<open>Disk switches\<close>

lemma disk_read_ok:
  assumes "vm_ok c s" "disk_addr ea"
  shows "(\<exists>b s'. vm_read c mb ea s = Some (b, s') \<and> vm_ok c s' \<and> cpu65_rw s' = cpu65_rw s) \<or>
    vm_read c mb ea s = None \<and> undecodable_move ea s"
proof -
  have d: "drives_ok c (disk6 s)" using assms(1) by (simp add: vm_ok_def)
  have r: "vm_read c mb ea s = vm_disk_read c ea s"
    using assms(2) by (auto simp: vm_read_def read_table_eq disk_addr_def disk_switch_def read_softswitch_def Let_def)
  show ?thesis
  proof (cases "disk6_access c True ea (disk6 s)")
    case None
    then show ?thesis using access_ok [OF d, of True ea]
      by (simp add: r vm_disk_read_def disk6_ioRead_def undecodable_move_def)
  next
    case (Some d')
    then have "drives_ok c d'" using access_ok [OF d, of True ea] by simp
    then have "vm_ok c (s\<lparr>disk6 := d'\<rparr>)" using assms(1) by (simp add: vm_ok_def video_ok_def)
    then show ?thesis using Some keeps_readD [OF keeps_floating, of c "s\<lparr>disk6 := d'\<rparr>"]
      by (auto simp: r vm_disk_read_def disk6_ioRead_def)
  qed
qed

lemma disk_in_turn:
  assumes "disk_switch ea"
  shows "write_softswitch c ea b s = map_option snd (vm_disk_write c ea b s)"
proof -
  obtain n where n: "unat (ea AND 0xFF) = n" "0xE0 \<le> n" "n < 0xF0" using assms by (simp add: disk_switch_def)
  show ?thesis unfolding write_softswitch_def Let_def n(1) using n(2,3)
    by (cases "vm_disk_write c ea b s") (simp_all add: when_switch_def)
qed

lemma disk_write_ok:
  assumes "vm_ok c s" "disk_addr ea"
  shows "(\<exists>s'. vm_write c ea b s = Some s' \<and> vm_ok c s') \<or> vm_write c ea b s = None \<and> undecodable_move ea s"
proof -
  have d: "drives_ok c (disk6 s)" using assms(1) by (simp add: vm_ok_def)
  have p: "page ea = 0xC0" "disk_switch ea" using assms(2) by (simp_all add: disk_addr_def)
  have t: "write_table 0xC0 = W_softswitch" by (simp add: write_table_eq display_page_def)
  have w: "vm_write c ea b s = map_option snd (vm_disk_write c ea b s)"
    by (simp add: vm_write_def p(1) t disk_in_turn [OF p(2)])
  show ?thesis
  proof (cases "disk6_access c False ea (disk6 s)")
    case None
    then show ?thesis using access_ok [OF d, of False ea]
      by (simp add: w vm_disk_write_def disk6_ioWrite_def undecodable_move_def)
  next
    case (Some d')
    then have d': "drives_ok c d'" using access_ok [OF d, of False ea] by simp
    moreover have "drives_ok c (d'\<lparr>disk_byte := b\<rparr>)" using d' by (simp add: drives_ok_def)
    ultimately show ?thesis using Some assms(1)
      by (auto simp: w vm_disk_write_def disk6_ioWrite_def vm_ok_def video_ok_def)
  qed
qed

section \<open>The bus\<close>

text \<open>
  What an instruction does to the machine besides its registers (\<^verbatim>\<open>x86/cpu.S\<close>): it
  clears the access flags, fetches its bytes, reads and writes at effective addresses, and accounts its
  cycles; between batches of instructions the CPU thread updates the display.
\<close>

datatype bus_op = Instruction | Fetch addr | Load addr | Store addr byte | Elapse int | Batch_end

definition elapse :: "int \<Rightarrow> vm \<Rightarrow> vm" where
  "elapse n s = s\<lparr>vid := (vid s)\<lparr>cpu65_cycle_count := cpu65_cycle_count (vid s) + n\<rparr>,
     gc_cycles_timer_0 := gc_cycles_timer_0 s - n, gc_cycles_timer_1 := gc_cycles_timer_1 s - n\<rparr>"

definition batch_end :: "vm \<Rightarrow> vm option" where
  "batch_end s = (case video_scannerUpdate (softswitches s) (main_ram s) (aux_ram s) (vid s) of
     None \<Rightarrow> None | Some v \<Rightarrow> Some (s\<lparr>vid := v\<rparr>))"

fun bus :: "bool \<Rightarrow> (vm \<Rightarrow> addr \<Rightarrow> byte) \<Rightarrow> bus_op \<Rightarrow> vm \<Rightarrow> vm option" where
  "bus c mb Instruction s = Some (s\<lparr>cpu65_rw := 0\<rparr>)"
| "bus c mb (Fetch ea) s = map_option snd (vm_read c mb ea s)"
| "bus c mb (Load ea) s = map_option snd (vm_read c mb ea (s\<lparr>cpu65_rw := cpu65_rw s OR 1\<rparr>))"
| "bus c mb (Store ea b) s = vm_write c ea b (s\<lparr>cpu65_rw := cpu65_rw s OR MEM_WRITE_FLAG\<rparr>)"
| "bus c mb (Elapse n) s = Some (elapse n s)"
| "bus c mb Batch_end s = batch_end s"

text \<open>Time passes as long as the display is updated once a frame, which the batches of the CPU
  thread see to.\<close>

inductive bus_step :: "bool \<Rightarrow> (vm \<Rightarrow> addr \<Rightarrow> byte) \<Rightarrow> vm \<Rightarrow> bus_op \<Rightarrow> vm \<Rightarrow> bool" for c mb where
  access: "bus c mb x s = Some s' \<Longrightarrow> (\<forall>n. x \<noteq> Elapse n) \<Longrightarrow> bus_step c mb s x s'"
| time: "0 \<le> n \<Longrightarrow> in_time (vid (elapse n s)) \<Longrightarrow> bus_step c mb s (Elapse n) (elapse n s)"

inductive bus_reaches :: "bool \<Rightarrow> (vm \<Rightarrow> addr \<Rightarrow> byte) \<Rightarrow> vm \<Rightarrow> vm \<Rightarrow> bool" for c mb s where
  start: "bus_reaches c mb s s"
| more: "bus_reaches c mb s t \<Longrightarrow> bus_step c mb t x u \<Longrightarrow> bus_reaches c mb s u"

inductive_cases bus_stepE: "bus_step c mb s x s'"
inductive_simps elapse_step: "bus_step c mb s (Elapse n) s'"

lemma vm_ok_rw [simp]: "vm_ok c (s\<lparr>cpu65_rw := b\<rparr>) = vm_ok c s"
  by (simp add: vm_ok_def video_ok_def)

lemma elapse_ok:
  assumes "vm_ok c s" "0 \<le> n" "in_time (vid (elapse n s))"
  shows "vm_ok c (elapse n s)"
proof -
  have m: "mmu_ok (elapse n s) = mmu_ok s" by (simp add: elapse_def)
  have "video_inv (vid s)" using assms(1) by (simp add: vm_ok_def video_ok_def)
  then have "video_inv (vid (elapse n s))" using assms(2)
    by (simp add: elapse_def video_inv_def scan_pos_ok_def apply_reset_def pending_def aligned_def
        split: if_splits)
  then show ?thesis using assms m by (simp add: vm_ok_def video_ok_def) (simp add: elapse_def)
qed

lemma batch_end_ok:
  assumes "vm_ok c s"
  shows "\<exists>s'. batch_end s = Some s' \<and> vm_ok c s'"
proof -
  have v: "video_inv (vid s)" "in_time (vid s)" using assms by (simp_all add: vm_ok_def video_ok_def)
  obtain v' where "video_scannerUpdate (softswitches s) (main_ram s) (aux_ram s) (vid s) = Some v'"
    "video_inv v'" "in_time v'"
    by (rule scannerUpdate_ok [OF v])
  then show ?thesis using vm_ok_vid [OF assms] by (simp add: batch_end_def)
qed

lemma bus_ok:
  assumes "vm_ok c s" "\<forall>n. x \<noteq> Elapse n"
  shows "(\<exists>s'. bus c mb x s = Some s' \<and> vm_ok c s') \<or>
    bus c mb x s = None \<and> (\<exists>ea b. x \<in> {Fetch ea, Load ea, Store ea b} \<and> disk_addr ea \<and> undecodable_move ea s)"
proof (cases x)
  case Instruction
  then show ?thesis using assms(1) by simp
next
  case (Fetch ea)
  show ?thesis
  proof (cases "disk_addr ea")
    case True
    then show ?thesis using disk_read_ok [OF assms(1) True, of mb] Fetch by auto
  next
    case False
    then show ?thesis using vm_read_ok [OF assms(1) False, of c mb] Fetch by auto
  qed
next
  case (Load ea)
  let ?s = "s\<lparr>cpu65_rw := cpu65_rw s OR 1\<rparr>"
  have s: "vm_ok c ?s" using assms(1) by simp
  have u: "undecodable_move ea ?s = undecodable_move ea s" by (simp add: undecodable_move_def)
  show ?thesis
  proof (cases "disk_addr ea")
    case True
    then show ?thesis using disk_read_ok [OF s True, of mb] Load u by auto
  next
    case False
    then show ?thesis using vm_read_ok [OF s False, of c mb] Load by auto
  qed
next
  case (Store ea b)
  let ?s = "s\<lparr>cpu65_rw := cpu65_rw s OR MEM_WRITE_FLAG\<rparr>"
  have s: "vm_ok c ?s" using assms(1) by simp
  have w: "write_flag_set ?s"
    using bit_eq_iff [of "(cpu65_rw s OR MEM_WRITE_FLAG) AND MEM_WRITE_FLAG" 0]
    by (simp add: write_flag_set_def MEM_WRITE_FLAG_def bit_simps)
  have u: "undecodable_move ea ?s = undecodable_move ea s" by (simp add: undecodable_move_def)
  show ?thesis
  proof (cases "disk_addr ea")
    case True
    then show ?thesis using disk_write_ok [OF s True, of b] Store u by auto
  next
    case False
    then show ?thesis using vm_write_ok [OF s w False, of c b] Store by auto
  qed
next
  case (Elapse n)
  then show ?thesis using assms(2) by blast
next
  case Batch_end
  then show ?thesis using batch_end_ok [OF assms(1)] by simp
qed

lemma bus_step_ok: "bus_step c mb s x s' \<Longrightarrow> vm_ok c s \<Longrightarrow> vm_ok c s'"
  using bus_ok [of c s x mb] by (elim bus_stepE) (auto intro: elapse_ok)

lemma bus_reaches_ok: "bus_reaches c mb s s' \<Longrightarrow> vm_ok c s \<Longrightarrow> vm_ok c s'"
  by (induction rule: bus_reaches.induct) (auto intro: bus_step_ok)

end
