(* ===== verification/A2_VMGuarantees.thy ===== *)
theory A2_VMGuarantees
  imports A2_Bus
begin

text \<open>
  What the virtual machine guarantees: its memory implements the memory map, its switches can be read
  back, the language card's write-enable sequence, the display's view of writes, and the safety of every
  access in every reachable state.
\<close>

section \<open>A machine to run\<close>

definition blank_vm :: vm where
  "blank_vm = \<lparr>softswitches = 0, cpu65_rw = 0, base_ramrd = Raw 0, base_ramwrt = Raw 0, base_textrd = Raw 0,
     base_textwrt = Raw 0, base_hgrrd = Raw 0, base_hgrwrt = Raw 0, base_stackzp = Raw 0, base_d000_rd = Raw 0,
     base_d000_wrt = Raw 0, base_e000_rd = Raw 0, base_e000_wrt = Raw 0, base_c3rom = Raw 0,
     base_c4rom = Raw 0, base_c5rom = Raw 0, base_cxrom = Raw 0,
     apple_ii_64k = (\<lambda>_. 0), language_card = (\<lambda>_. 0), language_banks = (\<lambda>_. 0),
     joy_button0 = 0, joy_button1 = 0, joy_x = 0, joy_y = 0, gc_cycles_timer_0 = 0, gc_cycles_timer_1 = 0,
     vid = video_start, disk6 = blank_drives True, vm_log = []\<rparr>"

lemma initialize_mmu_ok: "mmu_ok (initialize_iie_switches s)"
  by (simp add: mmu_defs initialize_iie_switches_def flag_simps)

definition start_vm :: vm where
  "start_vm = initialize_iie_switches blank_vm"

lemma start_vm_ok: "vm_ok True start_vm"
  by (simp add: start_vm_def vm_ok_def video_ok_def initialize_mmu_ok)
    (simp add: initialize_iie_switches_def blank_vm_def video_start_ok blank_ok)

lemma start_vm_switches: "softswitches start_vm = SS_TEXT OR SS_BANK2"
  by (simp add: start_vm_def initialize_iie_switches_def)

section \<open>Memory\<close>

text \<open>Memory as one array of places, and accesses to it through the memory map.\<close>

definition mem :: "vm \<Rightarrow> region \<times> nat \<Rightarrow> byte" where
  "mem s = (\<lambda>(r, i). region_of s r i)"

definition map_read :: "u32 \<Rightarrow> (region \<times> nat \<Rightarrow> byte) \<Rightarrow> nat \<Rightarrow> byte" where
  "map_read sw m a = m (read_loc sw a)"

definition map_write :: "u32 \<Rightarrow> (region \<times> nat \<Rightarrow> byte) \<Rightarrow> nat \<Rightarrow> byte \<Rightarrow> region \<times> nat \<Rightarrow> byte" where
  "map_write sw m a b = (case write_loc sw a of None \<Rightarrow> m | Some l \<Rightarrow> m(l := b))"

lemma mem_put: "mem (put_region r i b s) = (mem s)((r, i) := b)"
  by (rule ext) (auto simp: mem_def put_region_def region_of_def split: region.splits if_splits)

lemma mem_put_loc: "mem (put_loc l b s) = (case l of None \<Rightarrow> mem s | Some l \<Rightarrow> (mem s)(l := b))"
  by (auto simp: put_loc_def mem_put split: option.split prod.split)

lemma mem_vid: "mem (s\<lparr>vid := v\<rparr>) = mem s"
  by (rule ext) (auto simp: mem_def region_of_def split: region.split)

text \<open>C3: whatever the handlers have done to the base pointers, a read of memory by the CPU is the
  read the switches describe: main or auxiliary memory, the display pages with 80STORE, the banks of
  the language card or ROM.\<close>

theorem memory_read_refines:
  assumes "mmu_ok s" "memory_addr ea"
  shows "vm_read c mb ea s = Some (map_read (softswitches s) (mem s) (unat ea), s)"
  by (simp add: vm_read_memory [OF assms] map_read_def mem_def split: prod.split)

theorem memory_read_refines_witness:
  "vm_read True (\<lambda>_ _. 0) 0xD123 start_vm = Some (map_read (SS_TEXT OR SS_BANK2) (mem start_vm) 0xD123, start_vm)"
  using memory_read_refines [of start_vm "0xD123" True "\<lambda>_ _. 0"] start_vm_ok
  by (simp add: vm_ok_def start_vm_switches memory_addr_def)



section \<open>Safety\<close>



text \<open>The machine starts: when the drives come up, \<open>vm_initialize\<close> completes, with pointers and
  pseudo switches in step with the switches and memory in place.\<close>

theorem vm_initialize_ok:
  assumes "disk6_init (disk6 s) = Some d" "drives_ok c d" "video_ok s"
  shows "\<exists>s'. vm_initialize tracing rnd rom slot6 s = Some s' \<and> vm_ok c s' \<and> softswitches s' = SS_TEXT OR SS_BANK2"
proof -
  have i: "vid (initialize_iie_switches t) = vid t" "disk6 (initialize_iie_switches t) = disk6 t"
    "softswitches (initialize_iie_switches t) = SS_TEXT OR SS_BANK2" for t
    by (simp_all add: initialize_iie_switches_def)
  have a: "vid (initialize_apple_ii_memory tracing rnd rom t) = vid t"
    "disk6 (initialize_apple_ii_memory tracing rnd rom t) = disk6 t" for t
    by (simp_all add: initialize_apple_ii_memory_def Let_def)
  have g: "vid (initialize_font t) = vid t" "disk6 (initialize_font t) = disk6 t" for t
    by (simp_all add: initialize_font_def vm_emit_def)
  show ?thesis using assms
    by (simp add: vm_initialize_def Let_def vm_ok_def video_ok_def i a g initialize_mmu_ok)
qed

lemma blank_drives_init: "\<exists>d. disk6_init (blank_drives True) = Some d \<and> drives_ok True d"
  by (simp add: disk6_init_def disk6_flush_def on_disk_def flush_disk_def drives_ok_def disk_ok_def image_ok_def
      blank_disk_def blank_drives_def conf_width_def disk_consts)

theorem vm_initialize_ok_witness:
  "\<exists>s'. vm_initialize False (\<lambda>_. 0x55AA) (\<lambda>_. 0) [0x60] blank_vm = Some s' \<and> vm_ok True s' \<and>
    softswitches s' = SS_TEXT OR SS_BANK2"
proof -
  obtain d where d: "disk6_init (blank_drives True) = Some d" "drives_ok True d"
    using blank_drives_init by blast
  have "disk6_init (disk6 blank_vm) = Some d" "video_ok blank_vm"
    using d(1) by (simp_all add: blank_vm_def video_ok_def video_start_ok)
  then show ?thesis using vm_initialize_ok [OF _ d(2)] by blast
qed

section \<open>What the display sees\<close>

lemma display_write:
  assumes "vm_ok c s" "unat ea < 0xC000"
  defines "l \<equiv> ram_loc (softswitches s) SS_RAMWRT (unat ea)"
  shows "\<exists>v. vm_write d ea b s = Some (put_region (fst l) (snd l) b (s\<lparr>vid := v\<rparr>)) \<and>
    (if marks (softswitches s) (page ea) \<and> mem s l \<noteq> b
     then video_setDirty A2_DIRTY_FLAG (softswitches s) (main_ram s) (aux_ram s) (vid s) = Some v
     else v = vid s)"
proof -
  have m: "mmu_ok s" using assms(1) by (simp add: vm_ok_def)
  obtain v where v: "write_watched (marks (softswitches s) (page ea)) (write_ptr s (unat ea)) ea b s =
      Some (put_region (fst l) (snd l) b (s\<lparr>vid := v\<rparr>))"
    "if marks (softswitches s) (page ea) \<and> region_of s (fst l) (snd l) \<noteq> b
     then set_dirty s = Some (s\<lparr>vid := v\<rparr>) else v = vid s"
    using write_watched_ok [OF assms(1) write_ptr_loc [OF m assms(2)]] unfolding l_def by blast
  have "set_dirty s = Some (s\<lparr>vid := v\<rparr>) \<Longrightarrow>
      video_setDirty A2_DIRTY_FLAG (softswitches s) (main_ram s) (aux_ram s) (vid s) = Some v"
    by (auto simp: set_dirty_def split: option.splits dest: arg_cong [of _ _ vid])
  then show ?thesis using v
    by (intro exI [of _ v]) (auto simp: vm_write_ptr [OF m assms(2)] mem_def split: if_splits prod.split)
qed

text \<open>The page of memory a row of the picture is in.\<close>

lemma display_row_page:
  assumes "pg \<le> 1" "r < 192" "h < 40"
  shows "display_address mode pg r h div 256 =
    (case mode of DRAWPAGE_TEXT \<Rightarrow> 4 * (pg + 1) | DRAWPAGE_HIRES \<Rightarrow> 0x20 * (pg + 1) + 4 * (r mod 8)) + (r div 16) mod 4"
    and "display_address mode pg r h < 0x6000"
proof -
  have y: "r div 8 < 24" using assms(2) by linarith
  have q: "row_page (r div 8) = (r div 16) mod 4" using rows_ok(1) [OF y] by (simp add: div_mult2_eq [symmetric])
  have pg: "(video_line_offset ! (r div 8) + h + 0x100 * k) div 256 = (r div 16) mod 4 + k" for k
    using cell_page [OF rows_ok(2) [OF y] assms(3)] q by (simp add: row_page_def)
  define k where "k = (case mode of DRAWPAGE_TEXT \<Rightarrow> 4 * (pg + 1) | DRAWPAGE_HIRES \<Rightarrow> 0x20 * (pg + 1) + 4 * (r mod 8))"
  have "display_address mode pg r h = video_line_offset ! (r div 8) + h + 0x100 * k"
    by (simp add: display_address_def page_base_def k_def split: drawpage_mode.split)
  then show e: "display_address mode pg r h div 256 =
    (case mode of DRAWPAGE_TEXT \<Rightarrow> 4 * (pg + 1) | DRAWPAGE_HIRES \<Rightarrow> 0x20 * (pg + 1) + 4 * (r mod 8)) + (r div 16) mod 4"
    using pg [of k] by (simp add: k_def)
  have "pg = 0 \<or> pg = 1" using assms(1) by linarith
  then show "display_address mode pg r h < 0x6000"
    using e by (auto split: drawpage_mode.splits)
qed

definition missed :: "u32 \<Rightarrow> nat \<Rightarrow> bool" where
  "missed sw r \<longleftrightarrow> flag_on sw SS_PAGE2 \<and> flag_on sw SS_80STORE \<or>
     flag_on sw SS_HIRES \<and> flag_on sw SS_MIXED \<and> \<not> flag_on sw SS_TEXT \<and> r < 160 \<and> 2 \<le> (r div 16) mod 4"

lemma row_watched:
  assumes "r < 192" "h < 40" "unat ea = display_address (currentMode sw r) (video_currentPage sw) r h"
  shows "marks sw (page ea) \<longleftrightarrow> \<not> missed sw r"
proof -
  have p: "page ea = (case currentMode sw r of DRAWPAGE_TEXT \<Rightarrow> 4 * (video_currentPage sw + 1)
      | DRAWPAGE_HIRES \<Rightarrow> 0x20 * (video_currentPage sw + 1) + 4 * (r mod 8)) + (r div 16) mod 4"
    unfolding page_def assms(3) by (rule display_row_page(1) [OF video_currentPage_le assms(1,2)])
  have q: "(r div 16) mod 4 < 4" "r mod 8 < 8" by simp_all
  have low: "\<not> r < 160 \<Longrightarrow> 2 \<le> (r div 16) mod 4"
  proof -
    assume "\<not> r < 160"
    then have "r div 16 = 10 \<or> r div 16 = 11" using assms(1) by linarith
    then show ?thesis by auto
  qed
  define k where "k = (r div 16) mod 4"
  define j where "j = r mod 8"
  have "k < 4" by (simp add: k_def)
  then have mods: "(64 + 4 * j + k) mod 4 = k" "(32 + 4 * j + k) mod 4 = k" "(8 + k) mod 4 = k" "(4 + k) mod 4 = k"
    by presburger+
  show ?thesis
    using p q low unfolding k_def [symmetric] j_def [symmetric] missed_def
    by (cases "r < 160"; cases "bit sw 3"; cases "bit sw 8"; cases "bit sw 0"; cases "bit sw 1"; cases "bit sw 2")
      (simp_all add: marks_def display_page_def currentMode_def video_currentMainMode_def video_currentMixedMode_def
        video_currentPage_def scan_consts flag_simps mods)
qed

text \<open>C9: a program that changes a byte of the picture on display brings the display up to the present
  and schedules a redraw, in every video mode and for every row, except that writes made with 80STORE
  and PAGE2 go unnoticed, and so do, in mixed high resolution mode, those to rows 32 to 63 and 96 to
  127: their pages also hold the text window, and have its handler.\<close>

theorem displayed_write_redraws:
  assumes "vm_ok c s" "r < 192" "h < 40"
    and "unat ea = display_address (currentMode (softswitches s) r) (video_currentPage (softswitches s)) r h"
    and "l = ram_loc (softswitches s) SS_RAMWRT (unat ea)" "mem s l \<noteq> b"
  shows "\<exists>v. vm_write d ea b s = Some (put_region (fst l) (snd l) b (s\<lparr>vid := v\<rparr>)) \<and>
    (if missed (softswitches s) r then v = vid s
     else video_setDirty A2_DIRTY_FLAG (softswitches s) (main_ram s) (aux_ram s) (vid s) = Some v)"
proof -
  have "unat ea < 0xC000" unfolding assms(4)
    using display_row_page(2) [OF video_currentPage_le assms(2,3), of "currentMode (softswitches s) r" "softswitches s"]
    by linarith
  from display_write [OF assms(1) this, of d b, folded assms(5)] show ?thesis
    using row_watched [OF assms(2-4)] assms(6) by auto
qed

theorem displayed_write_redraws_witness:
  "\<exists>v. vm_write True 0x0400 0xA0 start_vm =
      Some (put_region Apple_ii_64k 0x400 0xA0 (start_vm\<lparr>vid := v\<rparr>)) \<and>
    video_setDirty A2_DIRTY_FLAG (SS_TEXT OR SS_BANK2) (main_ram start_vm) (aux_ram start_vm) (vid start_vm) = Some v"
proof -
  have l: "ram_loc (SS_TEXT OR SS_BANK2) SS_RAMWRT 0x400 = (Apple_ii_64k, 0x400)"
    by (simp add: ram_loc_def bank_loc_def text_page2_def flag_simps)
  have a: "display_address (currentMode (SS_TEXT OR SS_BANK2) 0) (video_currentPage (SS_TEXT OR SS_BANK2)) 0 0 = 0x400"
    by (simp add: display_address_def page_base_def currentMode_def video_currentMainMode_def video_currentPage_def
        scan_consts flag_simps video_line_offset_def)
  have m: "\<not> missed (SS_TEXT OR SS_BANK2) 0" by (simp add: missed_def flag_simps)
  have z: "mem start_vm (Apple_ii_64k, 0x400) \<noteq> 0xA0"
    by (simp add: mem_def region_of_def start_vm_def initialize_iie_switches_def blank_vm_def)
  show ?thesis
    using displayed_write_redraws [OF start_vm_ok, of 0 0 "0x0400" "(Apple_ii_64k, 0x400)" "0xA0" True] l a m z
    by (simp add: start_vm_switches)
qed

section \<open>Switches\<close>

definition status_flag :: "nat \<Rightarrow> u32 \<Rightarrow> bool" where
  "status_flag sw w =
    [flag_on w SS_BANK2, flag_on w SS_LCRAM, flag_on w SS_RAMRD, flag_on w SS_RAMWRT, flag_on w SS_CXROM,
     flag_on w SS_ALTZP, \<not> flag_on w SS_C3ROM, flag_on w SS_80STORE, False, flag_on w SS_TEXT,
     flag_on w SS_MIXED, flag_on w SS_PAGE2, flag_on w SS_HIRES, flag_on w SS_ALTCHAR, flag_on w SS_80COL] ! (sw - 0x11)"

lemma and_SS:
  "w AND SS_BANK2 = (if bit w 4 then SS_BANK2 else 0)"
  "w AND SS_LCRAM = (if bit w 5 then SS_LCRAM else 0)"
  "w AND SS_RAMRD = (if bit w 10 then SS_RAMRD else 0)"
  "w AND SS_RAMWRT = (if bit w 11 then SS_RAMWRT else 0)"
  "w AND SS_CXROM = (if bit w 15 then SS_CXROM else 0)"
  "w AND SS_ALTZP = (if bit w 12 then SS_ALTZP else 0)"
  "w AND SS_80STORE = (if bit w 8 then SS_80STORE else 0)"
  "w AND SS_TEXT = (if bit w 0 then SS_TEXT else 0)"
  "w AND SS_MIXED = (if bit w 1 then SS_MIXED else 0)"
  "w AND SS_PAGE2 = (if bit w 3 then SS_PAGE2 else 0)"
  "w AND SS_HIRES = (if bit w 2 then SS_HIRES else 0)"
  "w AND SS_ALTCHAR = (if bit w 17 then SS_ALTCHAR else 0)"
  "w AND SS_80COL = (if bit w 9 then SS_80COL else 0)"
  by (auto intro!: bit_word_eqI simp: flag_simps)

lemma upt_0x11: "[0x11 ..< 0x20] = [0x11, 0x12, 0x13, 0x14, 0x15, 0x16, 0x17, 0x18, 0x19, 0x1A, 0x1B, 0x1C, 0x1D, 0x1E, 0x1F]"
  by (simp add: upt_rec)

lemma low_byte: "unat ((w :: addr) AND 0xFF) = unat w mod 256"
proof -
  have "w AND 0xFF = take_bit 8 w" by (simp only: take_bit_eq_mask) (simp add: mask_eq_exp_minus_1)
  then have "unat (w AND 0xFF) = take_bit 8 (unat w)" by (simp only: unsigned_take_bit_eq)
  then show ?thesis by (simp add: take_bit_eq_mod)
qed

lemma switch_addr:
  assumes "sw < 0x100"
  shows "unat ((0xC000 + of_nat sw :: addr) AND 0xFF) = sw"
proof -
  have "unat (0xC000 + of_nat sw :: addr) = (0xC000 + sw) mod 65536"
    using unat_of_nat [where ?'a = 16 and x = "0xC000 + sw"] by simp
  also have "\<dots> = sw + 192 * 256" using assms by simp
  finally have "unat ((0xC000 + of_nat sw :: addr) AND 0xFF) = (sw + 192 * 256) mod 256" by (simp only: low_byte)
  also have "\<dots> = sw" using assms by (simp only: mod_mult_self1 mod_less)
  finally show ?thesis .
qed

lemma read_status_eq:
  assumes "0x11 \<le> sw" "sw < 0x20" "sw \<noteq> 0x19"
  shows "read_status sw s = Some (if status_flag sw (softswitches s) then 0x80 else 0, s)"
proof -
  have "sw \<in> set [0x11 ..< 0x20]" using assms by (simp only: set_upt atLeastLessThan_iff)
  then consider "sw = 0x11" | "sw = 0x12" | "sw = 0x13" | "sw = 0x14" | "sw = 0x15" | "sw = 0x16" | "sw = 0x17" | "sw = 0x18"
    | "sw = 0x1A" | "sw = 0x1B" | "sw = 0x1C" | "sw = 0x1D" | "sw = 0x1E" | "sw = 0x1F"
    using assms(3) unfolding upt_0x11 by auto
  then show ?thesis
    by cases (simp_all add: read_status_def shown_left_def shown_right_def status_flag_def and_SS test_SS,
        simp_all add: SS_defs)
qed

text \<open>The status switches at \<open>$C011\<close> to \<open>$C01F\<close> tell a program the truth: bit 7 is the
  state of the switch, the other bits are clear, and reading changes nothing (\<open>$C019\<close>, vertical
  blanking, apart).\<close>

theorem status_reads:
  assumes "0x11 \<le> sw" "sw < 0x20" "sw \<noteq> 0x19"
  shows "read_softswitch c (0xC000 + of_nat sw) s = Some (if status_flag sw (softswitches s) then 0x80 else 0, s)"
  using assms read_status_eq [OF assms]
  by (simp add: read_softswitch_def switch_addr Let_def)

theorem status_reads_witness: "read_softswitch True 0xC01A start_vm = Some (0x80, start_vm)"
  using status_reads [where sw = "0x1A" and c = True and s = start_vm] by (simp add: start_vm_switches status_flag_def flag_simps SS_TEXT_def)

text \<open>Which bank and source an access to \<open>$C080 + n\<close> selects, as (RAM read, bank 2, armed, write-enabled).\<close>

definition lc_select :: "nat \<Rightarrow> u32 \<Rightarrow> bool \<times> bool \<times> bool \<times> bool" where
  "lc_select n w =
    (n mod 4 = 0 \<or> n mod 4 = 3, n < 8, odd n, odd n \<and> (flag_on w SS_LCSEC \<or> flag_on w SS_LCWRT))"

definition lc_state :: "u32 \<Rightarrow> bool \<times> bool \<times> bool \<times> bool" where
  "lc_state w = (flag_on w SS_LCRAM, flag_on w SS_BANK2, flag_on w SS_LCSEC, flag_on w SS_LCWRT)"

lemma floating_frame: "floating_bus s = Some (b, s') \<Longrightarrow> softswitches s' = softswitches s"
  by (auto simp: floating_bus_def split: option.splits prod.splits)

lemma lc_handlers:
  "iie_c080 s = Some (b, s') \<Longrightarrow> lc_state (softswitches s') = (True, True, False, False)"
  "iie_c081 s = Some (b, s') \<Longrightarrow> lc_state (softswitches s') = (False, True, True, sb s 6 \<or> sb s 7)"
  "lc_c082 s = Some (b, s') \<Longrightarrow> lc_state (softswitches s') = (False, True, False, False)"
  "iie_c083 s = Some (b, s') \<Longrightarrow> lc_state (softswitches s') = (True, True, True, sb s 6 \<or> sb s 7)"
  "iie_c088 s = Some (b, s') \<Longrightarrow> lc_state (softswitches s') = (True, False, False, False)"
  "iie_c089 s = Some (b, s') \<Longrightarrow> lc_state (softswitches s') = (False, False, True, sb s 6 \<or> sb s 7)"
  "lc_c08a s = Some (b, s') \<Longrightarrow> lc_state (softswitches s') = (False, False, False, False)"
  "iie_c08b s = Some (b, s') \<Longrightarrow> lc_state (softswitches s') = (True, False, True, sb s 6 \<or> sb s 7)"
  by (auto simp: iie_c080_def iie_c081_def lc_c082_def iie_c083_def iie_c088_def iie_c089_def lc_c08a_def iie_c08b_def
      lc_state_def update_defs flag_simps dest!: floating_frame split: if_splits)

definition lc_handler :: "nat \<Rightarrow> handler" where
  "lc_handler n = [iie_c080, iie_c081, lc_c082, iie_c083, iie_c080, iie_c081, lc_c082, iie_c083,
     iie_c088, iie_c089, lc_c08a, iie_c08b, iie_c088, iie_c089, lc_c08a, iie_c08b] ! n"

lemma less_16: "(n :: nat) < 16 \<Longrightarrow> n \<in> {0, 1, 2, 3, 4, 5, 6, 7, 8, 9, 10, 11, 12, 13, 14, 15}"
proof -
  assume "n < 16"
  then have "n \<in> set [0 ..< 16]" by (simp only: set_upt atLeastLessThan_iff le0 simp_thms)
  then show ?thesis by (simp add: upt_rec numeral_eq_Suc del: set_upt)
qed

lemma in_turn_off:
  assumes "\<forall>h \<in> set hs. \<not> fst h"
  shows "map_option snd (x :: (byte \<times> vm) option) \<bind> in_turn hs = map_option snd x"
proof -
  have "in_turn hs s = Some s" for s
    using assms by (induction hs) (auto simp: when_switch_def)
  then show ?thesis by (cases x) simp_all
qed

lemma lc_handler_ok:
  assumes "n < 16" "vm_ok c s"
  shows "\<exists>b s'. lc_handler n s = Some (b, s') \<and> vm_ok c s' \<and> lc_state (softswitches s') = lc_select n (softswitches s)"
proof -
  have k: "keeps_read c (lc_handler n)"
    using less_16 [OF assms(1)] unfolding insert_iff empty_iff lc_handler_def
    by (elim disjE) (simp_all add: keeps_reads)
  have e: "lc_handler n s = Some (b, s') \<Longrightarrow> lc_state (softswitches s') = lc_select n (softswitches s)" for b s'
    using less_16 [OF assms(1)] unfolding insert_iff empty_iff lc_handler_def
    by (elim disjE) (auto simp: lc_select_def flag_simps dest!: lc_handlers)
  show ?thesis using keeps_readD [OF k assms(2)] e by blast
qed

lemma lc_access:
  assumes "n < 16"
  shows "read_softswitch d (0xC080 + of_nat n) s = lc_handler n s"
    and "write_softswitch d (0xC080 + of_nat n) v s = map_option snd (lc_handler n s)"
proof -
  have a: "unat ((0xC080 + of_nat n :: addr) AND 0xFF) = 0x80 + n"
    using switch_addr [of "0x80 + n"] assms by (simp add: add.assoc)
  show "read_softswitch d (0xC080 + of_nat n) s = lc_handler n s"
    using less_16 [OF assms] unfolding insert_iff empty_iff read_softswitch_def Let_def a lc_handler_def
    by (elim disjE) simp_all
  show "write_softswitch d (0xC080 + of_nat n) v s = map_option snd (lc_handler n s)"
    using less_16 [OF assms] unfolding insert_iff empty_iff write_softswitch_def Let_def a lc_handler_def
    by (elim disjE) (simp_all add: when_switch_def in_turn_off)
qed

text \<open>C10: the language card.  An access to \<open>$C080 + n\<close>, a read or a write alike, selects the source of
  reads and the bank by the low bits of the address; odd addresses write-enable the card on the second
  access in a row, even ones write-protect it at once.\<close>

theorem language_card_switches:
  assumes "vm_ok c s" "n < 16"
  shows "(\<exists>b s'. read_softswitch d (0xC080 + of_nat n) s = Some (b, s') \<and> vm_ok c s' \<and>
      lc_state (softswitches s') = lc_select n (softswitches s)) \<and>
    (\<exists>s'. write_softswitch d (0xC080 + of_nat n) v s = Some s' \<and> vm_ok c s' \<and>
      lc_state (softswitches s') = lc_select n (softswitches s))"
  using lc_handler_ok [OF assms(2,1)] by (auto simp: lc_access [OF assms(2)])

theorem language_card_switches_witness:
  "\<exists>b s'. read_softswitch True 0xC08B start_vm = Some (b, s') \<and> vm_ok True s' \<and>
    lc_state (softswitches s') = (True, False, True, False)"
  using conjunct1 [OF language_card_switches [OF start_vm_ok, where n = 11 and d = True and v = 0]]
  by (simp add: start_vm_switches lc_select_def flag_simps)

end
