(* ===== verification/A2_DiskState.thy ===== *)
theory A2_DiskState
  imports A2_DiskGuarantees
begin

text \<open>
  Saving and restoring the drives (\<^verbatim>\<open>disk.c\<close>: \<open>disk6_saveState\<close>,
  \<open>_disk6_loadState\<close>).  Images are not part of a saved state: a load ejects both drives and
  inserts the images again by name.
\<close>

section \<open>Names\<close>

definition name_bytes :: "string \<Rightarrow> byte list" where
  "name_bytes name = map (\<lambda>c. of_nat (of_char c)) name"

text \<open>A C string ends at its first zero byte.\<close>

definition bytes_name :: "byte list \<Rightarrow> string" where
  "bytes_name bs = map (\<lambda>b. char_of (unat b)) (takeWhile (\<lambda>b. b \<noteq> 0) bs)"

lemma char_byte: "unat (of_nat (of_char c) :: byte) = of_char c"
  using nat_of_char_less_256 [of c] by (simp add: unsigned_of_nat take_bit_nat_eq_self del: nat_of_char_less_256)

lemma bytes_name_bytes: "CHR 0x00 \<notin> set name \<Longrightarrow> bytes_name (name_bytes name) = name"
proof -
  assume z: "CHR 0x00 \<notin> set name"
  have "(of_nat (of_char c) :: byte) \<noteq> 0" if "c \<in> set name" for c
  proof
    assume "(of_nat (of_char c) :: byte) = 0"
    then have "of_char c = (0 :: nat)" using char_byte [of c] by simp
    then have "c = char_of (0 :: nat)" by (metis char_of_char)
    then have "c = CHR 0x00" by (simp add: char_of_def)
    with z that show False by simp
  qed
  then have "takeWhile (\<lambda>b. b \<noteq> 0) (name_bytes name) = name_bytes name"
    unfolding takeWhile_eq_all_conv by (auto simp: name_bytes_def)
  then have "bytes_name (name_bytes name) = map (\<lambda>b. char_of (unat b)) (name_bytes name)"
    by (simp only: bytes_name_def)
  also have "\<dots> = map (\<lambda>c. c) name"
    unfolding name_bytes_def map_map comp_def char_byte by simp
  finally show ?thesis by simp
qed

section \<open>Saving\<close>

definition flush_step :: "nat \<Rightarrow> drives \<times> 'f \<Rightarrow> (drives \<times> 'f) outcome" where
  "flush_step i = (\<lambda>(s, f). case disk6_flush i s of None \<Rightarrow> Abort | Some s' \<Rightarrow> Cont (s', f))"

definition save_name :: "'f helper \<Rightarrow> nat \<Rightarrow> drives \<times> 'f \<Rightarrow> (drives \<times> 'f) outcome" where
  "save_name h i = (\<lambda>(s, f). case file_name (disk s i) of
       Some name \<Rightarrow> run_steps
         [check_step (\<lambda>s. length name \<le> 2 ^ 32 - 1) (\<lambda>s. s),
          save_step h (\<lambda>s. ser32 (of_nat (length name))),
          save_step h (\<lambda>s. name_bytes name)] (s, f)
     | None \<Rightarrow> save_step h (\<lambda>s. ser32 0) (s, f))"

definition save_drive :: "'f helper \<Rightarrow> nat \<Rightarrow> (drives \<times> 'f \<Rightarrow> (drives \<times> 'f) outcome) list" where
  "save_drive h i =
    [flush_step i,
     save_step h (\<lambda>s. [of_bool (is_protected (disk s i))]),
     save_name h i,
     save_step h (\<lambda>s. [of_nat (stepper_phases s)]),
     save_step h (\<lambda>s. [0]),
     save_step h (\<lambda>s. [of_nat (phase (disk s i))]),
     save_step h (\<lambda>s. ser16 (of_nat (run_byte (disk s i))))]"

definition disk6_saveState :: "'f helper \<Rightarrow> drives \<times> 'f \<Rightarrow> (drives \<times> 'f) outcome" where
  "disk6_saveState h = run_steps
    ([save_step h (\<lambda>s. [of_nat (motor_off s)]),
      save_step h (\<lambda>s. [of_nat (drive s)]),
      save_step h (\<lambda>s. [of_nat (ddrw s)]),
      save_step h (\<lambda>s. [disk_byte s])] @ save_drive h 0 @ save_drive h 1)"

section \<open>Loading\<close>

text \<open>
  The locals of the loop are the write protection and the length of the name; \<open>env\<close> says what
  opening the image of each drive gives.
\<close>

type_synonym load_locals = "drives \<times> bool \<times> u32"

definition on_drives :: "(drives \<Rightarrow> drives) \<Rightarrow> load_locals \<Rightarrow> load_locals" where
  "on_drives g = (\<lambda>(s, p, n). (g s, p, n))"

definition set_disk :: "nat \<Rightarrow> (diskette \<Rightarrow> diskette) \<Rightarrow> drives \<Rightarrow> drives" where
  "set_disk i g s = s\<lparr>disk := (disk s)(i := g (disk s i))\<rparr>"

definition eject_step :: "(byte list \<Rightarrow> byte list option) \<Rightarrow> nat \<Rightarrow> load_locals \<times> 'f \<Rightarrow> (load_locals \<times> 'f) outcome" where
  "eject_step deflate i = (\<lambda>((s, p, n), f). case disk6_eject deflate i s of None \<Rightarrow> Abort
     | Some s' \<Rightarrow> Cont ((s', p, n), f))"

definition insert_step ::
    "bool \<Rightarrow> (byte list \<Rightarrow> byte list option) \<Rightarrow> (nat \<Rightarrow> open_env) \<Rightarrow> 'f helper \<Rightarrow> nat \<Rightarrow>
     load_locals \<times> 'f \<Rightarrow> (load_locals \<times> 'f) outcome" where
  "insert_step conformant deflate env h i = (\<lambda>((s, p, n), f).
     if n = 0 then Cont ((s, p, n), f)
     else (case hload h (unat n) f of
         None \<Rightarrow> Abort
       | Some (ok, bs, f') \<Rightarrow>
           if \<not> ok then Brk ((s, p, n), f')
           else (case disk6_insert conformant deflate (env i) i (bytes_name bs) p s of
               None \<Rightarrow> Abort
             | Some s' \<Rightarrow> Cont ((s', p, n), f'))))"

definition load_drive ::
    "bool \<Rightarrow> (byte list \<Rightarrow> byte list option) \<Rightarrow> (nat \<Rightarrow> open_env) \<Rightarrow> 'f helper \<Rightarrow> nat \<Rightarrow>
     (load_locals \<times> 'f \<Rightarrow> (load_locals \<times> 'f) outcome) list" where
  "load_drive conformant deflate env h i =
    [load_step h 1 (\<lambda>bs (s, p, n). (s, bs ! 0 \<noteq> 0, n)),
     load_step h 4 (\<lambda>bs (s, p, n). (s, p, des32 bs)),
     eject_step deflate i,
     insert_step conformant deflate env h i,
     load_step h 1 (\<lambda>bs. on_drives (\<lambda>s. s\<lparr>stepper_phases := unat (bs ! 0 AND 0x3)\<rparr>)),
     load_step h 1 (\<lambda>bs c. c),
     load_step h 1 (\<lambda>bs. on_drives (set_disk i (\<lambda>d. d\<lparr>phase := unat (bs ! 0)\<rparr>))),
     load_step h 2 (\<lambda>bs. on_drives (set_disk i (\<lambda>d. d\<lparr>run_byte := unat (des16 bs)\<rparr>)))]"

text \<open>
  \<open>disk6_loadState\<close>, which is \<open>_disk6_loadState\<close> with no JSON to fill: when the drives' part
  is cut short both drives are ejected.
\<close>

definition disk6_loadState ::
    "bool \<Rightarrow> (byte list \<Rightarrow> byte list option) \<Rightarrow> (nat \<Rightarrow> open_env) \<Rightarrow> 'f helper \<Rightarrow> drives \<times> 'f \<Rightarrow>
     (drives \<times> 'f) outcome" where
  "disk6_loadState conformant deflate env h = (\<lambda>(s, f).
    case run_steps
      [load_step h 1 (\<lambda>bs s. s\<lparr>motor_off := unat (bs ! 0)\<rparr>),
       load_step h 1 (\<lambda>bs s. s\<lparr>drive := unat (bs ! 0)\<rparr>),
       load_step h 1 (\<lambda>bs s. s\<lparr>ddrw := unat (bs ! 0)\<rparr>),
       load_step h 1 (\<lambda>bs s. s\<lparr>disk_byte := bs ! 0\<rparr>)] (s, f) of
      Cont (s, f) \<Rightarrow>
        (case run_steps (load_drive conformant deflate env h 0 @ load_drive conformant deflate env h 1)
                 ((s, False, 0), f) of
           Cont ((s, _), f) \<Rightarrow> Cont (s, f)
         | Brk ((s, _), f) \<Rightarrow>
             (case disk6_eject deflate 0 s \<bind> disk6_eject deflate 1 of None \<Rightarrow> Abort | Some s \<Rightarrow> Brk (s, f))
         | Abort \<Rightarrow> Abort)
    | r \<Rightarrow> r)"

section \<open>What a load restores\<close>

definition drive_bytes :: "drives \<Rightarrow> nat \<Rightarrow> byte list" where
  "drive_bytes s i = [of_bool (is_protected (disk s i))] @
     (case file_name (disk s i) of
        Some name \<Rightarrow> ser32 (of_nat (length name)) @ name_bytes name
      | None \<Rightarrow> ser32 0) @
     [of_nat (stepper_phases s), 0, of_nat (phase (disk s i))] @ ser16 (of_nat (run_byte (disk s i)))"

definition disk_bytes :: "drives \<Rightarrow> byte list" where
  "disk_bytes s = [of_nat (motor_off s), of_nat (drive s), of_nat (ddrw s), disk_byte s] @
     drive_bytes s 0 @ drive_bytes s 1"

text \<open>Values that fit the bytes they are saved in.\<close>

definition saveable_drive :: "diskette \<Rightarrow> bool" where
  "saveable_drive d \<longleftrightarrow> phase d < 256 \<and> run_byte d < 65536 \<and>
     (case file_name d of None \<Rightarrow> True
      | Some name \<Rightarrow> name \<noteq> '''' \<and> CHR 0x00 \<notin> set name \<and> length name < 2 ^ 32)"

definition saveable :: "drives \<Rightarrow> bool" where
  "saveable s \<longleftrightarrow> motor_off s < 256 \<and> drive s < 2 \<and> ddrw s < 256 \<and> stepper_phases s < 16 \<and>
     saveable_drive (disk s 0) \<and> saveable_drive (disk s 1)"

text \<open>
  Drive \<open>i\<close> as a load leaves it: ejected, the image inserted again if there was one, the
  position restored, and only magnets 0 and 1 of the stepper.
\<close>

definition restore_drive ::
    "bool \<Rightarrow> (byte list \<Rightarrow> byte list option) \<Rightarrow> (nat \<Rightarrow> open_env) \<Rightarrow> drives \<Rightarrow> nat \<Rightarrow> drives \<Rightarrow> drives option" where
  "restore_drive conformant deflate env saved i s = do {
     s \<leftarrow> disk6_eject deflate i s;
     s \<leftarrow> (case file_name (disk saved i) of None \<Rightarrow> Some s
          | Some name \<Rightarrow> disk6_insert conformant deflate (env i) i name (is_protected (disk saved i)) s);
     Some (set_disk i (\<lambda>d. d\<lparr>phase := phase (disk saved i), run_byte := run_byte (disk saved i)\<rparr>)
             (s\<lparr>stepper_phases := stepper_phases saved mod 4\<rparr>)) }"

definition restore_drives ::
    "bool \<Rightarrow> (byte list \<Rightarrow> byte list option) \<Rightarrow> (nat \<Rightarrow> open_env) \<Rightarrow> drives \<Rightarrow> drives \<Rightarrow> drives option" where
  "restore_drives conformant deflate env saved s = do {
     s \<leftarrow> restore_drive conformant deflate env saved 0
          (s\<lparr>motor_off := motor_off saved, drive := drive saved, ddrw := ddrw saved, disk_byte := disk_byte saved\<rparr>);
     restore_drive conformant deflate env saved 1 s }"

lemma byte_fits: "n < 256 \<Longrightarrow> unat (of_nat n :: byte) = n" "m < 65536 \<Longrightarrow> unat (of_nat m :: addr) = m"
  "k < 2 ^ 32 \<Longrightarrow> unat (of_nat k :: u32) = k"
  by (simp_all add: unsigned_of_nat take_bit_nat_eq_self)

lemma magnets_fit: "n < 16 \<Longrightarrow> unat ((of_nat n :: byte) AND 0x3) = n mod 4"
proof -
  assume n: "n < 16"
  have m: "(3 :: nat) = mask 2" by (simp add: mask_eq_exp_minus_1)
  have "unat ((of_nat n :: byte) AND 0x3) = unat (of_nat n :: byte) AND 0x3" by (simp add: unsigned_and_eq)
  also have "\<dots> = n AND mask 2" using n byte_fits(1) [of n] by (simp add: m)
  also have "\<dots> = n mod 4" by (simp add: take_bit_eq_mask [symmetric] take_bit_nat_def)
  finally show ?thesis .
qed

lemma set_disk_twice: "set_disk i g (set_disk i f s) = set_disk i (\<lambda>d. g (f d)) s"
  by (simp add: set_disk_def)

lemma of_bool_byte: "(of_bool p :: byte) \<noteq> 0 \<longleftrightarrow> p"
  by simp

section \<open>The round trip\<close>

lemma flush_frame:
  assumes "disk6_flush i s = Some s'"
  shows "drive_bytes s' j = drive_bytes s j" "stepper_phases s' = stepper_phases s" "motor_off s' = motor_off s"
    "drive s' = drive s" "ddrw s' = ddrw s" "disk_byte s' = disk_byte s"
    "file_name (disk s' j) = file_name (disk s j)"
proof -
  from assms obtain d where d: "flush_disk (disk s i) = Some d" "s' = s\<lparr>disk := (disk s)(i := d)\<rparr>"
    by (auto simp: disk6_flush_def on_disk_def split: if_splits option.splits)
  have "file_name d = file_name (disk s i) \<and> is_protected d = is_protected (disk s i) \<and>
      phase d = phase (disk s i) \<and> run_byte d = run_byte (disk s i)"
    using d(1) by (auto simp: flush_disk_def save_track_data_def Let_def bind_eq_Some_conv split: if_splits)
  then show "drive_bytes s' j = drive_bytes s j" "stepper_phases s' = stepper_phases s" "motor_off s' = motor_off s"
    "drive s' = drive s" "ddrw s' = ddrw s" "disk_byte s' = disk_byte s"
    "file_name (disk s' j) = file_name (disk s j)"
    using d(2) by (auto simp: drive_bytes_def)
qed

context state_helper
begin

lemma save_name_ok:
  assumes "good f" "saveable_drive (disk s i)"
  shows "\<exists>f'. save_name h i (s, f) = Cont (s, f') \<and> good f' \<and> written f' = written f @
     (case file_name (disk s i) of Some name \<Rightarrow> ser32 (of_nat (length name)) @ name_bytes name | None \<Rightarrow> ser32 0)"
  using assms
  by (auto simp: save_name_def saveable_drive_def check_step_def file_simps split: option.splits)

lemma save_drive_ok:
  assumes "good f" "disk6_flush i s = Some s'" "saveable_drive (disk s' i)"
  shows "\<exists>f'. run_steps (save_drive h i) (s, f) = Cont (s', f') \<and> good f' \<and> written f' = written f @ drive_bytes s' i"
proof -
  let ?f = "after_save h [of_bool (is_protected (disk s' i))] f"
  have g1: "good ?f" using assms(1) by (rule good_save)
  obtain f1 where f1: "save_name h i (s', ?f) = Cont (s', f1)" "good f1"
    "written f1 = written ?f @
      (case file_name (disk s' i) of Some name \<Rightarrow> ser32 (of_nat (length name)) @ name_bytes name | None \<Rightarrow> ser32 0)"
    using save_name_ok [OF g1 assms(3)] by blast
  show ?thesis
    using assms(1,2) f1 by (simp add: save_drive_def flush_step_def file_simps drive_bytes_def)
qed

lemma disk_save:
  assumes "good f" "disk6_flush 0 s = Some s1" "disk6_flush 1 s1 = Some s2"
    and "saveable_drive (disk s1 0)" "saveable_drive (disk s2 1)"
  shows "\<exists>f'. disk6_saveState h (s, f) = Cont (s2, f') \<and> good f' \<and> written f' = written f @ disk_bytes s2"
proof -
  let ?head = "[\<lambda>s. [of_nat (motor_off s)], \<lambda>s. [of_nat (drive s)], \<lambda>s. [of_nat (ddrw s)], \<lambda>s. [disk_byte s]]"
  obtain f1 where f1: "run_steps (map (save_step h) ?head) (s, f) = Cont (s, f1)" "good f1"
    "written f1 = written f @ concat (map (\<lambda>g. g s) ?head)"
    using save_chain [OF assms(1), of ?head s] by (elim exE conjE) (rule that)
  obtain f2 where f2: "run_steps (save_drive h 0) (s, f1) = Cont (s1, f2)" "good f2"
    "written f2 = written f1 @ drive_bytes s1 0"
    using save_drive_ok [OF f1(2) assms(2,4)] by blast
  obtain f3 where f3: "run_steps (save_drive h 1) (s1, f2) = Cont (s2, f3)" "good f3"
    "written f3 = written f2 @ drive_bytes s2 1"
    using save_drive_ok [OF f2(2) assms(3,5)] by blast
  have "disk6_saveState h = run_steps (map (save_step h) ?head @ save_drive h 0 @ save_drive h 1)"
    by (simp add: disk6_saveState_def)
  then have "disk6_saveState h (s, f) = Cont (s2, f3)"
    using f1(1) f2(1) f3(1) by (simp only: run_steps_append outcome.case)
  moreover have "written f3 = written f @ disk_bytes s2"
    using f1(3) f2(3) f3(3) flush_frame [OF assms(2)] flush_frame [OF assms(3)]
    by (simp add: disk_bytes_def)
  ultimately show ?thesis using f3(2) by blast
qed

lemma load_drive_ok:
  assumes "good f" "unread f = drive_bytes saved i @ rest" "i < 2" "stepper_phases saved < 16"
    "saveable_drive (disk saved i)" "restore_drive conformant deflate env saved i s = Some s'"
  shows "\<exists>f' p' n'. run_steps (load_drive conformant deflate env h i) ((s, p, n), f) = Cont ((s', p', n'), f') \<and>
     good f' \<and> unread f' = rest"
proof -
  obtain s1 where s1: "disk6_eject deflate i s = Some s1"
    using assms(6) by (auto simp: restore_drive_def bind_eq_Some_conv)
  have fit: "phase (disk saved i) < 256" "run_byte (disk saved i) < 65536"
    using assms(5) by (simp_all add: saveable_drive_def)
  show ?thesis
  proof (cases "file_name (disk saved i)")
    case None
    then show ?thesis
      using assms s1 fit
      by (simp add: load_drive_def drive_bytes_def file_simps eject_step_def insert_step_def
          restore_drive_def on_drives_def set_disk_twice byte_fits magnets_fit)
  next
    case (Some name)
    have nm: "name \<noteq> ''''" "CHR 0x00 \<notin> set name" "length name < 2 ^ 32"
      using assms(5) Some by (simp_all add: saveable_drive_def)
    have len: "length (name_bytes name) = length name" by (simp add: name_bytes_def)
    have nz: "(of_nat (length name) :: u32) \<noteq> 0" "unat (of_nat (length name) :: u32) = length name"
      using nm byte_fits(3) [OF nm(3)] by auto
    obtain s2 where s2: "disk6_insert conformant deflate (env i) i name (is_protected (disk saved i)) s1 = Some s2"
      using assms(6) s1 Some by (auto simp: restore_drive_def bind_eq_Some_conv)
    show ?thesis
      using assms s1 s2 fit Some nm nz len
      by (simp add: load_drive_def drive_bytes_def file_simps eject_step_def insert_step_def load_ok
          restore_drive_def on_drives_def set_disk_twice byte_fits magnets_fit bytes_name_bytes of_bool_byte)
  qed
qed

lemma disk_load:
  assumes "good f" "unread f = disk_bytes saved @ rest" "saveable saved"
    "restore_drives conformant deflate env saved s = Some s'"
  shows "\<exists>f'. disk6_loadState conformant deflate env h (s, f) = Cont (s', f') \<and> good f' \<and> unread f' = rest"
proof -
  let ?head = "[load_step h 1 (\<lambda>bs s. s\<lparr>motor_off := unat (bs ! 0)\<rparr>),
     load_step h 1 (\<lambda>bs s. s\<lparr>drive := unat (bs ! 0)\<rparr>),
     load_step h 1 (\<lambda>bs s. s\<lparr>ddrw := unat (bs ! 0)\<rparr>),
     load_step h 1 (\<lambda>bs s. s\<lparr>disk_byte := bs ! 0\<rparr>)]"
  let ?s0 = "s\<lparr>motor_off := motor_off saved, drive := drive saved, ddrw := ddrw saved, disk_byte := disk_byte saved\<rparr>"
  note sv = assms(3) [unfolded saveable_def]
  have "\<exists>f1. run_steps ?head (s, f) = Cont (?s0, f1) \<and> good f1 \<and>
      unread f1 = drive_bytes saved 0 @ drive_bytes saved 1 @ rest"
    using assms(1,2) sv by (simp add: disk_bytes_def file_simps byte_fits)
  then obtain f1 where f1: "run_steps ?head (s, f) = Cont (?s0, f1)" "good f1"
    "unread f1 = drive_bytes saved 0 @ drive_bytes saved 1 @ rest" by (elim exE conjE) (rule that)
  obtain s1 where s1: "restore_drive conformant deflate env saved 0 ?s0 = Some s1"
    "restore_drive conformant deflate env saved 1 s1 = Some s'"
    using assms(4) by (auto simp: restore_drives_def bind_eq_Some_conv)
  obtain f2 p2 n2 where f2: "run_steps (load_drive conformant deflate env h 0) ((?s0, False, 0), f1) = Cont ((s1, p2, n2), f2)"
    "good f2" "unread f2 = drive_bytes saved 1 @ rest"
    using load_drive_ok [OF f1(2,3) _ _ _ s1(1), of False 0] sv by auto
  obtain f3 p3 n3 where f3: "run_steps (load_drive conformant deflate env h 1) ((s1, p2, n2), f2) = Cont ((s', p3, n3), f3)"
    "good f3" "unread f3 = rest"
    using load_drive_ok [OF f2(2,3) _ _ _ s1(2), of p2 n2] sv by auto
  have "run_steps (load_drive conformant deflate env h 0 @ load_drive conformant deflate env h 1) ((?s0, False, 0), f1) =
      Cont ((s', p3, n3), f3)"
    using f2(1) f3(1) by (simp only: run_steps_append outcome.case)
  then show ?thesis
    using f1(1) f3(2,3) unfolding disk6_loadState_def prod.case by (simp only: outcome.case prod.case) blast
qed

end

section \<open>Guarantees\<close>

lemma flush_saveable:
  assumes "disk6_flush i s = Some s'"
  shows "saveable s' = saveable s"
proof -
  from assms obtain d where d: "flush_disk (disk s i) = Some d" "s' = s\<lparr>disk := (disk s)(i := d)\<rparr>"
    by (auto simp: disk6_flush_def on_disk_def split: if_splits option.splits)
  have "file_name d = file_name (disk s i) \<and> phase d = phase (disk s i) \<and> run_byte d = run_byte (disk s i)"
    using d(1) by (auto simp: flush_disk_def save_track_data_def Let_def bind_eq_Some_conv split: if_splits)
  then show ?thesis using d(2) by (simp add: saveable_def saveable_drive_def)
qed

text \<open>What opening the image of drive \<open>i\<close> must give for its reinsertion.\<close>

definition image_found :: "open_env \<Rightarrow> string \<Rightarrow> bool" where
  "image_found env name \<longleftrightarrow> (\<exists>fd. env_dup env = Some fd \<and> 0 \<le> fd) \<and> env_inflate_ok env \<and> env_mmap_ok env \<and>
     length (env_image env) = (if is_nib name then NIB_SIZE else DSK_SIZE)"

definition drive_restored :: "open_env \<Rightarrow> diskette \<Rightarrow> diskette \<Rightarrow> bool" where
  "drive_restored env d d' \<longleftrightarrow> file_name d' = file_name d \<and> phase d' = phase d \<and> run_byte d' = run_byte d \<and>
     (if file_name d = None then dfd d' < 0
      else is_protected d' = is_protected d \<and> raw_image_data d' = Some (env_image env) \<and> 0 \<le> dfd d')"

lemma restore_drive_ok:
  assumes "i < 2" "empty_drive (disk s i)"
    and "\<forall>name. file_name (disk saved i) = Some name \<longrightarrow> image_found (env i) name"
  shows "\<exists>d. restore_drive c deflate env saved i s =
      Some (s\<lparr>stepper_phases := stepper_phases saved mod 4, disk := (disk s)(i := d)\<rparr>) \<and>
    drive_restored (env i) (disk saved i) d"
proof -
  obtain d1 where d1: "eject_disk deflate (disk s i) = Some (None, d1)" "dfd d1 = -1" "empty_drive d1" "file_name d1 = None"
    using assms(2) by (auto simp: empty_drive_def eject_disk_def)
  have ej: "disk6_eject deflate i s = Some (s\<lparr>disk := (disk s)(i := d1)\<rparr>)"
    using assms(1) d1(1) by (simp add: disk6_eject_def on_disk_def)
  show ?thesis
  proof (cases "file_name (disk saved i)")
    case None
    let ?d = "d1\<lparr>phase := phase (disk saved i), run_byte := run_byte (disk saved i)\<rparr>"
    show ?thesis using ej d1 None
      by (intro exI [of _ ?d]) (simp add: restore_drive_def set_disk_def drive_restored_def)
  next
    case (Some name)
    have im: "image_found (env i) name" using assms(3) Some by blast
    let ?p = "is_protected (disk saved i)"
    obtain err d2 where d2: "insert_disk c deflate (env i) name ?p d1 = Some (err, d2)"
        "raw_image_data d2 = Some (env_image (env i))" "file_name d2 = Some name" "is_protected d2 = ?p" "0 \<le> dfd d2"
    proof -
      have "length (env_image (env i)) = (if is_nib name then NIB_SIZE else DSK_SIZE)" "env_inflate_ok (env i)"
        "?p \<or> env_mmap_ok (env i)" "\<forall>fd. env_dup (env i) = Some fd \<longrightarrow> 0 \<le> fd" "env_dup (env i) \<noteq> None"
        using im by (auto simp: image_found_def)
      from insert_ok [where c = c and deflate = deflate, OF d1(3) this(1-4)] this(5) show ?thesis using that by (elim exE conjE) auto
    qed
    let ?d = "d2\<lparr>phase := phase (disk saved i), run_byte := run_byte (disk saved i)\<rparr>"
    show ?thesis using assms(1) ej d2 Some
      by (intro exI [of _ ?d]) (simp add: restore_drive_def set_disk_def drive_restored_def disk6_insert_def on_disk_def)
  qed
qed

lemma restore_drives_ok:
  assumes "empty_drive (disk t 0)" "empty_drive (disk t 1)"
    and "\<forall>i name. i < 2 \<longrightarrow> file_name (disk saved i) = Some name \<longrightarrow> image_found (env i) name"
  shows "\<exists>d. restore_drives c deflate env saved t = Some d \<and> motor_off d = motor_off saved \<and> drive d = drive saved \<and>
    ddrw d = ddrw saved \<and> disk_byte d = disk_byte saved \<and> stepper_phases d = stepper_phases saved mod 4 \<and>
    (\<forall>i < 2. drive_restored (env i) (disk saved i) (disk d i))"
proof -
  have nm: "\<forall>name. file_name (disk saved i) = Some name \<longrightarrow> image_found (env i) name" if "i < 2" for i
    using assms(3) that by blast
  let ?t = "t\<lparr>motor_off := motor_off saved, drive := drive saved, ddrw := ddrw saved, disk_byte := disk_byte saved\<rparr>"
  have e0: "empty_drive (disk ?t 0)" using assms(1) by simp
  obtain d0 where d0: "restore_drive c deflate env saved 0 ?t =
      Some (?t\<lparr>stepper_phases := stepper_phases saved mod 4, disk := (disk ?t)(0 := d0)\<rparr>)"
      "drive_restored (env 0) (disk saved 0) d0"
    using restore_drive_ok [where env = env and c = c and deflate = deflate, OF _ e0 nm] by (metis zero_less_numeral)
  let ?u = "?t\<lparr>stepper_phases := stepper_phases saved mod 4, disk := (disk ?t)(0 := d0)\<rparr>"
  have e1: "empty_drive (disk ?u 1)" using assms(2) by simp
  have one: "(1 :: nat) < 2" by simp
  obtain d1 where d1: "restore_drive c deflate env saved 1 ?u =
      Some (?u\<lparr>stepper_phases := stepper_phases saved mod 4, disk := (disk ?u)(1 := d1)\<rparr>)"
      "drive_restored (env 1) (disk saved 1) d1"
    using restore_drive_ok [where env = env and c = c and deflate = deflate, OF one e1 nm [OF one]] by (elim exE conjE) (rule that)
  let ?d = "?u\<lparr>stepper_phases := stepper_phases saved mod 4, disk := (disk ?u)(1 := d1)\<rparr>"
  have "restore_drives c deflate env saved t = Some ?d" unfolding restore_drives_def d0(1) bind.bind_lunit by (rule d1(1))
  moreover have "\<forall>i < 2. drive_restored (env i) (disk saved i) (disk ?d i)"
    using d0(2) d1(2) by (auto simp: less_2_cases_iff)
  ultimately show ?thesis by (intro exI [of _ ?d]) simp
qed

text \<open>C32: a state file of the drives, written and read back, ejects whatever the drives held and
  reinserts the images by name, with their write protection, head position and place in the
  revolution; the controller's latches come back too, but of the four stepper magnets only the first
  two do.\<close>

theorem disk_state_roundtrip:
  assumes "saveable s" and "disk6_flush 0 s = Some s1" "disk6_flush 1 s1 = Some s2"
    and "empty_drive (disk t 0)" "empty_drive (disk t 1)"
    and "\<forall>i name. i < 2 \<longrightarrow> file_name (disk s i) = Some name \<longrightarrow> image_found (env i) name"
  shows "\<exists>f t' f'. disk6_saveState file_helper (s, empty_file) = Cont (s2, f) \<and>
    disk6_loadState c deflate env file_helper (t, rewind f) = Cont (t', f') \<and>
    motor_off t' = motor_off s \<and> drive t' = drive s \<and> ddrw t' = ddrw s \<and> disk_byte t' = disk_byte s \<and>
    stepper_phases t' = stepper_phases s mod 4 \<and>
    (\<forall>i < 2. drive_restored (env i) (disk s2 i) (disk t' i))"
proof -
  have sv: "saveable s2" "saveable s1" using assms(1) flush_saveable [OF assms(2)] flush_saveable [OF assms(3)] by auto
  obtain f where f: "disk6_saveState file_helper (s, empty_file) = Cont (s2, f)" "good_file f"
      "written_part f = disk_bytes s2"
    using state_file.disk_save [OF empty_file_good(1) assms(2,3)] sv empty_file_good(2)
    by (auto simp: saveable_def)
  have nm: "\<forall>i name. i < 2 \<longrightarrow> file_name (disk s2 i) = Some name \<longrightarrow> image_found (env i) name"
    using assms(6) flush_frame(7) [OF assms(2)] flush_frame(7) [OF assms(3)] by simp
  obtain t' where t': "restore_drives c deflate env s2 t = Some t'" "motor_off t' = motor_off s2" "drive t' = drive s2" "ddrw t' = ddrw s2"
    "disk_byte t' = disk_byte s2" "stepper_phases t' = stepper_phases s2 mod 4" "\<forall>i < 2. drive_restored (env i) (disk s2 i) (disk t' i)"
    using restore_drives_ok [where c = c and deflate = deflate, OF assms(4,5) nm] by blast
  obtain f' where "disk6_loadState c deflate env file_helper (t, rewind f) = Cont (t', f')"
    using state_file.disk_load [OF rewound(1) [OF f(2)] _ sv(1) t'(1)] rewound(2) [OF f(2)] f(3) by auto
  then show ?thesis using f(1) t'(2-7) flush_frame [OF assms(2)] flush_frame [OF assms(3)]
    by (intro exI [of _ f] exI [of _ t'] exI [of _ f']) simp
qed

theorem disk_state_roundtrip_witness:
  "\<exists>f t' f'. disk6_saveState file_helper ((blank_drives False)\<lparr>stepper_phases := 12\<rparr>, empty_file) =
      Cont ((blank_drives False)\<lparr>stepper_phases := 12\<rparr>, f) \<and>
    disk6_loadState True (\<lambda>_. None)
      (\<lambda>_. \<lparr>env_dup = Some 4, env_inflate_ok = True, env_mmap_ok = True, env_image = replicate DSK_SIZE 0\<rparr>)
      file_helper ((blank_drives False)\<lparr>disk := \<lambda>_. blank_disk\<lparr>dfd := -1\<rparr>\<rparr>, rewind f) = Cont (t', f') \<and>
    stepper_phases t' = 12 mod 4 \<and> file_name (disk t' 1) = Some ''blank.dsk''"
proof -
  let ?s = "(blank_drives False)\<lparr>stepper_phases := 12\<rparr>"
  let ?env = "\<lambda>_ :: nat. \<lparr>env_dup = Some 4, env_inflate_ok = True, env_mmap_ok = True, env_image = replicate DSK_SIZE 0\<rparr>"
  let ?t = "(blank_drives False)\<lparr>disk := \<lambda>_. blank_disk\<lparr>dfd := -1\<rparr>\<rparr>"
  have "saveable ?s" by (simp add: saveable_def saveable_drive_def blank_drives_def blank_disk_def)
  moreover have "disk6_flush 0 ?s = Some ?s" "disk6_flush 1 ?s = Some ?s"
    by (auto simp: disk6_flush_def on_disk_def flush_disk_def blank_drives_def blank_disk_def intro!: ext)
  moreover have "empty_drive (disk ?t 0)" "empty_drive (disk ?t 1)"
    by (simp_all add: empty_drive_def blank_drives_def blank_disk_def)
  moreover have "\<forall>i name. i < 2 \<longrightarrow> file_name (disk ?s i) = Some name \<longrightarrow> image_found (?env i) name"
    by (auto simp: image_found_def blank_drives_def blank_disk_def is_nib_def has_ext_def is_gz_def Let_def)
  ultimately have "\<exists>f t' f'. disk6_saveState file_helper (?s, empty_file) = Cont (?s, f) \<and>
    disk6_loadState True (\<lambda>_. None) ?env file_helper (?t, rewind f) = Cont (t', f') \<and>
    motor_off t' = motor_off ?s \<and> drive t' = drive ?s \<and> ddrw t' = ddrw ?s \<and> disk_byte t' = disk_byte ?s \<and>
    stepper_phases t' = stepper_phases ?s mod 4 \<and>
    (\<forall>i < 2. drive_restored (?env i) (disk ?s i) (disk t' i))"
    by (rule disk_state_roundtrip)
  then show ?thesis by (elim exE conjE) (auto simp: drive_restored_def blank_drives_def blank_disk_def)
qed

end
