(* ===== verification/A2_VMState.thy ===== *)
theory A2_VMState
  imports A2_VMGuarantees A2_DiskState
begin

text \<open>
  Saving and restoring the virtual machine (\<^verbatim>\<open>vm.c\<close>: \<open>vm_saveState\<close>, \<open>vm_loadState\<close>).  The
  base pointers are written as codes; a pointer that has no code, and a code that is no pointer, fail an
  assertion.
\<close>

section \<open>Codes of the base pointers\<close>

definition bank_code :: "pointer \<Rightarrow> byte" where
  "bank_code p = (if p = bank64k 0 then 0x0 else 0x1)"

definition slot_code :: "pointer \<Rightarrow> byte" where
  "slot_code p = (if p = Peripheral_card then 0x0 else 0x1)"

text \<open>\<open>base_d000_rd\<close>, \<open>base_d000_wrt\<close> and \<open>base_e000_rd\<close>, \<open>base_e000_wrt\<close>: code 0 is the ROM for
  reads and the null pointer for writes; \<open>language_banks[1]\<close> starts at \<open>0x2000\<close>.\<close>

definition d000_code :: "pointer \<Rightarrow> pointer \<Rightarrow> byte option" where
  "d000_code zero p =
    (if p = zero then Some 0x0
     else if p = Obj Language_banks (- 0xD000) then Some 0x2
     else if p = Obj Language_banks (- 0xC000) then Some 0x3
     else if p = Obj Language_banks (0x2000 - 0xD000) then Some 0x4
     else if p = Obj Language_banks (0x2000 - 0xC000) then Some 0x5
     else None)"

definition e000_code :: "pointer \<Rightarrow> pointer \<Rightarrow> byte option" where
  "e000_code zero p =
    (if p = zero then Some 0x0
     else if p = Obj Language_card (- 0xE000) then Some 0x2
     else if p = Obj Language_card (- 0xC000) then Some 0x3
     else None)"

definition bank_of_code :: "byte \<Rightarrow> pointer" where
  "bank_of_code b = (if b = 0x0 then bank64k 0 else bank64k 1)"

definition slot_of_code :: "byte \<Rightarrow> pointer" where
  "slot_of_code b = (if b = 0x0 then Peripheral_card else bank64k 1)"

definition d000_of_code :: "pointer \<Rightarrow> byte \<Rightarrow> pointer option" where
  "d000_of_code zero b =
    (if b = 0 then Some zero
     else if b = 2 then Some (Obj Language_banks (- 0xD000))
     else if b = 3 then Some (Obj Language_banks (- 0xC000))
     else if b = 4 then Some (Obj Language_banks (0x2000 - 0xD000))
     else if b = 5 then Some (Obj Language_banks (0x2000 - 0xC000))
     else None)"

definition e000_of_code :: "pointer \<Rightarrow> byte \<Rightarrow> pointer option" where
  "e000_of_code zero b =
    (if b = 0 then Some zero
     else if b = 2 then Some (Obj Language_card (- 0xE000))
     else if b = 3 then Some (Obj Language_card (- 0xC000))
     else None)"

section \<open>The routines\<close>

definition code_step :: "'f helper \<Rightarrow> (vm \<Rightarrow> byte option) \<Rightarrow> vm \<times> 'f \<Rightarrow> (vm \<times> 'f) outcome" where
  "code_step h code = (\<lambda>(s, f). case code s of None \<Rightarrow> Abort | Some b \<Rightarrow> save_step h (\<lambda>_. [b]) (s, f))"

definition RAM_SIZE :: nat where "RAM_SIZE = 131072"
definition CARD_SIZE :: nat where "CARD_SIZE = 16384"
definition BANKS_SIZE :: nat where "BANKS_SIZE = 16384"

definition vm_saveState :: "'f helper \<Rightarrow> vm \<times> 'f \<Rightarrow> (vm \<times> 'f) outcome" where
  "vm_saveState h = run_steps
    (map (save_step h)
      [\<lambda>s. ser32 (softswitches s),
       \<lambda>s. slice (apple_ii_64k s) 0 RAM_SIZE,
       \<lambda>s. slice (language_card s) 0 CARD_SIZE,
       \<lambda>s. slice (language_banks s) 0 BANKS_SIZE,
       \<lambda>s. [bank_code (base_ramrd s)],
       \<lambda>s. [bank_code (base_ramwrt s)],
       \<lambda>s. [bank_code (base_textrd s)],
       \<lambda>s. [bank_code (base_textwrt s)],
       \<lambda>s. [bank_code (base_hgrrd s)],
       \<lambda>s. [bank_code (base_hgrwrt s)],
       \<lambda>s. [bank_code (base_stackzp s)],
       \<lambda>s. [slot_code (base_c3rom s)],
       \<lambda>s. [slot_code (base_cxrom s)]] @
     map (code_step h)
      [\<lambda>s. d000_code (bank64k 0) (base_d000_rd s),
       \<lambda>s. d000_code (Raw 0) (base_d000_wrt s),
       \<lambda>s. e000_code (bank64k 0) (base_e000_rd s),
       \<lambda>s. e000_code (Raw 0) (base_e000_wrt s)])"

definition decode_step :: "'f helper \<Rightarrow> (byte \<Rightarrow> pointer option) \<Rightarrow> (pointer \<Rightarrow> vm \<Rightarrow> vm) \<Rightarrow> vm \<times> 'f \<Rightarrow> (vm \<times> 'f) outcome" where
  "decode_step h decode upd = (\<lambda>(s, f). case hload h 1 f of
       None \<Rightarrow> Abort
     | Some (ok, bs, f') \<Rightarrow>
         if \<not> ok then Brk (s, f')
         else (case decode (bs ! 0) of None \<Rightarrow> Abort | Some p \<Rightarrow> Cont (upd p s, f')))"

definition vm_load_memory :: "'f helper \<Rightarrow> (vm \<times> 'f \<Rightarrow> (vm \<times> 'f) outcome) list" where
  "vm_load_memory h =
    [load_step h 4 (\<lambda>bs s. s\<lparr>softswitches := des32 bs\<rparr>),
     load_into h RAM_SIZE (\<lambda>bs s. s\<lparr>apple_ii_64k := store (apple_ii_64k s) 0 bs\<rparr>),
     load_into h CARD_SIZE (\<lambda>bs s. s\<lparr>language_card := store (language_card s) 0 bs\<rparr>),
     load_into h BANKS_SIZE (\<lambda>bs s. s\<lparr>language_banks := store (language_banks s) 0 bs\<rparr>)]"

definition vm_load_banks :: "'f helper \<Rightarrow> (vm \<times> 'f \<Rightarrow> (vm \<times> 'f) outcome) list" where
  "vm_load_banks h =
    [load_step h 1 (\<lambda>bs s. s\<lparr>base_ramrd := bank_of_code (bs ! 0)\<rparr>),
     load_step h 1 (\<lambda>bs s. s\<lparr>base_ramwrt := bank_of_code (bs ! 0)\<rparr>),
     load_step h 1 (\<lambda>bs s. s\<lparr>base_textrd := bank_of_code (bs ! 0)\<rparr>),
     load_step h 1 (\<lambda>bs s. s\<lparr>base_textwrt := bank_of_code (bs ! 0)\<rparr>),
     load_step h 1 (\<lambda>bs s. s\<lparr>base_hgrrd := bank_of_code (bs ! 0)\<rparr>),
     load_step h 1 (\<lambda>bs s. s\<lparr>base_hgrwrt := bank_of_code (bs ! 0)\<rparr>),
     load_step h 1 (\<lambda>bs s. s\<lparr>base_stackzp := bank_of_code (bs ! 0)\<rparr>),
     load_step h 1 (\<lambda>bs s. s\<lparr>base_c3rom := slot_of_code (bs ! 0)\<rparr>),
     load_step h 1 (\<lambda>bs s. s\<lparr>base_cxrom := slot_of_code (bs ! 0), base_c4rom := slot_of_code (bs ! 0),
       base_c5rom := slot_of_code (bs ! 0)\<rparr>)]"

definition vm_load_card :: "'f helper \<Rightarrow> (vm \<times> 'f \<Rightarrow> (vm \<times> 'f) outcome) list" where
  "vm_load_card h =
    [decode_step h (d000_of_code (bank64k 0)) (\<lambda>p s. s\<lparr>base_d000_rd := p\<rparr>),
     decode_step h (d000_of_code (Raw 0)) (\<lambda>p s. s\<lparr>base_d000_wrt := p\<rparr>),
     decode_step h (e000_of_code (bank64k 0)) (\<lambda>p s. s\<lparr>base_e000_rd := p\<rparr>),
     decode_step h (e000_of_code (Raw 0)) (\<lambda>p s. s\<lparr>base_e000_wrt := p\<rparr>)]"

definition vm_loadState :: "'f helper \<Rightarrow> vm \<times> 'f \<Rightarrow> (vm \<times> 'f) outcome" where
  "vm_loadState h = run_steps (vm_load_memory h @ vm_load_banks h @ vm_load_card h)"

section \<open>The round trip\<close>

lemma code_decode:
  "d000_code z p = Some b \<Longrightarrow> d000_of_code z b = Some p"
  "e000_code z p = Some b \<Longrightarrow> e000_of_code z b = Some p"
  by (auto simp: d000_code_def d000_of_code_def e000_code_def e000_of_code_def split: if_splits)

lemma bank_code_decode: "bank_of_code (bank_code (bank64k (if q then 1 else 0))) = bank64k (if q then 1 else 0)"
  by (simp add: bank_of_code_def bank_code_def bank64k_def)

lemma slot_code_decode: "slot_of_code (slot_code (if q then bank64k 1 else Peripheral_card)) = (if q then bank64k 1 else Peripheral_card)"
  by (simp add: slot_of_code_def slot_code_def bank64k_def)

text \<open>Every pointer of a well-formed machine has a code.\<close>

lemma lc_codes:
  "d000_code (bank64k 0) (lc_d000 w) \<noteq> None" "d000_code (Raw 0) (lc_d000 w) \<noteq> None"
  "e000_code (bank64k 0) (lc_e000 w) \<noteq> None" "e000_code (Raw 0) (lc_e000 w) \<noteq> None"
  "d000_code z z \<noteq> None" "e000_code z z \<noteq> None"
  "d000_code (Raw 0) (Obj Language_banks (- 0xD000)) \<noteq> None" "e000_code (Raw 0) (Obj Language_card (- 0xE000)) \<noteq> None"
  by (simp_all add: d000_code_def e000_code_def lc_d000_def lc_e000_def bank64k_def)

lemma mmu_codes:
  assumes "mmu_ok s"
  obtains b1 b2 b3 b4 where "d000_code (bank64k 0) (base_d000_rd s) = Some b1" "d000_code (Raw 0) (base_d000_wrt s) = Some b2"
    "e000_code (bank64k 0) (base_e000_rd s) = Some b3" "e000_code (Raw 0) (base_e000_wrt s) = Some b4"
proof -
  note lc = assms [unfolded mmu_ok_def lc_ok_def]
  have "d000_code (bank64k 0) (base_d000_rd s) \<noteq> None" "e000_code (bank64k 0) (base_e000_rd s) \<noteq> None"
    using lc lc_codes(1,3,5,6) by simp_all
  moreover have "d000_code (Raw 0) (base_d000_wrt s) \<noteq> None" "e000_code (Raw 0) (base_e000_wrt s) \<noteq> None"
    using lc lc_codes(2,4,5,6,7,8) by (auto split: if_splits)
  ultimately show ?thesis using that by blast
qed

definition vm_bytes :: "vm \<Rightarrow> byte list" where
  "vm_bytes s = ser32 (softswitches s) @ slice (apple_ii_64k s) 0 RAM_SIZE @ slice (language_card s) 0 CARD_SIZE @
     slice (language_banks s) 0 BANKS_SIZE @
     [bank_code (base_ramrd s), bank_code (base_ramwrt s), bank_code (base_textrd s), bank_code (base_textwrt s),
      bank_code (base_hgrrd s), bank_code (base_hgrwrt s), bank_code (base_stackzp s),
      slot_code (base_c3rom s), slot_code (base_cxrom s),
      the (d000_code (bank64k 0) (base_d000_rd s)), the (d000_code (Raw 0) (base_d000_wrt s)),
      the (e000_code (bank64k 0) (base_e000_rd s)), the (e000_code (Raw 0) (base_e000_wrt s))]"

text \<open>What a load restores.\<close>

definition vm_restored :: "vm \<Rightarrow> vm \<Rightarrow> vm" where
  "vm_restored s t = t\<lparr>softswitches := softswitches s,
     apple_ii_64k := store (apple_ii_64k t) 0 (slice (apple_ii_64k s) 0 RAM_SIZE),
     language_card := store (language_card t) 0 (slice (language_card s) 0 CARD_SIZE),
     language_banks := store (language_banks t) 0 (slice (language_banks s) 0 BANKS_SIZE),
     base_ramrd := base_ramrd s, base_ramwrt := base_ramwrt s, base_textrd := base_textrd s,
     base_textwrt := base_textwrt s, base_hgrrd := base_hgrrd s, base_hgrwrt := base_hgrwrt s,
     base_stackzp := base_stackzp s, base_c3rom := base_c3rom s, base_cxrom := base_cxrom s,
     base_c4rom := base_c4rom s, base_c5rom := base_c5rom s,
     base_d000_rd := base_d000_rd s, base_d000_wrt := base_d000_wrt s,
     base_e000_rd := base_e000_rd s, base_e000_wrt := base_e000_wrt s\<rparr>"

lemma decode_banks:
  assumes "mmu_ok s"
  shows "bank_of_code (bank_code (base_ramrd s)) = base_ramrd s" "bank_of_code (bank_code (base_ramwrt s)) = base_ramwrt s"
    "bank_of_code (bank_code (base_textrd s)) = base_textrd s" "bank_of_code (bank_code (base_textwrt s)) = base_textwrt s"
    "bank_of_code (bank_code (base_hgrrd s)) = base_hgrrd s" "bank_of_code (bank_code (base_hgrwrt s)) = base_hgrwrt s"
    "bank_of_code (bank_code (base_stackzp s)) = base_stackzp s"
    "slot_of_code (slot_code (base_c3rom s)) = base_c3rom s" "slot_of_code (slot_code (base_cxrom s)) = base_cxrom s"
    "base_c4rom s = base_cxrom s" "base_c5rom s = base_cxrom s"
  using assms unfolding mmu_ok_def banks_ok_def slots_ok_def
  by (simp_all add: bank_code_decode slot_code_decode)

lemma sizes_pos: "0 < RAM_SIZE" "0 < CARD_SIZE" "0 < BANKS_SIZE"
  by (simp_all add: RAM_SIZE_def CARD_SIZE_def BANKS_SIZE_def)

context state_helper
begin

lemma decode_step_eq:
  assumes "good f" "unread f = b # rest" "decode b = Some p"
  shows "decode_step h decode upd (s, f) = Cont (upd p s, after_load h 1 f)"
  using load_ok [OF assms(1), of 1] assms by (simp add: decode_step_def)

lemma code_step_eq:
  "good f \<Longrightarrow> code s = Some b \<Longrightarrow> code_step h code (s, f) = Cont (s, after_save h [b] f)"
  by (simp add: code_step_def save_step_eq)

lemma vm_save:
  assumes "good f" "mmu_ok s"
  shows "\<exists>f'. vm_saveState h (s, f) = Cont (s, f') \<and> good f' \<and> written f' = written f @ vm_bytes s"
proof -
  obtain b1 b2 b3 b4 where "d000_code (bank64k 0) (base_d000_rd s) = Some b1" "d000_code (Raw 0) (base_d000_wrt s) = Some b2"
    "e000_code (bank64k 0) (base_e000_rd s) = Some b3" "e000_code (Raw 0) (base_e000_wrt s) = Some b4"
    by (rule mmu_codes [OF assms(2)])
  then show ?thesis using assms(1)
    by (simp add: vm_saveState_def vm_bytes_def file_simps code_step_eq)
qed

lemma load_memory:
  assumes "good f" "unread f = ser32 w @ m @ lc @ bk @ rest"
    and "length m = RAM_SIZE" "length lc = CARD_SIZE" "length bk = BANKS_SIZE"
  shows "\<exists>f'. run_steps (vm_load_memory h) (t, f) = Cont (t\<lparr>softswitches := w, apple_ii_64k := store (apple_ii_64k t) 0 m,
      language_card := store (language_card t) 0 lc, language_banks := store (language_banks t) 0 bk\<rparr>, f') \<and>
    good f' \<and> unread f' = rest"
proof -
  let ?f1 = "after_load h 4 f"
  have f1: "good ?f1" "unread ?f1 = m @ lc @ bk @ rest" using assms by (simp_all add: file_simps)
  let ?f2 = "after_load h RAM_SIZE ?f1"
  have f2: "good ?f2" "unread ?f2 = lc @ bk @ rest" using f1 assms(3) sizes_pos by (simp_all add: file_simps)
  let ?f3 = "after_load h CARD_SIZE ?f2"
  have f3: "good ?f3" "unread ?f3 = bk @ rest" using f2 assms(4) sizes_pos by (simp_all add: file_simps)
  let ?f4 = "after_load h BANKS_SIZE ?f3"
  have f4: "good ?f4" "unread ?f4 = rest" using f3 assms(5) sizes_pos by (simp_all add: file_simps)
  show ?thesis
    unfolding vm_load_memory_def
    using assms(2-5) f1(2) f2(2) f3(2) f4
    by (intro exI [of _ ?f4]) (simp add: load_step_eq [OF assms(1)] load_into_eq [OF f1(1) sizes_pos(1)]
      load_into_eq [OF f2(1) sizes_pos(2)] load_into_eq [OF f3(1) sizes_pos(3)])
qed

lemma load_banks:
  assumes "good f" "unread f = [b1, b2, b3, b4, b5, b6, b7, b8, b9] @ rest"
  shows "\<exists>f'. run_steps (vm_load_banks h) (t, f) = Cont (t\<lparr>base_ramrd := bank_of_code b1, base_ramwrt := bank_of_code b2,
      base_textrd := bank_of_code b3, base_textwrt := bank_of_code b4, base_hgrrd := bank_of_code b5,
      base_hgrwrt := bank_of_code b6, base_stackzp := bank_of_code b7, base_c3rom := slot_of_code b8,
      base_cxrom := slot_of_code b9, base_c4rom := slot_of_code b9, base_c5rom := slot_of_code b9\<rparr>, f') \<and>
    good f' \<and> unread f' = rest"
  using assms by (simp add: vm_load_banks_def file_simps)

lemma load_card:
  assumes "good f" "unread f = [b1, b2, b3, b4] @ rest"
    and "d000_of_code (bank64k 0) b1 = Some p1" "d000_of_code (Raw 0) b2 = Some p2"
    "e000_of_code (bank64k 0) b3 = Some p3" "e000_of_code (Raw 0) b4 = Some p4"
  shows "\<exists>f'. run_steps (vm_load_card h) (t, f) =
      Cont (t\<lparr>base_d000_rd := p1, base_d000_wrt := p2, base_e000_rd := p3, base_e000_wrt := p4\<rparr>, f') \<and>
    good f' \<and> unread f' = rest"
  using assms by (simp add: vm_load_card_def file_simps decode_step_eq)

lemma vm_load:
  assumes "good f" "unread f = vm_bytes s @ rest" "mmu_ok s"
  shows "\<exists>f'. vm_loadState h (t, f) = Cont (vm_restored s t, f') \<and> good f' \<and> unread f' = rest"
proof -
  obtain b1 b2 b3 b4 where b: "d000_code (bank64k 0) (base_d000_rd s) = Some b1" "d000_code (Raw 0) (base_d000_wrt s) = Some b2"
    "e000_code (bank64k 0) (base_e000_rd s) = Some b3" "e000_code (Raw 0) (base_e000_wrt s) = Some b4"
    by (rule mmu_codes [OF assms(3)])
  note d = b(1,2) [THEN code_decode(1)] b(3,4) [THEN code_decode(2)]
  let ?t1 = "t\<lparr>softswitches := softswitches s,
     apple_ii_64k := store (apple_ii_64k t) 0 (slice (apple_ii_64k s) 0 RAM_SIZE),
     language_card := store (language_card t) 0 (slice (language_card s) 0 CARD_SIZE),
     language_banks := store (language_banks t) 0 (slice (language_banks s) 0 BANKS_SIZE)\<rparr>"
  let ?rest2 = "[b1, b2, b3, b4] @ rest"
  let ?rest1 = "[bank_code (base_ramrd s), bank_code (base_ramwrt s), bank_code (base_textrd s), bank_code (base_textwrt s),
      bank_code (base_hgrrd s), bank_code (base_hgrwrt s), bank_code (base_stackzp s),
      slot_code (base_c3rom s), slot_code (base_cxrom s)] @ ?rest2"
  have u: "unread f = ser32 (softswitches s) @ slice (apple_ii_64k s) 0 RAM_SIZE @ slice (language_card s) 0 CARD_SIZE @
     slice (language_banks s) 0 BANKS_SIZE @ ?rest1"
    using assms(2) b by (simp add: vm_bytes_def)
  obtain f1 where f1: "run_steps (vm_load_memory h) (t, f) = Cont (?t1, f1)" "good f1" "unread f1 = ?rest1"
    using load_memory [OF assms(1) u length_slice length_slice length_slice] by blast
  obtain t2 f2 where f2: "run_steps (vm_load_banks h) (?t1, f1) = Cont (t2, f2)" "good f2" "unread f2 = ?rest2"
    and t2: "t2 = ?t1\<lparr>base_ramrd := base_ramrd s, base_ramwrt := base_ramwrt s, base_textrd := base_textrd s,
     base_textwrt := base_textwrt s, base_hgrrd := base_hgrrd s, base_hgrwrt := base_hgrwrt s,
     base_stackzp := base_stackzp s, base_c3rom := base_c3rom s, base_cxrom := base_cxrom s,
     base_c4rom := base_cxrom s, base_c5rom := base_cxrom s\<rparr>"
    using load_banks [OF f1(2,3), of ?t1] unfolding decode_banks(1-9) [OF assms(3)] by blast
  obtain f3 where f3: "run_steps (vm_load_card h) (t2, f2) =
      Cont (t2\<lparr>base_d000_rd := base_d000_rd s, base_d000_wrt := base_d000_wrt s, base_e000_rd := base_e000_rd s,
        base_e000_wrt := base_e000_wrt s\<rparr>, f3)" "good f3" "unread f3 = rest"
    using load_card [OF f2(2,3) d, of t2] by blast
  have "t2\<lparr>base_d000_rd := base_d000_rd s, base_d000_wrt := base_d000_wrt s, base_e000_rd := base_e000_rd s,
        base_e000_wrt := base_e000_wrt s\<rparr> = vm_restored s t"
    unfolding t2 by (simp add: vm_restored_def decode_banks(10,11) [OF assms(3)])
  then show ?thesis using f1(1) f2(1) f3 by (simp add: vm_loadState_def run_steps_append)
qed

end

section \<open>Guarantees\<close>

lemma restored_mmu:
  assumes "mmu_ok s"
  shows "mmu_ok (vm_restored s t)"
  using assms by (simp add: mmu_ok_def pseudo_ok_def banks_ok_def lc_ok_def slots_ok_def vm_restored_def)

lemma restored_mem:
  assumes "snd l < (case fst l of Apple_ii_64k \<Rightarrow> RAM_SIZE | Language_card \<Rightarrow> CARD_SIZE | Language_banks \<Rightarrow> BANKS_SIZE)"
  shows "mem (vm_restored s t) l = mem s l"
  using assms by (cases l) (auto simp: mem_def region_of_def vm_restored_def store_slice split: region.splits)

lemma loc_in_range:
  assumes "ptr_index p ea = Some l"
  shows "snd l < (case fst l of Apple_ii_64k \<Rightarrow> RAM_SIZE | Language_card \<Rightarrow> CARD_SIZE | Language_banks \<Rightarrow> BANKS_SIZE)"
  using assms
  by (auto simp: ptr_index_def region_size_def RAM_SIZE_def CARD_SIZE_def BANKS_SIZE_def Let_def split: pointer.splits if_splits region.splits)

text \<open>A saved machine loaded into any other machine is the same machine to a program: its switches
  are the same, its base pointers in step with them, and every address of memory reads the same byte.\<close>

theorem vm_state_roundtrip:
  assumes "mmu_ok s"
  shows "\<exists>f t' f'. vm_saveState file_helper (s, empty_file) = Cont (s, f) \<and>
    vm_loadState file_helper (t, rewind f) = Cont (t', f') \<and>
    mmu_ok t' \<and> softswitches t' = softswitches s \<and>
    (\<forall>ea. memory_addr ea \<longrightarrow> (\<exists>b. vm_read c mb ea s = Some (b, s) \<and> vm_read c mb ea t' = Some (b, t')))"
proof -
  obtain f where f: "vm_saveState file_helper (s, empty_file) = Cont (s, f)" "good_file f" "written_part f = vm_bytes s"
    using state_file.vm_save [OF empty_file_good(1) assms] empty_file_good(2) by auto
  have u: "unread_part (rewind f) = vm_bytes s @ drop (fpos f) (contents f)" using rewound(2) [OF f(2)] f(3) by simp
  obtain f' where f': "vm_loadState file_helper (t, rewind f) = Cont (vm_restored s t, f')"
    using state_file.vm_load [OF rewound(1) [OF f(2)] u assms] by blast
  let ?t = "vm_restored s t"
  have t: "mmu_ok ?t" "softswitches ?t = softswitches s" using restored_mmu [OF assms] by (simp_all add: vm_restored_def)
  have "vm_read c mb ea ?t = Some (map_read (softswitches s) (mem s) (unat ea), ?t)" if "memory_addr ea" for ea
  proof -
    have "mem ?t (read_loc (softswitches s) (unat ea)) = mem s (read_loc (softswitches s) (unat ea))"
      by (rule restored_mem [OF loc_in_range [OF read_ptr_loc [OF assms that]]])
    then show ?thesis using vm_read_memory [OF t(1) that, of c mb]
      by (simp add: t(2) map_read_def mem_def split: prod.splits)
  qed
  moreover have "vm_read c mb ea s = Some (map_read (softswitches s) (mem s) (unat ea), s)" if "memory_addr ea" for ea
    using vm_read_memory [OF assms that, of c mb] by (simp add: map_read_def mem_def split: prod.splits)
  ultimately show ?thesis using f(1) f' t
    by (intro exI [of _ f] exI [of _ ?t] exI [of _ f']) blast
qed

theorem vm_state_roundtrip_witness:
  "\<exists>f t' f'. vm_saveState file_helper (start_vm, empty_file) = Cont (start_vm, f) \<and>
    vm_loadState file_helper (blank_vm, rewind f) = Cont (t', f') \<and> softswitches t' = SS_TEXT OR SS_BANK2"
  using vm_state_roundtrip [of start_vm blank_vm True "\<lambda>_ _. 0"] start_vm_ok
  by (auto simp: vm_ok_def start_vm_switches)



end
