(* ===== verification/A2_AY8910.thy ===== *)
theory A2_AY8910
  imports A2_Prelude "HOL-Library.Monad_Syntax"
begin

text \<open>
  The sound chip of the Mockingboard (\<^verbatim>\<open>audio/AY8910.c\<close>): writes to its registers are
  queued with their time and take effect when a batch of samples is generated; each sample advances the
  envelope, the three tones and the noise generator.

  The loops of the generator are partial functions: that they end is a theorem, with the one
  precondition the code relies on.  An access outside an array is \<open>None\<close>.
\<close>

section \<open>State\<close>

record change =
  ch_tstates :: "64 word"
  ch_ofs :: "16 word"
  ch_reg :: byte
  ch_val :: byte

record ay8910 =
  ay_tone_tick :: "nat \<Rightarrow> u32"
  ay_tone_high :: "nat \<Rightarrow> u32"
  ay_noise_tick :: u32
  ay_tone_subcycles :: u32
  ay_env_subcycles :: u32
  ay_env_internal_tick :: u32
  ay_env_tick :: u32
  ay_tick_incr :: u32
  ay_tone_period :: "nat \<Rightarrow> u32"
  ay_noise_period :: u32
  ay_env_period :: u32
  sound_ay_registers :: "nat \<Rightarrow> byte"
  ay_change :: "nat \<Rightarrow> change"
  ay_change_count :: nat
  rng :: u32
  noise_toggle :: u32
  env_first :: u32
  env_rev :: u32
  env_counter :: int

definition AY_CHANGE_MAX :: nat where "AY_CHANGE_MAX = 8000"
definition AMPL_AY_TONE :: int where "AMPL_AY_TONE = 42 * 256"

definition ay_tone_levels :: "int list" where
  "ay_tone_levels = map (\<lambda>l. trunc_div (l * AMPL_AY_TONE + 0x8000) 0xffff)
     [0x0000, 0x0385, 0x053D, 0x0770, 0x0AD7, 0x0FD5, 0x15B0, 0x230C,
      0x2B4C, 0x43C1, 0x5A4B, 0x732F, 0x9204, 0xAFF1, 0xD921, 0xFFFF]"

text \<open>\<^verbatim>\<open>!x\<close> and a test of an unsigned flag.\<close>

definition not_flag :: "u32 \<Rightarrow> u32" where
  "not_flag x = (if x = 0 then 1 else 0)"

section \<open>Reset and register writes\<close>

definition CAY8910_init :: "ay8910 \<Rightarrow> ay8910" where
  "CAY8910_init a = a\<lparr>rng := 1, noise_toggle := 0, env_first := 1, env_rev := 0, env_counter := 15\<rparr>"

text \<open>The statement after the loop stores \<open>1\<close> to \<open>ay_tone_period[3]\<close>, which is outside the array: it
  lands in the member that follows, the noise period.\<close>

definition sound_ay_init :: "ay8910 \<Rightarrow> ay8910" where
  "sound_ay_init a =
    (let a = a\<lparr>ay_noise_tick := 0, ay_noise_period := 0, ay_env_internal_tick := 0, ay_env_tick := 0, ay_env_period := 0,
           ay_tone_subcycles := 0, ay_env_subcycles := 0\<rparr>;
         a = fold (\<lambda>f a. a\<lparr>ay_tone_tick := (ay_tone_tick a)(f := 0), ay_tone_high := (ay_tone_high a)(f := 0)\<rparr>) [0..<3] a;
         a = a\<lparr>ay_noise_period := 1\<rparr>
     in a\<lparr>ay_change_count := 0\<rparr>)"

text \<open>A full queue drops the write.\<close>

definition sound_ay_write :: "nat \<Rightarrow> byte \<Rightarrow> 64 word \<Rightarrow> ay8910 \<Rightarrow> ay8910" where
  "sound_ay_write r val now a =
    (if ay_change_count a < AY_CHANGE_MAX then
       (let n = ay_change_count a;
            c = (ay_change a n)\<lparr>ch_tstates := now, ch_reg := of_nat r AND 15, ch_val := val\<rparr>
        in a\<lparr>ay_change := (ay_change a)(n := c), ay_change_count := n + 1\<rparr>)
     else a)"

definition sound_ay_reset :: "ay8910 \<Rightarrow> ay8910" where
  "sound_ay_reset a =
    (let a = sound_ay_init (CAY8910_init a);
         a = a\<lparr>ay_change_count := 0\<rparr>;
         a = fold (\<lambda>f. sound_ay_write f 0 0) [0..<16] a;
         a = fold (\<lambda>f a. a\<lparr>ay_tone_high := (ay_tone_high a)(f := 0)\<rparr>) [0..<3] a
     in a\<lparr>ay_tone_subcycles := 0, ay_env_subcycles := 0\<rparr>)"

section \<open>Register changes\<close>

definition change_tone :: "nat \<Rightarrow> ay8910 \<Rightarrow> ay8910" where
  "change_tone r a =
    (let p = ucast (sound_ay_registers a (2 * r)) OR push_bit 8 (ucast (sound_ay_registers a (2 * r + 1)) AND 15);
         p = (if p = 0 then 1 else p);
         a = a\<lparr>ay_tone_period := (ay_tone_period a)(r := p)\<rparr>
     in if p * 2 \<le> ay_tone_tick a r
        then a\<lparr>ay_tone_tick := (ay_tone_tick a)(r := ay_tone_tick a r mod (p * 2))\<rparr> else a)"

definition change_register :: "change \<Rightarrow> ay8910 \<Rightarrow> ay8910 option" where
  "change_register c a =
    (let r = unat (ch_reg c) in
     if 16 \<le> r then None
     else
       (let a = a\<lparr>sound_ay_registers := (sound_ay_registers a)(r := ch_val c)\<rparr> in
        Some
         (if r \<le> 5 then change_tone (r div 2) a
          else if r = 6 then a\<lparr>ay_noise_tick := 0, ay_noise_period := ucast (sound_ay_registers a 6) AND 31\<rparr>
          else if r = 11 \<or> r = 12 then
            a\<lparr>ay_env_period := ucast (sound_ay_registers a 11) OR push_bit 8 (ucast (sound_ay_registers a 12))\<rparr>
          else if r = 13 then
            a\<lparr>ay_env_internal_tick := 0, ay_env_tick := 0, ay_env_subcycles := 0, env_first := 1, env_rev := 0,
              env_counter := (if bit (sound_ay_registers a 13) 2 then 0 else 15)\<rparr>
          else a)))"

text \<open>The changes due at sample \<open>f\<close>; the list is what \<open>change_ptr\<close> and \<open>changes_left\<close> have left.\<close>

fun take_changes :: "nat \<Rightarrow> change list \<Rightarrow> ay8910 \<Rightarrow> (change list \<times> ay8910) option" where
  "take_changes f [] a = Some ([], a)"
| "take_changes f (c # cs) a =
    (if unat (ch_ofs c) \<le> f then do { a \<leftarrow> change_register c a; take_changes f cs a } else Some (c # cs, a))"

section \<open>Envelope\<close>

text \<open>Bits of the shape: continue 3, attack 2, alternate 1, hold 0.\<close>

definition env_count :: "byte \<Rightarrow> ay8910 \<Rightarrow> ay8910" where
  "env_count shape a =
    (if env_first a \<noteq> 0 \<or> bit shape 3 \<and> \<not> bit shape 0 then
       (let d = (if bit shape 2 then 1 else -1);
            n = (if env_rev a \<noteq> 0 then env_counter a - d else env_counter a + d);
            n = (if n < 0 then 0 else n);
            n = (if n > 15 then 15 else n)
        in a\<lparr>env_counter := n\<rparr>)
     else a)"

definition env_cycle_end :: "byte \<Rightarrow> ay8910 \<Rightarrow> ay8910" where
  "env_cycle_end shape a =
    (let a =
       (if \<not> bit shape 3 then a\<lparr>env_counter := 0\<rparr>
        else if bit shape 0 then
          (if env_first a \<noteq> 0 \<and> bit shape 1 then a\<lparr>env_counter := (if env_counter a \<noteq> 0 then 0 else 15)\<rparr> else a)
        else if bit shape 1 then a\<lparr>env_rev := not_flag (env_rev a)\<rparr>
        else a\<lparr>env_counter := (if bit shape 2 then 0 else 15)\<rparr>)
     in a\<lparr>env_first := 0\<rparr>)"

partial_function (option) env_internal_loop :: "byte \<Rightarrow> ay8910 \<Rightarrow> ay8910 option" where
  "env_internal_loop shape a =
    (if 16 \<le> ay_env_internal_tick a
     then env_internal_loop shape (env_cycle_end shape (a\<lparr>ay_env_internal_tick := ay_env_internal_tick a - 16\<rparr>))
     else Some a)"

partial_function (option) env_tick_loop :: "byte \<Rightarrow> ay8910 \<Rightarrow> ay8910 option" where
  "env_tick_loop shape a =
    (if ay_env_period a \<le> ay_env_tick a then
       (let a = a\<lparr>ay_env_tick := ay_env_tick a - ay_env_period a\<rparr>;
            a = env_count shape a;
            a = a\<lparr>ay_env_internal_tick := ay_env_internal_tick a + 1\<rparr>
        in env_internal_loop shape a \<bind>
           (\<lambda>a. if ay_env_period a = 0 then Some a else env_tick_loop shape a))
     else Some a)"

definition ENV_STEP :: u32 where "ENV_STEP = push_bit 16 16"

partial_function (option) env_loop :: "byte \<Rightarrow> u32 \<Rightarrow> ay8910 \<Rightarrow> (u32 \<times> ay8910) option" where
  "env_loop shape noise_count a =
    (if ENV_STEP \<le> ay_env_subcycles a then
       env_tick_loop shape (a\<lparr>ay_env_subcycles := ay_env_subcycles a - ENV_STEP, ay_env_tick := ay_env_tick a + 1\<rparr>) \<bind>
       (\<lambda>a. env_loop shape (noise_count + 1) a)
     else Some (noise_count, a))"

section \<open>Tones and noise\<close>

text \<open>\<open>AY_GET_SUBVAL\<close>, in the unsigned arithmetic of its operands.\<close>

definition AY_GET_SUBVAL :: "int \<Rightarrow> u32 \<Rightarrow> u32 \<Rightarrow> u32" where
  "AY_GET_SUBVAL level tick tone_count = word_of_int (level * 2) * tick div tone_count"

definition add_unsigned :: "int \<Rightarrow> u32 \<Rightarrow> int" where
  "add_unsigned v w = sint (word_of_int v + w)"

partial_function (option) tone_loop ::
    "nat \<Rightarrow> int \<Rightarrow> u32 \<Rightarrow> bool \<Rightarrow> nat \<Rightarrow> int \<Rightarrow> ay8910 \<Rightarrow> (nat \<times> int \<times> ay8910) option" where
  "tone_loop chan level tone_count is_low count v a =
    (if ay_tone_period a chan \<le> ay_tone_tick a chan then
       (let a = a\<lparr>ay_tone_tick := (ay_tone_tick a)(chan := ay_tone_tick a chan - ay_tone_period a chan),
              ay_tone_high := (ay_tone_high a)(chan := not_flag (ay_tone_high a chan))\<rparr>;
            sub = AY_GET_SUBVAL level (ay_tone_tick a chan) tone_count;
            v = (if count = 0 \<and> level \<noteq> 0 \<and> ay_tone_tick a chan < tone_count
                 then add_unsigned v (if is_low then sub else - sub) else v)
        in tone_loop chan level tone_count is_low (count + 1) v a)
     else Some (count, v, a))"

definition AY_DO_TONE :: "nat \<Rightarrow> int \<Rightarrow> u32 \<Rightarrow> ay8910 \<Rightarrow> (int \<times> ay8910) option" where
  "AY_DO_TONE chan level tone_count a =
    (let is_low = (level \<noteq> 0 \<and> ay_tone_high a chan = 0);
         v = (if level = 0 then 0 else if is_low then - level else level);
         a = a\<lparr>ay_tone_tick := (ay_tone_tick a)(chan := ay_tone_tick a chan + tone_count)\<rparr>
     in tone_loop chan level tone_count is_low 0 v a \<bind>
        (\<lambda>(count, v, a). Some (if count > 1 then - level else v, a)))"

partial_function (option) noise_loop :: "ay8910 \<Rightarrow> ay8910 option" where
  "noise_loop a =
    (if ay_noise_period a \<le> ay_noise_tick a then
       (let a = a\<lparr>ay_noise_tick := ay_noise_tick a - ay_noise_period a\<rparr>;
            a = (if bit (rng a) 0 \<noteq> bit (rng a) 1 then a\<lparr>noise_toggle := not_flag (noise_toggle a)\<rparr> else a);
            a = (if bit (rng a) 0 \<noteq> bit (rng a) 2 then a\<lparr>rng := rng a OR 0x20000\<rparr> else a);
            a = a\<lparr>rng := signed_drop_bit 1 (rng a)\<rparr>
        in if ay_noise_period a = 0 then Some a else noise_loop a)
     else Some a)"

section \<open>A sample\<close>

definition ay_level :: "int \<Rightarrow> int option" where
  "ay_level n = (if 0 \<le> n \<and> n < 16 then Some (ay_tone_levels ! nat n) else None)"

definition ay_channel :: "nat \<Rightarrow> int \<Rightarrow> u32 \<Rightarrow> byte \<Rightarrow> ay8910 \<Rightarrow> (int \<times> ay8910) option" where
  "ay_channel chan level tone_count mixer a =
    (if bit mixer chan then Some (level, a) else AY_DO_TONE chan level tone_count a) \<bind>
    (\<lambda>(v, a). Some (if \<not> bit mixer (3 + chan) \<and> noise_toggle a \<noteq> 0 then 0 else v, a))"

definition ay_sample :: "ay8910 \<Rightarrow> ((int \<times> int \<times> int) \<times> ay8910) option" where
  "ay_sample a = do {
     let tone_level = (\<lambda>g. ay_tone_levels ! unat (sound_ay_registers a (8 + g) AND 15));
     let envshape = sound_ay_registers a 13;
     level \<leftarrow> ay_level (env_counter a);
     let tone_level = (\<lambda>g. if bit (sound_ay_registers a (8 + g)) 4 then level else tone_level g);
     (noise_count, a) \<leftarrow> env_loop envshape 0 (a\<lparr>ay_env_subcycles := ay_env_subcycles a + ay_tick_incr a\<rparr>);
     let mixer = sound_ay_registers a 7;
     let a = a\<lparr>ay_tone_subcycles := ay_tone_subcycles a + ay_tick_incr a\<rparr>;
     let tone_count = drop_bit 19 (ay_tone_subcycles a);
     let a = a\<lparr>ay_tone_subcycles := ay_tone_subcycles a AND (push_bit 16 8 - 1)\<rparr>;
     (chan1, a) \<leftarrow> ay_channel 0 (tone_level 0) tone_count mixer a;
     (chan2, a) \<leftarrow> ay_channel 1 (tone_level 1) tone_count mixer a;
     (chan3, a) \<leftarrow> ay_channel 2 (tone_level 2) tone_count mixer a;
     a \<leftarrow> noise_loop (a\<lparr>ay_noise_tick := ay_noise_tick a + noise_count\<rparr>);
     Some ((chan1, chan2, chan3), a) }"

text \<open>\<open>sound_frame\<close>: \<open>framesiz\<close> samples; \<open>sfreq\<close> and \<open>cpufreq\<close> are the two frequencies over their common
  denominator.\<close>

fun ay_samples :: "nat \<Rightarrow> nat \<Rightarrow> change list \<Rightarrow> ay8910 \<Rightarrow> ((int \<times> int \<times> int) list \<times> ay8910) option" where
  "ay_samples f 0 cs a = Some ([], a)"
| "ay_samples f (Suc n) cs a = do {
     (cs, a) \<leftarrow> take_changes f cs a;
     (v, a) \<leftarrow> ay_sample a;
     (vs, a) \<leftarrow> ay_samples (Suc f) n cs a;
     Some (v # vs, a) }"

definition change_offset :: "nat \<Rightarrow> nat \<Rightarrow> change \<Rightarrow> change" where
  "change_offset sfreq cpufreq c = c\<lparr>ch_ofs := ucast (ch_tstates c * of_nat sfreq div of_nat cpufreq)\<rparr>"

definition sound_ay_overlay :: "nat \<Rightarrow> nat \<Rightarrow> nat \<Rightarrow> ay8910 \<Rightarrow> ((int \<times> int \<times> int) list \<times> ay8910) option" where
  "sound_ay_overlay sfreq cpufreq framesiz a =
    (if 0 < ay_change_count a \<and> cpufreq = 0 then None
     else
       (let a = a\<lparr>ay_change := (\<lambda>i. if i < ay_change_count a then change_offset sfreq cpufreq (ay_change a i) else ay_change a i)\<rparr>
        in ay_samples 0 framesiz (map (ay_change a) [0..<ay_change_count a]) a))"

definition sound_frame :: "nat \<Rightarrow> nat \<Rightarrow> nat \<Rightarrow> ay8910 \<Rightarrow> ((int \<times> int \<times> int) list \<times> ay8910) option" where
  "sound_frame sfreq cpufreq framesiz a = do {
     (vs, a) \<leftarrow> sound_ay_overlay sfreq cpufreq framesiz a;
     Some (vs, a\<lparr>ay_change_count := 0\<rparr>) }"

section \<open>The loops end\<close>

text \<open>Well-formed: no tone has period zero, and the envelope counter is an index of the level table.\<close>

definition ay_ok :: "ay8910 \<Rightarrow> bool" where
  "ay_ok a \<longleftrightarrow> (\<forall>r < 3. ay_tone_period a r \<noteq> 0) \<and> 0 \<le> env_counter a \<and> env_counter a \<le> 15"

lemma word_sub_less: "(p :: 'a::len word) \<le> t \<Longrightarrow> p \<noteq> 0 \<Longrightarrow> unat (t - p) < unat t"
  using unat_eq_zero [of p] by (simp add: unat_sub word_le_nat_alt)

text \<open>What a step of the envelope leaves alone.\<close>

definition env_frame :: "ay8910 \<Rightarrow> ay8910 \<Rightarrow> bool" where
  "env_frame a b \<longleftrightarrow> ay_tone_period b = ay_tone_period a \<and> sound_ay_registers b = sound_ay_registers a \<and> ay_env_period b = ay_env_period a \<and>
     ay_env_tick b = ay_env_tick a \<and> ay_env_subcycles b = ay_env_subcycles a \<and>
     (0 \<le> env_counter a \<and> env_counter a \<le> 15 \<longrightarrow> 0 \<le> env_counter b \<and> env_counter b \<le> 15)"

lemma env_frame_refl [simp]: "env_frame a a"
  by (simp add: env_frame_def)

lemma env_frame_trans: "env_frame a b \<Longrightarrow> env_frame b c \<Longrightarrow> env_frame a c"
  by (simp add: env_frame_def)

lemma env_count_frame: "env_frame a (env_count shape a)"
  by (auto simp: env_frame_def env_count_def Let_def)

lemma env_cycle_end_frame: "env_frame a (env_cycle_end shape a)"
  by (auto simp: env_frame_def env_cycle_end_def Let_def)

lemma env_cycle_end_internal [simp]: "ay_env_internal_tick (env_cycle_end shape a) = ay_env_internal_tick a"
  by (simp add: env_cycle_end_def Let_def)

lemma env_internal_ok: "\<exists>b. env_internal_loop shape a = Some b \<and> env_frame a b"
proof (induction "unat (ay_env_internal_tick a)" arbitrary: a rule: less_induct)
  case less
  show ?case
  proof (cases "16 \<le> ay_env_internal_tick a")
    case True
    let ?a = "env_cycle_end shape (a\<lparr>ay_env_internal_tick := ay_env_internal_tick a - 16\<rparr>)"
    have "unat (ay_env_internal_tick ?a) < unat (ay_env_internal_tick a)"
      using word_sub_less [OF True] by simp
    then obtain b where b: "env_internal_loop shape ?a = Some b" "env_frame ?a b" using less by blast
    have "env_frame a ?a"
      using env_cycle_end_frame [of "a\<lparr>ay_env_internal_tick := ay_env_internal_tick a - 16\<rparr>" shape]
      by (simp add: env_frame_def)
    then show ?thesis using b True env_frame_trans by (subst env_internal_loop.simps) auto
  next
    case False
    then show ?thesis by (subst env_internal_loop.simps) simp
  qed
qed

definition env_kept :: "ay8910 \<Rightarrow> ay8910 \<Rightarrow> bool" where
  "env_kept a b \<longleftrightarrow> ay_tone_period b = ay_tone_period a \<and> sound_ay_registers b = sound_ay_registers a \<and>
     (0 \<le> env_counter a \<and> env_counter a \<le> 15 \<longrightarrow> 0 \<le> env_counter b \<and> env_counter b \<le> 15)"

definition tick_frame :: "ay8910 \<Rightarrow> ay8910 \<Rightarrow> bool" where
  "tick_frame a b \<longleftrightarrow> env_kept a b \<and> ay_env_subcycles b = ay_env_subcycles a"

lemma tick_frame_trans: "tick_frame a b \<Longrightarrow> tick_frame b c \<Longrightarrow> tick_frame a c"
  by (simp add: tick_frame_def env_kept_def)

lemma env_tick_ok: "\<exists>b. env_tick_loop shape a = Some b \<and> tick_frame a b"
proof (induction "unat (ay_env_tick a)" arbitrary: a rule: less_induct)
  case less
  show ?case
  proof (cases "ay_env_period a \<le> ay_env_tick a")
    case True
    let ?a0 = "a\<lparr>ay_env_tick := ay_env_tick a - ay_env_period a\<rparr>"
    let ?a1 = "env_count shape ?a0"
    let ?a2 = "?a1\<lparr>ay_env_internal_tick := ay_env_internal_tick ?a1 + 1\<rparr>"
    obtain b where b: "env_internal_loop shape ?a2 = Some b" "env_frame ?a2 b" using env_internal_ok by blast
    have f1: "env_frame ?a0 ?a1" by (rule env_count_frame)
    have f: "env_frame ?a0 b" using f1 b(2) by (simp add: env_frame_def)
    have t: "tick_frame a b" using f by (simp add: env_frame_def tick_frame_def env_kept_def)
    have e: "env_tick_loop shape a = (if ay_env_period b = 0 then Some b else env_tick_loop shape b)"
      using True b(1) by (subst env_tick_loop.simps) (simp add: Let_def)
    show ?thesis
    proof (cases "ay_env_period b = 0")
      case True
      then show ?thesis using e t by simp
    next
      case False
      have "ay_env_period b = ay_env_period a" "ay_env_tick b = ay_env_tick a - ay_env_period a"
        using f by (simp_all add: env_frame_def)
      then have "unat (ay_env_tick b) < unat (ay_env_tick a)" using word_sub_less [OF True] False by simp
      then obtain b' where "env_tick_loop shape b = Some b'" "tick_frame b b'" using less by blast
      then show ?thesis using e t False tick_frame_trans by auto
    qed
  next
    case False
    then show ?thesis by (subst env_tick_loop.simps) (simp add: tick_frame_def env_kept_def)
  qed
qed

lemma env_loop_returns: "\<exists>n' b. env_loop shape n a = Some (n', b) \<and> env_kept a b"
proof (induction "unat (ay_env_subcycles a)" arbitrary: a n rule: less_induct)
  case less
  show ?case
  proof (cases "ENV_STEP \<le> ay_env_subcycles a")
    case True
    let ?a = "a\<lparr>ay_env_subcycles := ay_env_subcycles a - ENV_STEP, ay_env_tick := ay_env_tick a + 1\<rparr>"
    obtain b where b: "env_tick_loop shape ?a = Some b" "tick_frame ?a b" using env_tick_ok by blast
    have s: "ay_env_subcycles b = ay_env_subcycles a - ENV_STEP" using b(2) by (simp add: tick_frame_def)
    have "unat (ay_env_subcycles b) < unat (ay_env_subcycles a)"
      unfolding s by (rule word_sub_less [OF True]) (simp add: ENV_STEP_def)
    then obtain n' b' where r: "env_loop shape (n + 1) b = Some (n', b')" "env_kept b b'" using less.hyps by blast
    have "env_kept a b'" using b(2) r(2) by (simp add: tick_frame_def env_kept_def)
    then show ?thesis using b(1) r(1) True by (subst env_loop.simps) auto
  next
    case False
    then show ?thesis by (subst env_loop.simps) (simp add: env_kept_def)
  qed
qed

lemma env_loop_ok: "ay_ok a \<Longrightarrow> \<exists>n' b. env_loop shape n a = Some (n', b) \<and> ay_ok b"
  using env_loop_returns [of shape n a] by (auto simp: env_kept_def ay_ok_def)

lemma tone_loop_ok:
  assumes "ay_ok a" "chan < 3"
  shows "\<exists>k v' b. tone_loop chan level tc is_low n v a = Some (k, v', b) \<and> ay_ok b"
  using assms(1)
proof (induction "unat (ay_tone_tick a chan)" arbitrary: a n v rule: less_induct)
  case less
  have p: "ay_tone_period a chan \<noteq> 0" using less.prems assms(2) by (simp add: ay_ok_def)
  show ?case
  proof (cases "ay_tone_period a chan \<le> ay_tone_tick a chan")
    case True
    let ?a = "a\<lparr>ay_tone_tick := (ay_tone_tick a)(chan := ay_tone_tick a chan - ay_tone_period a chan),
              ay_tone_high := (ay_tone_high a)(chan := not_flag (ay_tone_high a chan))\<rparr>"
    have "unat (ay_tone_tick ?a chan) < unat (ay_tone_tick a chan)" using word_sub_less [OF True p] by simp
    moreover have "ay_ok ?a" using less.prems by (simp add: ay_ok_def)
    ultimately have "\<exists>k v'' b. tone_loop chan level tc is_low (n + 1) v' ?a = Some (k, v'', b) \<and> ay_ok b" for v'
      using less.hyps by blast
    then show ?thesis using True by (subst tone_loop.simps) (simp add: Let_def)
  next
    case False
    then show ?thesis using less.prems by (subst tone_loop.simps) simp
  qed
qed

lemma noise_loop_ok: "ay_ok a \<Longrightarrow> \<exists>b. noise_loop a = Some b \<and> ay_ok b"
proof (induction "unat (ay_noise_tick a)" arbitrary: a rule: less_induct)
  case less
  show ?case
  proof (cases "ay_noise_period a \<le> ay_noise_tick a")
    case True
    let ?a1 = "a\<lparr>ay_noise_tick := ay_noise_tick a - ay_noise_period a\<rparr>"
    let ?a2 = "if bit (rng ?a1) 0 \<noteq> bit (rng ?a1) 1 then ?a1\<lparr>noise_toggle := not_flag (noise_toggle ?a1)\<rparr> else ?a1"
    let ?a3 = "if bit (rng ?a2) 0 \<noteq> bit (rng ?a2) 2 then ?a2\<lparr>rng := rng ?a2 OR 0x20000\<rparr> else ?a2"
    define b where "b = ?a3\<lparr>rng := signed_drop_bit 1 (rng ?a3)\<rparr>"
    have b: "ay_noise_tick b = ay_noise_tick a - ay_noise_period a" "ay_noise_period b = ay_noise_period a"
      "ay_tone_period b = ay_tone_period a" "env_counter b = env_counter a"
      by (simp_all add: b_def)
    then have ok: "ay_ok b" using less.prems by (simp add: ay_ok_def)
    have e: "noise_loop a = (if ay_noise_period b = 0 then Some b else noise_loop b)"
      using True by (subst noise_loop.simps) (simp only: Let_def b_def if_True)
    show ?thesis
    proof (cases "ay_noise_period b = 0")
      case True
      then show ?thesis using e ok by simp
    next
      case False
      then have "unat (ay_noise_tick b) < unat (ay_noise_tick a)" using word_sub_less [OF True] b(1,2) by simp
      then show ?thesis using less.hyps ok e False by simp
    qed
  next
    case False
    then show ?thesis using less.prems by (subst noise_loop.simps) simp
  qed
qed

section \<open>Samples\<close>

lemma levels_bound: "l \<in> set ay_tone_levels \<Longrightarrow> 0 \<le> l \<and> l \<le> AMPL_AY_TONE" and length_levels [simp]: "length ay_tone_levels = 16"
  by (auto simp: ay_tone_levels_def AMPL_AY_TONE_def trunc_div_def)

lemma level_bound: "n < 16 \<Longrightarrow> 0 \<le> ay_tone_levels ! n \<and> ay_tone_levels ! n \<le> AMPL_AY_TONE"
  by (rule levels_bound) simp

lemma sint_of_int: "- (2 ^ 31) \<le> v \<Longrightarrow> v < 2 ^ 31 \<Longrightarrow> sint (word_of_int v :: u32) = v"
  by (simp only: sint_sbintrunc' len_num1 len_bit0) (simp add: signed_take_bit_int_eq_self)

lemma add_unsigned_eq:
  assumes "- (2 ^ 31) \<le> v + uint w" "v + uint w < 2 ^ 31"
  shows "add_unsigned v w = v + uint w"
proof -
  have "(word_of_int (v + uint w) :: u32) = word_of_int v + w" by simp
  then have "add_unsigned v w = sint (word_of_int (v + uint w) :: u32)" by (simp only: add_unsigned_def)
  also have "\<dots> = v + uint w" by (rule sint_of_int [OF assms])
  finally show ?thesis .
qed

lemma add_unsigned_minus:
  assumes "- (2 ^ 31) \<le> v - uint w" "v - uint w < 2 ^ 31"
  shows "add_unsigned v (- w) = v - uint w"
proof -
  have "(word_of_int (v - uint w) :: u32) = word_of_int v + - w" by simp
  then have "add_unsigned v (- w) = sint (word_of_int (v - uint w) :: u32)" by (simp only: add_unsigned_def)
  also have "\<dots> = v - uint w" by (rule sint_of_int [OF assms])
  finally show ?thesis .
qed

text \<open>The share of a sample before a tone's edge.\<close>

lemma subval_bound:
  assumes "0 \<le> level" "level \<le> AMPL_AY_TONE" "tick < tc" "unat tc < 2 ^ 13"
  shows "uint (AY_GET_SUBVAL level tick tc) \<le> 2 * level"
proof -
  have t: "unat tick < unat tc" using assms(3) by (simp add: word_less_nat_alt)
  have l: "nat level * 2 * unat tick < 2 ^ 32"
  proof -
    have "nat level * 2 \<le> 21504" "unat tick \<le> 2 ^ 13" using assms t by (simp_all add: AMPL_AY_TONE_def)
    then have "nat level * 2 * unat tick \<le> 21504 * 2 ^ 13" by (rule mult_mono) simp_all
    then show ?thesis by simp
  qed
  define n where "n = nat level * 2"
  have w: "(word_of_int (level * 2) :: u32) = of_nat n" using assms(1) by (simp add: n_def)
  have n: "n < 2 ^ 32" using assms(2) unfolding n_def AMPL_AY_TONE_def by simp
  have u: "unat (of_nat n :: u32) = n" unfolding unsigned_of_nat of_nat_id by (rule take_bit_nat_eq_self) (use n in simp)
  have "unat (of_nat n :: u32) * unat tick < 2 ^ LENGTH(32)" unfolding u using l by (simp only: n_def len_num1 len_bit0) simp
  then have "unat (of_nat n * tick :: u32) = unat (of_nat n :: u32) * unat tick" by (rule iffD1 [OF unat_mult_lem])
  then have m: "unat (of_nat n * tick :: u32) = n * unat tick" unfolding u .
  have "unat (AY_GET_SUBVAL level tick tc) = n * unat tick div unat tc"
    unfolding AY_GET_SUBVAL_def w unat_div_distrib m ..
  also have "\<dots> \<le> n * unat tc div unat tc" using t by (intro div_le_mono mult_le_mono) simp_all
  also have "\<dots> = n" using t by simp
  finally have "unat (AY_GET_SUBVAL level tick tc) \<le> n" .
  then have "int (unat (AY_GET_SUBVAL level tick tc)) \<le> int n" by (simp only: of_nat_le_iff)
  moreover have "int n = 2 * level" using assms(1) by (simp add: n_def)
  ultimately show ?thesis by simp
qed

lemma tone_loop_later:
  assumes "ay_ok a" "chan < 3" "0 < n"
  shows "\<exists>k b. tone_loop chan level tc is_low n v a = Some (k, v, b) \<and> ay_ok b"
  using assms(1,3)
proof (induction "unat (ay_tone_tick a chan)" arbitrary: a n rule: less_induct)
  case less
  have p: "ay_tone_period a chan \<noteq> 0" using less.prems(1) assms(2) by (simp add: ay_ok_def)
  show ?case
  proof (cases "ay_tone_period a chan \<le> ay_tone_tick a chan")
    case True
    let ?a = "a\<lparr>ay_tone_tick := (ay_tone_tick a)(chan := ay_tone_tick a chan - ay_tone_period a chan),
              ay_tone_high := (ay_tone_high a)(chan := not_flag (ay_tone_high a chan))\<rparr>"
    have "unat (ay_tone_tick ?a chan) < unat (ay_tone_tick a chan)" using word_sub_less [OF True p] by simp
    moreover have "ay_ok ?a" using less.prems(1) by (simp add: ay_ok_def)
    ultimately have "\<exists>k b. tone_loop chan level tc is_low (n + 1) v ?a = Some (k, v, b) \<and> ay_ok b"
      using less.hyps [of ?a "n + 1"] by simp
    then show ?thesis using True less.prems(2) by (subst tone_loop.simps) (simp add: Let_def)
  next
    case False
    then show ?thesis using less.prems by (subst tone_loop.simps) simp
  qed
qed

lemma tone_edge_bound:
  assumes "0 \<le> level" "level \<le> AMPL_AY_TONE" "tick < tc" "unat tc < 2 ^ 13"
  shows "\<bar>add_unsigned (- level) (AY_GET_SUBVAL level tick tc)\<bar> \<le> level"
    and "\<bar>add_unsigned level (- AY_GET_SUBVAL level tick tc)\<bar> \<le> level"
proof -
  note b = subval_bound [OF assms] and l = assms(1,2) [unfolded AMPL_AY_TONE_def]
  have u: "0 \<le> uint (AY_GET_SUBVAL level tick tc)" by simp
  have p: "(2 :: int) ^ 31 = 2147483648" by simp
  have "add_unsigned (- level) (AY_GET_SUBVAL level tick tc) = - level + uint (AY_GET_SUBVAL level tick tc)"
    by (rule add_unsigned_eq; unfold p; use b l u in linarith)
  then show "\<bar>add_unsigned (- level) (AY_GET_SUBVAL level tick tc)\<bar> \<le> level" using b u by linarith
  have "add_unsigned level (- AY_GET_SUBVAL level tick tc) = level - uint (AY_GET_SUBVAL level tick tc)"
    by (rule add_unsigned_minus; unfold p; use b l u in linarith)
  then show "\<bar>add_unsigned level (- AY_GET_SUBVAL level tick tc)\<bar> \<le> level" using b u by linarith
qed

lemma tone_ok:
  assumes "ay_ok a" "chan < 3" "0 \<le> level" "level \<le> AMPL_AY_TONE" "unat tc < 2 ^ 13"
  shows "\<exists>v b. AY_DO_TONE chan level tc a = Some (v, b) \<and> ay_ok b \<and> \<bar>v\<bar> \<le> level"
proof -
  define is_low where "is_low = (level \<noteq> 0 \<and> ay_tone_high a chan = 0)"
  define v0 where "v0 = (if level = 0 then 0 else if is_low then - level else level)"
  define a0 where "a0 = a\<lparr>ay_tone_tick := (ay_tone_tick a)(chan := ay_tone_tick a chan + tc)\<rparr>"
  have a0: "ay_ok a0" using assms(1) by (simp add: ay_ok_def a0_def)
  have v0: "\<bar>v0\<bar> \<le> level" using assms(3) by (simp add: v0_def)
  have loop: "\<exists>k v b. tone_loop chan level tc is_low 0 v0 a0 = Some (k, v, b) \<and> ay_ok b \<and> \<bar>v\<bar> \<le> level"
  proof (cases "ay_tone_period a0 chan \<le> ay_tone_tick a0 chan")
    case True
    define a1 where "a1 = a0\<lparr>ay_tone_tick := (ay_tone_tick a0)(chan := ay_tone_tick a0 chan - ay_tone_period a0 chan),
              ay_tone_high := (ay_tone_high a0)(chan := not_flag (ay_tone_high a0 chan))\<rparr>"
    define sub where "sub = AY_GET_SUBVAL level (ay_tone_tick a1 chan) tc"
    define v1 where "v1 = (if level \<noteq> 0 \<and> ay_tone_tick a1 chan < tc then add_unsigned v0 (if is_low then sub else - sub) else v0)"
    have a: "ay_ok a1" using a0 by (simp add: ay_ok_def a1_def)
    have v: "\<bar>v1\<bar> \<le> level"
    proof (cases "level \<noteq> 0 \<and> ay_tone_tick a1 chan < tc")
      case True
      then show ?thesis using tone_edge_bound [OF assms(3,4) conjunct2 [OF True] assms(5)]
        by (simp add: v0_def v1_def sub_def)
    next
      case False
      then show ?thesis using v0 by (simp only: v1_def if_False)
    qed
    obtain k b where l: "tone_loop chan level tc is_low (Suc 0) v1 a1 = Some (k, v1, b)" "ay_ok b"
      using tone_loop_later [OF a assms(2) zero_less_Suc] by blast
    have "tone_loop chan level tc is_low 0 v0 a0 = tone_loop chan level tc is_low (Suc 0) v1 a1"
      using True by (subst tone_loop.simps) (simp add: Let_def a1_def v1_def sub_def)
    then show ?thesis using l v by simp
  next
    case False
    then show ?thesis using a0 v0 by (subst tone_loop.simps) simp
  qed
  then obtain k v b where r: "tone_loop chan level tc is_low 0 v0 a0 = Some (k, v, b)" "ay_ok b" "\<bar>v\<bar> \<le> level" by blast
  have "AY_DO_TONE chan level tc a = Some (if k > 1 then - level else v, b)"
    unfolding AY_DO_TONE_def Let_def is_low_def [symmetric] v0_def [symmetric] a0_def [symmetric] by (simp add: r(1))
  then show ?thesis using r assms(3) by simp
qed

definition in_range :: "int \<Rightarrow> bool" where
  "in_range v \<longleftrightarrow> \<bar>v\<bar> \<le> AMPL_AY_TONE"

lemma channel_ok:
  assumes "ay_ok a" "chan < 3" "0 \<le> level" "level \<le> AMPL_AY_TONE" "unat tc < 2 ^ 13"
  shows "\<exists>v b. ay_channel chan level tc mixer a = Some (v, b) \<and> ay_ok b \<and> in_range v"
proof -
  have z: "in_range 0" by (simp add: in_range_def AMPL_AY_TONE_def)
  obtain v b where "AY_DO_TONE chan level tc a = Some (v, b)" "ay_ok b" "\<bar>v\<bar> \<le> level"
    using tone_ok [OF assms] by blast
  then show ?thesis using assms z by (auto simp: ay_channel_def in_range_def)
qed

lemma tone_count_bound: "unat (drop_bit 19 (w :: u32)) < 2 ^ 13"
proof -
  have "unat w < 2 ^ 32" using unsigned_less [of w] by simp
  then have "unat w div 2 ^ 19 < 2 ^ 13" by (simp add: div_less_iff_less_mult)
  then show ?thesis unfolding unat_drop_bit_eq by (simp only: drop_bit_eq_div)
qed

lemma sample_ok:
  assumes "ay_ok a"
  shows "\<exists>c1 c2 c3 b. ay_sample a = Some ((c1, c2, c3), b) \<and> ay_ok b \<and> in_range c1 \<and> in_range c2 \<and> in_range c3"
proof -
  define level where "level = ay_tone_levels ! nat (env_counter a)"
  have lv: "ay_level (env_counter a) = Some level" "0 \<le> level" "level \<le> AMPL_AY_TONE"
    using assms level_bound [of "nat (env_counter a)"] by (simp_all add: ay_level_def ay_ok_def level_def nat_less_iff)
  define tl where "tl = (\<lambda>g. if bit (sound_ay_registers a (8 + g)) 4 then level
      else ay_tone_levels ! unat (sound_ay_registers a (8 + g) AND 15))"
  have tl: "0 \<le> tl g" "tl g \<le> AMPL_AY_TONE" for g
  proof -
    have "sound_ay_registers a (8 + g) AND 15 \<le> 15" by (rule word_and_le1)
    then have "unat (sound_ay_registers a (8 + g) AND 15) < 16" by (simp add: word_le_nat_alt)
    from level_bound [OF this] show "0 \<le> tl g" "tl g \<le> AMPL_AY_TONE" using lv by (simp_all add: tl_def)
  qed
  let ?a0 = "a\<lparr>ay_env_subcycles := ay_env_subcycles a + ay_tick_incr a\<rparr>"
  have "ay_ok ?a0" using assms by (simp add: ay_ok_def)
  then obtain n a1 where a1: "env_loop (sound_ay_registers a 13) 0 ?a0 = Some (n, a1)" "ay_ok a1" using env_loop_ok by blast
  define a2 where "a2 = a1\<lparr>ay_tone_subcycles := ay_tone_subcycles a1 + ay_tick_incr a1\<rparr>"
  define tc where "tc = drop_bit 19 (ay_tone_subcycles a2)"
  have tc: "unat tc < 2 ^ 13" unfolding tc_def by (rule tone_count_bound)
  define a3 where "a3 = a2\<lparr>ay_tone_subcycles := ay_tone_subcycles a2 AND (push_bit 16 8 - 1)\<rparr>"
  define mixer where "mixer = sound_ay_registers a1 7"
  have a3: "ay_ok a3" using a1(2) by (simp add: a3_def a2_def ay_ok_def)
  obtain c1 a4 where c1: "ay_channel 0 (tl 0) tc mixer a3 = Some (c1, a4)" "ay_ok a4" "in_range c1"
    using channel_ok [OF a3 _ tl tc, of 0 0 mixer] by auto
  obtain c2 a5 where c2: "ay_channel 1 (tl 1) tc mixer a4 = Some (c2, a5)" "ay_ok a5" "in_range c2"
    using channel_ok [OF c1(2) _ tl tc, of 1 1 mixer] by auto
  obtain c3 a6 where c3: "ay_channel 2 (tl 2) tc mixer a5 = Some (c3, a6)" "ay_ok a6" "in_range c3"
    using channel_ok [OF c2(2) _ tl tc, of 2 2 mixer] by auto
  have "ay_ok (a6\<lparr>ay_noise_tick := ay_noise_tick a6 + n\<rparr>)" using c3(2) by (simp add: ay_ok_def)
  then obtain b where b: "noise_loop (a6\<lparr>ay_noise_tick := ay_noise_tick a6 + n\<rparr>) = Some b" "ay_ok b"
    using noise_loop_ok by blast
  have "ay_sample a = Some ((c1, c2, c3), b)"
    unfolding ay_sample_def Let_def lv(1) Option.bind.bind_lunit a1(1) prod.case
      a2_def [symmetric] tc_def [symmetric] a3_def [symmetric] mixer_def [symmetric]
      c1(1) [unfolded tl_def] c2(1) [unfolded tl_def] c3(1) [unfolded tl_def] b(1) by (rule refl)
  then show ?thesis using c1(3) c2(3) c3(3) b(2) by blast
qed

section \<open>A batch of samples\<close>

lemma change_register_ok:
  assumes "0 \<le> env_counter a" "env_counter a \<le> 15" "unat (ch_reg c) < 16"
  shows "\<exists>b. change_register c a = Some b \<and> 0 \<le> env_counter b \<and> env_counter b \<le> 15 \<and>
    (\<forall>r. ay_tone_period a r \<noteq> 0 \<longrightarrow> ay_tone_period b r \<noteq> 0) \<and>
    (unat (ch_reg c) \<le> 5 \<longrightarrow> ay_tone_period b (unat (ch_reg c) div 2) \<noteq> 0)"
  using assms by (auto simp: change_register_def change_tone_def Let_def)

lemma take_changes_ok:
  assumes "0 \<le> env_counter a" "env_counter a \<le> 15" "\<forall>c \<in> set cs. unat (ch_reg c) < 16"
  shows "\<exists>cs' b. take_changes f cs a = Some (cs', b) \<and> set cs' \<subseteq> set cs \<and> 0 \<le> env_counter b \<and> env_counter b \<le> 15 \<and>
    (\<forall>r. ay_tone_period a r \<noteq> 0 \<longrightarrow> ay_tone_period b r \<noteq> 0)"
  using assms
proof (induction cs arbitrary: a)
  case (Cons c cs)
  show ?case
  proof (cases "unat (ch_ofs c) \<le> f")
    case True
    obtain a' where a': "change_register c a = Some a'" "0 \<le> env_counter a'" "env_counter a' \<le> 15"
      "\<forall>r. ay_tone_period a r \<noteq> 0 \<longrightarrow> ay_tone_period a' r \<noteq> 0"
      using change_register_ok [OF Cons.prems(1,2), of c] Cons.prems(3) by auto
    show ?thesis using Cons.IH [OF a'(2,3)] Cons.prems(3) a'(1,4) True by fastforce
  next
    case False
    then show ?thesis using Cons.prems by auto
  qed
qed auto

lemma samples_ok:
  assumes "ay_ok a" "\<forall>c \<in> set cs. unat (ch_reg c) < 16"
  shows "\<exists>vs b. ay_samples f n cs a = Some (vs, b) \<and> length vs = n \<and> ay_ok b \<and>
    (\<forall>(c1, c2, c3) \<in> set vs. in_range c1 \<and> in_range c2 \<and> in_range c3)"
  using assms
proof (induction n arbitrary: f cs a)
  case (Suc n)
  obtain cs' a1 where t: "take_changes f cs a = Some (cs', a1)" "set cs' \<subseteq> set cs" "0 \<le> env_counter a1" "env_counter a1 \<le> 15"
    "\<forall>r. ay_tone_period a r \<noteq> 0 \<longrightarrow> ay_tone_period a1 r \<noteq> 0"
    using take_changes_ok [OF _ _ Suc.prems(2), of a f] Suc.prems(1) by (auto simp: ay_ok_def)
  have a1: "ay_ok a1" using t(3-5) Suc.prems(1) by (simp add: ay_ok_def)
  obtain c1 c2 c3 a2 where v: "ay_sample a1 = Some ((c1, c2, c3), a2)" "ay_ok a2" "in_range c1" "in_range c2" "in_range c3"
    using sample_ok [OF a1] by blast
  obtain vs b where r: "ay_samples (Suc f) n cs' a2 = Some (vs, b)" "length vs = n" "ay_ok b"
    "\<forall>(c1, c2, c3) \<in> set vs. in_range c1 \<and> in_range c2 \<and> in_range c3"
    using Suc.IH [OF v(2), of cs' "Suc f"] Suc.prems(2) t(2) by blast
  show ?case using t(1) v r by simp
qed simp

text \<open>
  A chip as the card keeps it: its queue holds register numbers, and either every tone has a period or
  the queue still starts with the writes of a reset, which give it one.
\<close>

definition reset_pending :: "ay8910 \<Rightarrow> bool" where
  "reset_pending a \<longleftrightarrow> 6 \<le> ay_change_count a \<and>
     (\<forall>i < 6. ch_tstates (ay_change a i) = 0 \<and> ch_reg (ay_change a i) = of_nat i)"

definition chip_ok :: "ay8910 \<Rightarrow> bool" where
  "chip_ok a \<longleftrightarrow> 0 \<le> env_counter a \<and> env_counter a \<le> 15 \<and>
     (\<forall>i < ay_change_count a. unat (ch_reg (ay_change a i)) < 16) \<and>
     ((\<forall>r < 3. ay_tone_period a r \<noteq> 0) \<or> reset_pending a)"

lemma masked_reg: "unat (x AND 15 :: byte) < 16"
proof -
  have "x AND 15 \<le> 15" by (rule word_and_le1)
  then show ?thesis by (simp add: word_le_nat_alt)
qed

lemma write_chip_ok: "chip_ok a \<Longrightarrow> chip_ok (sound_ay_write r v now a)"
  using masked_reg [of "of_nat r"]
  by (auto simp: chip_ok_def sound_ay_write_def reset_pending_def Let_def less_Suc_eq)

text \<open>The sixteen writes of a reset.\<close>

lemma reset_writes:
  assumes "ay_change_count a = 0" "n \<le> 16"
  shows "let b = fold (\<lambda>f. sound_ay_write f 0 0) [0..<n] a in
    ay_change_count b = n \<and> env_counter b = env_counter a \<and>
    (\<forall>i < n. ch_tstates (ay_change b i) = 0 \<and> ch_reg (ay_change b i) = of_nat i AND 15)"
  using assms(2)
proof (induction n)
  case (Suc n)
  then show ?case
    by (auto simp: Let_def sound_ay_write_def AY_CHANGE_MAX_def less_Suc_eq)
qed (simp add: assms)

lemma reset_reg: "i < 16 \<Longrightarrow> (of_nat i :: byte) AND 15 = of_nat i"
proof -
  assume i: "i < 16"
  have "(of_nat i :: byte) AND 15 = take_bit 4 (of_nat i)" by (simp only: take_bit_eq_mask) (simp add: mask_eq_exp_minus_1)
  also have "\<dots> = of_nat i" using i by (simp add: take_bit_of_nat take_bit_nat_eq_self)
  finally show ?thesis .
qed

lemma reset_chip_ok: "chip_ok (sound_ay_reset a)"
proof -
  define a1 where "a1 = (sound_ay_init (CAY8910_init a))\<lparr>ay_change_count := 0\<rparr>"
  define b where "b = fold (\<lambda>f. sound_ay_write f 0 0) [0..<16] a1"
  have a1: "ay_change_count a1 = 0" "env_counter a1 = 15"
    by (simp_all add: a1_def sound_ay_init_def CAY8910_init_def Let_def upt_rec)
  have b: "ay_change_count b = 16" "env_counter b = 15"
    "\<forall>i < 16. ch_tstates (ay_change b i) = 0 \<and> ch_reg (ay_change b i) = of_nat i AND 15"
    using reset_writes [OF a1(1), of 16] a1(2) by (simp_all add: b_def Let_def)
  have r: "sound_ay_reset a = (fold (\<lambda>f a. a\<lparr>ay_tone_high := (ay_tone_high a)(f := 0)\<rparr>) [0..<3] b)
      \<lparr>ay_tone_subcycles := 0, ay_env_subcycles := 0\<rparr>"
    by (simp add: sound_ay_reset_def a1_def b_def Let_def)
  have "ay_change_count (sound_ay_reset a) = 16" "ay_change (sound_ay_reset a) = ay_change b" "env_counter (sound_ay_reset a) = 15"
    using b by (simp_all add: r upt_rec)
  moreover have "unat (of_nat i :: byte) < 16" if "i < 16" for i
    using masked_reg [of "of_nat i"] reset_reg [OF that] by simp
  ultimately show ?thesis using b(3) reset_reg by (auto simp: chip_ok_def reset_pending_def)
qed

section \<open>Properties\<close>

lemma pending_changes:
  assumes "\<forall>i < 6. ch_tstates (q i) = 0 \<and> ch_reg (q i) = of_nat i" "6 \<le> n" "\<forall>i < n. unat (ch_reg (q i)) < 16"
    "0 \<le> env_counter a" "env_counter a \<le> 15" "\<forall>i < 6. unat (ch_ofs (q i)) = 0"
  shows "\<exists>b. take_changes f (map q [0..<n]) a = take_changes f (map q [6..<n]) b \<and> ay_ok b"
proof -
  have six: "[0..<n] = [0, 1, 2, 3, 4, 5] @ [6..<n]"
    using assms(2) upt_add_eq_append [of 0 6 "n - 6"] by (simp add: upt_rec)
  have step: "\<exists>b. change_register (q i) a = Some b \<and> 0 \<le> env_counter b \<and> env_counter b \<le> 15 \<and>
      (\<forall>r. ay_tone_period a r \<noteq> 0 \<longrightarrow> ay_tone_period b r \<noteq> 0) \<and> ay_tone_period b (i div 2) \<noteq> 0"
    if "i < 6" "0 \<le> env_counter a" "env_counter a \<le> 15" for i a
  proof -
    have "unat (ch_reg (q i)) = i"
      using assms(1) that(1) by (simp add: unsigned_of_nat take_bit_nat_eq_self)
    then show ?thesis using change_register_ok [OF that(2,3), of "q i"] that(1) by auto
  qed
  obtain a0 where a0: "change_register (q 0) a = Some a0" "0 \<le> env_counter a0" "env_counter a0 \<le> 15"
    using step [of 0 a] assms(4,5) by auto
  obtain a1 where a1: "change_register (q 1) a0 = Some a1" "0 \<le> env_counter a1" "env_counter a1 \<le> 15"
    "ay_tone_period a1 0 \<noteq> 0" using step [of 1 a0] a0 by auto
  obtain a2 where a2: "change_register (q 2) a1 = Some a2" "0 \<le> env_counter a2" "env_counter a2 \<le> 15"
    "ay_tone_period a2 0 \<noteq> 0" using step [of 2 a1] a1 by auto
  obtain a3 where a3: "change_register (q 3) a2 = Some a3" "0 \<le> env_counter a3" "env_counter a3 \<le> 15"
    "ay_tone_period a3 0 \<noteq> 0" "ay_tone_period a3 1 \<noteq> 0" using step [of 3 a2] a2 by auto
  obtain a4 where a4: "change_register (q 4) a3 = Some a4" "0 \<le> env_counter a4" "env_counter a4 \<le> 15"
    "ay_tone_period a4 0 \<noteq> 0" "ay_tone_period a4 1 \<noteq> 0" using step [of 4 a3] a3 by auto
  obtain a5 where a5: "change_register (q 5) a4 = Some a5" "0 \<le> env_counter a5" "env_counter a5 \<le> 15"
    "ay_tone_period a5 0 \<noteq> 0" "ay_tone_period a5 1 \<noteq> 0" "ay_tone_period a5 2 \<noteq> 0" using step [of 5 a4] a4 by auto
  have "ay_ok a5" using a5 by (auto simp: ay_ok_def less_Suc_eq numeral_3_eq_3 numeral_2_eq_2)
  moreover have "take_changes f (map q [0..<n]) a = take_changes f (map q [6..<n]) a5"
    using assms(6) a0(1) a1(1) a2(1) a3(1) a4(1) a5(1) by (simp add: six)
  ultimately show ?thesis by blast
qed

text \<open>Up to the first sample the pending writes of a reset have given every tone a period.\<close>

lemma first_changes_queue:
  assumes "chip_ok a" "q = (\<lambda>i. change_offset sfreq cpufreq (ay_change a i))" "a0 = a\<lparr>ay_change := q'\<rparr>"
  shows "\<exists>cs b. take_changes f (map q [0..<ay_change_count a]) a0 = Some (cs, b) \<and>
    (\<forall>c \<in> set cs. unat (ch_reg c) < 16) \<and> ay_ok b"
proof -
  have c: "0 \<le> env_counter a0" "env_counter a0 \<le> 15" and r: "\<forall>i < ay_change_count a. unat (ch_reg (q i)) < 16"
    using assms(1) by (auto simp: chip_ok_def assms(2,3) change_offset_def)
  consider "\<forall>r < 3. ay_tone_period a0 r \<noteq> 0" | "reset_pending a" using assms(1) by (auto simp: chip_ok_def assms(3))
  then show ?thesis
  proof cases
    case 1
    have "\<forall>c \<in> set (map q [0..<ay_change_count a]). unat (ch_reg c) < 16" using r by auto
    then obtain cs b where t: "take_changes f (map q [0..<ay_change_count a]) a0 = Some (cs, b)"
      "set cs \<subseteq> set (map q [0..<ay_change_count a])" "0 \<le> env_counter b" "env_counter b \<le> 15"
      "\<forall>r. ay_tone_period a0 r \<noteq> 0 \<longrightarrow> ay_tone_period b r \<noteq> 0"
      using take_changes_ok [OF c] by blast
    have "ay_ok b" using t(3-5) 1 by (simp add: ay_ok_def)
    moreover have "\<forall>c \<in> set cs. unat (ch_reg c) < 16" using t(2) r by auto
    ultimately show ?thesis using t(1) by blast
  next
    case 2
    then have p: "\<forall>i < 6. ch_tstates (q i) = 0 \<and> ch_reg (q i) = of_nat i" "6 \<le> ay_change_count a"
      "\<forall>i < 6. unat (ch_ofs (q i)) = 0"
      by (auto simp: reset_pending_def assms(2) change_offset_def)
    obtain b where b: "take_changes f (map q [0..<ay_change_count a]) a0 = take_changes f (map q [6..<ay_change_count a]) b" "ay_ok b"
      using pending_changes [OF p(1,2) r c p(3)] by blast
    have "\<forall>c \<in> set (map q [6..<ay_change_count a]). unat (ch_reg c) < 16" using r by auto
    moreover have "0 \<le> env_counter b" "env_counter b \<le> 15" using b(2) by (simp_all add: ay_ok_def)
    ultimately obtain cs b' where t: "take_changes f (map q [6..<ay_change_count a]) b = Some (cs, b')"
      "set cs \<subseteq> set (map q [6..<ay_change_count a])" "0 \<le> env_counter b'" "env_counter b' \<le> 15"
      "\<forall>r. ay_tone_period b r \<noteq> 0 \<longrightarrow> ay_tone_period b' r \<noteq> 0"
      using take_changes_ok by blast
    have "ay_ok b'" using t(3-5) b(2) by (simp add: ay_ok_def)
    moreover have "\<forall>c \<in> set cs. unat (ch_reg c) < 16" using t(2) r by auto
    ultimately show ?thesis using t(1) b(1) by metis
  qed
qed

lemma sound_frame_ok:
  assumes "chip_ok a" "cpufreq \<noteq> 0" "0 < framesiz"
  shows "\<exists>vs b. sound_frame sfreq cpufreq framesiz a = Some (vs, b) \<and> length vs = framesiz \<and>
    (\<forall>(c1, c2, c3) \<in> set vs. \<bar>c1\<bar> \<le> AMPL_AY_TONE \<and> \<bar>c2\<bar> \<le> AMPL_AY_TONE \<and> \<bar>c3\<bar> \<le> AMPL_AY_TONE) \<and>
    ay_change_count b = 0 \<and> chip_ok b"
proof -
  define q where "q = (\<lambda>i. change_offset sfreq cpufreq (ay_change a i))"
  define a0 where "a0 = a\<lparr>ay_change := (\<lambda>i. if i < ay_change_count a then change_offset sfreq cpufreq (ay_change a i) else ay_change a i)\<rparr>"
  have q: "map (ay_change a0) [0..<ay_change_count a0] = map q [0..<ay_change_count a]"
    by (simp add: a0_def q_def)
  obtain n where n: "framesiz = Suc n" using assms(3) gr0_implies_Suc by blast
  have "\<exists>cs b. take_changes 0 (map q [0..<ay_change_count a]) a0 = Some (cs, b) \<and>
      (\<forall>c \<in> set cs. unat (ch_reg c) < 16) \<and> ay_ok b"
    by (rule first_changes_queue [OF assms(1) q_def a0_def])
  then obtain cs b where t: "take_changes 0 (map q [0..<ay_change_count a]) a0 = Some (cs, b)"
    "\<forall>c \<in> set cs. unat (ch_reg c) < 16" "ay_ok b" by blast
  obtain c1 c2 c3 b1 where v: "ay_sample b = Some ((c1, c2, c3), b1)" "ay_ok b1" "in_range c1" "in_range c2" "in_range c3"
    using sample_ok [OF t(3)] by blast
  obtain vs b2 where r: "ay_samples (Suc 0) n cs b1 = Some (vs, b2)" "length vs = n" "ay_ok b2"
    "\<forall>(c1, c2, c3) \<in> set vs. in_range c1 \<and> in_range c2 \<and> in_range c3"
    using samples_ok [OF v(2) t(2)] by blast
  have "sound_ay_overlay sfreq cpufreq framesiz a = ay_samples 0 framesiz (map (ay_change a0) [0..<ay_change_count a0]) a0"
    using assms(2) by (simp add: sound_ay_overlay_def a0_def)
  also have "\<dots> = Some ((c1, c2, c3) # vs, b2)" unfolding q n using t(1) v(1) r(1) by simp
  finally have "sound_frame sfreq cpufreq framesiz a = Some ((c1, c2, c3) # vs, b2\<lparr>ay_change_count := 0\<rparr>)"
    by (simp add: sound_frame_def)
  moreover have "chip_ok (b2\<lparr>ay_change_count := 0\<rparr>)" using r(3) by (simp add: chip_ok_def ay_ok_def)
  ultimately show ?thesis using v(3-5) r(2,4) n by (auto simp: in_range_def)
qed

text \<open>C13: Generating a batch ends.  From any state the card can bring a chip to (by resets and register
  writes) the generator returns the requested number of samples, each within the amplitude of a channel,
  empties the queue, and leaves every tone with a period, so the next batch ends too.\<close>

theorem sound_frame_returns:
  assumes "chip_ok a" "cpufreq \<noteq> 0" "0 < framesiz"
  shows "\<exists>vs b. sound_frame sfreq cpufreq framesiz a = Some (vs, b) \<and> length vs = framesiz \<and>
    (\<forall>(c1, c2, c3) \<in> set vs. \<bar>c1\<bar> \<le> AMPL_AY_TONE \<and> \<bar>c2\<bar> \<le> AMPL_AY_TONE \<and> \<bar>c3\<bar> \<le> AMPL_AY_TONE) \<and>
    ay_change_count b = 0 \<and> chip_ok b"
  by (rule sound_frame_ok [OF assms])

definition fresh_ay :: ay8910 where
  "fresh_ay = \<lparr>ay_tone_tick = (\<lambda>_. 0), ay_tone_high = (\<lambda>_. 0), ay_noise_tick = 0, ay_tone_subcycles = 0,
     ay_env_subcycles = 0, ay_env_internal_tick = 0, ay_env_tick = 0, ay_tick_incr = 0, ay_tone_period = (\<lambda>_. 0),
     ay_noise_period = 0, ay_env_period = 0, sound_ay_registers = (\<lambda>_. 0),
     ay_change = (\<lambda>_. \<lparr>ch_tstates = 0, ch_ofs = 0, ch_reg = 0, ch_val = 0\<rparr>), ay_change_count = 0,
     rng = 0, noise_toggle = 0, env_first = 0, env_rev = 0, env_counter = 0\<rparr>"

theorem sound_frame_returns_witness:
  "\<exists>vs b. sound_frame 882 20454 735 (sound_ay_write 7 0x38 100 (sound_ay_reset fresh_ay)) = Some (vs, b) \<and>
    length vs = 735 \<and> ay_change_count b = 0"
proof -
  have "chip_ok (sound_ay_write 7 0x38 100 (sound_ay_reset fresh_ay))" by (rule write_chip_ok [OF reset_chip_ok])
  from sound_frame_returns [OF this, of 20454 735 882] show ?thesis by auto
qed

text \<open>With a tone of period zero the edge loop never ends.\<close>

lemma tone_period_zero:
  assumes "ay_tone_period a chan = 0"
  shows "tone_loop chan level tc is_low count v a = None"
proof -
  have "ay_tone_period a chan \<noteq> 0" if "tone_loop chan level tc is_low count v a = Some y" for y
    using that
  proof (rule tone_loop.raw_induct [rotated])
    fix f chan level tc is_low count v a y
    assume IH: "\<And>chan level tc is_low count v a y. f chan level tc is_low count v a = Some y \<Longrightarrow> ay_tone_period a chan \<noteq> 0"
      and e: "(if ay_tone_period a chan \<le> ay_tone_tick a chan then
         (let a = a\<lparr>ay_tone_tick := (ay_tone_tick a)(chan := ay_tone_tick a chan - ay_tone_period a chan),
              ay_tone_high := (ay_tone_high a)(chan := not_flag (ay_tone_high a chan))\<rparr>;
            sub = AY_GET_SUBVAL level (ay_tone_tick a chan) tc;
            v = (if count = 0 \<and> level \<noteq> 0 \<and> ay_tone_tick a chan < tc
                 then add_unsigned v (if is_low then sub else - sub) else v)
          in f chan level tc is_low (count + 1) v a)
        else Some (count, v, a)) = Some y"
    show "ay_tone_period a chan \<noteq> 0"
    proof (cases "ay_tone_period a chan \<le> ay_tone_tick a chan")
      case True
      then show ?thesis using IH [OF e [unfolded if_P [OF True] Let_def]] by simp
    next
      case False
      then show ?thesis by auto
    qed
  qed
  then show ?thesis using assms by (cases "tone_loop chan level tc is_low count v a") auto
qed



end
