(* ===== verification/A2_Mockingboard.thy ===== *)
theory A2_Mockingboard
  imports A2_AY8910 A2_Cpu A2_Video
begin

text \<open>
  The Mockingboard and Phasor sound cards (\<^verbatim>\<open>audio/mockingboard.c\<close> and the card interface at
  the end of \<^verbatim>\<open>audio/AY8910.c\<close>): four 6522 interface adapters, each in front of a sound
  chip, the timer that interrupts the CPU, and the generation of sound batches.

  \<open>None\<close> is a failed assertion, an access outside an array or a loop that does not end.  Whether
  assertions of the card are compiled in (\<^verbatim>\<open>mb_assert\<close>), the audio backend, the
  conversions in floating point and the emulator's speed are the parameters in \<open>mb_env\<close>.
\<close>

section \<open>State\<close>

record sy6522 =
  ORB :: byte
  ORA :: byte
  DDRB :: byte
  DDRA :: byte
  TIMER1_COUNTER :: addr
  TIMER1_LATCH :: addr
  TIMER2_COUNTER :: addr
  TIMER2_LATCH :: addr
  SERIAL_SHIFT :: byte
  ACR :: byte
  PCR :: byte
  IFR :: byte
  IER :: byte
  ORA_NO_HS :: byte

record ssi263 =
  DurationPhoneme :: byte
  Inflection :: byte
  RateInflection :: byte
  CtrlArtAmp :: byte
  FilterFreq :: byte
  CurrentMode :: byte

record mb_unit =
  sy :: sy6522
  nAY8910Number :: byte
  nAYCurrentRegister :: byte
  nTimerStatus :: byte
  SpeechChip :: ssi263

datatype cardtype = CT_Empty | CT_MockingboardC | CT_Phasor

text \<open>\<open>mb_last_cycles\<close> and \<open>ay_last_cycles\<close> are the two variables called \<open>g_uLastCumulativeCycles\<close>,
  of the card and of the chips; \<open>submitted\<close> is what the audio backend was given.\<close>

record mockingboard =
  g_MB :: "nat \<Rightarrow> mb_unit"
  g_n6522TimerPeriod :: nat
  g_nMBTimerDevice :: u32
  mb_last_cycles :: nat
  g_nMB_InActiveCycleCount :: nat
  g_bMB_RegAccessedFlag :: bool
  g_bMB_Active :: bool
  g_bMBTimerIrqActive :: bool
  g_SoundcardType :: cardtype
  g_bPhasorEnable :: bool
  g_nPhasorMode :: byte
  g_PhasorClockScaleFactor :: nat
  g_Slot4 :: cardtype
  g_Slot5 :: cardtype
  g_bDisableDirectSoundMockingboard :: bool
  nNumSamplesError :: int
  g_AY8910 :: "nat \<Rightarrow> ay8910"
  ay_last_cycles :: nat
  m_fCurrentCLK_AY8910 :: nat
  sound_generator_freq :: nat
  mb_video :: video
  mb_cpu :: cpu65
  submitted :: "int list"

record mb_env =
  NDEBUG :: bool
  audio_isAvailable :: bool
  voice :: "bool option"
  is_fullspeed :: bool
  cycles_persec_target :: nat
  SAMPLE_RATE :: nat
  samples_per_period :: "nat option \<Rightarrow> nat"
  attenuate :: "int \<Rightarrow> int"
  scale_sample :: "int \<Rightarrow> int"
  tick_incr :: "nat \<Rightarrow> u32"
  play_cursor :: "int option"
  buffer_size :: nat
  bytes_per_sample :: nat
  lock :: "nat \<Rightarrow> nat \<Rightarrow> nat option"
  ds_init :: bool

definition NUM_SY6522 :: nat where "NUM_SY6522 = 4"
definition NUM_VOICES_PER_AY8910 :: nat where "NUM_VOICES_PER_AY8910 = 3"
definition TIMERDEVICE_INVALID :: u32 where "TIMERDEVICE_INVALID = -1"
definition SOUNDCORE_ERROR_INC :: int where "SOUNDCORE_ERROR_INC = 20"

definition IxR_TIMER2 :: byte where "IxR_TIMER2 = 0x20"
definition IxR_TIMER1 :: byte where "IxR_TIMER1 = 0x40"
definition RUNMODE :: byte where "RUNMODE = 0x40"

text \<open>The two halves of \<open>IWORD\<close>.\<close>

definition iw_l :: "addr \<Rightarrow> byte" where "iw_l w = ucast w"
definition iw_h :: "addr \<Rightarrow> byte" where "iw_h w = ucast (drop_bit 8 w)"
definition set_iw_l :: "byte \<Rightarrow> addr \<Rightarrow> addr" where "set_iw_l b w = (w AND 0xFF00) OR ucast b"
definition set_iw_h :: "byte \<Rightarrow> addr \<Rightarrow> addr" where "set_iw_h b w = (w AND 0x00FF) OR push_bit 8 (ucast b)"

definition upd_mb :: "nat \<Rightarrow> (mb_unit \<Rightarrow> mb_unit) \<Rightarrow> mockingboard \<Rightarrow> mockingboard" where
  "upd_mb i f m = m\<lparr>g_MB := (g_MB m)(i := f (g_MB m i))\<rparr>"

definition upd_sy :: "nat \<Rightarrow> (sy6522 \<Rightarrow> sy6522) \<Rightarrow> mockingboard \<Rightarrow> mockingboard" where
  "upd_sy i f = upd_mb i (\<lambda>u. u\<lparr>sy := f (sy u)\<rparr>)"

abbreviation sy_of :: "mockingboard \<Rightarrow> nat \<Rightarrow> sy6522" where
  "sy_of m i \<equiv> sy (g_MB m i)"

text \<open>\<open>mb_assert(false)\<close>: nothing in a release build.\<close>

definition mb_assert_false :: "mb_env \<Rightarrow> 'a \<Rightarrow> 'a option" where
  "mb_assert_false env r = (if NDEBUG env then Some r else None)"

section \<open>The sound chips\<close>

definition HZ_COMMON_DENOMINATOR :: nat where "HZ_COMMON_DENOMINATOR = 25"

definition upd_ay :: "nat \<Rightarrow> (ay8910 \<Rightarrow> ay8910) \<Rightarrow> mockingboard \<Rightarrow> mockingboard option" where
  "upd_ay chip f m = (if chip < 4 then Some (m\<lparr>g_AY8910 := (g_AY8910 m)(chip := f (g_AY8910 m chip))\<rparr>) else None)"

definition total_cycles :: "mockingboard \<Rightarrow> nat" where
  "total_cycles m = cycles_count_total (mb_video m)"

definition AYWriteReg :: "nat \<Rightarrow> byte \<Rightarrow> byte \<Rightarrow> mockingboard \<Rightarrow> mockingboard option" where
  "AYWriteReg chip r v m =
    upd_ay chip (sound_ay_write (unat r) v (of_nat (total_cycles m) - of_nat (ay_last_cycles m))) m"

definition AY8910_reset :: "nat \<Rightarrow> mockingboard \<Rightarrow> mockingboard option" where
  "AY8910_reset chip = upd_ay chip sound_ay_reset"

definition AY8910UpdateSetCycles :: "mockingboard \<Rightarrow> mockingboard" where
  "AY8910UpdateSetCycles m = m\<lparr>ay_last_cycles := total_cycles m\<rparr>"

text \<open>The three buffers of the chip hold one second; the samples are returned.\<close>

definition AY8910Update :: "mb_env \<Rightarrow> nat \<Rightarrow> nat \<Rightarrow> mockingboard \<Rightarrow> ((int \<times> int \<times> int) list \<times> mockingboard) option" where
  "AY8910Update env chip n m =
    (let m = AY8910UpdateSetCycles m in
     if SAMPLE_RATE env < n then None
     else do {
       (vs, a) \<leftarrow> sound_frame (sound_generator_freq m div HZ_COMMON_DENOMINATOR)
         (m_fCurrentCLK_AY8910 m div HZ_COMMON_DENOMINATOR) n (g_AY8910 m chip);
       m \<leftarrow> upd_ay chip (\<lambda>_. a) m;
       Some (vs, m) })"

definition sound_init :: "mb_env \<Rightarrow> nat \<Rightarrow> mockingboard \<Rightarrow> mockingboard" where
  "sound_init env chip m = m\<lparr>sound_generator_freq := SAMPLE_RATE env,
     g_AY8910 := (g_AY8910 m)(chip := (g_AY8910 m chip)\<lparr>ay_tick_incr := tick_incr env (m_fCurrentCLK_AY8910 m)\<rparr>)\<rparr>"

definition AY8910_InitAll :: "mb_env \<Rightarrow> mockingboard \<Rightarrow> mockingboard" where
  "AY8910_InitAll env = fold (\<lambda>i m. let m = sound_init env i m in
     m\<lparr>g_AY8910 := (g_AY8910 m)(i := sound_ay_init (g_AY8910 m i))\<rparr>) [0..<4]"

definition AY8910_InitClock :: "mb_env \<Rightarrow> nat \<Rightarrow> mockingboard \<Rightarrow> mockingboard" where
  "AY8910_InitClock env nClock m = fold (sound_init env) [0..<4] (m\<lparr>m_fCurrentCLK_AY8910 := nClock\<rparr>)"

section \<open>The timer and the interrupt line\<close>

definition StartTimer :: "nat \<Rightarrow> mockingboard \<Rightarrow> mockingboard" where
  "StartTimer i m =
    (if nAY8910Number (g_MB m i) AND 1 \<noteq> 0 then m
     else if IER (sy_of m i) AND IxR_TIMER1 = 0 then m
     else (upd_mb i (\<lambda>u. u\<lparr>nTimerStatus := 1\<rparr>) m)
       \<lparr>g_n6522TimerPeriod := unat (TIMER1_LATCH (sy_of m i)),
        g_bMBTimerIrqActive := True,
        g_nMBTimerDevice := ucast (nAY8910Number (g_MB m i))\<rparr>)"

definition StopTimer :: "nat \<Rightarrow> mockingboard \<Rightarrow> mockingboard" where
  "StopTimer i m = (upd_mb i (\<lambda>u. u\<lparr>nTimerStatus := 0\<rparr>) m)
     \<lparr>g_bMBTimerIrqActive := False, g_nMBTimerDevice := TIMERDEVICE_INVALID\<rparr>"

definition cleared_sy6522 :: sy6522 where
  "cleared_sy6522 = \<lparr>ORB = 0, ORA = 0, DDRB = 0, DDRA = 0, TIMER1_COUNTER = 0, TIMER1_LATCH = 0,
     TIMER2_COUNTER = 0, TIMER2_LATCH = 0, SERIAL_SHIFT = 0, ACR = 0, PCR = 0, IFR = 0, IER = 0, ORA_NO_HS = 0\<rparr>"

definition ResetSY6522 :: "nat \<Rightarrow> mockingboard \<Rightarrow> mockingboard" where
  "ResetSY6522 i m =
    (let m = upd_sy i (\<lambda>_. cleared_sy6522) m;
         m = (if nTimerStatus (g_MB m i) \<noteq> 0 then StopTimer i m else m)
     in upd_mb i (\<lambda>u. u\<lparr>nAYCurrentRegister := 0\<rparr>) m)"

definition UpdateIFR :: "nat \<Rightarrow> mockingboard \<Rightarrow> mockingboard" where
  "UpdateIFR i m =
    (let m = upd_sy i (\<lambda>s. s\<lparr>IFR := IFR s AND 0x7F\<rparr>) m;
         m = (if IFR (sy_of m i) AND IER (sy_of m i) AND 0x7F \<noteq> 0
              then upd_sy i (\<lambda>s. s\<lparr>IFR := IFR s OR 0x80\<rparr>) m else m);
         bIRQ = fold (\<lambda>j b. b OR (IFR (sy_of m j) AND 0x80)) [0..<NUM_SY6522] 0
     in if bIRQ \<noteq> 0 then m\<lparr>mb_cpu := cpu65_interrupt IRQ6522 (mb_cpu m)\<rparr>
        else m\<lparr>mb_cpu := cpu65_uninterrupt IRQ6522 (mb_cpu m)\<rparr>)"

section \<open>The 6522 registers\<close>

text \<open>The control lines of port B select the function of the chip: bit 2 is the reset line (active
  low), bit 1 is BDIR, bit 0 is BC1; BC2 is wired to +5V.\<close>

definition AY8910_Write :: "nat \<Rightarrow> byte \<Rightarrow> nat \<Rightarrow> mockingboard \<Rightarrow> mockingboard option" where
  "AY8910_Write nDevice nValue nAYDevice m =
    (let m = m\<lparr>g_bMB_RegAccessedFlag := True\<rparr> in
     if nValue AND 4 = 0 then AY8910_reset (nDevice + 2 * nAYDevice) m
     else
       (let nBDIR = (if nValue AND 2 \<noteq> 0 then 1 else 0 :: nat);
            nBC1 = unat (nValue AND 1);
            nAYFunc = nBDIR * 4 + 2 + nBC1;
            u = g_MB m nDevice
        in if nAYFunc = 2 \<or> nAYFunc = 3 then Some m
           else if nAYFunc = 6 then AYWriteReg (nDevice + 2 * nAYDevice) (nAYCurrentRegister u) (ORA (sy u)) m
           else if nAYFunc = 7 then
             Some (if ORA (sy u) \<le> 0x0F
                   then upd_mb nDevice (\<lambda>u. u\<lparr>nAYCurrentRegister := ORA (sy u) AND 0x0F\<rparr>) m else m)
           else None))"

definition write_orb :: "mb_env \<Rightarrow> nat \<Rightarrow> byte \<Rightarrow> mockingboard \<Rightarrow> mockingboard option" where
  "write_orb env i v m =
    (let v = v AND DDRB (sy_of m i);
         m = upd_sy i (\<lambda>s. s\<lparr>ORB := v\<rparr>) m
     in if DDRB (sy_of m i) = 0xFF \<and> PCR (sy_of m i) = 0xB0 then mb_assert_false env m
        else if g_bPhasorEnable m then
          (let nAY_CS = (if g_nPhasorMode m AND 1 \<noteq> 0 then NOT (drop_bit 3 v) AND 3 else 1) in do {
             m \<leftarrow> (if nAY_CS AND 1 \<noteq> 0 then AY8910_Write i v 0 m else Some m);
             if nAY_CS AND 2 \<noteq> 0 then AY8910_Write i v 1 m else Some m })
        else AY8910_Write i v 0 m)"

definition write_ier :: "nat \<Rightarrow> byte \<Rightarrow> mockingboard \<Rightarrow> mockingboard" where
  "write_ier i v m =
    (if v AND 0x80 = 0 then
       (let m = UpdateIFR i (upd_sy i (\<lambda>s. s\<lparr>IER := IER s AND (v XOR 0x7F)\<rparr>) m)
        in if IER (sy_of m i) AND IxR_TIMER1 \<noteq> 0 then m
           else if nTimerStatus (g_MB m i) = 0 then m
           else StopTimer i m)
     else StartTimer i (UpdateIFR i (upd_sy i (\<lambda>s. s\<lparr>IER := IER s OR (v AND 0x7F)\<rparr>) m)))"

definition clear_ifr :: "nat \<Rightarrow> byte \<Rightarrow> mockingboard \<Rightarrow> mockingboard" where
  "clear_ifr i flag m = UpdateIFR i (upd_sy i (\<lambda>s. s\<lparr>IFR := IFR s AND NOT flag\<rparr>) m)"

definition SY6522_Write :: "mb_env \<Rightarrow> nat \<Rightarrow> nat \<Rightarrow> byte \<Rightarrow> mockingboard \<Rightarrow> mockingboard option" where
  "SY6522_Write env i r v m =
    (let m = m\<lparr>g_bMB_Active := True\<rparr> in
     if NUM_SY6522 \<le> i then None
     else if r = 0x0 then write_orb env i v m
     else Some
      (if r = 0x1 then upd_sy i (\<lambda>s. s\<lparr>ORA := v AND DDRA s\<rparr>) m
       else if r = 0x2 then upd_sy i (\<lambda>s. s\<lparr>DDRB := v\<rparr>) m
       else if r = 0x3 then upd_sy i (\<lambda>s. s\<lparr>DDRA := v\<rparr>) m
       else if r = 0x4 \<or> r = 0x6 then upd_sy i (\<lambda>s. s\<lparr>TIMER1_LATCH := set_iw_l v (TIMER1_LATCH s)\<rparr>) m
       else if r = 0x5 then
         (let m = clear_ifr i IxR_TIMER1 m;
              m = upd_sy i (\<lambda>s. s\<lparr>TIMER1_LATCH := set_iw_h v (TIMER1_LATCH s)\<rparr>) m;
              m = upd_sy i (\<lambda>s. s\<lparr>TIMER1_COUNTER := TIMER1_LATCH s\<rparr>) m
          in StartTimer i m)
       else if r = 0x7 then
         clear_ifr i IxR_TIMER1 (upd_sy i (\<lambda>s. s\<lparr>TIMER1_LATCH := set_iw_h v (TIMER1_LATCH s)\<rparr>) m)
       else if r = 0x8 then upd_sy i (\<lambda>s. s\<lparr>TIMER2_LATCH := set_iw_l v (TIMER2_LATCH s)\<rparr>) m
       else if r = 0x9 then
         (let m = clear_ifr i IxR_TIMER2 m;
              m = upd_sy i (\<lambda>s. s\<lparr>TIMER2_LATCH := set_iw_h v (TIMER2_LATCH s)\<rparr>) m
          in upd_sy i (\<lambda>s. s\<lparr>TIMER2_COUNTER := TIMER2_LATCH s\<rparr>) m)
       else if r = 0xb then upd_sy i (\<lambda>s. s\<lparr>ACR := v\<rparr>) m
       else if r = 0xc then upd_sy i (\<lambda>s. s\<lparr>PCR := v\<rparr>) m
       else if r = 0xd then UpdateIFR i (upd_sy i (\<lambda>s. s\<lparr>IFR := IFR s AND ((v OR 0x80) XOR 0x7F)\<rparr>) m)
       else if r = 0xe then write_ier i v m
       else m))"

definition SY6522_Read :: "nat \<Rightarrow> nat \<Rightarrow> mockingboard \<Rightarrow> (byte \<times> mockingboard) option" where
  "SY6522_Read i r m =
    (let m = m\<lparr>g_bMB_Active := True\<rparr>; s = sy_of m i in
     if NUM_SY6522 \<le> i then None
     else Some
      (if r = 0x0 then (ORB s, m)
       else if r = 0x1 then (ORA s, m)
       else if r = 0x2 then (DDRB s, m)
       else if r = 0x3 then (DDRA s, m)
       else if r = 0x4 then (iw_l (TIMER1_COUNTER s), clear_ifr i IxR_TIMER1 m)
       else if r = 0x5 then (iw_h (TIMER1_COUNTER s), m)
       else if r = 0x6 then (iw_l (TIMER1_LATCH s), m)
       else if r = 0x7 then (iw_h (TIMER1_LATCH s), m)
       else if r = 0x8 then (iw_l (TIMER2_COUNTER s), clear_ifr i IxR_TIMER2 m)
       else if r = 0x9 then (iw_h (TIMER2_COUNTER s), m)
       else if r = 0xb then (ACR s, m)
       else if r = 0xc then (PCR s, m)
       else if r = 0xd then (IFR s, m)
       else if r = 0xe then (0x80, m)
       else if r = 0xf then (ORA s, m)
       else (0, m)))"

section \<open>Generating sound\<close>

text \<open>The period of a batch is the timer's when the timer runs or has interrupted (\<open>Some\<close>), else the
  frame's (\<open>None\<close>); how many samples that is, is computed in floating point.\<close>

definition MB_GetFramePeriod :: "mockingboard \<Rightarrow> nat option" where
  "MB_GetFramePeriod m =
    (if g_bMBTimerIrqActive m \<or> IFR (sy_of m 0) AND IxR_TIMER1 \<noteq> 0 then Some (g_n6522TimerPeriod m) else None)"

definition note_activity :: "mb_env \<Rightarrow> mockingboard \<Rightarrow> mockingboard" where
  "note_activity env m =
    (if \<not> g_bMB_RegAccessedFlag m then
       (if g_nMB_InActiveCycleCount m = 0 then m\<lparr>g_nMB_InActiveCycleCount := total_cycles m\<rparr>
        else if nat ((int (total_cycles m) - int (g_nMB_InActiveCycleCount m)) mod 2 ^ 64) > cycles_persec_target env div 10
        then m\<lparr>g_bMB_Active := False\<rparr> else m)
     else m\<lparr>g_nMB_InActiveCycleCount := 0, g_bMB_RegAccessedFlag := False, g_bMB_Active := True\<rparr>)"

definition num_samples :: "mb_env \<Rightarrow> mockingboard \<Rightarrow> nat" where
  "num_samples env m =
    (let per = samples_per_period env (MB_GetFramePeriod m);
         n = int per + nNumSamplesError m;
         n = (if n \<le> 0 then 0 else n)
     in nat (if n > 2 * int per then 2 * int per else n))"

fun update_chips :: "mb_env \<Rightarrow> nat \<Rightarrow> nat list \<Rightarrow> mockingboard \<Rightarrow> ((int \<times> int \<times> int) list list \<times> mockingboard) option" where
  "update_chips env n [] m = Some ([], m)"
| "update_chips env n (chip # chips) m = do {
     (vs, m) \<leftarrow> AY8910Update env chip n m;
     (vss, m) \<leftarrow> update_chips env n chips m;
     Some (vs # vss, m) }"

definition adjust_error :: "mb_env \<Rightarrow> int \<Rightarrow> mockingboard \<Rightarrow> mockingboard" where
  "adjust_error env remaining m =
    (if remaining < int (buffer_size env div 4) then m\<lparr>nNumSamplesError := nNumSamplesError m + SOUNDCORE_ERROR_INC\<rparr>
     else if remaining > int (buffer_size env div 2) then m\<lparr>nNumSamplesError := nNumSamplesError m - SOUNDCORE_ERROR_INC\<rparr>
     else m\<lparr>nNumSamplesError := 0\<rparr>)"

definition voices_of :: "int \<times> int \<times> int \<Rightarrow> int list" where
  "voices_of v = (case v of (a, b, c) \<Rightarrow> [a, b, c])"

definition cap_int16 :: "int \<Rightarrow> int" where
  "cap_int16 d = (if d < -32768 then -32768 else if d > 32767 then 32767 else d)"

text \<open>The left channel is the first chip of each card, the right channel the second.\<close>

definition mix_sample :: "mb_env \<Rightarrow> bool \<Rightarrow> (int \<times> int \<times> int) list list \<Rightarrow> nat \<Rightarrow> int list" where
  "mix_sample env phasor bufs i =
    (let att = (if phasor then attenuate env else (\<lambda>x. x));
         dat = (\<lambda>chip. sum_list (map att (voices_of (bufs ! chip ! i))));
         nDataL = cap_int16 (dat 0 + dat 2);
         nDataR = cap_int16 (dat 1 + dat 3)
     in [scale_sample env nDataL, scale_sample env nDataR])"

text \<open>\<open>MB_DSInit\<close> allocates \<open>g_dwDSBufferSize / bytesPerSample\<close> bytes for the 16 bit samples.\<close>

definition mix_buffer_len :: "mb_env \<Rightarrow> nat" where
  "mix_buffer_len env = buffer_size env div bytes_per_sample env div 2"

text \<open>At most two attempts to hand the samples over; a failed lock gives up.\<close>

fun submit_samples :: "mb_env \<Rightarrow> nat \<Rightarrow> int list \<Rightarrow> nat \<Rightarrow> nat \<Rightarrow> mockingboard \<Rightarrow> mockingboard option" where
  "submit_samples env 0 mix bufIdx requested m = Some m"
| "submit_samples env (Suc tries) mix bufIdx requested m =
    (case lock env tries requested of None \<Rightarrow> Some m
     | Some granted \<Rightarrow>
         if granted mod 2 \<noteq> 0 \<or> requested < granted then None
         else
           (let m = m\<lparr>submitted := submitted m @ take (granted div 2) (drop (bufIdx div 2) mix)\<rparr>;
                bufIdx = bufIdx + granted
            in if bufIdx < 2 * length mix then submit_samples env tries mix bufIdx (requested - granted) m
               else Some m))"

definition output_samples :: "mb_env \<Rightarrow> nat \<Rightarrow> (int \<times> int \<times> int) list list \<Rightarrow> mockingboard \<Rightarrow> mockingboard option" where
  "output_samples env n bufs m =
    (case play_cursor env of None \<Rightarrow> Some m
     | Some cursor \<Rightarrow>
         (let remaining = (if cursor < 0 then cursor + int (buffer_size env) else cursor) in
          if remaining < 0 then None
          else
            (let m = adjust_error env remaining m in
             if n = 0 then Some m
             else if mix_buffer_len env < 2 * n then None
             else
               (let mix = concat (map (mix_sample env (g_bPhasorEnable m) bufs) [0..<n])
                in submit_samples env 2 mix 0 (4 * n) m))))"

definition MB_Update :: "mb_env \<Rightarrow> mockingboard \<Rightarrow> mockingboard option" where
  "MB_Update env m =
    (if \<not> audio_isAvailable env \<or> voice env \<noteq> Some True then Some m
     else if is_fullspeed env then Some (AY8910UpdateSetCycles m)
     else
       (let m = note_activity env m; n = num_samples env m in do {
          (bufs, m) \<leftarrow> (if n \<noteq> 0 then update_chips env n [0..<4] m else Some ([], m));
          output_samples env n bufs m }))"

section \<open>The clock of the card\<close>

definition mb_checkpoint :: "mockingboard \<Rightarrow> mockingboard option" where
  "mb_checkpoint m = (case timing_checkpointCycles (mb_video m) of None \<Rightarrow> None | Some v \<Rightarrow> Some (m\<lparr>mb_video := v\<rparr>))"

text \<open>One adapter's counters go down by the clocks passed; an underflow of the first timer interrupts.\<close>

definition clock_unit :: "mb_env \<Rightarrow> addr \<Rightarrow> nat \<Rightarrow> mockingboard \<Rightarrow> mockingboard option" where
  "clock_unit env nClocks i m =
    (let OldTimer1 = TIMER1_COUNTER (sy_of m i);
         m = upd_sy i (\<lambda>s. s\<lparr>TIMER1_COUNTER := TIMER1_COUNTER s - nClocks, TIMER2_COUNTER := TIMER2_COUNTER s - nClocks\<rparr>) m;
         bTimer1Underflow = (OldTimer1 AND 0x8000 = 0 \<and> TIMER1_COUNTER (sy_of m i) AND 0x8000 \<noteq> 0)
     in if bTimer1Underflow \<and> g_nMBTimerDevice m = of_nat i \<and> g_bMBTimerIrqActive m then
          (let m = UpdateIFR i (upd_sy i (\<lambda>s. s\<lparr>IFR := IFR s OR IxR_TIMER1\<rparr>) m);
               m = (if ACR (sy_of m i) AND RUNMODE = 0 then StopTimer i m
                    else StartTimer i (upd_sy i (\<lambda>s. s\<lparr>TIMER1_COUNTER := TIMER1_LATCH s\<rparr>) m))
           in MB_Update env m)
        else if bTimer1Underflow \<and> \<not> g_bMBTimerIrqActive m \<and> IFR (sy_of m i) AND IxR_TIMER1 \<noteq> 0 \<and>
            ACR (sy_of m i) AND RUNMODE = 0 then
          Some (clear_ifr i IxR_TIMER1 m)
        else Some m)"

fun clock_units :: "mb_env \<Rightarrow> addr \<Rightarrow> nat list \<Rightarrow> mockingboard \<Rightarrow> mockingboard option" where
  "clock_units env nClocks [] m = Some m"
| "clock_units env nClocks (i # is) m = clock_unit env nClocks i m \<bind> clock_units env nClocks is"

definition MB_UpdateCycles :: "mb_env \<Rightarrow> mockingboard \<Rightarrow> mockingboard option" where
  "MB_UpdateCycles env m =
    (if g_SoundcardType m = CT_Empty then Some m
     else do {
       m \<leftarrow> mb_checkpoint m;
       let uCycles = (int (total_cycles m) - int (mb_last_cycles m)) mod 2 ^ 64;
       let m = m\<lparr>mb_last_cycles := total_cycles m\<rparr>;
       let uCycles = (if uCycles \<ge> 0x10000 then uCycles mod 0x10000 else uCycles);
       let nClocks = (word_of_int uCycles :: addr);
       if nClocks = 0 then Some m else clock_units env nClocks [0..<NUM_SY6522] m })"

definition MB_StartOfCpuExecute :: "mockingboard \<Rightarrow> mockingboard" where
  "MB_StartOfCpuExecute m = m\<lparr>mb_last_cycles := total_cycles m\<rparr>"

definition MB_EndOfVideoFrame :: "mb_env \<Rightarrow> mockingboard \<Rightarrow> mockingboard option" where
  "MB_EndOfVideoFrame env m =
    (if g_SoundcardType m = CT_Empty then Some m
     else if \<not> g_bMBTimerIrqActive m then MB_Update env m else Some m)"

section \<open>The bus\<close>

definition chip_selects :: "addr \<Rightarrow> mockingboard \<Rightarrow> byte" where
  "chip_selects ea m =
    (if g_nPhasorMode m AND 1 \<noteq> 0 then ucast (drop_bit 6 (ea AND 0x80) OR drop_bit 4 (ea AND 0x10))
     else ucast (drop_bit 7 (ea AND 0x80) + 1))"

definition card_number :: "addr \<Rightarrow> byte" where
  "card_number ea = ucast (drop_bit 8 ea AND 0xf) - 4"

text \<open>The answer of a read is \<open>None\<close> where the code reads the floating bus.\<close>

definition MB_Read :: "mb_env \<Rightarrow> addr \<Rightarrow> mockingboard \<Rightarrow> (byte option \<times> mockingboard) option" where
  "MB_Read env ea m = do {
     m \<leftarrow> MB_UpdateCycles env m;
     let nMB = unat (card_number ea);
     let nOffset = unat (ea AND 0xff);
     let r = unat (ea AND 0xf);
     if g_bPhasorEnable m then
       (if nMB \<noteq> 0 then Some (None, m)
        else do {
          let CS = chip_selects ea m;
          (a, m) \<leftarrow> (if CS AND 1 \<noteq> 0 then SY6522_Read (2 * nMB) r m else Some (0, m));
          (b, m) \<leftarrow> (if CS AND 2 \<noteq> 0 then SY6522_Read (2 * nMB + 1) r m else Some (0, m));
          let ssi = (0x40 \<le> nOffset \<and> nOffset \<le> 0x45);
          m \<leftarrow> (if ssi then mb_assert_false env m else Some m);
          Some (if CS AND 3 \<noteq> 0 \<or> ssi then Some (a OR b) else None, m) })
     else if nOffset \<le> 0x0F then map_option (\<lambda>(b, m). (Some b, m)) (SY6522_Read (2 * nMB) r m)
     else if 0x80 \<le> nOffset \<and> nOffset \<le> 0x8F then map_option (\<lambda>(b, m). (Some b, m)) (SY6522_Read (2 * nMB + 1) r m)
     else if 0x40 \<le> nOffset \<and> nOffset \<le> 0x45 then mb_assert_false env (None, m)
     else Some (None, m) }"

definition MB_Write :: "mb_env \<Rightarrow> addr \<Rightarrow> byte \<Rightarrow> mockingboard \<Rightarrow> mockingboard option" where
  "MB_Write env ea v m = do {
     m \<leftarrow> MB_UpdateCycles env m;
     let nMB = unat (card_number ea);
     let nOffset = unat (ea AND 0xff);
     let r = unat (ea AND 0xf);
     if g_bPhasorEnable m then
       (if nMB \<noteq> 0 then Some m
        else do {
          let CS = chip_selects ea m;
          m \<leftarrow> (if CS AND 1 \<noteq> 0 then SY6522_Write env (2 * nMB) r v m else Some m);
          m \<leftarrow> (if CS AND 2 \<noteq> 0 then SY6522_Write env (2 * nMB + 1) r v m else Some m);
          if 0x40 \<le> nOffset \<and> nOffset \<le> 0x45 then mb_assert_false env m else Some m })
     else if nOffset \<le> 0x0F then SY6522_Write env (2 * nMB) r v m
     else if 0x80 \<le> nOffset \<and> nOffset \<le> 0x8F then SY6522_Write env (2 * nMB + 1) r v m
     else if 0x40 \<le> nOffset \<and> nOffset \<le> 0x45 then mb_assert_false env m
     else Some m }"

text \<open>\<open>CLK_6502\<close> rounded to an integer, and the Phasor's mode switches; they answer with the floating
  bus.\<close>

definition CLK_6502_INT :: nat where "CLK_6502_INT = 1020484"

definition PhasorIOR :: "mb_env \<Rightarrow> addr \<Rightarrow> mockingboard \<Rightarrow> mockingboard" where
  "PhasorIOR env ea m =
    (if \<not> g_bPhasorEnable m then m
     else
       (let m = (if g_nPhasorMode m < 2 then m\<lparr>g_nPhasorMode := ucast (ea AND 1)\<rparr> else m);
            m = m\<lparr>g_PhasorClockScaleFactor := (if ea AND 4 \<noteq> 0 then 2 else 1)\<rparr>
        in AY8910_InitClock env (CLK_6502_INT * g_PhasorClockScaleFactor m) m))"

section \<open>Reset, initialisation and configuration\<close>

definition MB_Reinitialize :: "mb_env \<Rightarrow> mockingboard \<Rightarrow> mockingboard" where
  "MB_Reinitialize env = AY8910_InitClock env (cycles_persec_target env)"

definition ResetState :: "mockingboard \<Rightarrow> mockingboard" where
  "ResetState m = m\<lparr>g_n6522TimerPeriod := 0, g_nMBTimerDevice := TIMERDEVICE_INVALID, mb_last_cycles := 0,
     g_nMB_InActiveCycleCount := 0, g_bMB_RegAccessedFlag := False, g_bMB_Active := False,
     g_nPhasorMode := 0, g_PhasorClockScaleFactor := 1\<rparr>"

fun reset_units :: "nat list \<Rightarrow> mockingboard \<Rightarrow> mockingboard option" where
  "reset_units [] m = Some m"
| "reset_units (i # is) m = AY8910_reset i (ResetSY6522 i m) \<bind> reset_units is"

definition MB_Reset :: "mb_env \<Rightarrow> mockingboard \<Rightarrow> mockingboard option" where
  "MB_Reset env m =
    (if \<not> audio_isAvailable env then Some m
     else map_option (\<lambda>m. MB_Reinitialize env (ResetState m)) (reset_units [0..<4] m))"

definition cleared_unit :: mb_unit where
  "cleared_unit = \<lparr>sy = cleared_sy6522, nAY8910Number = 0, nAYCurrentRegister = 0, nTimerStatus = 0,
     SpeechChip = \<lparr>DurationPhoneme = 0, Inflection = 0, RateInflection = 0, CtrlArtAmp = 0, FilterFreq = 0, CurrentMode = 0\<rparr>\<rparr>"

definition MB_Initialize :: "mb_env \<Rightarrow> mockingboard \<Rightarrow> mockingboard option" where
  "MB_Initialize env m =
    (if g_bDisableDirectSoundMockingboard m then Some (m\<lparr>g_SoundcardType := CT_Empty\<rparr>)
     else
       (let m = m\<lparr>g_MB := (\<lambda>i. if i < 4 then cleared_unit else g_MB m i)\<rparr> in
        if \<not> ds_init env then Some (m\<lparr>g_SoundcardType := CT_Empty\<rparr>)
        else MB_Reset env
          (fold (\<lambda>i. upd_mb i (\<lambda>u. u\<lparr>nAY8910Number := of_nat i\<rparr>)) [0..<4] (AY8910_InitAll env m))))"

definition MB_SetEnabled :: "bool \<Rightarrow> mockingboard \<Rightarrow> mockingboard" where
  "MB_SetEnabled enabled m =
    (let ty = (if enabled then CT_MockingboardC else CT_Empty)
     in m\<lparr>g_bDisableDirectSoundMockingboard := \<not> enabled, g_SoundcardType := ty, g_Slot4 := ty, g_Slot5 := ty\<rparr>)"

definition MB_SetSoundcardType :: "cardtype \<Rightarrow> mockingboard \<Rightarrow> mockingboard" where
  "MB_SetSoundcardType ty m =
    (if g_SoundcardType m = ty then m else m\<lparr>g_SoundcardType := ty, g_bPhasorEnable := (ty = CT_Phasor)\<rparr>)"

end
