(* ===== verification/A2_MockingboardProps.thy ===== *)
theory A2_MockingboardProps
  imports A2_Mockingboard
begin

text \<open>
  Invariants of the sound card: the interrupt line of the CPU follows the flags of the adapters, and
  every operation of the card completes.
\<close>

section \<open>The interrupt line\<close>

definition unit_ok :: "sy6522 \<Rightarrow> bool" where
  "unit_ok s \<longleftrightarrow> (bit (IFR s) 7 \<longleftrightarrow> IFR s AND IER s AND 0x7F \<noteq> 0)"

definition irq_line :: "mockingboard \<Rightarrow> bool" where
  "irq_line m \<longleftrightarrow> bit (cpu65_signal (mb_cpu m)) 3"

definition irq_ok :: "mockingboard \<Rightarrow> bool" where
  "irq_ok m \<longleftrightarrow> (\<forall>i < 4. unit_ok (sy_of m i)) \<and> (irq_line m \<longleftrightarrow> (\<exists>i < 4. bit (IFR (sy_of m i)) 7))"

text \<open>What the line depends on.\<close>

definition irq_same :: "mockingboard \<Rightarrow> mockingboard \<Rightarrow> bool" where
  "irq_same m m' \<longleftrightarrow> (\<forall>i. IFR (sy_of m' i) = IFR (sy_of m i) \<and> IER (sy_of m' i) = IER (sy_of m i)) \<and>
     cpu65_signal (mb_cpu m') = cpu65_signal (mb_cpu m)"

lemma irq_same_refl [simp]: "irq_same m m"
  by (simp add: irq_same_def)

lemma irq_same_trans: "irq_same a b \<Longrightarrow> irq_same b c \<Longrightarrow> irq_same a c"
  by (simp add: irq_same_def)

lemma irq_same_ok: "irq_same m m' \<Longrightarrow> irq_ok m \<Longrightarrow> irq_ok m'"
  by (simp add: irq_same_def irq_ok_def irq_line_def unit_ok_def)

lemma sy_upd_sy [simp]: "sy_of (upd_sy i f m) j = (if j = i then f (sy_of m i) else sy_of m j)"
  by (simp add: upd_sy_def upd_mb_def)

lemma sy_upd_mb: "(\<And>u. sy (f u) = sy u) \<Longrightarrow> sy_of (upd_mb i f m) j = sy_of m j"
  by (simp add: upd_mb_def)

lemma upd_sy_fields [simp]:
  "mb_cpu (upd_sy i f m) = mb_cpu m" "g_AY8910 (upd_sy i f m) = g_AY8910 m" "mb_video (upd_sy i f m) = mb_video m"
  "m_fCurrentCLK_AY8910 (upd_sy i f m) = m_fCurrentCLK_AY8910 m" "g_bPhasorEnable (upd_sy i f m) = g_bPhasorEnable m"
  "g_nMBTimerDevice (upd_sy i f m) = g_nMBTimerDevice m" "g_bMBTimerIrqActive (upd_sy i f m) = g_bMBTimerIrqActive m"
  "g_SoundcardType (upd_sy i f m) = g_SoundcardType m" "mb_last_cycles (upd_sy i f m) = mb_last_cycles m"
  "nAY8910Number (g_MB (upd_sy i f m) j) = nAY8910Number (g_MB m j)"
  "sound_generator_freq (upd_sy i f m) = sound_generator_freq m"
  by (simp_all add: upd_sy_def upd_mb_def)

lemma upd_mb_fields [simp]:
  "mb_cpu (upd_mb i f m) = mb_cpu m" "g_AY8910 (upd_mb i f m) = g_AY8910 m" "mb_video (upd_mb i f m) = mb_video m"
  "m_fCurrentCLK_AY8910 (upd_mb i f m) = m_fCurrentCLK_AY8910 m" "g_bPhasorEnable (upd_mb i f m) = g_bPhasorEnable m"
  "g_SoundcardType (upd_mb i f m) = g_SoundcardType m" "mb_last_cycles (upd_mb i f m) = mb_last_cycles m"
  by (simp_all add: upd_mb_def)

lemma StartTimer_fields [simp]:
  "sy_of (StartTimer i m) j = sy_of m j"
  "mb_cpu (StartTimer i m) = mb_cpu m" "g_AY8910 (StartTimer i m) = g_AY8910 m" "mb_video (StartTimer i m) = mb_video m"
  "m_fCurrentCLK_AY8910 (StartTimer i m) = m_fCurrentCLK_AY8910 m" "g_bPhasorEnable (StartTimer i m) = g_bPhasorEnable m"
  "g_SoundcardType (StartTimer i m) = g_SoundcardType m" "mb_last_cycles (StartTimer i m) = mb_last_cycles m"
  by (simp_all add: StartTimer_def upd_mb_def)

lemma StopTimer_fields [simp]:
  "sy_of (StopTimer i m) j = sy_of m j"
  "mb_cpu (StopTimer i m) = mb_cpu m" "g_AY8910 (StopTimer i m) = g_AY8910 m" "mb_video (StopTimer i m) = mb_video m"
  "m_fCurrentCLK_AY8910 (StopTimer i m) = m_fCurrentCLK_AY8910 m" "g_bPhasorEnable (StopTimer i m) = g_bPhasorEnable m"
  "g_SoundcardType (StopTimer i m) = g_SoundcardType m" "mb_last_cycles (StopTimer i m) = mb_last_cycles m"
  by (simp_all add: StopTimer_def upd_mb_def)

lemma bit_masks: "bit (0x7F :: byte) n \<longleftrightarrow> n < 7" "bit (0x80 :: byte) n \<longleftrightarrow> n = 7" "bit (0x40 :: byte) n \<longleftrightarrow> n = 6"
  "bit (0x20 :: byte) n \<longleftrightarrow> n = 5" "bit (0x08 :: byte) n \<longleftrightarrow> n = 3"
proof -
  have "(0x7F :: byte) = mask 7" by (simp add: mask_eq_exp_minus_1)
  then show "bit (0x7F :: byte) n \<longleftrightarrow> n < 7" by (simp only: bit_mask_iff) auto
  show "bit (0x80 :: byte) n \<longleftrightarrow> n = 7" by (rule single_flag_bit) simp_all
  show "bit (0x40 :: byte) n \<longleftrightarrow> n = 6" by (rule single_flag_bit) simp_all
  show "bit (0x20 :: byte) n \<longleftrightarrow> n = 5" by (rule single_flag_bit) simp_all
  show "bit (0x08 :: byte) n \<longleftrightarrow> n = 3" by (rule single_flag_bit) simp_all
qed

text \<open>The masks are kept as they are in the proofs about bits.\<close>

lemmas byte_bits = bit_and_iff bit_or_iff bit_masks

lemma and_80: "(w :: byte) AND 0x80 = 0 \<longleftrightarrow> \<not> bit w 7"
  by (rule single_flag_test) simp_all

lemma and_40: "(w :: byte) AND 0x40 = 0 \<longleftrightarrow> \<not> bit w 6"
  by (rule single_flag_test) simp_all

definition updated_ifr :: "sy6522 \<Rightarrow> byte" where
  "updated_ifr s = (if IFR s AND IER s AND 0x7F \<noteq> 0 then (IFR s AND 0x7F) OR 0x80 else IFR s AND 0x7F)"

lemma updated_pending: "(updated_ifr s AND IER s AND 0x7F = 0) = (IFR s AND IER s AND 0x7F = 0)"
proof -
  have "updated_ifr s AND IER s AND 0x7F = IFR s AND IER s AND 0x7F"
    by (rule bit_word_eqI) (auto simp: updated_ifr_def byte_bits simp del: bit_numeral_word_iff)
  then show ?thesis by simp
qed

lemma updated_bits: "n < 7 \<Longrightarrow> bit (updated_ifr s) n \<longleftrightarrow> bit (IFR s) n"
  "bit (updated_ifr s) 7 \<longleftrightarrow> IFR s AND IER s AND 0x7F \<noteq> 0"
  by (auto simp: updated_ifr_def byte_bits simp del: bit_numeral_word_iff)

lemma units: "[0..<NUM_SY6522] = [0, 1, 2, 3]" "[0..<4] = [0, 1, 2, 3 :: nat]"
  by (simp_all add: NUM_SY6522_def upt_rec)

lemma ex_units: "(\<exists>j < 4. P j) \<longleftrightarrow> P 0 \<or> P 1 \<or> P 2 \<or> P (3 :: nat)"
  by (auto simp: less_Suc_eq numeral_eq_Suc)

lemma UpdateIFR_eq:
  "UpdateIFR i m = (let m' = upd_sy i (\<lambda>s. s\<lparr>IFR := updated_ifr s\<rparr>) m in
     if \<exists>j < 4. bit (IFR (sy_of m' j)) 7 then m'\<lparr>mb_cpu := cpu65_interrupt IRQ6522 (mb_cpu m)\<rparr>
     else m'\<lparr>mb_cpu := cpu65_uninterrupt IRQ6522 (mb_cpu m)\<rparr>)"
proof -
  let ?a = "upd_sy i (\<lambda>s. s\<lparr>IFR := IFR s AND 0x7F\<rparr>) m"
  let ?b = "if IFR (sy_of ?a i) AND IER (sy_of ?a i) AND 0x7F \<noteq> 0 then upd_sy i (\<lambda>s. s\<lparr>IFR := IFR s OR 0x80\<rparr>) ?a else ?a"
  let ?m = "upd_sy i (\<lambda>s. s\<lparr>IFR := updated_ifr s\<rparr>) m"
  have p: "(IFR (sy_of m i) AND 0x7F) AND IER (sy_of m i) AND 0x7F = IFR (sy_of m i) AND IER (sy_of m i) AND 0x7F"
    by (rule bit_word_eqI) (auto simp: bit_simps bit_masks)
  have b: "?b = ?m"
  proof (cases "IFR (sy_of m i) AND IER (sy_of m i) AND 0x7F = 0")
    case True
    then show ?thesis by (simp add: p updated_ifr_def) (simp add: upd_sy_def upd_mb_def updated_ifr_def)
  next
    case False
    then show ?thesis by (simp add: p updated_ifr_def) (simp add: upd_sy_def upd_mb_def updated_ifr_def)
  qed
  have f: "fold (\<lambda>j b. b OR (IFR (sy_of n j) AND 0x80)) [0..<NUM_SY6522] 0 = 0 \<longleftrightarrow> \<not> (\<exists>j < 4. bit (IFR (sy_of n j)) 7)" for n
  proof -
    have "fold (\<lambda>j b. b OR (IFR (sy_of n j) AND 0x80)) [0..<NUM_SY6522] 0 =
        (IFR (sy_of n 0) OR IFR (sy_of n 1) OR IFR (sy_of n 2) OR IFR (sy_of n 3)) AND 0x80"
      by (rule bit_word_eqI) (auto simp: units bit_simps)
    then show ?thesis by (simp add: and_80 ex_units bit_simps)
  qed
  show ?thesis unfolding UpdateIFR_def Let_def b f upd_sy_fields not_not ..
qed

lemma sy_UpdateIFR [simp]:
  "sy_of (UpdateIFR i m) j = (if j = i then (sy_of m i)\<lparr>IFR := updated_ifr (sy_of m i)\<rparr> else sy_of m j)"
  by (simp add: UpdateIFR_eq Let_def)

lemma UpdateIFR_fields [simp]:
  "g_AY8910 (UpdateIFR i m) = g_AY8910 m" "mb_video (UpdateIFR i m) = mb_video m"
  "m_fCurrentCLK_AY8910 (UpdateIFR i m) = m_fCurrentCLK_AY8910 m" "g_bPhasorEnable (UpdateIFR i m) = g_bPhasorEnable m"
  "g_nMBTimerDevice (UpdateIFR i m) = g_nMBTimerDevice m" "g_bMBTimerIrqActive (UpdateIFR i m) = g_bMBTimerIrqActive m"
  "g_SoundcardType (UpdateIFR i m) = g_SoundcardType m" "mb_last_cycles (UpdateIFR i m) = mb_last_cycles m"
  "nAY8910Number (g_MB (UpdateIFR i m) j) = nAY8910Number (g_MB m j)"
  by (simp_all add: UpdateIFR_eq Let_def)

lemma line_interrupt: "bit (cpu65_signal (cpu65_interrupt IRQ6522 c)) 3" "\<not> bit (cpu65_signal (cpu65_uninterrupt IRQ6522 c)) 3"
  by (simp_all add: cpu65_interrupt_def cpu65_uninterrupt_def IRQ6522_def byte_bits bit_not_word del: bit_numeral_word_iff)

text \<open>An update of the flags restores the invariant whatever was done to the adapter it is called for.\<close>

lemma UpdateIFR_ok:
  assumes "\<forall>j < 4. j \<noteq> i \<longrightarrow> unit_ok (sy_of m j)"
  shows "irq_ok (UpdateIFR i m)"
proof -
  have u: "unit_ok (sy_of (UpdateIFR i m) j)" if "j < 4" for j
    using assms that by (simp add: unit_ok_def updated_pending updated_bits)
  have "irq_line (UpdateIFR i m) \<longleftrightarrow> (\<exists>j < 4. bit (IFR (sy_of (UpdateIFR i m) j)) 7)"
    unfolding irq_line_def by (auto simp: UpdateIFR_eq Let_def line_interrupt)
  then show ?thesis using u by (simp add: irq_ok_def)
qed

lemma clear_ifr_ok: "irq_ok m \<Longrightarrow> irq_ok (clear_ifr i f m)"
  unfolding clear_ifr_def by (rule UpdateIFR_ok) (simp add: irq_ok_def)

lemma irq_sameI:
  "(\<And>j. sy_of m' j = sy_of m j) \<Longrightarrow> mb_cpu m' = mb_cpu m \<Longrightarrow> irq_same m m'"
  by (simp add: irq_same_def)

lemma upd_sy_same: "(\<And>s. IFR (f s) = IFR s) \<Longrightarrow> (\<And>s. IER (f s) = IER s) \<Longrightarrow> irq_same m (upd_sy i f m)"
  by (simp add: irq_same_def)

section \<open>Every operation completes and keeps the invariants\<close>

text \<open>The parameters the card needs: a clock, buffers that hold a batch, and an audio backend that grants
  no more than it was asked for.\<close>

definition env_ok :: "mb_env \<Rightarrow> bool" where
  "env_ok env \<longleftrightarrow> HZ_COMMON_DENOMINATOR \<le> cycles_persec_target env \<and>
     (\<forall>p. 2 * samples_per_period env p \<le> SAMPLE_RATE env \<and> 4 * samples_per_period env p \<le> mix_buffer_len env) \<and>
     (\<forall>k n. case lock env k n of None \<Rightarrow> True | Some g \<Rightarrow> even g \<and> g \<le> n) \<and>
     (case play_cursor env of None \<Rightarrow> True | Some c \<Rightarrow> - int (buffer_size env) \<le> c)"

definition mb_ok :: "mockingboard \<Rightarrow> bool" where
  "mb_ok m \<longleftrightarrow> (\<forall>i < 4. chip_ok (g_AY8910 m i)) \<and> HZ_COMMON_DENOMINATOR \<le> m_fCurrentCLK_AY8910 m \<and>
     cycles_checkpoint_count (mb_video m) \<le> cpu65_cycle_count (mb_video m)"

text \<open>What sound generation leaves alone.\<close>

definition card_same :: "mockingboard \<Rightarrow> mockingboard \<Rightarrow> bool" where
  "card_same m m' \<longleftrightarrow> g_MB m' = g_MB m \<and> mb_cpu m' = mb_cpu m \<and> mb_video m' = mb_video m \<and>
     g_nMBTimerDevice m' = g_nMBTimerDevice m \<and> g_bMBTimerIrqActive m' = g_bMBTimerIrqActive m \<and>
     g_SoundcardType m' = g_SoundcardType m \<and> mb_last_cycles m' = mb_last_cycles m \<and>
     g_bPhasorEnable m' = g_bPhasorEnable m \<and> m_fCurrentCLK_AY8910 m' = m_fCurrentCLK_AY8910 m"

lemma card_same_refl [simp]: "card_same m m"
  by (simp add: card_same_def)

lemma card_same_trans: "card_same a b \<Longrightarrow> card_same b c \<Longrightarrow> card_same a c"
  by (simp add: card_same_def)

lemma card_same_irq: "card_same m m' \<Longrightarrow> irq_same m m'"
  by (simp add: card_same_def irq_same_def)

lemma update_frame: "AY8910Update env chip n m = Some (vs, m') \<Longrightarrow> card_same m m'"
  by (auto simp: AY8910Update_def Let_def upd_ay_def AY8910UpdateSetCycles_def card_same_def split: if_splits option.splits bind_splits)

lemma update_chips_frame: "update_chips env n is m = Some (vss, m') \<Longrightarrow> card_same m m'"
proof (induction "is" arbitrary: m vss)
  case (Cons i "is")
  from Cons.prems obtain vs m1 vss' where "AY8910Update env i n m = Some (vs, m1)" "update_chips env n is m1 = Some (vss', m')"
    by (auto split: bind_splits)
  then show ?case using update_frame Cons.IH card_same_trans by blast
qed simp

lemma submit_frame: "submit_samples env k mix b r m = Some m' \<Longrightarrow> card_same m m' \<and> g_AY8910 m' = g_AY8910 m"
proof (induction k arbitrary: b r m)
  case (Suc k)
  show ?case
  proof (cases "lock env k r")
    case None
    then show ?thesis using Suc.prems by simp
  next
    case (Some g)
    let ?m = "m\<lparr>submitted := submitted m @ take (g div 2) (drop (b div 2) mix)\<rparr>"
    have f: "card_same m ?m" "g_AY8910 ?m = g_AY8910 m" by (simp_all add: card_same_def)
    have e: "submit_samples env (Suc k) mix b r m = (if g mod 2 \<noteq> 0 \<or> r < g then None
        else if b + g < 2 * length mix then submit_samples env k mix (b + g) (r - g) ?m else Some ?m)"
      unfolding submit_samples.simps(2) Some option.case Let_def ..
    then consider "submit_samples env k mix (b + g) (r - g) ?m = Some m'" | "m' = ?m"
      using Suc.prems by (metis option.distinct(1) option.inject)
    then show ?thesis
    proof cases
      case 1
      from Suc.IH [OF this] show ?thesis using f by (simp add: card_same_def)
    next
      case 2
      then show ?thesis using f by simp
    qed
  qed
qed simp

lemma note_activity_frame: "card_same m (note_activity env m)" "g_AY8910 (note_activity env m) = g_AY8910 m"
  by (simp_all add: note_activity_def card_same_def)

lemma adjust_error_frame: "card_same m (adjust_error env r m)" "g_AY8910 (adjust_error env r m) = g_AY8910 m"
  by (simp_all add: adjust_error_def card_same_def)

lemma output_frame:
  assumes "output_samples env n bufs m = Some m'"
  shows "card_same m m' \<and> g_AY8910 m' = g_AY8910 m"
proof (cases "play_cursor env")
  case None
  then show ?thesis using assms by (simp add: output_samples_def)
next
  case (Some cur)
  define r where "r = (if cur < 0 then cur + int (buffer_size env) else cur)"
  define m3 where "m3 = adjust_error env r m"
  have m3: "card_same m m3" "g_AY8910 m3 = g_AY8910 m" by (simp_all add: m3_def adjust_error_frame)
  have "m' = m3 \<or> (\<exists>mix. submit_samples env 2 mix 0 (4 * n) m3 = Some m')"
    using assms Some by (auto simp: output_samples_def Let_def r_def [symmetric] m3_def [symmetric] split: if_splits)
  then show ?thesis using m3 submit_frame card_same_trans by metis
qed

lemma MB_Update_frame:
  assumes "MB_Update env m = Some m'"
  shows "card_same m m'"
proof (cases "\<not> audio_isAvailable env \<or> voice env \<noteq> Some True \<or> is_fullspeed env")
  case True
  then show ?thesis using assms by (auto simp: MB_Update_def AY8910UpdateSetCycles_def card_same_def split: if_splits)
next
  case False
  define m1 where "m1 = note_activity env m"
  define n where "n = num_samples env m1"
  have "MB_Update env m = do { (bufs, m) \<leftarrow> (if n \<noteq> 0 then update_chips env n [0..<4] m1 else Some ([], m1)); output_samples env n bufs m }"
    using False by (simp add: MB_Update_def Let_def m1_def n_def)
  then obtain bufs m2 where c: "(if n \<noteq> 0 then update_chips env n [0..<4] m1 else Some ([], m1)) = Some (bufs, m2)"
    and o: "output_samples env n bufs m2 = Some m'" using assms by (auto split: bind_splits)
  have "card_same m1 m2"
  proof (cases "n = 0")
    case False
    then show ?thesis using c update_chips_frame by simp
  qed (use c in simp)
  moreover have "card_same m m1" by (simp add: m1_def note_activity_frame)
  ultimately show ?thesis using output_frame [OF o] card_same_trans by blast
qed

text \<open>Sound generation completes.\<close>

lemma chip_update:
  assumes "SAMPLE_RATE env \<ge> n" "0 < n" "chip < 4" "mb_ok m"
  shows "\<exists>vs m'. AY8910Update env chip n m = Some (vs, m') \<and> mb_ok m' \<and> length vs = n"
proof -
  have "chip_ok (g_AY8910 m chip)" "m_fCurrentCLK_AY8910 m div HZ_COMMON_DENOMINATOR \<noteq> 0"
    using assms by (auto simp: mb_ok_def HZ_COMMON_DENOMINATOR_def)
  from sound_frame_ok [OF this assms(2), of "sound_generator_freq m div HZ_COMMON_DENOMINATOR"]
  show ?thesis using assms
    by (auto simp: AY8910Update_def Let_def AY8910UpdateSetCycles_def upd_ay_def mb_ok_def)
qed

lemma update_chips_ok:
  assumes "SAMPLE_RATE env \<ge> n" "0 < n" "\<forall>i \<in> set is. i < 4" "mb_ok m"
  shows "\<exists>vss m'. update_chips env n is m = Some (vss, m') \<and> mb_ok m'"
  using assms(3,4)
proof (induction "is" arbitrary: m)
  case (Cons i "is")
  obtain vs m1 where 1: "AY8910Update env i n m = Some (vs, m1)" "mb_ok m1"
    using chip_update [OF assms(1,2), of i m] Cons.prems by auto
  obtain vss m2 where "update_chips env n is m1 = Some (vss, m2)" "mb_ok m2"
    using Cons.IH [OF _ 1(2)] Cons.prems by auto
  then show ?case using 1(1) by simp
qed simp

lemma card_same_ok: "card_same m m' \<Longrightarrow> g_AY8910 m' = g_AY8910 m \<Longrightarrow> mb_ok m \<Longrightarrow> mb_ok m'"
  by (simp add: card_same_def mb_ok_def)

lemma submit_ok:
  assumes "env_ok env"
  shows "\<exists>m'. submit_samples env k mix b r m = Some m'"
proof (induction k arbitrary: b r m)
  case (Suc k)
  show ?case
  proof (cases "lock env k r")
    case (Some g)
    then have "even g" "g \<le> r" using assms by (auto simp: env_ok_def split: option.splits)
    then show ?thesis using Some Suc.IH by (simp add: Let_def)
  qed simp
qed simp

lemma num_samples_le:
  assumes "env_ok env"
  shows "num_samples env m \<le> SAMPLE_RATE env" "2 * num_samples env m \<le> mix_buffer_len env"
proof -
  have "num_samples env m \<le> 2 * samples_per_period env (MB_GetFramePeriod m)"
    unfolding num_samples_def Let_def nat_le_iff by simp
  moreover have "2 * samples_per_period env (MB_GetFramePeriod m) \<le> SAMPLE_RATE env"
    "4 * samples_per_period env (MB_GetFramePeriod m) \<le> mix_buffer_len env"
    using assms by (simp_all add: env_ok_def)
  ultimately show "num_samples env m \<le> SAMPLE_RATE env" "2 * num_samples env m \<le> mix_buffer_len env"
    by linarith+
qed

lemma output_ok:
  assumes "env_ok env" "2 * n \<le> mix_buffer_len env"
  shows "\<exists>m'. output_samples env n bufs m = Some m'"
proof (cases "play_cursor env")
  case None
  then show ?thesis by (simp add: output_samples_def)
next
  case (Some cur)
  then have "\<not> (if cur < 0 then cur + int (buffer_size env) else cur) < 0" using assms(1) by (simp add: env_ok_def)
  then show ?thesis using assms submit_ok by (simp add: output_samples_def Some Let_def)
qed

lemma MB_Update_ok:
  assumes "env_ok env" "mb_ok m"
  shows "\<exists>m'. MB_Update env m = Some m' \<and> mb_ok m' \<and> card_same m m'"
proof -
  have "\<exists>m'. MB_Update env m = Some m' \<and> mb_ok m'"
  proof (cases "\<not> audio_isAvailable env \<or> voice env \<noteq> Some True \<or> is_fullspeed env")
    case True
    then show ?thesis using assms(2) by (auto simp: MB_Update_def AY8910UpdateSetCycles_def mb_ok_def)
  next
    case False
    define m1 where "m1 = note_activity env m"
    define n where "n = num_samples env m1"
    have e: "MB_Update env m = do { (bufs, m) \<leftarrow> (if n \<noteq> 0 then update_chips env n [0..<4] m1 else Some ([], m1)); output_samples env n bufs m }"
      using False by (simp add: MB_Update_def Let_def m1_def n_def)
    have m1: "mb_ok m1" unfolding m1_def by (rule card_same_ok [OF note_activity_frame assms(2)])
    have n: "n \<le> SAMPLE_RATE env" "2 * n \<le> mix_buffer_len env" unfolding n_def by (rule num_samples_le [OF assms(1)])+
    obtain bufs m2 where c: "(if n \<noteq> 0 then update_chips env n [0..<4] m1 else Some ([], m1)) = Some (bufs, m2)" "mb_ok m2"
      using update_chips_ok [OF n(1), of "[0..<4]" m1] m1 by (cases "n = 0") auto
    obtain m3 where o: "output_samples env n bufs m2 = Some m3" using output_ok [OF assms(1) n(2)] by blast
    have "mb_ok m3" using output_frame [OF o] card_same_ok c(2) by blast
    then show ?thesis using e c(1) o by simp
  qed
  then show ?thesis using MB_Update_frame by blast
qed

section \<open>The clock\<close>

lemma MB_Update_irq: "MB_Update env m = Some m' \<Longrightarrow> irq_ok m \<Longrightarrow> irq_ok m'"
  using MB_Update_frame card_same_irq irq_same_ok by blast

text \<open>The counters of one adapter after \<open>n\<close> clocks.\<close>

definition tick :: "addr \<Rightarrow> sy6522 \<Rightarrow> sy6522" where
  "tick n s = s\<lparr>TIMER1_COUNTER := TIMER1_COUNTER s - n, TIMER2_COUNTER := TIMER2_COUNTER s - n\<rparr>"

definition underflows :: "addr \<Rightarrow> sy6522 \<Rightarrow> bool" where
  "underflows n s \<longleftrightarrow> TIMER1_COUNTER s AND 0x8000 = 0 \<and> TIMER1_COUNTER (tick n s) AND 0x8000 \<noteq> 0"

definition fires :: "addr \<Rightarrow> nat \<Rightarrow> mockingboard \<Rightarrow> bool" where
  "fires n i m \<longleftrightarrow> underflows n (sy_of m i) \<and> g_nMBTimerDevice m = of_nat i \<and> g_bMBTimerIrqActive m"

definition timer_fired :: "addr \<Rightarrow> nat \<Rightarrow> mockingboard \<Rightarrow> mockingboard" where
  "timer_fired n i m =
    (let m = UpdateIFR i (upd_sy i (\<lambda>s. (tick n s)\<lparr>IFR := IFR s OR IxR_TIMER1\<rparr>) m)
     in if ACR (sy_of m i) AND RUNMODE = 0 then StopTimer i m
        else StartTimer i (upd_sy i (\<lambda>s. s\<lparr>TIMER1_COUNTER := TIMER1_LATCH s\<rparr>) m))"

lemma upd_sy_twice: "upd_sy i f (upd_sy i g m) = upd_sy i (\<lambda>s. f (g s)) m"
  by (simp add: upd_sy_def upd_mb_def)

lemma clock_unit_eq:
  "clock_unit env n i m =
    (if fires n i m then MB_Update env (timer_fired n i m)
     else if underflows n (sy_of m i) \<and> \<not> g_bMBTimerIrqActive m \<and> IFR (sy_of m i) AND IxR_TIMER1 \<noteq> 0 \<and>
       ACR (sy_of m i) AND RUNMODE = 0 then Some (clear_ifr i IxR_TIMER1 (upd_sy i (tick n) m))
     else Some (upd_sy i (tick n) m))"
proof -
  have t: "upd_sy i (\<lambda>s. s\<lparr>TIMER1_COUNTER := TIMER1_COUNTER s - n, TIMER2_COUNTER := TIMER2_COUNTER s - n\<rparr>) m = upd_sy i (tick n) m"
    by (rule arg_cong [where f = "\<lambda>f. upd_sy i f m"]) (simp add: tick_def fun_eq_iff)
  have d: "upd_sy i (\<lambda>s. s\<lparr>IFR := IFR s OR IxR_TIMER1\<rparr>) (upd_sy i (tick n) m) = upd_sy i (\<lambda>s. (tick n s)\<lparr>IFR := IFR s OR IxR_TIMER1\<rparr>) m"
    by (simp add: upd_sy_twice tick_def)
  show ?thesis
    unfolding clock_unit_def Let_def t d fires_def timer_fired_def underflows_def by (simp add: tick_def)
qed

lemma fired_irq: "irq_ok m \<Longrightarrow> irq_ok (timer_fired n i m)"
proof -
  assume a: "irq_ok m"
  define m1 where "m1 = UpdateIFR i (upd_sy i (\<lambda>s. (tick n s)\<lparr>IFR := IFR s OR IxR_TIMER1\<rparr>) m)"
  have "irq_ok m1" unfolding m1_def by (rule UpdateIFR_ok) (use a in \<open>simp add: irq_ok_def\<close>)
  moreover have "irq_same m1 (timer_fired n i m)"
    unfolding timer_fired_def m1_def [symmetric] Let_def by (simp add: irq_same_def)
  ultimately show ?thesis using irq_same_ok by blast
qed

lemma fired_fields [simp]:
  "g_AY8910 (timer_fired n i m) = g_AY8910 m" "mb_video (timer_fired n i m) = mb_video m"
  "m_fCurrentCLK_AY8910 (timer_fired n i m) = m_fCurrentCLK_AY8910 m" "g_bPhasorEnable (timer_fired n i m) = g_bPhasorEnable m"
  "g_SoundcardType (timer_fired n i m) = g_SoundcardType m" "mb_last_cycles (timer_fired n i m) = mb_last_cycles m"
  by (simp_all add: timer_fired_def Let_def)

lemma clear_ifr_fields [simp]:
  "g_AY8910 (clear_ifr i f m) = g_AY8910 m" "mb_video (clear_ifr i f m) = mb_video m"
  "m_fCurrentCLK_AY8910 (clear_ifr i f m) = m_fCurrentCLK_AY8910 m" "g_bPhasorEnable (clear_ifr i f m) = g_bPhasorEnable m"
  "g_SoundcardType (clear_ifr i f m) = g_SoundcardType m" "mb_last_cycles (clear_ifr i f m) = mb_last_cycles m"
  "g_nMBTimerDevice (clear_ifr i f m) = g_nMBTimerDevice m" "g_bMBTimerIrqActive (clear_ifr i f m) = g_bMBTimerIrqActive m"
  by (simp_all add: clear_ifr_def)

lemma tick_irq: "irq_ok m \<Longrightarrow> irq_ok (upd_sy i (tick n) m)"
  by (rule irq_same_ok [OF upd_sy_same]) (simp_all add: tick_def)

text \<open>What the clock leaves alone.\<close>

definition clock_same :: "mockingboard \<Rightarrow> mockingboard \<Rightarrow> bool" where
  "clock_same m m' \<longleftrightarrow> mb_video m' = mb_video m \<and> g_SoundcardType m' = g_SoundcardType m \<and>
     mb_last_cycles m' = mb_last_cycles m \<and> g_bPhasorEnable m' = g_bPhasorEnable m \<and>
     (\<forall>j. IER (sy_of m' j) = IER (sy_of m j) \<and> nAY8910Number (g_MB m' j) = nAY8910Number (g_MB m j))"

lemma clock_same_refl [simp]: "clock_same m m"
  by (simp add: clock_same_def)

lemma clock_same_trans: "clock_same a b \<Longrightarrow> clock_same b c \<Longrightarrow> clock_same a c"
  by (simp add: clock_same_def)

lemma card_clock_same: "card_same m m' \<Longrightarrow> clock_same m m'"
  by (simp add: card_same_def clock_same_def)

lemma StartTimer_number [simp]: "nAY8910Number (g_MB (StartTimer i m) j) = nAY8910Number (g_MB m j)"
  by (simp add: StartTimer_def upd_mb_def)

lemma StopTimer_number [simp]: "nAY8910Number (g_MB (StopTimer i m) j) = nAY8910Number (g_MB m j)"
  by (simp add: StopTimer_def upd_mb_def)

lemma fired_sy: "j \<noteq> i \<Longrightarrow> sy_of (timer_fired n i m) j = sy_of m j"
  "bit (IFR (sy_of (timer_fired n i m) i)) 6" "IER (sy_of (timer_fired n i m) j) = IER (sy_of m j)"
  "nAY8910Number (g_MB (timer_fired n i m) j) = nAY8910Number (g_MB m j)"
  by (simp_all add: timer_fired_def Let_def tick_def updated_bits IxR_TIMER1_def byte_bits del: bit_numeral_word_iff)

lemma fired_same: "clock_same m (timer_fired n i m)"
  by (simp add: clock_same_def fired_sy)

lemma clock_unit_irq:
  assumes "clock_unit env n i m = Some m'" "irq_ok m"
  shows "irq_ok m'"
  using assms fired_irq [OF assms(2)] tick_irq [OF assms(2)] clear_ifr_ok MB_Update_irq
  unfolding clock_unit_eq by (auto split: if_splits)

lemma clock_unit_ok:
  assumes "env_ok env" "mb_ok m"
  shows "\<exists>m'. clock_unit env n i m = Some m' \<and> mb_ok m' \<and> clock_same m m' \<and>
    (\<forall>j. j \<noteq> i \<longrightarrow> sy_of m' j = sy_of m j) \<and> (fires n i m \<longrightarrow> bit (IFR (sy_of m' i)) 6) \<and>
    (\<not> fires n i m \<longrightarrow> g_nMBTimerDevice m' = g_nMBTimerDevice m \<and> g_bMBTimerIrqActive m' = g_bMBTimerIrqActive m)"
proof (cases "fires n i m")
  case True
  have "mb_ok (timer_fired n i m)" using assms(2) by (simp add: mb_ok_def)
  then obtain m' where m': "MB_Update env (timer_fired n i m) = Some m'" "mb_ok m'" "card_same (timer_fired n i m) m'"
    using MB_Update_ok [OF assms(1)] by blast
  have "sy_of m' j = sy_of (timer_fired n i m) j" for j using m'(3) by (simp add: card_same_def)
  moreover have "clock_same m m'" using fired_same card_clock_same [OF m'(3)] clock_same_trans by blast
  ultimately show ?thesis using True m' fired_sy by (simp add: clock_unit_eq)
next
  case False
  have "clock_same m (upd_sy i (tick n) m)" "clock_same m (clear_ifr i IxR_TIMER1 (upd_sy i (tick n) m))"
    by (simp_all add: clock_same_def tick_def clear_ifr_def)
  moreover have "mb_ok (upd_sy i (tick n) m)" "mb_ok (clear_ifr i IxR_TIMER1 (upd_sy i (tick n) m))"
    using assms(2) by (simp_all add: mb_ok_def)
  ultimately show ?thesis using False by (simp add: clock_unit_eq clear_ifr_def)
qed

text \<open>All adapters.  \<open>i\<close> is the one whose timer runs.\<close>

lemma clock_units_irq: "clock_units env n is m = Some m' \<Longrightarrow> irq_ok m \<Longrightarrow> irq_ok m'"
  by (induction "is" arbitrary: m) (auto split: bind_splits dest: clock_unit_irq)

lemma clock_units_ok:
  assumes "env_ok env" "mb_ok m"
  shows "\<exists>m'. clock_units env n is m = Some m' \<and> mb_ok m' \<and> clock_same m m' \<and> (\<forall>j. j \<notin> set is \<longrightarrow> sy_of m' j = sy_of m j)"
  using assms(2)
proof (induction "is" arbitrary: m)
  case (Cons i "is")
  obtain m1 where 1: "clock_unit env n i m = Some m1" "mb_ok m1" "clock_same m m1" "\<forall>j. j \<noteq> i \<longrightarrow> sy_of m1 j = sy_of m j"
    using clock_unit_ok [OF assms(1) Cons.prems] by blast
  obtain m2 where 2: "clock_units env n is m1 = Some m2" "mb_ok m2" "clock_same m1 m2" "\<forall>j. j \<notin> set is \<longrightarrow> sy_of m2 j = sy_of m1 j"
    using Cons.IH [OF 1(2)] by blast
  show ?case using 1 2 clock_same_trans by (intro exI [of _ m2]) auto
qed simp

lemma checkpoint_mb:
  assumes "mb_ok m"
  shows "\<exists>v. mb_checkpoint m = Some (m\<lparr>mb_video := v\<rparr>) \<and> mb_ok (m\<lparr>mb_video := v\<rparr>) \<and>
    cpu65_cycle_count v = cpu65_cycle_count (mb_video m) \<and> cycles_checkpoint_count v = cpu65_cycle_count v \<and>
    cycles_count_total v = (cycles_count_total (mb_video m) + nat (cpu65_cycle_count (mb_video m) - cycles_checkpoint_count (mb_video m))) mod 2 ^ 64"
proof -
  obtain v where v: "timing_checkpointCycles (mb_video m) = Some v"
    "cpu65_cycle_count v = cpu65_cycle_count (mb_video m)" "cycles_checkpoint_count v = cpu65_cycle_count v"
    "cycles_count_total v = (cycles_count_total (mb_video m) + nat (cpu65_cycle_count (mb_video m) - cycles_checkpoint_count (mb_video m))) mod 2 ^ 64"
    using assms by (simp add: timing_checkpointCycles_def Let_def mb_ok_def)
  then show ?thesis using assms by (intro exI [of _ v]) (simp add: mb_checkpoint_def mb_ok_def)
qed

definition clocks_passed :: "mockingboard \<Rightarrow> addr" where
  "clocks_passed m = (let u = (int (total_cycles m) - int (mb_last_cycles m)) mod 2 ^ 64
     in word_of_int (if u \<ge> 0x10000 then u mod 0x10000 else u))"

lemma update_cycles_eq:
  assumes "g_SoundcardType m \<noteq> CT_Empty" "mb_checkpoint m = Some m1"
  shows "MB_UpdateCycles env m = (let m2 = m1\<lparr>mb_last_cycles := total_cycles m1\<rparr> in
    if clocks_passed m1 = 0 then Some m2 else clock_units env (clocks_passed m1) [0, 1, 2, 3] m2)"
  using assms by (simp add: MB_UpdateCycles_def clocks_passed_def Let_def units)

lemma update_cycles_ok:
  assumes "env_ok env" "mb_ok m"
  shows "\<exists>m'. MB_UpdateCycles env m = Some m' \<and> mb_ok m' \<and> g_bPhasorEnable m' = g_bPhasorEnable m"
proof (cases "g_SoundcardType m = CT_Empty")
  case True
  then show ?thesis using assms(2) by (simp add: MB_UpdateCycles_def)
next
  case False
  obtain v where v: "mb_checkpoint m = Some (m\<lparr>mb_video := v\<rparr>)" "mb_ok (m\<lparr>mb_video := v\<rparr>)"
    using checkpoint_mb [OF assms(2)] by blast
  let ?m2 = "m\<lparr>mb_video := v, mb_last_cycles := total_cycles (m\<lparr>mb_video := v\<rparr>)\<rparr>"
  have m2: "mb_ok ?m2" using v(2) by (simp add: mb_ok_def)
  obtain m' where "clock_units env (clocks_passed (m\<lparr>mb_video := v\<rparr>)) [0, 1, 2, 3] ?m2 = Some m'" "mb_ok m'" "clock_same ?m2 m'"
    using clock_units_ok [OF assms(1) m2] by blast
  then show ?thesis using update_cycles_eq [OF False v(1)] m2 by (auto simp: Let_def clock_same_def)
qed

lemma update_cycles_irq:
  assumes "MB_UpdateCycles env m = Some m'" "irq_ok m"
  shows "irq_ok m'"
proof (cases "g_SoundcardType m = CT_Empty")
  case True
  then show ?thesis using assms by (simp add: MB_UpdateCycles_def)
next
  case False
  then obtain m1 where m1: "mb_checkpoint m = Some m1" using assms(1) by (auto simp: MB_UpdateCycles_def split: bind_splits)
  have "irq_same m (m1\<lparr>mb_last_cycles := total_cycles m1\<rparr>)"
    using m1 by (auto simp: mb_checkpoint_def irq_same_def split: option.splits)
  then have "irq_ok (m1\<lparr>mb_last_cycles := total_cycles m1\<rparr>)" using assms(2) irq_same_ok by blast
  then show ?thesis using assms(1) update_cycles_eq [OF False m1, of env] clock_units_irq
    by (auto simp: Let_def simp del: clock_units.simps split: if_splits)
qed

section \<open>Register accesses\<close>

lemma AY8910_Write_func: "v AND 4 \<noteq> 0 \<Longrightarrow> AY8910_Write i v d m =
    (let m = m\<lparr>g_bMB_RegAccessedFlag := True\<rparr>; u = g_MB m i in
     if v AND 2 = 0 then Some m
     else if v AND 1 = 0 then AYWriteReg (i + 2 * d) (nAYCurrentRegister u) (ORA (sy u)) m
     else Some (if ORA (sy u) \<le> 0x0F then upd_mb i (\<lambda>u. u\<lparr>nAYCurrentRegister := ORA (sy u) AND 0x0F\<rparr>) m else m))"
proof -
  have "unat (v AND 1) = (if v AND 1 = 0 then 0 else 1)"
    by (simp add: and_one_eq)
  then show ?thesis if "v AND 4 \<noteq> 0" using that by (simp add: AY8910_Write_def Let_def)
qed

lemma AY8910_Write_irq:
  assumes "AY8910_Write i v d m = Some m'"
  shows "irq_same m m'"
proof (cases "v AND 4 = 0")
  case True
  then show ?thesis using assms by (auto simp: AY8910_Write_def Let_def AY8910_reset_def upd_ay_def irq_same_def split: if_splits)
next
  case False
  then show ?thesis using assms
    by (auto simp: AY8910_Write_func Let_def AYWriteReg_def upd_ay_def irq_same_def upd_mb_def split: if_splits)
qed

lemma AY8910_Write_ok:
  assumes "mb_ok m" "i + 2 * d < 4"
  shows "\<exists>m'. AY8910_Write i v d m = Some m' \<and> mb_ok m' \<and> g_bPhasorEnable m' = g_bPhasorEnable m"
proof (cases "v AND 4 = 0")
  case True
  then show ?thesis using assms reset_chip_ok
    by (auto simp: AY8910_Write_def Let_def AY8910_reset_def upd_ay_def mb_ok_def)
next
  case False
  then show ?thesis using assms write_chip_ok
    by (auto simp: AY8910_Write_func Let_def AYWriteReg_def upd_ay_def mb_ok_def)
qed

lemma write_orb_irq:
  assumes "write_orb env i v m = Some m'"
  shows "irq_same m m'"
proof -
  define w where "w = v AND DDRB (sy_of m i)"
  define m1 where "m1 = upd_sy i (\<lambda>s. s\<lparr>ORB := w\<rparr>) m"
  have 1: "irq_same m m1" unfolding m1_def by (rule upd_sy_same) simp_all
  have "irq_same m1 m'" using assms irq_same_trans
    unfolding write_orb_def Let_def w_def [symmetric] m1_def [symmetric] mb_assert_false_def
    by (auto split: if_splits bind_splits dest!: AY8910_Write_irq)
  then show ?thesis using 1 irq_same_trans by blast
qed

lemma write_ier_irq: "irq_ok m \<Longrightarrow> irq_ok (write_ier i v m)"
proof -
  assume a: "irq_ok m"
  have u: "irq_ok (UpdateIFR i (upd_sy i (\<lambda>s. s\<lparr>IER := f (IER s)\<rparr>) m))" for f
    by (rule UpdateIFR_ok) (use a in \<open>simp add: irq_ok_def\<close>)
  have s: "irq_same m (StartTimer i m)" "irq_same m (StopTimer i m)" for m
    by (simp_all add: irq_same_def)
  show ?thesis
    using u [of "\<lambda>x. x AND (v XOR 0x7F)"] u [of "\<lambda>x. x OR (v AND 0x7F)"] s irq_same_ok
    by (auto simp: write_ier_def Let_def)
qed

lemma SY6522_Write_irq:
  assumes "SY6522_Write env i r v m = Some m'" "irq_ok m"
  shows "irq_ok m'"
proof -
  define m1 where "m1 = m\<lparr>g_bMB_Active := True\<rparr>"
  have 1: "irq_ok m1" by (rule irq_same_ok [OF _ assms(2)]) (simp add: m1_def irq_same_def)
  have st: "irq_ok (StartTimer i m)" if "irq_ok m" for m
    by (rule irq_same_ok [OF _ that]) (simp add: irq_same_def)
  have up: "irq_ok (upd_sy i f m)" if "irq_ok m" "\<And>s. IFR (f s) = IFR s" "\<And>s. IER (f s) = IER s" for f m
    by (rule irq_same_ok [OF upd_sy_same that(1)]) (simp_all add: that)
  have ifr: "irq_ok (UpdateIFR i (upd_sy i (\<lambda>s. s\<lparr>IFR := g s\<rparr>) m1))" for g
    by (rule UpdateIFR_ok) (use 1 in \<open>simp add: irq_ok_def\<close>)
  show ?thesis
  proof (cases "r = 0 \<or> NUM_SY6522 \<le> i")
    case True
    then have "write_orb env i v m1 = Some m'"
      using assms(1) unfolding SY6522_Write_def Let_def m1_def [symmetric] by (auto split: if_splits)
    then show ?thesis using write_orb_irq irq_same_ok 1 by blast
  next
    case False
    show ?thesis using False assms(1) 1
      unfolding SY6522_Write_def Let_def m1_def [symmetric]
      by (auto intro!: st up clear_ifr_ok 1 ifr write_ier_irq split: if_splits)
  qed
qed

lemma SY6522_Read_irq:
  assumes "SY6522_Read i r m = Some (b, m')" "irq_ok m"
  shows "irq_ok m'"
proof -
  define m1 where "m1 = m\<lparr>g_bMB_Active := True\<rparr>"
  have 1: "irq_ok m1" by (rule irq_same_ok [OF _ assms(2)]) (simp add: m1_def irq_same_def)
  have "m' = m1 \<or> (\<exists>f. m' = clear_ifr i f m1)"
    using assms(1) unfolding SY6522_Read_def Let_def m1_def [symmetric] by (auto split: if_splits)
  then show ?thesis using 1 clear_ifr_ok by blast
qed

lemma write_orb_ok:
  assumes "NDEBUG env" "mb_ok m" "i < 4" "g_bPhasorEnable m \<longrightarrow> i < 2"
  shows "\<exists>m'. write_orb env i v m = Some m' \<and> mb_ok m' \<and> g_bPhasorEnable m' = g_bPhasorEnable m"
proof -
  define w where "w = v AND DDRB (sy_of m i)"
  define m1 where "m1 = upd_sy i (\<lambda>s. s\<lparr>ORB := w\<rparr>) m"
  have 1: "mb_ok m1" "g_bPhasorEnable m1 = g_bPhasorEnable m" using assms(2) by (simp_all add: m1_def mb_ok_def)
  define cs where "cs = (if g_nPhasorMode m1 AND 1 \<noteq> 0 then NOT (drop_bit 3 w) AND 3 else 1)"
  obtain m2 where 2: "(if cs AND 1 \<noteq> 0 then AY8910_Write i w 0 m1 else Some m1) = Some m2" "mb_ok m2"
    "g_bPhasorEnable m2 = g_bPhasorEnable m1"
    using AY8910_Write_ok [OF 1(1), of i 0 w] 1(1) assms(3) by (cases "cs AND 1 = 0") auto
  have 3: "\<exists>m3. (if cs AND 2 \<noteq> 0 then AY8910_Write i w 1 m2 else Some m2) = Some m3 \<and> mb_ok m3 \<and> g_bPhasorEnable m3 = g_bPhasorEnable m1"
    if "i < 2" using AY8910_Write_ok [OF 2(2), of i 1 w] 2 that by (cases "cs AND 2 = 0") auto
  have 4: "\<exists>m3. AY8910_Write i w 0 m1 = Some m3 \<and> mb_ok m3 \<and> g_bPhasorEnable m3 = g_bPhasorEnable m1"
    using AY8910_Write_ok [OF 1(1), of i 0 w] assms(3) by auto
  have e: "write_orb env i v m = (if DDRB (sy_of m1 i) = 0xFF \<and> PCR (sy_of m1 i) = 0xB0 then Some m1
      else if g_bPhasorEnable m1 then do {
        m \<leftarrow> (if cs AND 1 \<noteq> 0 then AY8910_Write i w 0 m1 else Some m1);
        if cs AND 2 \<noteq> 0 then AY8910_Write i w 1 m else Some m }
      else AY8910_Write i w 0 m1)"
    unfolding write_orb_def Let_def w_def [symmetric] m1_def [symmetric] cs_def [symmetric] mb_assert_false_def using assms(1) by simp
  consider "DDRB (sy_of m1 i) = 0xFF \<and> PCR (sy_of m1 i) = 0xB0"
    | "\<not> (DDRB (sy_of m1 i) = 0xFF \<and> PCR (sy_of m1 i) = 0xB0)" "g_bPhasorEnable m1"
    | "\<not> (DDRB (sy_of m1 i) = 0xFF \<and> PCR (sy_of m1 i) = 0xB0)" "\<not> g_bPhasorEnable m1" by blast
  then show ?thesis
  proof cases
    case 1
    then show ?thesis using e \<open>mb_ok m1\<close> \<open>g_bPhasorEnable m1 = g_bPhasorEnable m\<close> by simp
  next
    case 2
    have "i < 2" using 2(2) assms(4) \<open>g_bPhasorEnable m1 = g_bPhasorEnable m\<close> by simp
    have "write_orb env i v m = (if cs AND 2 \<noteq> 0 then AY8910_Write i w 1 m2 else Some m2)"
      unfolding e if_not_P [OF 2(1)] if_P [OF 2(2)] \<open>(if cs AND 1 \<noteq> 0 then _ else _) = Some m2\<close> Option.bind.bind_lunit ..
    then show ?thesis using 3 [OF \<open>i < 2\<close>] \<open>g_bPhasorEnable m1 = g_bPhasorEnable m\<close> by simp
  next
    case 3
    have "write_orb env i v m = AY8910_Write i w 0 m1" unfolding e if_not_P [OF 3(1)] if_not_P [OF 3(2)] ..
    then show ?thesis using 4 \<open>g_bPhasorEnable m1 = g_bPhasorEnable m\<close> by simp
  qed
qed

lemma write_ier_fields [simp]:
  "g_AY8910 (write_ier i v m) = g_AY8910 m" "mb_video (write_ier i v m) = mb_video m"
  "m_fCurrentCLK_AY8910 (write_ier i v m) = m_fCurrentCLK_AY8910 m" "g_bPhasorEnable (write_ier i v m) = g_bPhasorEnable m"
  by (simp_all add: write_ier_def Let_def)

lemma SY6522_Write_ok:
  assumes "NDEBUG env" "mb_ok m" "i < 4" "g_bPhasorEnable m \<longrightarrow> i < 2"
  shows "\<exists>m'. SY6522_Write env i r v m = Some m' \<and> mb_ok m' \<and> g_bPhasorEnable m' = g_bPhasorEnable m"
proof -
  define m1 where "m1 = m\<lparr>g_bMB_Active := True\<rparr>"
  have 1: "mb_ok m1" "g_bPhasorEnable m1 = g_bPhasorEnable m" using assms(2) by (simp_all add: m1_def mb_ok_def)
  show ?thesis
  proof (cases "r = 0")
    case True
    then show ?thesis using write_orb_ok [OF assms(1) 1(1) assms(3)] 1(2) assms(3,4)
      unfolding SY6522_Write_def Let_def m1_def [symmetric] by (simp add: NUM_SY6522_def)
  next
    case False
    then obtain m' where "SY6522_Write env i r v m = Some m'" using assms(3) by (auto simp: SY6522_Write_def Let_def NUM_SY6522_def)
    moreover from this have "mb_ok m' \<and> g_bPhasorEnable m' = g_bPhasorEnable m1" using False 1(1) assms(3)
      unfolding SY6522_Write_def Let_def m1_def [symmetric] by (auto simp: mb_ok_def NUM_SY6522_def split: if_splits)
    ultimately show ?thesis using 1(2) by simp
  qed
qed

lemma SY6522_Read_ok:
  assumes "mb_ok m" "i < 4"
  shows "\<exists>b m'. SY6522_Read i r m = Some (b, m') \<and> mb_ok m' \<and> g_bPhasorEnable m' = g_bPhasorEnable m"
proof -
  define m1 where "m1 = m\<lparr>g_bMB_Active := True\<rparr>"
  have 1: "mb_ok m1" "g_bPhasorEnable m1 = g_bPhasorEnable m" using assms by (simp_all add: m1_def mb_ok_def)
  have "SY6522_Read i r m \<noteq> None" using assms(2) by (simp add: SY6522_Read_def Let_def NUM_SY6522_def)
  then obtain b m' where r: "SY6522_Read i r m = Some (b, m')" by auto
  have "m' = m1 \<or> (\<exists>f. m' = clear_ifr i f m1)"
    using r unfolding SY6522_Read_def Let_def m1_def [symmetric] by (auto split: if_splits)
  then have "mb_ok m' \<and> g_bPhasorEnable m' = g_bPhasorEnable m" using 1 by (auto simp: mb_ok_def)
  then show ?thesis using r by blast
qed

end
