(* ===== verification/A2_MockingboardGuarantees.thy ===== *)
theory A2_MockingboardGuarantees
  imports A2_MockingboardProps
begin

text \<open>
  What the sound card promises: the accesses and events it sees as a step relation, the interrupt line as
  an invariant of every reachable state, completion of every access, the timer as a liveness property,
  and the port protocol through which a program reaches the sound chips.
\<close>

section \<open>Events\<close>

datatype mb_event =
    Card_read addr
  | Card_write addr byte
  | Phasor_switch addr
  | Start_batch
  | End_batch
  | End_frame
  | Cycles nat

definition card_page :: "addr \<Rightarrow> bool" where
  "card_page ea \<longleftrightarrow> drop_bit 8 ea = 0xC4 \<or> drop_bit 8 ea = 0xC5"

definition mb_elapse :: "nat \<Rightarrow> mockingboard \<Rightarrow> mockingboard" where
  "mb_elapse n m = m\<lparr>mb_video := (mb_video m)\<lparr>cpu65_cycle_count := cpu65_cycle_count (mb_video m) + int n\<rparr>\<rparr>"

fun mb_exec :: "mb_env \<Rightarrow> mb_event \<Rightarrow> mockingboard \<Rightarrow> mockingboard option" where
  "mb_exec env (Card_read ea) m = map_option snd (MB_Read env ea m)"
| "mb_exec env (Card_write ea b) m = MB_Write env ea b m"
| "mb_exec env (Phasor_switch ea) m = Some (PhasorIOR env ea m)"
| "mb_exec env Start_batch m = Some (MB_StartOfCpuExecute m)"
| "mb_exec env End_batch m = MB_UpdateCycles env m"
| "mb_exec env End_frame m = MB_EndOfVideoFrame env m"
| "mb_exec env (Cycles n) m = Some (mb_elapse n m)"

definition on_card :: "mb_event \<Rightarrow> bool" where
  "on_card e = (case e of Card_read ea \<Rightarrow> card_page ea | Card_write ea _ \<Rightarrow> card_page ea | _ \<Rightarrow> True)"

inductive mb_reaches :: "mb_env \<Rightarrow> mockingboard \<Rightarrow> mockingboard \<Rightarrow> bool" for env where
  refl: "mb_reaches env m m"
| step: "mb_reaches env m n \<Longrightarrow> on_card e \<Longrightarrow> mb_exec env e n = Some p \<Longrightarrow> mb_reaches env m p"

inductive_cases mb_reachesE: "mb_reaches env m n"

lemma card_numbers:
  assumes "card_page ea"
  shows "unat (card_number ea) = (if drop_bit 8 ea = 0xC4 then 0 else 1)"
  using assms by (auto simp: card_page_def card_number_def)

lemma init_clock_fields:
  "g_MB (AY8910_InitClock env c m) = g_MB m" "mb_cpu (AY8910_InitClock env c m) = mb_cpu m"
  "mb_video (AY8910_InitClock env c m) = mb_video m" "m_fCurrentCLK_AY8910 (AY8910_InitClock env c m) = c"
  "g_bPhasorEnable (AY8910_InitClock env c m) = g_bPhasorEnable m"
  by (simp_all add: AY8910_InitClock_def sound_init_def units)

lemma chip_ok_tick: "chip_ok (a\<lparr>ay_tick_incr := t\<rparr>) \<longleftrightarrow> chip_ok a"
  by (simp add: chip_ok_def reset_pending_def)

lemma init_clock_chips:
  "\<forall>i < 4. chip_ok (g_AY8910 (AY8910_InitClock env c m) i) \<longleftrightarrow> chip_ok (g_AY8910 m i)"
proof (intro allI impI)
  fix i :: nat assume "i < 4"
  then consider "i = 0" | "i = 1" | "i = 2" | "i = 3" by linarith
  then show "chip_ok (g_AY8910 (AY8910_InitClock env c m) i) \<longleftrightarrow> chip_ok (g_AY8910 m i)"
    by cases (simp_all add: AY8910_InitClock_def sound_init_def units chip_ok_tick)
qed

section \<open>The line\<close>

lemma read_irq:
  assumes "MB_Read env ea m = Some (r, m')" "irq_ok m"
  shows "irq_ok m'"
proof -
  obtain m1 where m1: "MB_UpdateCycles env m = Some m1" using assms(1) by (auto simp: MB_Read_def split: bind_splits)
  have 1: "irq_ok m1" by (rule update_cycles_irq [OF m1 assms(2)])
  have rd: "irq_ok c" if "(if P then SY6522_Read i k a else Some (0, a)) = Some (b, c)" "irq_ok a" for P i k a b c
    using that SY6522_Read_irq by (cases P) auto
  show ?thesis using assms(1) 1 rd SY6522_Read_irq
    unfolding MB_Read_def m1 Option.bind.bind_lunit Let_def mb_assert_false_def
    by (auto split: if_splits bind_splits)
qed

lemma write_irq:
  assumes "MB_Write env ea v m = Some m'" "irq_ok m"
  shows "irq_ok m'"
proof -
  obtain m1 where m1: "MB_UpdateCycles env m = Some m1" using assms(1) by (auto simp: MB_Write_def split: bind_splits)
  have 1: "irq_ok m1" by (rule update_cycles_irq [OF m1 assms(2)])
  have wr: "irq_ok c" if "(if P then SY6522_Write env i k v a else Some a) = Some c" "irq_ok a" for P i k a c
    using that SY6522_Write_irq by (cases P) auto
  show ?thesis using assms(1) 1 wr SY6522_Write_irq
    unfolding MB_Write_def m1 Option.bind.bind_lunit Let_def mb_assert_false_def
    by (auto split: if_splits bind_splits)
qed

lemma exec_irq:
  assumes "mb_exec env e m = Some m'" "irq_ok m"
  shows "irq_ok m'"
proof (cases e)
  case (Card_read ea)
  then show ?thesis using assms read_irq by auto
next
  case (Card_write ea b)
  then show ?thesis using assms write_irq by auto
next
  case (Phasor_switch ea)
  have "irq_same m (PhasorIOR env ea m)"
    by (simp add: PhasorIOR_def Let_def irq_same_def init_clock_fields)
  then show ?thesis using Phasor_switch assms irq_same_ok by auto
next
  case Start_batch
  then show ?thesis using assms by (auto simp: MB_StartOfCpuExecute_def irq_ok_def irq_line_def)
next
  case End_batch
  then show ?thesis using assms update_cycles_irq by auto
next
  case End_frame
  then show ?thesis using assms MB_Update_irq by (auto simp: MB_EndOfVideoFrame_def split: if_splits)
next
  case (Cycles n)
  then show ?thesis using assms by (auto simp: mb_elapse_def irq_ok_def irq_line_def)
qed

section \<open>Completion\<close>

lemma read_ok:
  assumes "env_ok env" "NDEBUG env" "mb_ok m" "card_page ea"
  shows "\<exists>r m'. MB_Read env ea m = Some (r, m') \<and> mb_ok m'"
proof -
  obtain m1 where m1: "MB_UpdateCycles env m = Some m1" "mb_ok m1" using update_cycles_ok [OF assms(1,3)] by blast
  define n where "n = unat (card_number ea)"
  have n: "2 * n + 1 < 4" using card_numbers [OF assms(4)] by (simp add: n_def split: if_splits)
  have rd: "\<exists>b m'. SY6522_Read i k m = Some (b, m') \<and> mb_ok m'" if "i = 2 * n \<or> i = 2 * n + 1" "mb_ok m" for i k m
    using SY6522_Read_ok [OF that(2), of i k] that(1) n by auto
  have sel: "\<exists>b m'. (if P then SY6522_Read i k m else Some (0, m)) = Some (b, m') \<and> mb_ok m'"
    if "i = 2 * n \<or> i = 2 * n + 1" "mb_ok m" for P i k m
    using rd [OF that, of k] that(2) by (cases P) auto
  define r where "r = unat (ea AND 0xf)"
  obtain b m2 where m2: "(if chip_selects ea m1 AND 1 \<noteq> 0 then SY6522_Read (2 * n) r m1 else Some (0, m1)) = Some (b, m2)" "mb_ok m2"
    using sel [of "2 * n" m1] m1(2) by blast
  obtain b' m3 where m3: "(if chip_selects ea m1 AND 2 \<noteq> 0 then SY6522_Read (2 * n + 1) r m2 else Some (0, m2)) = Some (b', m3)" "mb_ok m3"
    using sel [of "2 * n + 1" m2] m2(2) by blast
  obtain x m4 where m4: "SY6522_Read (2 * n) r m1 = Some (x, m4)" "mb_ok m4" using rd m1(2) by blast
  obtain y m5 where m5: "SY6522_Read (2 * n + 1) r m1 = Some (y, m5)" "mb_ok m5" using rd m1(2) by blast
  show ?thesis
    unfolding MB_Read_def m1(1) Option.bind.bind_lunit Let_def mb_assert_false_def n_def [symmetric] r_def [symmetric]
    using assms(2) m1(2) m2 m3 m4 m5 by auto
qed

lemma write_ok:
  assumes "env_ok env" "NDEBUG env" "mb_ok m" "card_page ea"
  shows "\<exists>m'. MB_Write env ea v m = Some m' \<and> mb_ok m'"
proof -
  obtain m1 where m1: "MB_UpdateCycles env m = Some m1" "mb_ok m1" using update_cycles_ok [OF assms(1,3)] by blast
  define n where "n = unat (card_number ea)"
  have n: "2 * n + 1 < 4" using card_numbers [OF assms(4)] by (simp add: n_def split: if_splits)
  have wr: "\<exists>m'. SY6522_Write env i k v m = Some m' \<and> mb_ok m' \<and> g_bPhasorEnable m' = g_bPhasorEnable m"
    if "i = 2 * n \<or> i = 2 * n + 1" "mb_ok m" "g_bPhasorEnable m \<longrightarrow> n = 0" for i k m
    using SY6522_Write_ok [OF assms(2) that(2), of i] that(1,3) n by auto
  have sel: "\<exists>m'. (if P then SY6522_Write env i k v m else Some m) = Some m' \<and> mb_ok m' \<and> g_bPhasorEnable m' = g_bPhasorEnable m"
    if "i = 2 * n \<or> i = 2 * n + 1" "mb_ok m" "g_bPhasorEnable m \<longrightarrow> n = 0" for P i k m
    using wr [OF that, of k] that(2) by (cases P) auto
  define r where "r = unat (ea AND 0xf)"
  show ?thesis
  proof (cases "g_bPhasorEnable m1 \<and> n = 0")
    case True
    obtain m2 where m2: "(if chip_selects ea m1 AND 1 \<noteq> 0 then SY6522_Write env (2 * n) r v m1 else Some m1) = Some m2" "mb_ok m2"
      using sel [of "2 * n" m1] m1(2) True by blast
    obtain m3 where m3: "(if chip_selects ea m1 AND 2 \<noteq> 0 then SY6522_Write env (2 * n + 1) r v m2 else Some m2) = Some m3" "mb_ok m3"
      using sel [of "2 * n + 1" m2] m2(2) True by blast
    show ?thesis
      unfolding MB_Write_def m1(1) Option.bind.bind_lunit Let_def mb_assert_false_def n_def [symmetric] r_def [symmetric]
      using assms(2) True m2 m3 by auto
  next
    case False
    then have p: "g_bPhasorEnable m1 \<Longrightarrow> n \<noteq> 0" by simp
    show ?thesis
      unfolding MB_Write_def m1(1) Option.bind.bind_lunit Let_def mb_assert_false_def n_def [symmetric] r_def [symmetric]
      using assms(2) p wr [of "2 * n" m1 r] wr [of "2 * n + 1" m1 r] m1(2) by (cases "g_bPhasorEnable m1") auto
  qed
qed

lemma exec_ok:
  assumes "env_ok env" "NDEBUG env" "mb_ok m" "on_card e"
  shows "\<exists>m'. mb_exec env e m = Some m' \<and> mb_ok m'"
proof (cases e)
  case (Card_read ea)
  then show ?thesis using read_ok [OF assms(1-3), of ea] assms(4) by (auto simp: on_card_def)
next
  case (Card_write ea b)
  then show ?thesis using write_ok [OF assms(1-3), of ea b] assms(4) by (auto simp: on_card_def)
next
  case (Phasor_switch ea)
  have "HZ_COMMON_DENOMINATOR \<le> CLK_6502_INT" by (simp add: HZ_COMMON_DENOMINATOR_def CLK_6502_INT_def)
  then have "mb_ok (PhasorIOR env ea m)" using assms(3) init_clock_chips
    by (auto simp: PhasorIOR_def Let_def mb_ok_def init_clock_fields)
  then show ?thesis using Phasor_switch by simp
next
  case Start_batch
  then show ?thesis using assms(3) by (simp add: MB_StartOfCpuExecute_def mb_ok_def)
next
  case End_batch
  then show ?thesis using update_cycles_ok [OF assms(1,3)] by auto
next
  case End_frame
  then show ?thesis using MB_Update_ok [OF assms(1,3)] assms(3) by (auto simp: MB_EndOfVideoFrame_def)
next
  case (Cycles n)
  then show ?thesis using assms(3) by (simp add: mb_elapse_def mb_ok_def)
qed

section \<open>The timer\<close>

fun run_batches :: "mb_env \<Rightarrow> nat list \<Rightarrow> mockingboard \<Rightarrow> mockingboard option" where
  "run_batches env [] m = Some m"
| "run_batches env (n # ns) m = MB_UpdateCycles env (mb_elapse n m) \<bind> run_batches env ns"

definition timer_running :: "nat \<Rightarrow> mockingboard \<Rightarrow> bool" where
  "timer_running i m \<longleftrightarrow> i < 4 \<and> g_SoundcardType m \<noteq> CT_Empty \<and> g_nMBTimerDevice m = of_nat i \<and>
     g_bMBTimerIrqActive m \<and> bit (IER (sy_of m i)) 6"

text \<open>The card has seen every cycle of the CPU.\<close>

definition in_sync :: "mockingboard \<Rightarrow> bool" where
  "in_sync m \<longleftrightarrow> mb_last_cycles m = total_cycles m \<and> total_cycles m < 2 ^ 64 \<and>
     cycles_checkpoint_count (mb_video m) = cpu65_cycle_count (mb_video m)"

lemma other_device:
  assumes "timer_running i m" "j < 4" "j \<noteq> i"
  shows "\<not> fires n j m" "clock_unit env n j m = Some (upd_sy j (tick n) m)"
proof -
  have "i < 4" "g_nMBTimerDevice m = of_nat i" "g_bMBTimerIrqActive m" using assms(1) by (simp_all add: timer_running_def)
  moreover have "(of_nat i :: u32) \<noteq> of_nat j"
  proof
    assume "(of_nat i :: u32) = of_nat j"
    then have "unat (of_nat i :: u32) = unat (of_nat j :: u32)" by simp
    then show False using \<open>i < 4\<close> assms(2,3) by (simp add: unsigned_of_nat take_bit_nat_eq_self)
  qed
  ultimately show "\<not> fires n j m" by (simp add: fires_def)
  then show "clock_unit env n j m = Some (upd_sy j (tick n) m)"
    using \<open>g_bMBTimerIrqActive m\<close> by (simp add: clock_unit_eq)
qed

lemma running_tick:
  assumes "timer_running i m" "mb_ok m"
  shows "timer_running i (upd_sy j (tick n) m)" "mb_ok (upd_sy j (tick n) m)" "clock_same m (upd_sy j (tick n) m)"
  using assms by (auto simp: timer_running_def mb_ok_def clock_same_def tick_def)

lemma units_quiet:
  assumes "timer_running i m" "mb_ok m" "distinct is" "\<forall>j \<in> set is. j < 4" "i \<in> set is \<longrightarrow> \<not> underflows n (sy_of m i)"
  shows "\<exists>m'. clock_units env n is m = Some m' \<and> timer_running i m' \<and> mb_ok m' \<and> clock_same m m' \<and>
    sy_of m' i = (if i \<in> set is then tick n (sy_of m i) else sy_of m i)"
  using assms
proof (induction "is" arbitrary: m)
  case (Cons j "is")
  have s: "clock_unit env n j m = Some (upd_sy j (tick n) m)"
  proof (cases "j = i")
    case True
    then show ?thesis using Cons.prems(5) by (simp add: clock_unit_eq fires_def)
  next
    case False
    then show ?thesis using other_device(2) [OF Cons.prems(1)] Cons.prems(4) by simp
  qed
  let ?m = "upd_sy j (tick n) m"
  note r = running_tick [OF Cons.prems(1,2), of j n]
  have "i \<in> set is \<longrightarrow> \<not> underflows n (sy_of ?m i)" using Cons.prems(3,5) by auto
  then obtain m' where m': "clock_units env n is ?m = Some m'" "timer_running i m'" "mb_ok m'" "clock_same ?m m'"
    "sy_of m' i = (if i \<in> set is then tick n (sy_of ?m i) else sy_of ?m i)"
    using Cons.IH [OF r(1,2)] Cons.prems(3,4) by auto
  show ?case using s m' clock_same_trans [OF r(3) m'(4)] Cons.prems(3) by (intro exI [of _ m']) auto
qed simp

lemma units_fire:
  assumes "env_ok env" "timer_running i m" "mb_ok m" "distinct is" "\<forall>j \<in> set is. j < 4" "i \<in> set is" "underflows n (sy_of m i)"
  shows "\<exists>m'. clock_units env n is m = Some m' \<and> mb_ok m' \<and> clock_same m m' \<and> bit (IFR (sy_of m' i)) 6"
  using assms(2-)
proof (induction "is" arbitrary: m)
  case (Cons j "is")
  show ?case
  proof (cases "j = i")
    case True
    have "fires n i m" using Cons.prems(1,6) by (simp add: fires_def timer_running_def)
    then obtain m1 where 1: "clock_unit env n i m = Some m1" "mb_ok m1" "clock_same m m1" "bit (IFR (sy_of m1 i)) 6"
      using clock_unit_ok [OF assms(1) Cons.prems(2), of n i] by blast
    obtain m2 where 2: "clock_units env n is m1 = Some m2" "mb_ok m2" "clock_same m1 m2" "sy_of m2 i = sy_of m1 i"
      using clock_units_ok [OF assms(1) 1(2), of n "is"] Cons.prems(3) True by auto
    then show ?thesis using 1 True clock_same_trans by auto
  next
    case False
    let ?m = "upd_sy j (tick n) m"
    have s: "clock_unit env n j m = Some ?m" using other_device(2) [OF Cons.prems(1) _ False] Cons.prems(4) by simp
    note r = running_tick [OF Cons.prems(1,2), of j n]
    have "underflows n (sy_of ?m i)" using Cons.prems(6) False by simp
    then obtain m' where "clock_units env n is ?m = Some m'" "mb_ok m'" "clock_same ?m m'" "bit (IFR (sy_of m' i)) 6"
      using Cons.IH [OF r(1,2)] Cons.prems(3-5) False by auto
    then show ?thesis using s clock_same_trans [OF r(3)] by auto
  qed
qed simp

lemma bit15: "(w :: addr) AND 0x8000 = 0 \<longleftrightarrow> unat w < 32768"
proof -
  have "w AND 0x8000 = 0 \<longleftrightarrow> \<not> bit w 15" by (rule single_flag_test) simp_all
  also have "bit w 15 \<longleftrightarrow> odd (unat w div 2 ^ 15)" by (simp only: bit_unsigned_iff [symmetric] bit_iff_odd [symmetric]) (simp add: bit_unsigned_iff)
  also have "\<dots> \<longleftrightarrow> \<not> unat w < 32768"
  proof -
    have "unat w < 65536" using unsigned_less [of w] by simp
    then have "unat w div 2 ^ 15 = (if unat w < 32768 then 0 else 1)" by (simp add: div_nat_eqI)
    then show ?thesis by simp
  qed
  finally show ?thesis by simp
qed

lemma countdown:
  assumes "n \<le> 0x8000" "c = unat (TIMER1_COUNTER s)"
  shows "underflows (of_nat n) s \<longleftrightarrow> c < n" "n \<le> c \<Longrightarrow> unat (TIMER1_COUNTER (tick (of_nat n) s)) = c - n"
proof -
  have c: "c < 65536" using unsigned_less [of "TIMER1_COUNTER s"] assms(2) by simp
  have n: "unat (of_nat n :: addr) = n" unfolding unsigned_of_nat of_nat_id by (rule take_bit_nat_eq_self) (use assms(1) in simp)
  have le: "unat (TIMER1_COUNTER s - of_nat n) = c - n" if "n \<le> c"
    using that by (simp add: unat_sub word_le_nat_alt n assms(2))
  have gt: "unat (TIMER1_COUNTER s - of_nat n) = 65536 + c - n" if "c < n"
    using that by (simp add: unat_sub_if_size n assms(2) [symmetric] word_size)
  show "underflows (of_nat n) s \<longleftrightarrow> c < n"
  proof (cases "n \<le> c")
    case True
    then show ?thesis unfolding underflows_def bit15 using le [OF True] by (simp add: tick_def assms(2) [symmetric] del: unat_sub_if_size) linarith
  next
    case False
    then show ?thesis unfolding underflows_def bit15 using gt assms(1) by (simp add: tick_def assms(2) [symmetric])
  qed
  show "n \<le> c \<Longrightarrow> unat (TIMER1_COUNTER (tick (of_nat n) s)) = c - n" using le by (simp add: tick_def)
qed

text \<open>One batch.\<close>

lemma batch_clock:
  assumes "timer_running i m" "mb_ok m" "in_sync m" "0 < n" "n \<le> 0x8000"
  shows "\<exists>m1. MB_UpdateCycles env (mb_elapse n m) = clock_units env (of_nat n) [0, 1, 2, 3] m1 \<and>
    timer_running i m1 \<and> mb_ok m1 \<and> in_sync m1 \<and> g_MB m1 = g_MB m \<and> mb_cpu m1 = mb_cpu m"
proof -
  let ?e = "mb_elapse n m"
  have e: "mb_ok ?e" using assms(2) by (simp add: mb_elapse_def mb_ok_def)
  obtain v where v: "mb_checkpoint ?e = Some (?e\<lparr>mb_video := v\<rparr>)" "mb_ok (?e\<lparr>mb_video := v\<rparr>)"
    "cpu65_cycle_count v = cpu65_cycle_count (mb_video ?e)" "cycles_checkpoint_count v = cpu65_cycle_count v"
    "cycles_count_total v = (cycles_count_total (mb_video ?e) + nat (cpu65_cycle_count (mb_video ?e) - cycles_checkpoint_count (mb_video ?e))) mod 2 ^ 64"
    using checkpoint_mb [OF e] by blast
  define m0 where "m0 = ?e\<lparr>mb_video := v\<rparr>"
  define m1 where "m1 = m0\<lparr>mb_last_cycles := total_cycles m0\<rparr>"
  define T where "T = total_cycles m"
  have T: "T < 2 ^ 64" "mb_last_cycles m0 = T" "total_cycles m0 = (T + n) mod 2 ^ 64"
    using assms(3) v(5) by (simp_all add: in_sync_def T_def m0_def total_cycles_def mb_elapse_def)
  have "(int ((T + n) mod 2 ^ 64) - int T) mod 2 ^ 64 = int n mod 2 ^ 64"
    by (simp add: of_nat_mod mod_diff_left_eq)
  also have "\<dots> = int n" using assms(5) by simp
  finally have u: "(int (total_cycles m0) - int (mb_last_cycles m0)) mod 2 ^ 64 = int n" using T by simp
  have c: "clocks_passed m0 = of_nat n" unfolding clocks_passed_def u Let_def using assms(5) by simp
  have nz: "(of_nat n :: addr) \<noteq> 0"
  proof
    assume "(of_nat n :: addr) = 0"
    then have "unat (of_nat n :: addr) = 0" by simp
    then show False using assms(4,5) by (simp add: unsigned_of_nat take_bit_nat_eq_self)
  qed
  have t: "g_SoundcardType ?e \<noteq> CT_Empty" using assms(1) by (simp add: timer_running_def mb_elapse_def)
  have "MB_UpdateCycles env ?e = clock_units env (of_nat n) [0, 1, 2, 3] m1"
    unfolding update_cycles_eq [OF t v(1)] m0_def [symmetric] c Let_def m1_def using nz by (simp del: clock_units.simps)
  moreover have "timer_running i m1" using assms(1) by (simp add: timer_running_def m1_def m0_def mb_elapse_def)
  moreover have "mb_ok m1" using v(2) by (simp add: m1_def m0_def mb_ok_def)
  moreover have "in_sync m1" using v(3,4) T(3) by (simp add: in_sync_def m1_def m0_def total_cycles_def)
  moreover have "g_MB m1 = g_MB m" "mb_cpu m1 = mb_cpu m" by (simp_all add: m1_def m0_def mb_elapse_def)
  ultimately show ?thesis by blast
qed

lemma sync_same: "clock_same m m' \<Longrightarrow> in_sync m \<Longrightarrow> in_sync m'"
  by (simp add: clock_same_def in_sync_def total_cycles_def)

lemma line_raised:
  assumes "irq_ok m" "i < 4" "bit (IFR (sy_of m i)) 6" "bit (IER (sy_of m i)) 6"
  shows "irq_line m"
proof -
  have "bit (IFR (sy_of m i) AND IER (sy_of m i) AND 0x7F) 6"
    using assms(3,4) by (simp add: byte_bits del: bit_numeral_word_iff)
  then have "IFR (sy_of m i) AND IER (sy_of m i) AND 0x7F \<noteq> 0" by (metis bit_0_eq bot_apply bot_bool_def)
  then show ?thesis using assms(1,2) by (auto simp: irq_ok_def unit_ok_def)
qed

lemma timer_fires:
  assumes "env_ok env" "timer_running i m" "mb_ok m" "irq_ok m" "in_sync m"
    "\<forall>n \<in> set ns. 0 < n \<and> n \<le> 0x8000" "unat (TIMER1_COUNTER (sy_of m i)) < sum_list ns"
  shows "\<exists>k < length ns. \<exists>m'. run_batches env (take (Suc k) ns) m = Some m' \<and>
    sum_list (take k ns) \<le> unat (TIMER1_COUNTER (sy_of m i)) \<and>
    unat (TIMER1_COUNTER (sy_of m i)) < sum_list (take (Suc k) ns) \<and>
    bit (IFR (sy_of m' i)) 6 \<and> irq_line m'"
  using assms(2-)
proof (induction ns arbitrary: m)
  case (Cons n ns)
  have n: "0 < n" "n \<le> 0x8000" using Cons.prems(5) by simp_all
  have i: "i < 4" "i \<in> set [0, 1, 2, 3]" using Cons.prems(1) by (auto simp: timer_running_def)
  obtain m1 where b: "MB_UpdateCycles env (mb_elapse n m) = clock_units env (of_nat n) [0, 1, 2, 3] m1"
    "timer_running i m1" "mb_ok m1" "in_sync m1" "g_MB m1 = g_MB m" "mb_cpu m1 = mb_cpu m"
    using batch_clock [OF Cons.prems(1,2,4) n] by blast
  have q1: "irq_ok m1" by (rule irq_same_ok [OF _ Cons.prems(3)]) (simp add: irq_same_def b(5,6))
  define c where "c = unat (TIMER1_COUNTER (sy_of m1 i))"
  have c: "unat (TIMER1_COUNTER (sy_of m i)) = c" by (simp add: c_def b(5))
  have d: "distinct [0, 1, 2, 3 :: nat]" "\<forall>j \<in> set [0, 1, 2, 3 :: nat]. j < 4" by simp_all
  show ?case
  proof (cases "c < n")
    case True
    then have "underflows (of_nat n) (sy_of m1 i)" using countdown(1) [OF n(2) c_def] by simp
    then obtain m' where m': "clock_units env (of_nat n) [0, 1, 2, 3] m1 = Some m'" "mb_ok m'" "clock_same m1 m'" "bit (IFR (sy_of m' i)) 6"
      using units_fire [OF assms(1) b(2,3) d i(2)] by blast
    have "bit (IER (sy_of m' i)) 6" using m'(3) b(2) by (simp add: clock_same_def timer_running_def)
    then have "irq_line m'" using line_raised [OF clock_units_irq [OF m'(1) q1] i(1) m'(4)] by blast
    then show ?thesis using b(1) m' True by (intro exI [of _ 0]) (simp add: c del: clock_units.simps)
  next
    case False
    then have "\<not> underflows (of_nat n) (sy_of m1 i)" using countdown(1) [OF n(2) c_def] by simp
    then obtain m2 where m2: "clock_units env (of_nat n) [0, 1, 2, 3] m1 = Some m2" "timer_running i m2" "mb_ok m2"
      "clock_same m1 m2" "sy_of m2 i = tick (of_nat n) (sy_of m1 i)"
      using units_quiet [OF b(2,3) d] i(2) by (metis (no_types, lifting))
    have c2: "unat (TIMER1_COUNTER (sy_of m2 i)) = c - n" using countdown(2) [OF n(2) c_def] False m2(5) by simp
    have lt: "unat (TIMER1_COUNTER (sy_of m2 i)) < sum_list ns" using Cons.prems(6) c c2 False by simp
    have r: "\<forall>n \<in> set ns. 0 < n \<and> n \<le> 0x8000" using Cons.prems(5) by simp
    obtain k m' where k: "k < length ns" "run_batches env (take (Suc k) ns) m2 = Some m'" "sum_list (take k ns) \<le> c - n"
      "c - n < sum_list (take (Suc k) ns)" "bit (IFR (sy_of m' i)) 6" "irq_line m'"
      using Cons.IH [OF m2(2,3) clock_units_irq [OF m2(1) q1] sync_same [OF m2(4) b(4)] r lt] unfolding c2 by blast
    have "run_batches env (take (Suc (Suc k)) (n # ns)) m = Some m'"
      using b(1) m2(1) k(2) by (simp del: clock_units.simps)
    moreover have "sum_list (take (Suc k) (n # ns)) \<le> c" "c < sum_list (take (Suc (Suc k)) (n # ns))"
      using k(3,4) False by (simp_all del: take_Suc_Cons add: take_Cons')
    ultimately show ?thesis using k(1,5,6) c by (intro exI [of _ "Suc k"]) (simp del: take_Suc_Cons)
  qed
qed simp

section \<open>The port protocol\<close>

text \<open>How a program writes a sound register: the number on port A, latch, idle, the value on port A, write,
  idle.\<close>

definition ay_program :: "mb_env \<Rightarrow> nat \<Rightarrow> byte \<Rightarrow> byte \<Rightarrow> mockingboard \<Rightarrow> mockingboard option" where
  "ay_program env i r v m = do {
     m \<leftarrow> SY6522_Write env i 1 r m;
     m \<leftarrow> SY6522_Write env i 0 7 m;
     m \<leftarrow> SY6522_Write env i 0 4 m;
     m \<leftarrow> SY6522_Write env i 1 v m;
     m \<leftarrow> SY6522_Write env i 0 6 m;
     SY6522_Write env i 0 4 m }"

text \<open>Both ports are outputs, and the adapter is not driving a speech chip.\<close>

definition ports_open :: "nat \<Rightarrow> mockingboard \<Rightarrow> bool" where
  "ports_open i m \<longleftrightarrow> i < 4 \<and> \<not> g_bPhasorEnable m \<and> DDRA (sy_of m i) = 0xFF \<and> DDRB (sy_of m i) = 0xFF \<and> PCR (sy_of m i) \<noteq> 0xB0"

lemma all_ones: "(v :: byte) AND 0xFF = v"
proof -
  have "(v AND 0xFF) = take_bit 8 v" by (simp only: take_bit_eq_mask) (simp add: mask_eq_exp_minus_1)
  then show ?thesis by (simp add: take_bit_word_eq_self)
qed

lemma register_number: "(r :: byte) \<le> 0xF \<Longrightarrow> r AND 0xF = r"
proof -
  assume "r \<le> 0xF"
  then have "unat r < 2 ^ 4" by (simp add: word_le_nat_alt)
  then have "unat (take_bit 4 r) = unat r" by (simp add: unsigned_take_bit_eq take_bit_nat_eq_self)
  then have "take_bit 4 r = r" by (rule unsigned_word_eqI)
  moreover have "(r AND 0xF) = take_bit 4 r" by (simp only: take_bit_eq_mask) (simp add: mask_eq_exp_minus_1)
  ultimately show ?thesis by simp
qed

text \<open>The effect of each step on an open port.\<close>

definition latched :: "nat \<Rightarrow> mockingboard \<Rightarrow> byte \<Rightarrow> byte \<Rightarrow> mockingboard \<Rightarrow> bool" where
  "latched i m a reg m' \<longleftrightarrow> ports_open i m' \<and> ORA (sy_of m' i) = a \<and> nAYCurrentRegister (g_MB m' i) = reg \<and>
     mb_video m' = mb_video m \<and> ay_last_cycles m' = ay_last_cycles m"

lemma port_a:
  assumes "latched i m0 a reg m"
  shows "\<exists>m'. SY6522_Write env i 1 v m = Some m' \<and> latched i m0 v reg m' \<and> g_AY8910 m' = g_AY8910 m"
  using assms by (simp add: SY6522_Write_def Let_def NUM_SY6522_def latched_def ports_open_def all_ones) (simp add: upd_sy_def upd_mb_def)

lemma port_b:
  assumes "latched i m0 a reg m"
  shows "\<exists>m1. SY6522_Write env i 0 v m = AY8910_Write i v 0 m1 \<and> latched i m0 a reg m1 \<and> g_AY8910 m1 = g_AY8910 m"
proof -
  let ?m1 = "upd_sy i (\<lambda>s. s\<lparr>ORB := v\<rparr>) (m\<lparr>g_bMB_Active := True\<rparr>)"
  have "SY6522_Write env i 0 v m = AY8910_Write i v 0 ?m1"
    using assms by (simp add: SY6522_Write_def Let_def NUM_SY6522_def latched_def ports_open_def all_ones write_orb_def)
  moreover have "latched i m0 a reg ?m1" using assms
    by (simp add: latched_def ports_open_def) (simp add: upd_sy_def upd_mb_def)
  ultimately show ?thesis by (intro exI [of _ ?m1]) simp
qed

lemma port_b_idle:
  assumes "latched i m0 a reg m"
  shows "\<exists>m'. SY6522_Write env i 0 4 m = Some m' \<and> latched i m0 a reg m' \<and> g_AY8910 m' = g_AY8910 m"
proof -
  obtain m1 where m1: "SY6522_Write env i 0 4 m = AY8910_Write i 4 0 m1" "latched i m0 a reg m1" "g_AY8910 m1 = g_AY8910 m"
    using port_b [OF assms] by blast
  have "AY8910_Write i 4 0 m1 = Some (m1\<lparr>g_bMB_RegAccessedFlag := True\<rparr>)" by (simp add: AY8910_Write_func Let_def)
  then show ?thesis using m1 by (simp add: latched_def ports_open_def)
qed

lemma port_b_latch:
  assumes "latched i m0 a reg m" "a \<le> 0xF"
  shows "\<exists>m'. SY6522_Write env i 0 7 m = Some m' \<and> latched i m0 a a m' \<and> g_AY8910 m' = g_AY8910 m"
proof -
  obtain m1 where m1: "SY6522_Write env i 0 7 m = AY8910_Write i 7 0 m1" "latched i m0 a reg m1" "g_AY8910 m1 = g_AY8910 m"
    using port_b [OF assms(1)] by blast
  let ?m = "upd_mb i (\<lambda>u. u\<lparr>nAYCurrentRegister := ORA (sy u) AND 0x0F\<rparr>) (m1\<lparr>g_bMB_RegAccessedFlag := True\<rparr>)"
  have "AY8910_Write i 7 0 m1 = Some ?m" using m1(2) assms(2) by (simp add: AY8910_Write_func Let_def latched_def)
  moreover have "latched i m0 a a ?m" using m1(2) register_number [OF assms(2)]
    by (simp add: latched_def ports_open_def upd_mb_def)
  ultimately show ?thesis using m1(1,3) by simp
qed

lemma port_b_write:
  assumes "latched i m0 a reg m"
  shows "\<exists>m'. SY6522_Write env i 0 6 m = Some m' \<and> latched i m0 a reg m' \<and>
    g_AY8910 m' = (g_AY8910 m)(i := sound_ay_write (unat reg) a (of_nat (total_cycles m0) - of_nat (ay_last_cycles m0)) (g_AY8910 m i))"
proof -
  obtain m1 where m1: "SY6522_Write env i 0 6 m = AY8910_Write i 6 0 m1" "latched i m0 a reg m1" "g_AY8910 m1 = g_AY8910 m"
    using port_b [OF assms(1)] by blast
  let ?a = "(g_AY8910 m)(i := sound_ay_write (unat reg) a (of_nat (total_cycles m0) - of_nat (ay_last_cycles m0)) (g_AY8910 m i))"
  let ?m = "m1\<lparr>g_bMB_RegAccessedFlag := True, g_AY8910 := ?a\<rparr>"
  have "AY8910_Write i 6 0 m1 = Some ?m"
    using m1(2,3) by (simp add: AY8910_Write_func Let_def AYWriteReg_def upd_ay_def latched_def ports_open_def total_cycles_def)
  then show ?thesis using m1(1,2) by (simp add: latched_def ports_open_def)
qed

section \<open>Guarantees\<close>



text \<open>C11: A running timer interrupts.  When the batches the CPU is run for together pass the counter, the
  first batch to do so ends with the timer's flag set and the interrupt line of the CPU up.\<close>

theorem timer_interrupts:
  assumes "env_ok env" "mb_ok m" "irq_ok m" "timer_running i m" "in_sync m"
    "\<forall>n \<in> set ns. 0 < n \<and> n \<le> 0x8000" "unat (TIMER1_COUNTER (sy_of m i)) < sum_list ns"
  shows "\<exists>k < length ns. \<exists>m'. run_batches env (take (Suc k) ns) m = Some m' \<and>
    sum_list (take k ns) \<le> unat (TIMER1_COUNTER (sy_of m i)) \<and>
    unat (TIMER1_COUNTER (sy_of m i)) < sum_list (take (Suc k) ns) \<and>
    bit (IFR (sy_of m' i)) 6 \<and> irq_line m'"
  by (rule timer_fires [OF assms(1,4,2,3,5-7)])

text \<open>C15: The port protocol of the sound chips: number on port A, latch, value on port A, write queues
  exactly this register write, with its time, on the adapter's own chip, and touches no other chip.\<close>

theorem ay_register_write:
  assumes "ports_open i m" "r \<le> 0xF" "ay_change_count (g_AY8910 m i) < AY_CHANGE_MAX"
  shows "\<exists>m'. ay_program env i r v m = Some m' \<and>
    ay_change_count (g_AY8910 m' i) = Suc (ay_change_count (g_AY8910 m i)) \<and>
    ch_reg (ay_change (g_AY8910 m' i) (ay_change_count (g_AY8910 m i))) = r \<and>
    ch_val (ay_change (g_AY8910 m' i) (ay_change_count (g_AY8910 m i))) = v \<and>
    ch_tstates (ay_change (g_AY8910 m' i) (ay_change_count (g_AY8910 m i))) = of_nat (total_cycles m) - of_nat (ay_last_cycles m) \<and>
    (\<forall>j < ay_change_count (g_AY8910 m i). ay_change (g_AY8910 m' i) j = ay_change (g_AY8910 m i) j) \<and>
    (\<forall>j. j \<noteq> i \<longrightarrow> g_AY8910 m' j = g_AY8910 m j)"
proof -
  define a where "a = ORA (sy_of m i)"
  define reg where "reg = nAYCurrentRegister (g_MB m i)"
  have l0: "latched i m a reg m" using assms(1) by (simp add: latched_def a_def reg_def)
  obtain m1 where 1: "SY6522_Write env i 1 r m = Some m1" "latched i m r reg m1" "g_AY8910 m1 = g_AY8910 m"
    using port_a [OF l0] by blast
  obtain m2 where 2: "SY6522_Write env i 0 7 m1 = Some m2" "latched i m r r m2" "g_AY8910 m2 = g_AY8910 m1"
    using port_b_latch [OF 1(2) assms(2)] by blast
  obtain m3 where 3: "SY6522_Write env i 0 4 m2 = Some m3" "latched i m r r m3" "g_AY8910 m3 = g_AY8910 m2"
    using port_b_idle [OF 2(2)] by blast
  obtain m4 where 4: "SY6522_Write env i 1 v m3 = Some m4" "latched i m v r m4" "g_AY8910 m4 = g_AY8910 m3"
    using port_a [OF 3(2)] by blast
  obtain m5 where 5: "SY6522_Write env i 0 6 m4 = Some m5" "latched i m v r m5"
    "g_AY8910 m5 = (g_AY8910 m4)(i := sound_ay_write (unat r) v (of_nat (total_cycles m) - of_nat (ay_last_cycles m)) (g_AY8910 m4 i))"
    using port_b_write [OF 4(2)] by blast
  obtain m6 where 6: "SY6522_Write env i 0 4 m5 = Some m6" "g_AY8910 m6 = g_AY8910 m5"
    using port_b_idle [OF 5(2)] by blast
  have "ay_program env i r v m = Some m6" by (simp only: ay_program_def 1(1) 2(1) 3(1) 4(1) 5(1) 6(1) Option.bind.bind_lunit)
  moreover have "g_AY8910 m6 = (g_AY8910 m)(i := sound_ay_write (unat r) v (of_nat (total_cycles m) - of_nat (ay_last_cycles m)) (g_AY8910 m i))"
    using 1(3) 2(3) 3(3) 4(3) 5(3) 6(2) by simp
  moreover have "(of_nat (unat r) :: byte) AND 15 = r" using register_number [OF assms(2)] by simp
  ultimately show ?thesis using assms(3) by (simp add: sound_ay_write_def Let_def)
qed

text \<open>In a debug build a program can stop the emulator: an access to the registers of the speech chip,
  which is not compiled in, fails an assertion.\<close>

theorem speech_access_aborts:
  assumes "env_ok env" "\<not> NDEBUG env" "mb_ok m" "\<not> g_bPhasorEnable m" "0x40 \<le> unat (ea AND 0xff)" "unat (ea AND 0xff) \<le> 0x45"
  shows "MB_Read env ea m = None \<and> MB_Write env ea v m = None"
proof -
  obtain m1 where m1: "MB_UpdateCycles env m = Some m1" "g_bPhasorEnable m1 = g_bPhasorEnable m"
    using update_cycles_ok [OF assms(1,3)] by blast
  show ?thesis using assms(2,4-6) m1(2)
    by (simp add: MB_Read_def MB_Write_def m1(1) Let_def mb_assert_false_def)
qed

section \<open>A concrete card\<close>

definition demo_env :: mb_env where
  "demo_env = \<lparr>NDEBUG = True, audio_isAvailable = True, voice = Some True, is_fullspeed = False,
     cycles_persec_target = 1020484, SAMPLE_RATE = 44100, samples_per_period = (\<lambda>_. 735), attenuate = (\<lambda>x. x),
     scale_sample = (\<lambda>x. x), tick_incr = (\<lambda>_. 1516544), play_cursor = Some 8192, buffer_size = 32768,
     bytes_per_sample = 2, lock = (\<lambda>k n. Some (n - n mod 2)), ds_init = True\<rparr>"

definition idle_cpu :: cpu65 where
  "idle_cpu = \<lparr>cpu65_pc = 0, cpu65_ea = 0, cpu65_a = 0, cpu65_f = 0, cpu65_x = 0, cpu65_y = 0, cpu65_sp = 0,
     cpu65_signal = 0, cpu65_flags_encode = (\<lambda>x. x), cpu65_flags_decode = (\<lambda>x. x)\<rparr>"

text \<open>The first adapter's timer has a thousand cycles to go; its ports are outputs.\<close>

definition start_mb :: mockingboard where
  "start_mb = \<lparr>g_MB = (\<lambda>i. cleared_unit\<lparr>nAY8910Number := of_nat i,
       sy := (if i = 0 then cleared_sy6522\<lparr>IER := 0x40, TIMER1_COUNTER := 1000, DDRA := 0xFF, DDRB := 0xFF\<rparr> else cleared_sy6522)\<rparr>),
     g_n6522TimerPeriod = 1000, g_nMBTimerDevice = 0, mb_last_cycles = 0, g_nMB_InActiveCycleCount = 0,
     g_bMB_RegAccessedFlag = False, g_bMB_Active = False, g_bMBTimerIrqActive = True, g_SoundcardType = CT_MockingboardC,
     g_bPhasorEnable = False, g_nPhasorMode = 0, g_PhasorClockScaleFactor = 1, g_Slot4 = CT_MockingboardC,
     g_Slot5 = CT_MockingboardC, g_bDisableDirectSoundMockingboard = False, nNumSamplesError = 0,
     g_AY8910 = (\<lambda>_. sound_ay_reset fresh_ay), ay_last_cycles = 0, m_fCurrentCLK_AY8910 = 1020484,
     sound_generator_freq = 44100, mb_video = video_start\<lparr>cpu65_cycle_count := 0\<rparr>, mb_cpu = idle_cpu, submitted = []\<rparr>"

lemma demo_env_ok: "env_ok demo_env" "NDEBUG demo_env"
  by (simp_all add: env_ok_def demo_env_def HZ_COMMON_DENOMINATOR_def mix_buffer_len_def)

lemma start_mb_ok: "mb_ok start_mb"
  by (simp add: mb_ok_def start_mb_def reset_chip_ok HZ_COMMON_DENOMINATOR_def video_start_def)

lemma start_mb_irq: "irq_ok start_mb"
  by (simp add: irq_ok_def start_mb_def unit_ok_def irq_line_def idle_cpu_def cleared_sy6522_def)

lemma start_mb_timer: "timer_running 0 start_mb" "in_sync start_mb"
  by (simp_all add: timer_running_def in_sync_def start_mb_def total_cycles_def video_start_def bit_masks(3) del: bit_numeral_word_iff)

lemma start_mb_ports: "ports_open 0 start_mb" "ay_change_count (g_AY8910 start_mb 0) < AY_CHANGE_MAX"
proof -
  show "ports_open 0 start_mb" by (simp add: ports_open_def start_mb_def cleared_sy6522_def)
  define a1 where "a1 = (sound_ay_init (CAY8910_init fresh_ay))\<lparr>ay_change_count := 0\<rparr>"
  have u: "[0..<3] = [0, 1, 2 :: nat]" by (simp add: upt_rec)
  have "ay_change_count (fold (\<lambda>f. sound_ay_write f 0 0) [0..<16] a1) = 16"
    using reset_writes [of a1 16] by (simp add: a1_def Let_def)
  then have "ay_change_count (sound_ay_reset fresh_ay) = 16"
    by (simp add: sound_ay_reset_def Let_def a1_def u)
  then show "ay_change_count (g_AY8910 start_mb 0) < AY_CHANGE_MAX" by (simp add: start_mb_def AY_CHANGE_MAX_def)
qed

lemma card_pages: "on_card (Card_write 0xC40E 0xC0)" "on_card (Card_read 0xC404)"
  by (simp_all add: on_card_def card_page_def)



theorem timer_interrupts_witness:
  "\<exists>k < 3. \<exists>m'. run_batches demo_env (take (Suc k) [400, 400, 400]) start_mb = Some m' \<and>
    bit (IFR (sy_of m' 0)) 6 \<and> irq_line m'"
proof -
  have "unat (TIMER1_COUNTER (sy_of start_mb 0)) < sum_list [400, 400, 400]" by (simp add: start_mb_def)
  from timer_interrupts [OF demo_env_ok(1) start_mb_ok start_mb_irq start_mb_timer _ this]
  obtain k m' where "k < length [400, 400, 400 :: nat]" "run_batches demo_env (take (Suc k) [400, 400, 400]) start_mb = Some m'"
    "bit (IFR (sy_of m' 0)) 6" "irq_line m'" by auto
  then show ?thesis by (intro exI [of _ k]) (simp del: run_batches.simps take_Suc_Cons)
qed

theorem ay_register_write_witness:
  "\<exists>m'. ay_program demo_env 0 7 0x38 start_mb = Some m' \<and>
    ay_change_count (g_AY8910 m' 0) = Suc (ay_change_count (g_AY8910 start_mb 0)) \<and>
    (\<forall>j. j \<noteq> 0 \<longrightarrow> g_AY8910 m' j = g_AY8910 start_mb j)"
  using ay_register_write [where r = 7 and env = demo_env and v = "0x38", OF start_mb_ports(1) _ start_mb_ports(2)] by auto

theorem speech_access_aborts_witness:
  "MB_Read (demo_env\<lparr>NDEBUG := False\<rparr>) 0xC440 start_mb = None"
proof -
  have "env_ok (demo_env\<lparr>NDEBUG := False\<rparr>)" using demo_env_ok(1) by (simp add: env_ok_def mix_buffer_len_def demo_env_def)
  moreover have "\<not> g_bPhasorEnable start_mb" by (simp add: start_mb_def)
  ultimately show ?thesis
    using speech_access_aborts [of "demo_env\<lparr>NDEBUG := False\<rparr>" start_mb "0xC440" 0] start_mb_ok by simp
qed

end
