(* ===== verification/A2_MockingboardState.thy ===== *)
theory A2_MockingboardState
  imports A2_MockingboardGuarantees A2_Io
begin

text \<open>
  Saving and restoring the sound card (\<^verbatim>\<open>audio/mockingboard.c\<close>: \<open>mb_saveState\<close>,
  \<open>mb_loadState\<close>) and its chips (\<^verbatim>\<open>audio/AY8910.c\<close>: \<open>_saveState\<close>, \<open>_loadState\<close>).
\<close>

section \<open>Parts of a component\<close>

text \<open>A routine on a part of the component, given where the part is.\<close>

definition on_part :: "('c \<Rightarrow> 'p) \<Rightarrow> ('p \<Rightarrow> 'c \<Rightarrow> 'c) \<Rightarrow> ('p \<times> 'f \<Rightarrow> ('p \<times> 'f) outcome) \<Rightarrow> 'c \<times> 'f \<Rightarrow> ('c \<times> 'f) outcome" where
  "on_part get put routine = (\<lambda>(c, f). case routine (get c, f) of
       Cont (p, f') \<Rightarrow> Cont (put p c, f')
     | Brk (p, f') \<Rightarrow> Brk (put p c, f')
     | Abort \<Rightarrow> Abort)"

text \<open>Loads into a byte of the component itself, and of 32 and 16 bit values through a buffer.\<close>

definition load_byte :: "'f helper \<Rightarrow> (byte \<Rightarrow> 'c \<Rightarrow> 'c) \<Rightarrow> 'c \<times> 'f \<Rightarrow> ('c \<times> 'f) outcome" where
  "load_byte h upd = load_into h 1 (\<lambda>bs c. if bs = [] then c else upd (bs ! 0) c)"

definition loadStateData32 :: "'f helper \<Rightarrow> (u32 \<Rightarrow> 'c \<Rightarrow> 'c) \<Rightarrow> 'c \<times> 'f \<Rightarrow> ('c \<times> 'f) outcome" where
  "loadStateData32 h upd = load_step h 4 (\<lambda>bs. upd (des32 bs))"

definition load_word16 :: "'f helper \<Rightarrow> (addr \<Rightarrow> 'c \<Rightarrow> 'c) \<Rightarrow> 'c \<times> 'f \<Rightarrow> ('c \<times> 'f) outcome" where
  "load_word16 h upd = load_step h 2 (\<lambda>bs. upd (des16 bs))"

section \<open>The sound chips\<close>

text \<open>The words of a chip in the order of the file, each with its assignment.\<close>

definition set_tone_tick :: "nat \<Rightarrow> u32 \<Rightarrow> ay8910 \<Rightarrow> ay8910" where
  "set_tone_tick i w a = a\<lparr>ay_tone_tick := (ay_tone_tick a)(i := w)\<rparr>"

definition set_tone_high :: "nat \<Rightarrow> u32 \<Rightarrow> ay8910 \<Rightarrow> ay8910" where
  "set_tone_high i w a = a\<lparr>ay_tone_high := (ay_tone_high a)(i := w)\<rparr>"

definition set_tone_period :: "nat \<Rightarrow> u32 \<Rightarrow> ay8910 \<Rightarrow> ay8910" where
  "set_tone_period i w a = a\<lparr>ay_tone_period := (ay_tone_period a)(i := w)\<rparr>"

definition ay_words :: "((ay8910 \<Rightarrow> u32) \<times> (u32 \<Rightarrow> ay8910 \<Rightarrow> ay8910)) list" where
  "ay_words =
    [(\<lambda>a. ay_tone_tick a 0, set_tone_tick 0), (\<lambda>a. ay_tone_tick a 1, set_tone_tick 1), (\<lambda>a. ay_tone_tick a 2, set_tone_tick 2),
     (\<lambda>a. ay_tone_high a 0, set_tone_high 0), (\<lambda>a. ay_tone_high a 1, set_tone_high 1), (\<lambda>a. ay_tone_high a 2, set_tone_high 2),
     (ay_noise_tick, \<lambda>w a. a\<lparr>ay_noise_tick := w\<rparr>),
     (ay_tone_subcycles, \<lambda>w a. a\<lparr>ay_tone_subcycles := w\<rparr>),
     (ay_env_subcycles, \<lambda>w a. a\<lparr>ay_env_subcycles := w\<rparr>),
     (ay_env_internal_tick, \<lambda>w a. a\<lparr>ay_env_internal_tick := w\<rparr>),
     (ay_env_tick, \<lambda>w a. a\<lparr>ay_env_tick := w\<rparr>),
     (ay_tick_incr, \<lambda>w a. a\<lparr>ay_tick_incr := w\<rparr>),
     (\<lambda>a. ay_tone_period a 0, set_tone_period 0), (\<lambda>a. ay_tone_period a 1, set_tone_period 1),
     (\<lambda>a. ay_tone_period a 2, set_tone_period 2),
     (ay_noise_period, \<lambda>w a. a\<lparr>ay_noise_period := w\<rparr>),
     (ay_env_period, \<lambda>w a. a\<lparr>ay_env_period := w\<rparr>),
     (rng, \<lambda>w a. a\<lparr>rng := w\<rparr>),
     (noise_toggle, \<lambda>w a. a\<lparr>noise_toggle := w\<rparr>),
     (env_first, \<lambda>w a. a\<lparr>env_first := w\<rparr>),
     (env_rev, \<lambda>w a. a\<lparr>env_rev := w\<rparr>),
     (\<lambda>a. word_of_int (env_counter a), \<lambda>w a. a\<lparr>env_counter := sint w\<rparr>)]"

definition set_register :: "nat \<Rightarrow> byte \<Rightarrow> ay8910 \<Rightarrow> ay8910" where
  "set_register i b a = a\<lparr>sound_ay_registers := (sound_ay_registers a)(i := b)\<rparr>"

definition set_change :: "nat \<Rightarrow> (change \<Rightarrow> change) \<Rightarrow> ay8910 \<Rightarrow> ay8910" where
  "set_change i f a = a\<lparr>ay_change := (ay_change a)(i := f (ay_change a i))\<rparr>"

definition save_change :: "nat \<Rightarrow> (ay8910 \<Rightarrow> byte list) list" where
  "save_change i =
    [\<lambda>a. ser32 (ucast (ch_tstates (ay_change a i))), \<lambda>a. ser32 (ucast (ch_ofs (ay_change a i))),
     \<lambda>a. [ch_reg (ay_change a i)], \<lambda>a. [ch_val (ay_change a i)]]"

definition ay_saveState :: "'f helper \<Rightarrow> ay8910 \<times> 'f \<Rightarrow> (ay8910 \<times> 'f) outcome" where
  "ay_saveState h = run_steps
    (map (save_step h)
      (map (\<lambda>(get, _). \<lambda>a. ser32 (get a)) ay_words @
       map (\<lambda>i a. [sound_ay_registers a i]) [0..<16] @
       [\<lambda>a. ser32 (of_nat (ay_change_count a))]) @
     [\<lambda>(a, f). run_steps (map (save_step h) (concat (map save_change [0..<ay_change_count a]))) (a, f)])"

text \<open>The time of a change has 64 bits; the load writes the lower 32 in place.  The count is not
  checked against the size of the queue: an entry past its end is a write outside the array (\<open>Abort\<close>).\<close>

definition low_half :: "u32 \<Rightarrow> 64 word \<Rightarrow> 64 word" where
  "low_half w t = push_bit 32 (drop_bit 32 t) OR ucast w"

definition load_tstates :: "'f helper \<Rightarrow> nat \<Rightarrow> ay8910 \<times> 'f \<Rightarrow> (ay8910 \<times> 'f) outcome" where
  "load_tstates h i = (\<lambda>(a, f). case hload h 4 f of
       None \<Rightarrow> Abort
     | Some (ok, bs, f') \<Rightarrow>
         if \<not> ok then Brk (a, f')
         else if AY_CHANGE_MAX \<le> i then Abort
         else Cont (set_change i (\<lambda>c. c\<lparr>ch_tstates := low_half (des32 bs) (ch_tstates c)\<rparr>) a, f'))"

definition load_ofs :: "'f helper \<Rightarrow> nat \<Rightarrow> ay8910 \<times> 'f \<Rightarrow> (ay8910 \<times> 'f) outcome" where
  "load_ofs h i = (\<lambda>(a, f). case hload h 4 f of
       None \<Rightarrow> Abort
     | Some (ok, bs, f') \<Rightarrow>
         if \<not> ok then Brk (a, f')
         else if 65535 < unat (des32 bs) then Abort
         else Cont (set_change i (\<lambda>c. c\<lparr>ch_ofs := ucast (des32 bs)\<rparr>) a, f'))"

definition load_change :: "'f helper \<Rightarrow> nat \<Rightarrow> (ay8910 \<times> 'f \<Rightarrow> (ay8910 \<times> 'f) outcome) list" where
  "load_change h i =
    [load_tstates h i,
     load_ofs h i,
     load_byte h (\<lambda>b. set_change i (\<lambda>c. c\<lparr>ch_reg := b\<rparr>)),
     load_byte h (\<lambda>b. set_change i (\<lambda>c. c\<lparr>ch_val := b\<rparr>))]"

definition load_count :: "'f helper \<Rightarrow> ay8910 \<times> 'f \<Rightarrow> (ay8910 \<times> 'f) outcome" where
  "load_count h = (\<lambda>(a, f). case hload h 4 f of
       None \<Rightarrow> Abort
     | Some (ok, bs, f') \<Rightarrow>
         if \<not> ok then Brk (a, f')
         else if sint (des32 bs) < 0 then Abort
         else Cont (a\<lparr>ay_change_count := unat (des32 bs)\<rparr>, f'))"

definition ay_loadState :: "'f helper \<Rightarrow> ay8910 \<times> 'f \<Rightarrow> (ay8910 \<times> 'f) outcome" where
  "ay_loadState h = run_steps
    (map (\<lambda>(_, upd). loadStateData32 h upd) ay_words @
     map (\<lambda>i. load_byte h (set_register i)) [0..<16] @
     [load_count h,
      \<lambda>(a, f). run_steps (concat (map (load_change h) [0..<ay_change_count a])) (a, f)])"

section \<open>The adapters and the card\<close>

definition sy6522_saveState :: "'f helper \<Rightarrow> sy6522 \<times> 'f \<Rightarrow> (sy6522 \<times> 'f) outcome" where
  "sy6522_saveState h = run_steps (map (save_step h)
     [\<lambda>s. [ORA s], \<lambda>s. [ORB s], \<lambda>s. [DDRA s], \<lambda>s. [DDRB s],
      \<lambda>s. ser16 (TIMER1_COUNTER s), \<lambda>s. ser16 (TIMER1_LATCH s), \<lambda>s. ser16 (TIMER2_COUNTER s), \<lambda>s. ser16 (TIMER2_LATCH s),
      \<lambda>s. [SERIAL_SHIFT s], \<lambda>s. [ACR s], \<lambda>s. [PCR s], \<lambda>s. [IFR s], \<lambda>s. [IER s]])"

definition sy6522_loads :: "'f helper \<Rightarrow> (sy6522 \<times> 'f \<Rightarrow> (sy6522 \<times> 'f) outcome) list" where
  "sy6522_loads h =
     [load_byte h (\<lambda>b s. s\<lparr>ORA := b\<rparr>), load_byte h (\<lambda>b s. s\<lparr>ORB := b\<rparr>),
      load_byte h (\<lambda>b s. s\<lparr>DDRA := b\<rparr>), load_byte h (\<lambda>b s. s\<lparr>DDRB := b\<rparr>),
      load_word16 h (\<lambda>w s. s\<lparr>TIMER1_COUNTER := w\<rparr>), load_word16 h (\<lambda>w s. s\<lparr>TIMER1_LATCH := w\<rparr>),
      load_word16 h (\<lambda>w s. s\<lparr>TIMER2_COUNTER := w\<rparr>), load_word16 h (\<lambda>w s. s\<lparr>TIMER2_LATCH := w\<rparr>),
      load_byte h (\<lambda>b s. s\<lparr>SERIAL_SHIFT := b\<rparr>), load_byte h (\<lambda>b s. s\<lparr>ACR := b\<rparr>),
      load_byte h (\<lambda>b s. s\<lparr>PCR := b\<rparr>), load_byte h (\<lambda>b s. s\<lparr>IFR := b\<rparr>), load_byte h (\<lambda>b s. s\<lparr>IER := b\<rparr>)]"

definition sy6522_loadState :: "'f helper \<Rightarrow> sy6522 \<times> 'f \<Rightarrow> (sy6522 \<times> 'f) outcome" where
  "sy6522_loadState h = run_steps (sy6522_loads h)"

definition ssi263_saveState :: "'f helper \<Rightarrow> ssi263 \<times> 'f \<Rightarrow> (ssi263 \<times> 'f) outcome" where
  "ssi263_saveState h = run_steps (map (save_step h)
     [\<lambda>s. [DurationPhoneme s], \<lambda>s. [Inflection s], \<lambda>s. [RateInflection s], \<lambda>s. [CtrlArtAmp s],
      \<lambda>s. [FilterFreq s], \<lambda>s. [CurrentMode s]])"

definition ssi263_loads :: "'f helper \<Rightarrow> (ssi263 \<times> 'f \<Rightarrow> (ssi263 \<times> 'f) outcome) list" where
  "ssi263_loads h =
     [load_byte h (\<lambda>b s. s\<lparr>DurationPhoneme := b\<rparr>), load_byte h (\<lambda>b s. s\<lparr>Inflection := b\<rparr>),
      load_byte h (\<lambda>b s. s\<lparr>RateInflection := b\<rparr>), load_byte h (\<lambda>b s. s\<lparr>CtrlArtAmp := b\<rparr>),
      load_byte h (\<lambda>b s. s\<lparr>FilterFreq := b\<rparr>), load_byte h (\<lambda>b s. s\<lparr>CurrentMode := b\<rparr>)]"

definition ssi263_loadState :: "'f helper \<Rightarrow> ssi263 \<times> 'f \<Rightarrow> (ssi263 \<times> 'f) outcome" where
  "ssi263_loadState h = run_steps (ssi263_loads h)"

text \<open>Where the parts of adapter \<open>i\<close> are.\<close>

definition put_sy :: "nat \<Rightarrow> sy6522 \<Rightarrow> mockingboard \<Rightarrow> mockingboard" where
  "put_sy i s = upd_mb i (\<lambda>u. u\<lparr>sy := s\<rparr>)"

definition put_speech :: "nat \<Rightarrow> ssi263 \<Rightarrow> mockingboard \<Rightarrow> mockingboard" where
  "put_speech i s = upd_mb i (\<lambda>u. u\<lparr>SpeechChip := s\<rparr>)"

definition put_chip :: "nat \<Rightarrow> ay8910 \<Rightarrow> mockingboard \<Rightarrow> mockingboard" where
  "put_chip i a m = m\<lparr>g_AY8910 := (g_AY8910 m)(i := a)\<rparr>"

definition save_unit :: "'f helper \<Rightarrow> nat \<Rightarrow> (mockingboard \<times> 'f \<Rightarrow> (mockingboard \<times> 'f) outcome) list" where
  "save_unit h i =
    [on_part (\<lambda>m. sy_of m i) (put_sy i) (sy6522_saveState h),
     on_part (\<lambda>m. g_AY8910 m i) (put_chip i) (ay_saveState h),
     on_part (\<lambda>m. SpeechChip (g_MB m i)) (put_speech i) (ssi263_saveState h),
     save_step h (\<lambda>m. [nAYCurrentRegister (g_MB m i)])]"

definition mb_saveState :: "'f helper \<Rightarrow> mockingboard \<times> 'f \<Rightarrow> (mockingboard \<times> 'f) outcome" where
  "mb_saveState h = run_steps (concat (map (save_unit h) [0..<4]))"

definition load_unit :: "'f helper \<Rightarrow> nat \<Rightarrow> (mockingboard \<times> 'f \<Rightarrow> (mockingboard \<times> 'f) outcome) list" where
  "load_unit h i =
    [on_part (\<lambda>m. sy_of m i) (put_sy i) (sy6522_loadState h),
     on_part (\<lambda>m. g_AY8910 m i) (put_chip i) (ay_loadState h),
     on_part (\<lambda>m. SpeechChip (g_MB m i)) (put_speech i) (ssi263_loadState h),
     load_byte h (\<lambda>b. upd_mb i (\<lambda>u. u\<lparr>nAYCurrentRegister := b\<rparr>)),
     check_step (\<lambda>_. True) (StartTimer i)]"

text \<open>The load runs at the speed of the original machine.\<close>

definition original_speed :: "mb_env \<Rightarrow> mb_env" where
  "original_speed env = env\<lparr>cycles_persec_target := CLK_6502_INT\<rparr>"

definition mb_loadState :: "mb_env \<Rightarrow> 'f helper \<Rightarrow> mockingboard \<times> 'f \<Rightarrow> (mockingboard \<times> 'f) outcome" where
  "mb_loadState env h = (\<lambda>(m, f). case MB_Reset (original_speed env) m of
       None \<Rightarrow> Abort
     | Some m \<Rightarrow> run_steps
         (concat (map (load_unit h) [0..<4]) @ [check_step (\<lambda>_. True) (MB_Reinitialize (original_speed env))])
         (AY8910UpdateSetCycles m, f))"

section \<open>Reading back what was written\<close>

text \<open>A load reads \<open>bs\<close> and does \<open>upd\<close> to the component, whatever follows in the file.\<close>

definition reads :: "('f \<Rightarrow> bool) \<Rightarrow> ('f \<Rightarrow> byte list) \<Rightarrow> byte list \<Rightarrow> ('c \<times> 'f \<Rightarrow> ('c \<times> 'f) outcome) \<Rightarrow> ('c \<Rightarrow> 'c) \<Rightarrow> bool" where
  "reads good unread bs l upd \<longleftrightarrow> (\<forall>c f rest. good f \<and> unread f = bs @ rest \<longrightarrow>
     (\<exists>f'. l (c, f) = Cont (upd c, f') \<and> good f' \<and> unread f' = rest))"

lemma readsD:
  "reads good unread bs l u \<Longrightarrow> good f \<Longrightarrow> unread f = bs @ rest \<Longrightarrow>
   \<exists>f'. l (c, f) = Cont (u c, f') \<and> good f' \<and> unread f' = rest"
  by (simp add: reads_def)

lemma reads_chain:
  assumes "reads good unread b1 l1 u1" "reads good unread b2 l2 u2"
  shows "reads good unread (b1 @ b2) (\<lambda>x. case l1 x of Cont y \<Rightarrow> l2 y | r \<Rightarrow> r) (\<lambda>c. u2 (u1 c))"
  unfolding reads_def
proof (intro allI impI)
  fix c f rest assume a: "good f \<and> unread f = (b1 @ b2) @ rest"
  then have "good f" "unread f = b1 @ b2 @ rest" by simp_all
  from readsD [OF assms(1) this]
  obtain f1 where 1: "l1 (c, f) = Cont (u1 c, f1)" "good f1" "unread f1 = b2 @ rest" by blast
  from readsD [OF assms(2) 1(2,3)]
  obtain f2 where "l2 (u1 c, f1) = Cont (u2 (u1 c), f2)" "good f2" "unread f2 = rest" by blast
  then show "\<exists>f'. (case l1 (c, f) of Cont y \<Rightarrow> l2 y | r \<Rightarrow> r) = Cont (u2 (u1 c), f') \<and> good f' \<and> unread f' = rest"
    using 1(1) by simp
qed

lemma run_steps_Cons: "run_steps (l # ls) = (\<lambda>x. case l x of Cont y \<Rightarrow> run_steps ls y | r \<Rightarrow> r)"
  by (simp add: fun_eq_iff)

lemma run_steps_app: "run_steps (xs @ ys) = (\<lambda>x. case run_steps xs x of Cont y \<Rightarrow> run_steps ys y | r \<Rightarrow> r)"
  by (simp add: fun_eq_iff run_steps_append)

lemma reads_Nil: "reads good unread [] (run_steps []) (\<lambda>c. c)"
  by (simp add: reads_def)

lemma reads_Cons:
  "reads good unread b1 l u1 \<Longrightarrow> reads good unread b2 (run_steps ls) u2 \<Longrightarrow>
   reads good unread (b1 @ b2) (run_steps (l # ls)) (\<lambda>c. u2 (u1 c))"
  unfolding run_steps_Cons by (rule reads_chain)

lemma reads_append:
  "reads good unread b1 (run_steps ls) u1 \<Longrightarrow> reads good unread b2 (run_steps ms) u2 \<Longrightarrow>
   reads good unread (b1 @ b2) (run_steps (ls @ ms)) (\<lambda>c. u2 (u1 c))"
  unfolding run_steps_app by (rule reads_chain)

lemma reads_map:
  assumes "\<And>x. x \<in> set xs \<Longrightarrow> reads good unread (b x) (l x) (u x)"
  shows "reads good unread (concat (map b xs)) (run_steps (map l xs)) (fold u xs)"
  using assms
proof (induction xs)
  case Nil
  then show ?case by (simp add: reads_def)
next
  case (Cons x xs)
  have "reads good unread (b x @ concat (map b xs)) (run_steps (l x # map l xs)) (\<lambda>c. fold u xs (u x c))"
    by (rule reads_Cons) (use Cons in auto)
  then show ?case by (simp add: comp_def del: run_steps.simps)
qed

lemma reads_concat:
  assumes "\<And>x. x \<in> set xs \<Longrightarrow> reads good unread (b x) (run_steps (l x)) (u x)"
  shows "reads good unread (concat (map b xs)) (run_steps (concat (map l xs))) (fold u xs)"
  using assms
proof (induction xs)
  case Nil
  then show ?case by (simp add: reads_def)
next
  case (Cons x xs)
  have "reads good unread (b x @ concat (map b xs)) (run_steps (l x @ concat (map l xs))) (\<lambda>c. fold u xs (u x c))"
    by (rule reads_append) (use Cons in auto)
  then show ?case by (simp add: comp_def)
qed

lemma reads_part:
  assumes "reads good unread bs l u"
  shows "reads good unread bs (on_part get put l) (\<lambda>c. put (u (get c)) c)"
  unfolding reads_def
proof (intro allI impI)
  fix c f rest assume "good f \<and> unread f = bs @ rest"
  then obtain f' where "l (get c, f) = Cont (u (get c), f')" "good f'" "unread f' = rest"
    using assms unfolding reads_def by blast
  then show "\<exists>f'. on_part get put l (c, f) = Cont (put (u (get c)) c, f') \<and> good f' \<and> unread f' = rest"
    by (simp add: on_part_def)
qed

text \<open>A step whose loads depend on what was just read.\<close>

lemma reads_then:
  assumes "reads good unread b1 l u1" "reads good unread b2 (run_steps (k n)) u2" "\<And>c. sel (u1 c) = n"
  shows "reads good unread (b1 @ b2) (run_steps [l, \<lambda>(a, f). run_steps (k (sel a)) (a, f)]) (\<lambda>c. u2 (u1 c))"
  unfolding reads_def
proof (intro allI impI)
  fix c f rest assume a: "good f \<and> unread f = (b1 @ b2) @ rest"
  then have "good f" "unread f = b1 @ b2 @ rest" by simp_all
  from readsD [OF assms(1) this]
  obtain f1 where 1: "l (c, f) = Cont (u1 c, f1)" "good f1" "unread f1 = b2 @ rest" by blast
  from readsD [OF assms(2) 1(2,3)]
  obtain f2 where 2: "run_steps (k n) (u1 c, f1) = Cont (u2 (u1 c), f2)" "good f2" "unread f2 = rest" by blast
  show "\<exists>f'. run_steps [l, \<lambda>(a, f). run_steps (k (sel a)) (a, f)] (c, f) = Cont (u2 (u1 c), f') \<and> good f' \<and> unread f' = rest"
    by (rule exI [of _ f2]) (simp add: 1(1) 2 assms(3))
qed

lemma reads_check: "(\<And>c. P c) \<Longrightarrow> reads good unread [] (check_step P u) u"
  by (simp add: reads_def check_step_def)

lemma reads_cong: "reads good unread b l u \<Longrightarrow> b = b' \<Longrightarrow> (\<And>c. u c = u' c) \<Longrightarrow> reads good unread b' l u'"
  by (simp add: reads_def)

context state_helper
begin

lemma reads_byte: "reads good unread [b] (load_byte h upd) (upd b)"
  by (auto simp: reads_def load_byte_def load_into_eq unread_load good_load)

lemma reads_word: "reads good unread (ser32 w) (loadStateData32 h upd) (upd w)"
  by (auto simp: reads_def loadStateData32_def load_step_eq unread_load good_load)

lemma reads_word16: "reads good unread (ser16 w) (load_word16 h upd) (upd w)"
  by (auto simp: reads_def load_word16_def load_step_eq unread_load good_load)

lemma reads_tstates: "i < AY_CHANGE_MAX \<Longrightarrow>
    reads good unread (ser32 w) (load_tstates h i) (set_change i (\<lambda>c. c\<lparr>ch_tstates := low_half w (ch_tstates c)\<rparr>))"
  unfolding reads_def load_tstates_def by (auto simp: load_ok unread_load good_load)

lemma reads_ofs: "reads good unread (ser32 (ucast (w :: 16 word))) (load_ofs h i) (set_change i (\<lambda>c. c\<lparr>ch_ofs := w\<rparr>))"
proof -
  have w: "unat w < 65536" using unsigned_less [of w] by simp
  then have "take_bit 32 (unat w) = unat w" by (intro take_bit_nat_eq_self) simp
  then have "unat (ucast w :: u32) = unat w" by (simp add: unsigned_ucast_eq)
  moreover note w
  moreover have "ucast (ucast w :: u32) = w" by (rule bit_word_eqI) (simp add: bit_simps)
  ultimately show ?thesis
    unfolding reads_def load_ofs_def by (auto simp: load_ok unread_load good_load)
qed

lemma reads_count:
  assumes "n < 2 ^ 31"
  shows "reads good unread (ser32 (of_nat n)) (load_count h) (\<lambda>a. a\<lparr>ay_change_count := n\<rparr>)"
proof -
  have "sint (of_nat n :: u32) = int n"
    using sint_of_int [of "int n"] assms by simp
  moreover have "unat (of_nat n :: u32) = n" unfolding unsigned_of_nat of_nat_id by (rule take_bit_nat_eq_self) (use assms in simp)
  ultimately show ?thesis
    unfolding reads_def load_count_def by (auto simp: load_ok unread_load good_load)
qed

text \<open>The words and registers of a chip, and its queue.\<close>

lemma reads_words: "reads good unread (concat (map (\<lambda>(get, _). ser32 (get a)) ws))
    (run_steps (map (\<lambda>(_, upd). loadStateData32 h upd) ws)) (fold (\<lambda>(get, upd). upd (get a)) ws)"
  by (rule reads_map) (auto intro: reads_word)

lemma reads_registers: "reads good unread (concat (map (\<lambda>i. [r i]) ns))
    (run_steps (map (\<lambda>i. load_byte h (set_register i)) ns)) (fold (\<lambda>i. set_register i (r i)) ns)"
  by (rule reads_map) (auto intro: reads_byte)

lemma reads_change:
  assumes "i < AY_CHANGE_MAX"
  shows "reads good unread (concat (map (\<lambda>g. g a) (save_change i))) (run_steps (load_change h i)) (\<lambda>b.
    set_change i (\<lambda>c. c\<lparr>ch_val := ch_val (ay_change a i)\<rparr>) (set_change i (\<lambda>c. c\<lparr>ch_reg := ch_reg (ay_change a i)\<rparr>)
    (set_change i (\<lambda>c. c\<lparr>ch_ofs := ch_ofs (ay_change a i)\<rparr>)
    (set_change i (\<lambda>c. c\<lparr>ch_tstates := low_half (ucast (ch_tstates (ay_change a i))) (ch_tstates c)\<rparr>) b))))"
proof -
  let ?c = "ay_change a i"
  have "reads good unread (ser32 (ucast (ch_tstates ?c)) @ ser32 (ucast (ch_ofs ?c)) @ [ch_reg ?c] @ [ch_val ?c] @ [])
    (run_steps (load_change h i)) (\<lambda>b.
    set_change i (\<lambda>c. c\<lparr>ch_val := ch_val ?c\<rparr>) (set_change i (\<lambda>c. c\<lparr>ch_reg := ch_reg ?c\<rparr>)
    (set_change i (\<lambda>c. c\<lparr>ch_ofs := ch_ofs ?c\<rparr>)
    (set_change i (\<lambda>c. c\<lparr>ch_tstates := low_half (ucast (ch_tstates ?c)) (ch_tstates c)\<rparr>) b))))"
    unfolding load_change_def
    by (intro reads_Cons [OF reads_tstates] reads_Cons [OF reads_ofs]
        reads_Cons [OF reads_byte] reads_Nil assms)
  then show ?thesis by (simp add: save_change_def)
qed

end

text \<open>The change restored into an entry.\<close>

definition change_restored :: "change \<Rightarrow> change \<Rightarrow> change" where
  "change_restored c d = d\<lparr>ch_tstates := low_half (ucast (ch_tstates c)) (ch_tstates d), ch_ofs := ch_ofs c,
     ch_reg := ch_reg c, ch_val := ch_val c\<rparr>"

lemma set_changes: "set_change i (\<lambda>c. c\<lparr>ch_val := v\<rparr>) (set_change i (\<lambda>c. c\<lparr>ch_reg := r\<rparr>)
    (set_change i (\<lambda>c. c\<lparr>ch_ofs := w\<rparr>) (set_change i (\<lambda>c. c\<lparr>ch_tstates := low_half t (ch_tstates c)\<rparr>) b))) =
  set_change i (\<lambda>d. d\<lparr>ch_tstates := low_half t (ch_tstates d), ch_ofs := w, ch_reg := r, ch_val := v\<rparr>) b"
  by (simp add: set_change_def)

lemma fold_changes: "fold (\<lambda>i. set_change i (f i)) [0..<n] b = b\<lparr>ay_change := (\<lambda>i. if i < n then f i (ay_change b i) else ay_change b i)\<rparr>"
proof (induction n)
  case (Suc n)
  then show ?case by (auto simp: set_change_def fun_eq_iff)
qed simp

lemma fold_registers: "fold (\<lambda>i. set_register i (r i)) [0..<n] b =
    b\<lparr>sound_ay_registers := (\<lambda>i. if i < n then r i else sound_ay_registers b i)\<rparr>"
proof (induction n)
  case (Suc n)
  then show ?case by (auto simp: set_register_def fun_eq_iff)
qed simp

definition ay_bytes :: "ay8910 \<Rightarrow> byte list" where
  "ay_bytes a = concat (map (\<lambda>(get, _). ser32 (get a)) ay_words) @ concat (map (\<lambda>i. [sound_ay_registers a i]) [0..<16]) @
     ser32 (of_nat (ay_change_count a)) @ concat (map (\<lambda>i. concat (map (\<lambda>g. g a) (save_change i))) [0..<ay_change_count a])"

definition ay_restored :: "ay8910 \<Rightarrow> ay8910 \<Rightarrow> ay8910" where
  "ay_restored a b =
    (let b = fold (\<lambda>(get, upd). upd (get a)) ay_words b;
         b = b\<lparr>sound_ay_registers := (\<lambda>i. if i < 16 then sound_ay_registers a i else sound_ay_registers b i)\<rparr>
     in b\<lparr>ay_change_count := ay_change_count a, ay_change := (\<lambda>i. if i < ay_change_count a then change_restored (ay_change a i) (ay_change b i) else ay_change b i)\<rparr>)"

definition ay_saveable :: "ay8910 \<Rightarrow> bool" where
  "ay_saveable a \<longleftrightarrow> ay_change_count a \<le> AY_CHANGE_MAX \<and> - (2 ^ 31) \<le> env_counter a \<and> env_counter a < 2 ^ 31"

context state_helper
begin

lemma reads_queue:
  assumes "ay_change_count a \<le> AY_CHANGE_MAX"
  shows "reads good unread (ser32 (of_nat (ay_change_count a)) @
      concat (map (\<lambda>i. concat (map (\<lambda>g. g a) (save_change i))) [0..<ay_change_count a]))
    (run_steps [load_count h, \<lambda>(a, f). run_steps (concat (map (load_change h) [0..<ay_change_count a])) (a, f)])
    (\<lambda>b. b\<lparr>ay_change_count := ay_change_count a,
       ay_change := (\<lambda>i. if i < ay_change_count a then change_restored (ay_change a i) (ay_change b i) else ay_change b i)\<rparr>)"
proof -
  let ?n = "ay_change_count a"
  let ?q = "concat (map (\<lambda>i. concat (map (\<lambda>g. g a) (save_change i))) [0..<?n])"
  have c: "reads good unread (ser32 (of_nat ?n)) (load_count h) (\<lambda>b. b\<lparr>ay_change_count := ?n\<rparr>)"
    by (rule reads_count) (use assms in \<open>simp add: AY_CHANGE_MAX_def\<close>)
  have "reads good unread ?q (run_steps (concat (map (load_change h) [0..<?n]))) (fold (\<lambda>i. set_change i (change_restored (ay_change a i))) [0..<?n])"
    unfolding change_restored_def
    by (rule reads_concat) (rule reads_cong [OF reads_change], use assms in \<open>auto simp: set_changes\<close>)
  note q = this [unfolded fold_changes]
  have "ay_change_count (b\<lparr>ay_change_count := ?n\<rparr>) = ?n" for b by simp
  from reads_then [where sel = ay_change_count and k = "\<lambda>n. concat (map (load_change h) [0..<n])", OF c q this]
  show ?thesis by (rule reads_cong) (simp_all cong: if_cong)
qed

lemma reads_ay:
  assumes "ay_saveable a"
  shows "reads good unread (ay_bytes a) (ay_loadState h) (ay_restored a)"
proof -
  have "reads good unread (ay_bytes a) (ay_loadState h) (\<lambda>b. let b = fold (\<lambda>i. set_register i (sound_ay_registers a i)) [0..<16]
      (fold (\<lambda>(get, upd). upd (get a)) ay_words b) in
    b\<lparr>ay_change_count := ay_change_count a,
       ay_change := (\<lambda>i. if i < ay_change_count a then change_restored (ay_change a i) (ay_change b i) else ay_change b i)\<rparr>)"
    unfolding ay_bytes_def ay_loadState_def Let_def
    by (rule reads_append [OF reads_words reads_append [OF reads_registers reads_queue]]) (use assms in \<open>simp add: ay_saveable_def\<close>)
  then show ?thesis by (rule reads_cong) (simp_all add: ay_restored_def Let_def fold_registers)
qed

end

section \<open>Writing\<close>

text \<open>A save writes \<open>bs\<close> and leaves the component as it is.\<close>

definition writes :: "('f \<Rightarrow> bool) \<Rightarrow> ('f \<Rightarrow> byte list) \<Rightarrow> byte list \<Rightarrow> ('c \<times> 'f \<Rightarrow> ('c \<times> 'f) outcome) \<Rightarrow> 'c \<Rightarrow> bool" where
  "writes good written bs l c \<longleftrightarrow> (\<forall>f. good f \<longrightarrow>
     (\<exists>f'. l (c, f) = Cont (c, f') \<and> good f' \<and> written f' = written f @ bs))"

lemma writesD: "writes good written bs l c \<Longrightarrow> good f \<Longrightarrow> \<exists>f'. l (c, f) = Cont (c, f') \<and> good f' \<and> written f' = written f @ bs"
  by (simp add: writes_def)

lemma writes_chain:
  assumes "writes good written b1 l1 c" "writes good written b2 l2 c"
  shows "writes good written (b1 @ b2) (\<lambda>x. case l1 x of Cont y \<Rightarrow> l2 y | r \<Rightarrow> r) c"
  unfolding writes_def
proof (intro allI impI)
  fix f assume "good f"
  from writesD [OF assms(1) this]
  obtain f1 where 1: "l1 (c, f) = Cont (c, f1)" "good f1" "written f1 = written f @ b1" by blast
  from writesD [OF assms(2) 1(2)]
  obtain f2 where "l2 (c, f1) = Cont (c, f2)" "good f2" "written f2 = written f1 @ b2" by blast
  then show "\<exists>f'. (case l1 (c, f) of Cont y \<Rightarrow> l2 y | r \<Rightarrow> r) = Cont (c, f') \<and> good f' \<and> written f' = written f @ b1 @ b2"
    using 1 by simp
qed

lemma writes_cong: "writes good written b l c \<Longrightarrow> b = b' \<Longrightarrow> writes good written b' l c"
  by simp

lemma concat_save_changes: "concat (concat (map (\<lambda>i. map (\<lambda>g. g a) (save_change i)) ns)) =
    concat (map (\<lambda>i. concat (map (\<lambda>g. g a) (save_change i))) ns)"
  by (induction ns) auto

lemma writes_Nil: "writes good written [] (run_steps []) c"
  by (simp add: writes_def)

lemma writes_Cons:
  "writes good written b1 l c \<Longrightarrow> writes good written b2 (run_steps ls) c \<Longrightarrow> writes good written (b1 @ b2) (run_steps (l # ls)) c"
  unfolding run_steps_Cons by (rule writes_chain)

lemma writes_append:
  "writes good written b1 (run_steps ls) c \<Longrightarrow> writes good written b2 (run_steps ms) c \<Longrightarrow>
   writes good written (b1 @ b2) (run_steps (ls @ ms)) c"
  unfolding run_steps_app by (rule writes_chain)

lemma writes_concat:
  assumes "\<And>x. x \<in> set xs \<Longrightarrow> writes good written (b x) (run_steps (l x)) c"
  shows "writes good written (concat (map b xs)) (run_steps (concat (map l xs))) c"
  using assms
proof (induction xs)
  case Nil
  show ?case by (simp add: writes_Nil del: run_steps.simps)
next
  case (Cons x xs)
  have "writes good written (b x @ concat (map b xs)) (run_steps (l x @ concat (map l xs))) c"
    by (rule writes_append) (use Cons in auto)
  then show ?case by simp
qed

lemma writes_part:
  assumes "writes good written bs l (get c)" "put (get c) c = c"
  shows "writes good written bs (on_part get put l) c"
  using assms unfolding writes_def by (auto simp: on_part_def)

text \<open>The bytes of the card.\<close>

definition sy_bytes :: "sy6522 \<Rightarrow> byte list" where
  "sy_bytes s = [ORA s, ORB s, DDRA s, DDRB s] @ ser16 (TIMER1_COUNTER s) @ ser16 (TIMER1_LATCH s) @
     ser16 (TIMER2_COUNTER s) @ ser16 (TIMER2_LATCH s) @ [SERIAL_SHIFT s, ACR s, PCR s, IFR s, IER s]"

definition ssi_bytes :: "ssi263 \<Rightarrow> byte list" where
  "ssi_bytes s = [DurationPhoneme s, Inflection s, RateInflection s, CtrlArtAmp s, FilterFreq s, CurrentMode s]"

definition unit_bytes :: "mockingboard \<Rightarrow> nat \<Rightarrow> byte list" where
  "unit_bytes m i = sy_bytes (sy_of m i) @ ay_bytes (g_AY8910 m i) @ ssi_bytes (SpeechChip (g_MB m i)) @ [nAYCurrentRegister (g_MB m i)]"

lemma put_same: "put_sy i (sy_of m i) m = m" "put_chip i (g_AY8910 m i) m = m" "put_speech i (SpeechChip (g_MB m i)) m = m"
  by (simp_all add: put_sy_def put_chip_def put_speech_def upd_mb_def)

context state_helper
begin

lemma writes_saves: "writes good written (concat (map (\<lambda>g. g c) gs)) (run_steps (map (save_step h) gs)) c"
  using save_chain by (auto simp: writes_def)

lemma writes_ay: "writes good written (ay_bytes a) (ay_saveState h) a"
proof -
  let ?q = "concat (map save_change [0..<ay_change_count a])"
  let ?gs = "map (\<lambda>(get, _). \<lambda>a. ser32 (get a)) ay_words @ map (\<lambda>i a. [sound_ay_registers a i]) [0..<16] @
     [\<lambda>a. ser32 (of_nat (ay_change_count a))]"
  have "writes good written (concat (map (\<lambda>g. g a) ?q)) (run_steps [\<lambda>(a, f). run_steps (map (save_step h)
     (concat (map save_change [0..<ay_change_count a]))) (a, f)]) a"
    using writes_saves [of a ?q] by (auto simp: writes_def split: outcome.splits)
  from writes_append [OF writes_saves [of a ?gs] this]
  have "writes good written (concat (map (\<lambda>g. g a) ?gs) @ concat (map (\<lambda>g. g a) ?q)) (ay_saveState h) a"
    unfolding ay_saveState_def by simp
  moreover have "concat (map (\<lambda>g. g a) ?gs) @ concat (map (\<lambda>g. g a) ?q) = ay_bytes a"
    by (simp add: ay_bytes_def comp_def case_prod_beta' case_prod_beta map_concat concat_save_changes)
  ultimately show ?thesis by simp
qed

lemma writes_sy: "writes good written (sy_bytes s) (sy6522_saveState h) s"
  unfolding sy6522_saveState_def by (rule writes_cong [OF writes_saves]) (simp add: sy_bytes_def)

lemma writes_ssi: "writes good written (ssi_bytes s) (ssi263_saveState h) s"
  unfolding ssi263_saveState_def by (rule writes_cong [OF writes_saves]) (simp add: ssi_bytes_def)

lemma writes_byte: "writes good written (g c) (save_step h g) c"
  by (simp add: writes_def file_simps)

lemma writes_unit: "writes good written (unit_bytes m i) (run_steps (save_unit h i)) m"
proof -
  have "writes good written (sy_bytes (sy_of m i) @ ay_bytes (g_AY8910 m i) @ ssi_bytes (SpeechChip (g_MB m i)) @
      (\<lambda>m. [nAYCurrentRegister (g_MB m i)]) m @ []) (run_steps (save_unit h i)) m"
    unfolding save_unit_def
    by (intro writes_Cons [OF writes_part [OF writes_sy]] writes_Cons [OF writes_part [OF writes_ay]]
        writes_Cons [OF writes_part [OF writes_ssi]] writes_Cons [OF writes_byte] writes_Nil put_same)
  then show ?thesis by (simp add: unit_bytes_def)
qed

lemma writes_mb: "writes good written (concat (map (unit_bytes m) [0..<4])) (mb_saveState h) m"
  unfolding mb_saveState_def by (rule writes_concat) (rule writes_unit)

end

section \<open>Restoring the card\<close>

definition sy_restored :: "sy6522 \<Rightarrow> sy6522 \<Rightarrow> sy6522" where
  "sy_restored s t = s\<lparr>ORA_NO_HS := ORA_NO_HS t\<rparr>"

definition unit_restored :: "mockingboard \<Rightarrow> nat \<Rightarrow> mockingboard \<Rightarrow> mockingboard" where
  "unit_restored m i t =
    (let t = put_sy i (sy_restored (sy_of m i) (sy_of t i)) t;
         t = put_chip i (ay_restored (g_AY8910 m i) (g_AY8910 t i)) t;
         t = put_speech i (SpeechChip (g_MB m i)) t;
         t = upd_mb i (\<lambda>u. u\<lparr>nAYCurrentRegister := nAYCurrentRegister (g_MB m i)\<rparr>) t
     in StartTimer i t)"

context state_helper
begin

lemma reads_sy: "reads good unread (sy_bytes s) (sy6522_loadState h) (sy_restored s)"
proof -
  let ?S = "\<lambda>t. t\<lparr>ORA := ORA s, ORB := ORB s, DDRA := DDRA s, DDRB := DDRB s, TIMER1_COUNTER := TIMER1_COUNTER s,
    TIMER1_LATCH := TIMER1_LATCH s, TIMER2_COUNTER := TIMER2_COUNTER s, TIMER2_LATCH := TIMER2_LATCH s,
    SERIAL_SHIFT := SERIAL_SHIFT s, ACR := ACR s, PCR := PCR s, IFR := IFR s, IER := IER s\<rparr>"
  have r: "reads good unread ([ORA s] @ [ORB s] @ [DDRA s] @ [DDRB s] @ ser16 (TIMER1_COUNTER s) @ ser16 (TIMER1_LATCH s) @
      ser16 (TIMER2_COUNTER s) @ ser16 (TIMER2_LATCH s) @ [SERIAL_SHIFT s] @ [ACR s] @ [PCR s] @ [IFR s] @ [IER s] @ [])
    (sy6522_loadState h) ?S"
    unfolding sy6522_loadState_def sy6522_loads_def
    by (intro reads_Cons [OF reads_byte] reads_Cons [OF reads_word16] reads_Nil)
  have e: "?S t = sy_restored s t" for t by (cases s; cases t) (simp add: sy_restored_def)
  show ?thesis by (rule reads_cong [OF r]) (simp add: sy_bytes_def, rule e)
qed

lemma reads_ssi: "reads good unread (ssi_bytes s) (ssi263_loadState h) (\<lambda>_. s)"
proof -
  let ?S = "\<lambda>t. t\<lparr>DurationPhoneme := DurationPhoneme s, Inflection := Inflection s, RateInflection := RateInflection s,
    CtrlArtAmp := CtrlArtAmp s, FilterFreq := FilterFreq s, CurrentMode := CurrentMode s\<rparr>"
  have "reads good unread ([DurationPhoneme s] @ [Inflection s] @ [RateInflection s] @ [CtrlArtAmp s] @ [FilterFreq s] @
      [CurrentMode s] @ []) (ssi263_loadState h) ?S"
    unfolding ssi263_loadState_def ssi263_loads_def
    by (intro reads_Cons [OF reads_byte] reads_Nil)
  then show ?thesis by (rule reads_cong) (simp_all add: ssi_bytes_def)
qed

lemma reads_unit:
  assumes "ay_saveable (g_AY8910 m i)"
  shows "reads good unread (unit_bytes m i) (run_steps (load_unit h i)) (unit_restored m i)"
proof -
  have "reads good unread (sy_bytes (sy_of m i) @ ay_bytes (g_AY8910 m i) @ ssi_bytes (SpeechChip (g_MB m i)) @
      [nAYCurrentRegister (g_MB m i)] @ [] @ []) (run_steps (load_unit h i)) (unit_restored m i)"
    unfolding load_unit_def unit_restored_def Let_def
    by (intro reads_Cons [OF reads_part [OF reads_sy]] reads_Cons [OF reads_part [OF reads_ay [OF assms]]]
        reads_Cons [OF reads_part [OF reads_ssi]] reads_Cons [OF reads_byte] reads_Cons [OF reads_check] reads_Nil) simp_all
  then show ?thesis by (simp add: unit_bytes_def)
qed

lemma reads_units:
  assumes "\<And>i. i < 4 \<Longrightarrow> ay_saveable (g_AY8910 m i)"
  shows "reads good unread (concat (map (unit_bytes m) [0..<4])) (run_steps (concat (map (load_unit h) [0..<4])))
    (fold (unit_restored m) [0..<4])"
  by (rule reads_concat) (use reads_unit assms in auto)

end

text \<open>What a restored chip shares with the saved one.\<close>

definition same_change :: "change \<Rightarrow> change \<Rightarrow> bool" where
  "same_change c d \<longleftrightarrow> (ucast (ch_tstates c) :: u32) = ucast (ch_tstates d) \<and> ch_ofs c = ch_ofs d \<and>
     ch_reg c = ch_reg d \<and> ch_val c = ch_val d"

definition same_chip :: "ay8910 \<Rightarrow> ay8910 \<Rightarrow> bool" where
  "same_chip a b \<longleftrightarrow>
    (\<forall>i < 3. ay_tone_tick a i = ay_tone_tick b i \<and> ay_tone_high a i = ay_tone_high b i \<and> ay_tone_period a i = ay_tone_period b i) \<and>
    ay_noise_tick a = ay_noise_tick b \<and> ay_tone_subcycles a = ay_tone_subcycles b \<and> ay_env_subcycles a = ay_env_subcycles b \<and>
    ay_env_internal_tick a = ay_env_internal_tick b \<and> ay_env_tick a = ay_env_tick b \<and> ay_noise_period a = ay_noise_period b \<and>
    ay_env_period a = ay_env_period b \<and> rng a = rng b \<and> noise_toggle a = noise_toggle b \<and> env_first a = env_first b \<and>
    env_rev a = env_rev b \<and> env_counter a = env_counter b \<and>
    (\<forall>i < 16. sound_ay_registers a i = sound_ay_registers b i) \<and>
    ay_change_count a = ay_change_count b \<and> (\<forall>i < ay_change_count a. same_change (ay_change a i) (ay_change b i))"

definition same_unit :: "mb_unit \<Rightarrow> mb_unit \<Rightarrow> bool" where
  "same_unit u v \<longleftrightarrow> (sy u)\<lparr>ORA_NO_HS := 0\<rparr> = (sy v)\<lparr>ORA_NO_HS := 0\<rparr> \<and> SpeechChip u = SpeechChip v \<and>
     nAYCurrentRegister u = nAYCurrentRegister v"

lemma low_half_low: "(ucast (low_half w t) :: u32) = w"
  unfolding low_half_def by (rule bit_word_eqI) (auto simp: bit_simps)

lemma ay_restored_same:
  assumes "ay_saveable a"
  shows "same_chip a (ay_restored a b)"
proof -
  have "sint (word_of_int (env_counter a) :: u32) = env_counter a"
    using sint_of_int [of "env_counter a"] assms by (simp add: ay_saveable_def signed_take_bit_int_eq_self)
  moreover have "i < 3 \<Longrightarrow> i = 0 \<or> i = 1 \<or> i = 2" for i :: nat by auto
  ultimately show ?thesis
    by (auto simp: same_chip_def same_change_def ay_restored_def Let_def ay_words_def set_tone_tick_def set_tone_high_def
        set_tone_period_def change_restored_def low_half_low)
qed

lemma start_timer_keeps:
  "sy (g_MB (StartTimer i m) j) = sy_of m j" "SpeechChip (g_MB (StartTimer i m) j) = SpeechChip (g_MB m j)"
  "nAYCurrentRegister (g_MB (StartTimer i m) j) = nAYCurrentRegister (g_MB m j)"
  "g_AY8910 (StartTimer i m) = g_AY8910 m" "mb_cpu (StartTimer i m) = mb_cpu m"
  by (simp_all add: StartTimer_def upd_mb_def)

lemma unit_restored_at:
  assumes "ay_saveable (g_AY8910 m i)"
  shows "same_unit (g_MB m i) (g_MB (unit_restored m i t) i)" "same_chip (g_AY8910 m i) (g_AY8910 (unit_restored m i t) i)"
  using ay_restored_same [OF assms]
  by (simp_all add: unit_restored_def Let_def same_unit_def start_timer_keeps put_sy_def put_chip_def put_speech_def
      upd_mb_def sy_restored_def)

lemma unit_restored_other:
  "j \<noteq> i \<Longrightarrow> same_unit u (g_MB (unit_restored m i t) j) = same_unit u (g_MB t j)"
  "j \<noteq> i \<Longrightarrow> g_AY8910 (unit_restored m i t) j = g_AY8910 t j"
  "mb_cpu (unit_restored m i t) = mb_cpu t"
  by (simp_all add: unit_restored_def Let_def same_unit_def start_timer_keeps put_sy_def put_chip_def put_speech_def upd_mb_def)

lemma units_restored:
  assumes "\<And>i. i < n \<Longrightarrow> ay_saveable (g_AY8910 m i)" "i < n"
  shows "same_unit (g_MB m i) (g_MB (fold (unit_restored m) [0..<n] t) i) \<and>
    same_chip (g_AY8910 m i) (g_AY8910 (fold (unit_restored m) [0..<n] t) i)"
  using assms
proof (induction n)
  case (Suc n)
  then show ?case
    by (cases "i = n") (simp_all add: unit_restored_at unit_restored_other)
qed simp

lemma units_restored_cpu: "mb_cpu (fold (unit_restored m) ns t) = mb_cpu t"
  by (induction ns arbitrary: t) (simp_all add: unit_restored_other)

lemma sound_inits:
  "g_MB (fold (sound_init env) ns t) = g_MB t" "mb_cpu (fold (sound_init env) ns t) = mb_cpu t"
  "same_chip a (g_AY8910 (fold (sound_init env) ns t) i) = same_chip a (g_AY8910 t i)"
  by (induction ns arbitrary: t) (simp_all add: sound_init_def same_chip_def)

lemma reinitialized:
  "g_MB (MB_Reinitialize env t) = g_MB t" "mb_cpu (MB_Reinitialize env t) = mb_cpu t"
  "same_chip a (g_AY8910 (MB_Reinitialize env t) i) = same_chip a (g_AY8910 t i)"
  by (simp_all add: MB_Reinitialize_def AY8910_InitClock_def sound_inits)

lemma reset_units_some:
  assumes "set is \<subseteq> {0..<4}"
  shows "\<exists>n. reset_units is m = Some n \<and> mb_cpu n = mb_cpu m"
  using assms
proof (induction "is" arbitrary: m)
  case (Cons i "is")
  obtain n where n: "AY8910_reset i (ResetSY6522 i m) = Some n" "mb_cpu n = mb_cpu m"
    using Cons.prems by (auto simp: AY8910_reset_def upd_ay_def ResetSY6522_def Let_def StopTimer_def upd_sy_def upd_mb_def)
  then show ?case using Cons.IH [of n] Cons.prems by auto
qed simp

lemma reset_some: "\<exists>n. MB_Reset env m = Some n \<and> mb_cpu n = mb_cpu m"
proof (cases "audio_isAvailable env")
  case True
  obtain n where n: "reset_units [0..<4] m = Some n" "mb_cpu n = mb_cpu m"
    using reset_units_some [of "[0..<4]" m] by auto
  then show ?thesis using True by (simp add: MB_Reset_def reinitialized ResetState_def)
qed (simp add: MB_Reset_def)

text \<open>No part of the card's restoration moves the clock.\<close>

lemma start_timer_clock: "mb_video (StartTimer i m) = mb_video m"
  by (simp add: StartTimer_def upd_mb_def)

lemma units_restored_clock: "mb_video (fold (unit_restored m) ns t) = mb_video t"
proof (induction ns arbitrary: t)
  case (Cons i ns)
  have "mb_video (unit_restored m i t) = mb_video t"
    by (simp add: unit_restored_def Let_def start_timer_clock put_sy_def put_chip_def put_speech_def upd_mb_def)
  then show ?case using Cons.IH by simp
qed simp

lemma reinitialized_clock: "mb_video (MB_Reinitialize env m) = mb_video m"
proof -
  have "mb_video (fold (sound_init e) ns t) = mb_video t" for e ns t
    by (induction ns arbitrary: t) (simp_all add: sound_init_def)
  then show ?thesis by (simp add: MB_Reinitialize_def AY8910_InitClock_def)
qed

lemma reset_clock:
  assumes "MB_Reset env m = Some n"
  shows "mb_video n = mb_video m"
proof -
  have "mb_video r = mb_video m" if "reset_units is m = Some r" for "is" r m
    using that
  proof (induction "is" arbitrary: m)
    case (Cons i "is")
    then obtain k where k: "AY8910_reset i (ResetSY6522 i m) = Some k" "reset_units is k = Some r"
      by (auto split: bind_splits)
    have "mb_video k = mb_video m"
      using k(1) by (auto simp: AY8910_reset_def upd_ay_def ResetSY6522_def Let_def StopTimer_def upd_sy_def upd_mb_def split: if_splits)
    then show ?case using Cons.IH [OF k(2)] by simp
  qed simp
  then show ?thesis using assms
    by (auto simp: MB_Reset_def reinitialized_clock ResetState_def split: if_splits)
qed

context state_helper
begin

lemma mb_load:
  assumes "good f" "unread f = concat (map (unit_bytes m) [0..<4]) @ rest" "\<forall>i < 4. ay_saveable (g_AY8910 m i)"
  shows "\<exists>t' f'. mb_loadState env h (t, f) = Cont (t', f') \<and> good f' \<and> unread f' = rest \<and>
    (\<forall>i < 4. same_unit (g_MB m i) (g_MB t' i) \<and> same_chip (g_AY8910 m i) (g_AY8910 t' i)) \<and>
    mb_cpu t' = mb_cpu t \<and> mb_video t' = mb_video t"
proof -
  obtain r where r: "MB_Reset (original_speed env) t = Some r" "mb_cpu r = mb_cpu t" using reset_some by blast
  define t1 where "t1 = fold (unit_restored m) [0..<4] (AY8910UpdateSetCycles r)"
  obtain f' where f': "run_steps (concat (map (load_unit h) [0..<4])) (AY8910UpdateSetCycles r, f) = Cont (t1, f')"
    "good f'" "unread f' = rest"
    using readsD [OF reads_units assms(1,2)] assms(3) by (auto simp: t1_def)
  let ?t = "MB_Reinitialize (original_speed env) t1"
  have l: "mb_loadState env h (t, f) = Cont (?t, f')"
    by (simp add: mb_loadState_def r(1) run_steps_append f' check_step_def del: upt_Suc upt_rec_numeral)
  have "same_unit (g_MB m i) (g_MB ?t i) \<and> same_chip (g_AY8910 m i) (g_AY8910 ?t i)" if "i < 4" for i
    using units_restored [of 4 m i] assms(3) that by (simp add: reinitialized t1_def)
  moreover have "mb_cpu ?t = mb_cpu t" by (simp add: reinitialized t1_def units_restored_cpu AY8910UpdateSetCycles_def r(2))
  moreover have "mb_video ?t = mb_video t"
    by (simp add: reinitialized_clock t1_def units_restored_clock AY8910UpdateSetCycles_def reset_clock [OF r(1)])
  ultimately show ?thesis using l f'(2,3) by blast
qed

end

section \<open>Guarantees\<close>

text \<open>C16: a saved card is what a load restores into any other card: the ports and timers of the adapters, the
  chosen sound registers, the sound chips with their queues (of the times of the queue the lower 32 bits) and the speech
  chips are those of the saved card.  The interrupt line of the processor stays as the load found it, although the
  restored adapters may have an interrupt pending.\<close>

theorem mb_state_roundtrip:
  assumes "\<And>i. i < 4 \<Longrightarrow> ay_saveable (g_AY8910 m i)"
  shows "\<exists>f t' f'. mb_saveState file_helper (m, empty_file) = Cont (m, f) \<and>
    mb_loadState env file_helper (t, rewind f) = Cont (t', f') \<and>
    (\<forall>i < 4. same_unit (g_MB m i) (g_MB t' i) \<and> same_chip (g_AY8910 m i) (g_AY8910 t' i)) \<and>
    irq_line t' = irq_line t"
proof -
  obtain f where f: "mb_saveState file_helper (m, empty_file) = Cont (m, f)" "good_file f"
    "written_part f = concat (map (unit_bytes m) [0..<4])"
    using writesD [OF state_file.writes_mb empty_file_good(1), of m] empty_file_good(2) by auto
  have u: "unread_part (rewind f) = concat (map (unit_bytes m) [0..<4]) @ drop (fpos f) (contents f)"
    using rewound(2) [OF f(2)] f(3) by simp
  have "\<forall>i < 4. ay_saveable (g_AY8910 m i)" using assms by blast
  from state_file.mb_load [OF rewound(1) [OF f(2)] u this, of env t] obtain t' f' where
    t': "mb_loadState env file_helper (t, rewind f) = Cont (t', f')"
      "\<forall>i < 4. same_unit (g_MB m i) (g_MB t' i) \<and> same_chip (g_AY8910 m i) (g_AY8910 t' i)" "mb_cpu t' = mb_cpu t" by blast
  then have "irq_line t' = irq_line t" by (simp add: irq_line_def)
  then show ?thesis using f(1) t'(1,2) by blast
qed

lemma start_mb_saveable: "ay_saveable (g_AY8910 start_mb i)"
proof -
  have "g_AY8910 start_mb i = sound_ay_reset fresh_ay" for i by (simp add: start_mb_def)
  then show ?thesis using start_mb_ports(2) reset_chip_ok [of fresh_ay] by (simp add: ay_saveable_def chip_ok_def)
qed

theorem mb_state_roundtrip_witness:
  "\<exists>f t' f'. mb_saveState file_helper (start_mb, empty_file) = Cont (start_mb, f) \<and>
    mb_loadState demo_env file_helper (start_mb, rewind f) = Cont (t', f') \<and>
    TIMER1_COUNTER (sy_of t' 0) = 1000 \<and> DDRA (sy_of t' 0) = 0xFF"
proof -
  obtain f t' f' where "mb_saveState file_helper (start_mb, empty_file) = Cont (start_mb, f)"
    "mb_loadState demo_env file_helper (start_mb, rewind f) = Cont (t', f')" "same_unit (g_MB start_mb 0) (g_MB t' 0)"
    using mb_state_roundtrip [of start_mb demo_env start_mb, OF start_mb_saveable] by force
  moreover from this(3) have "TIMER1_COUNTER (sy_of t' 0) = 1000 \<and> DDRA (sy_of t' 0) = 0xFF"
    by (cases "sy (g_MB t' 0)") (auto simp: same_unit_def start_mb_def cleared_sy6522_def)
  ultimately show ?thesis by blast
qed

end
