(* ===== verification/A2_PlayQueue.thy ===== *)
theory A2_PlayQueue
  imports A2_Prelude "HOL-Library.Monad_Syntax"
begin

text \<open>
  The queue of playing buffers (\<^verbatim>\<open>audio/playqueue.c\<close>): cells linked by pointers, kept in a
  pool of free cells and a doubly linked queue.  A cell is a number, the heap a function; \<open>None\<close> as the
  result of an operation is a failed assertion, an access through a null pointer or a loop that does not end.

  The queue is shown to implement a list: the record \<open>playqueue\<close> has the function pointers of
  \<^verbatim>\<open>PlayQueue_s\<close>, the locale \<open>play_queue\<close> what its users rely on, and the pointer structure
  is its interpretation.
\<close>

section \<open>State\<close>

type_synonym ptr = "nat option"

record playnode =
  nodeId :: u32
  numBytes :: int
  bytes :: ptr

record pqlistnode =
  nxt :: ptr
  prv :: ptr
  pnode :: playnode

record pqlist =
  cells :: "nat \<Rightarrow> pqlistnode"
  availNodes :: ptr
  queuedNodes :: ptr
  queuedHead :: ptr

definition MAX_PLAYQ_BUFFERS :: nat where "MAX_PLAYQ_BUFFERS = 16"

definition zero_node :: playnode where
  "zero_node = \<lparr>nodeId = 0, numBytes = 0, bytes = None\<rparr>"

definition at_cell :: "nat \<Rightarrow> (pqlistnode \<Rightarrow> pqlistnode) \<Rightarrow> pqlist \<Rightarrow> pqlist" where
  "at_cell a f l = l\<lparr>cells := (cells l)(a := f (cells l a))\<rparr>"

definition at_ptr :: "ptr \<Rightarrow> (pqlistnode \<Rightarrow> pqlistnode) \<Rightarrow> pqlist \<Rightarrow> pqlist" where
  "at_ptr p f l = (case p of None \<Rightarrow> l | Some a \<Rightarrow> at_cell a f l)"

section \<open>Operations\<close>

text \<open>Each returns the code's error, the node it hands out, and the queue.\<close>

definition playq_enqueue :: "playnode \<Rightarrow> pqlist \<Rightarrow> (int \<times> playnode \<times> pqlist) option" where
  "playq_enqueue node l =
    (case availNodes l of None \<Rightarrow> Some (-1, node, l)
     | Some a \<Rightarrow>
         (let l = l\<lparr>availNodes := nxt (cells l a)\<rparr>;
              l = at_cell a (\<lambda>c. c\<lparr>pnode := (pnode c)\<lparr>numBytes := numBytes node, bytes := bytes node\<rparr>\<rparr>) l;
              node = node\<lparr>nodeId := nodeId (pnode (cells l a))\<rparr>;
              l = at_cell a (\<lambda>c. c\<lparr>nxt := queuedNodes l, prv := None\<rparr>) l;
              l = at_ptr (queuedNodes l) (\<lambda>c. c\<lparr>prv := Some a\<rparr>) l;
              l = l\<lparr>queuedNodes := Some a\<rparr>;
              l = (if nxt (cells l a) = None then l\<lparr>queuedHead := Some a\<rparr> else l)
          in Some (0, node, l)))"

text \<open>A cell goes back to the pool with its number and without its data.\<close>

definition release_cell :: "nat \<Rightarrow> pqlist \<Rightarrow> pqlist" where
  "release_cell a l =
    (let l = at_cell a (\<lambda>c. c\<lparr>prv := None, nxt := availNodes l\<rparr>) l;
         l = l\<lparr>availNodes := Some a\<rparr>
     in at_cell a (\<lambda>c. c\<lparr>pnode := (pnode c)\<lparr>numBytes := 0, bytes := None\<rparr>\<rparr>) l)"

definition playq_dequeue :: "pqlist \<Rightarrow> (int \<times> playnode \<times> pqlist) option" where
  "playq_dequeue l =
    (case queuedHead l of
       Some a \<Rightarrow>
         (let l = l\<lparr>queuedHead := prv (cells l a)\<rparr>;
              l = (case queuedHead l of Some h \<Rightarrow> at_cell h (\<lambda>c. c\<lparr>nxt := None\<rparr>) l | None \<Rightarrow> l\<lparr>queuedNodes := None\<rparr>);
              node = pnode (cells l a)
          in Some (0, node, release_cell a l))
     | None \<Rightarrow> if queuedNodes l = None then Some (-1, zero_node, l) else None)"

partial_function (option) find_node :: "(nat \<Rightarrow> pqlistnode) \<Rightarrow> u32 \<Rightarrow> ptr \<Rightarrow> ptr option" where
  "find_node h i p = (case p of None \<Rightarrow> Some None
     | Some a \<Rightarrow> if nodeId (pnode (h a)) = i then Some (Some a) else find_node h i (nxt (h a)))"

definition unlink_cell :: "nat \<Rightarrow> pqlist \<Rightarrow> pqlist" where
  "unlink_cell a l =
    (let n = nxt (cells l a); p = prv (cells l a);
         l = (if n = None then l\<lparr>queuedHead := p\<rparr> else l)
     in case p of
          Some b \<Rightarrow> at_ptr n (\<lambda>c. c\<lparr>prv := Some b\<rparr>) (at_cell b (\<lambda>c. c\<lparr>nxt := n\<rparr>) l)
        | None \<Rightarrow> at_ptr n (\<lambda>c. c\<lparr>prv := None\<rparr>) (l\<lparr>queuedNodes := n\<rparr>))"

definition playq_remove :: "playnode \<Rightarrow> pqlist \<Rightarrow> (int \<times> playnode \<times> pqlist) option" where
  "playq_remove node l = do {
     found \<leftarrow> find_node (cells l) (nodeId node) (queuedNodes l);
     case found of None \<Rightarrow> Some (-1, node, l)
     | Some a \<Rightarrow> (let l = unlink_cell a l in Some (0, pnode (cells l a), release_cell a l)) }"

partial_function (option) playq_drain :: "pqlist \<Rightarrow> pqlist option" where
  "playq_drain l = do {
     (err, _, l) \<leftarrow> playq_dequeue l;
     if err = 0 then playq_drain l else Some l }"

definition playq_getHead :: "pqlist \<Rightarrow> int \<times> playnode" where
  "playq_getHead l = (case queuedHead l of Some a \<Rightarrow> (0, pnode (cells l a)) | None \<Rightarrow> (-1, zero_node))"

definition playq_get :: "playnode \<Rightarrow> pqlist \<Rightarrow> (int \<times> playnode) option" where
  "playq_get node l = do {
     found \<leftarrow> find_node (cells l) (nodeId node) (queuedNodes l);
     Some (case found of Some a \<Rightarrow> (0, pnode (cells l a)) | None \<Rightarrow> (-1, zero_node)) }"

definition playq_canEnqueue :: "pqlist \<Rightarrow> bool" where
  "playq_canEnqueue l = (availNodes l \<noteq> None)"

text \<open>\<open>calloc k\<close> tells whether the allocation number \<open>k\<close> succeeds: of the queue, of its lists, then of the cells.
  The code writes to a cell before it tests whether it got one.\<close>

definition fresh_cell :: pqlistnode where
  "fresh_cell = \<lparr>nxt = None, prv = None, pnode = zero_node\<rparr>"

definition add_cell :: "(nat \<Rightarrow> bool) \<Rightarrow> u32 list \<Rightarrow> nat \<Rightarrow> pqlist \<Rightarrow> pqlist option" where
  "add_cell calloc nodeIdPtr i l =
    (if length nodeIdPtr \<le> i \<or> \<not> calloc (i + 2) then None
     else Some (l\<lparr>cells := (cells l)(i := fresh_cell\<lparr>pnode := zero_node\<lparr>nodeId := nodeIdPtr ! i\<rparr>, nxt := availNodes l\<rparr>),
                  availNodes := Some i\<rparr>))"

fun add_cells :: "(nat \<Rightarrow> bool) \<Rightarrow> u32 list \<Rightarrow> nat list \<Rightarrow> pqlist \<Rightarrow> pqlist option" where
  "add_cells calloc nodeIdPtr [] l = Some l"
| "add_cells calloc nodeIdPtr (i # is) l = add_cell calloc nodeIdPtr i l \<bind> add_cells calloc nodeIdPtr is"

definition empty_lists :: pqlist where
  "empty_lists = \<lparr>cells = (\<lambda>_. fresh_cell), availNodes = None, queuedNodes = None, queuedHead = None\<rparr>"

definition playq_createPlayQueue :: "(nat \<Rightarrow> bool) \<Rightarrow> u32 list \<Rightarrow> nat \<Rightarrow> pqlist option option" where
  "playq_createPlayQueue calloc nodeIdPtr numBuffers =
    (if MAX_PLAYQ_BUFFERS < numBuffers then None
     else if \<not> calloc 0 \<or> \<not> calloc 1 then Some None
     else map_option Some (add_cells calloc nodeIdPtr [0..<numBuffers] empty_lists))"

text \<open>The cells handed back to the allocator, in order.\<close>

partial_function (option) free_cells :: "(nat \<Rightarrow> pqlistnode) \<Rightarrow> ptr \<Rightarrow> nat list option" where
  "free_cells h p = (case p of None \<Rightarrow> Some []
     | Some a \<Rightarrow> do { as \<leftarrow> free_cells h (nxt (h a)); Some (a # as) })"

definition playq_destroyPlayQueue :: "pqlist \<Rightarrow> nat list option" where
  "playq_destroyPlayQueue l = do { l \<leftarrow> playq_drain l; free_cells (cells l) (availNodes l) }"

section \<open>The interface\<close>

record 'q playqueue =
  Enqueue :: "playnode \<Rightarrow> 'q \<Rightarrow> (int \<times> playnode \<times> 'q) option"
  Dequeue :: "'q \<Rightarrow> (int \<times> playnode \<times> 'q) option"
  Remove :: "playnode \<Rightarrow> 'q \<Rightarrow> (int \<times> playnode \<times> 'q) option"
  Drain :: "'q \<Rightarrow> 'q option"
  GetHead :: "'q \<Rightarrow> int \<times> playnode"
  Get :: "playnode \<Rightarrow> 'q \<Rightarrow> (int \<times> playnode) option"
  CanEnqueue :: "'q \<Rightarrow> bool"

definition playq :: "pqlist playqueue" where
  "playq = \<lparr>Enqueue = playq_enqueue, Dequeue = playq_dequeue, Remove = playq_remove, Drain = playq_drain,
     GetHead = playq_getHead, Get = playq_get, CanEnqueue = playq_canEnqueue\<rparr>"

text \<open>\<open>rep q ns fs\<close>: the queue holds the nodes \<open>ns\<close>, the oldest first, and the numbers \<open>fs\<close> are free.\<close>

locale play_queue =
  fixes pq :: "'q playqueue"
    and rep :: "'q \<Rightarrow> playnode list \<Rightarrow> u32 list \<Rightarrow> bool"
  assumes distinct_ids: "rep q ns fs \<Longrightarrow> distinct (map nodeId ns @ fs)"
    and enqueue_full: "rep q ns [] \<Longrightarrow> Enqueue pq n q = Some (-1, n, q)"
    and enqueue_ok: "rep q ns (i # fs) \<Longrightarrow>
      \<exists>q'. Enqueue pq n q = Some (0, n\<lparr>nodeId := i\<rparr>, q') \<and> rep q' (ns @ [n\<lparr>nodeId := i\<rparr>]) fs"
    and dequeue_empty: "rep q [] fs \<Longrightarrow> Dequeue pq q = Some (-1, zero_node, q)"
    and dequeue_ok: "rep q (n # ns) fs \<Longrightarrow> \<exists>q'. Dequeue pq q = Some (0, n, q') \<and> rep q' ns (nodeId n # fs)"
    and remove_missing: "rep q ns fs \<Longrightarrow> nodeId n \<notin> nodeId ` set ns \<Longrightarrow> Remove pq n q = Some (-1, n, q)"
    and remove_ok: "rep q (xs @ m # ys) fs \<Longrightarrow> nodeId n = nodeId m \<Longrightarrow>
      \<exists>q'. Remove pq n q = Some (0, m, q') \<and> rep q' (xs @ ys) (nodeId m # fs)"
    and drain_ok: "rep q ns fs \<Longrightarrow> \<exists>q'. Drain pq q = Some q' \<and> rep q' [] (rev (map nodeId ns) @ fs)"
    and head_ok: "rep q ns fs \<Longrightarrow> GetHead pq q = (case ns of [] \<Rightarrow> (-1, zero_node) | n # _ \<Rightarrow> (0, n))"
    and get_ok: "rep q (xs @ m # ys) fs \<Longrightarrow> nodeId n = nodeId m \<Longrightarrow> Get pq n q = Some (0, m)"
    and get_missing: "rep q ns fs \<Longrightarrow> nodeId n \<notin> nodeId ` set ns \<Longrightarrow> Get pq n q = Some (-1, zero_node)"
    and can_ok: "rep q ns fs \<Longrightarrow> CanEnqueue pq q = (fs \<noteq> [])"

section \<open>Linked cells\<close>

text \<open>\<open>dl h p b xs q e\<close>: from \<open>p\<close> the forward links pass \<open>xs\<close> and reach \<open>q\<close>; the backward links start from
  \<open>b\<close>, and \<open>e\<close> is the last cell (\<open>b\<close> when there is none).\<close>

fun dl :: "(nat \<Rightarrow> pqlistnode) \<Rightarrow> ptr \<Rightarrow> ptr \<Rightarrow> nat list \<Rightarrow> ptr \<Rightarrow> ptr \<Rightarrow> bool" where
  "dl h p b [] q e \<longleftrightarrow> p = q \<and> b = e"
| "dl h p b (a # as) q e \<longleftrightarrow> p = Some a \<and> prv (h a) = b \<and> dl h (nxt (h a)) (Some a) as q e"

fun sl :: "(nat \<Rightarrow> pqlistnode) \<Rightarrow> ptr \<Rightarrow> nat list \<Rightarrow> bool" where
  "sl h p [] \<longleftrightarrow> p = None"
| "sl h p (a # as) \<longleftrightarrow> p = Some a \<and> sl h (nxt (h a)) as"

lemma dl_append: "dl h p b (xs @ ys) q e \<longleftrightarrow> (\<exists>m n. dl h p b xs m n \<and> dl h m n ys q e)"
  by (induction xs arbitrary: p b) auto

lemma dl_frame [simp]: "a \<notin> set xs \<Longrightarrow> dl (h(a := c)) p b xs q e = dl h p b xs q e"
  by (induction xs arbitrary: p b) auto

lemma sl_frame [simp]: "a \<notin> set xs \<Longrightarrow> sl (h(a := c)) p xs = sl h p xs"
  by (induction xs arbitrary: p) auto

lemma dl_end: "dl h p b xs q e \<Longrightarrow> e = (if xs = [] then b else Some (last xs))"
  by (induction xs arbitrary: p b) auto

lemma dl_start: "dl h p b xs q e \<Longrightarrow> p = (if xs = [] then q else Some (hd xs))"
  by (cases xs) auto

lemma find_dl:
  "dl h p b xs None e \<Longrightarrow> find_node h i p = Some (List.find (\<lambda>a. nodeId (pnode (h a)) = i) xs)"
proof (induction xs arbitrary: p b)
  case (Cons a xs)
  then show ?case by (subst find_node.simps) auto
qed (simp add: find_node.simps)

text \<open>What the structure represents: \<open>qs\<close> are the queued cells, the newest first, \<open>as\<close> the free ones.\<close>

definition linked :: "pqlist \<Rightarrow> nat list \<Rightarrow> nat list \<Rightarrow> bool" where
  "linked l qs as \<longleftrightarrow> dl (cells l) (queuedNodes l) None qs None (queuedHead l) \<and> sl (cells l) (availNodes l) as \<and>
     distinct (qs @ as)"

definition cell_id :: "pqlist \<Rightarrow> nat \<Rightarrow> u32" where
  "cell_id l a = nodeId (pnode (cells l a))"

definition playq_rep :: "nat set \<Rightarrow> pqlist \<Rightarrow> playnode list \<Rightarrow> u32 list \<Rightarrow> bool" where
  "playq_rep N l ns fs \<longleftrightarrow> (\<exists>qs as. linked l qs as \<and> set (qs @ as) = N \<and> distinct (map (cell_id l) (qs @ as)) \<and>
     ns = map (\<lambda>a. pnode (cells l a)) (rev qs) \<and> fs = map (cell_id l) as)"

lemma playq_repI:
  "linked l qs as \<Longrightarrow> set (qs @ as) = N \<Longrightarrow> distinct (map (cell_id l) (qs @ as)) \<Longrightarrow> ns = map (\<lambda>a. pnode (cells l a)) (rev qs) \<Longrightarrow>
   fs = map (cell_id l) as \<Longrightarrow> playq_rep N l ns fs"
  by (auto simp: playq_rep_def)

lemma release_linked:
  assumes "dl (cells l) (queuedNodes l) None qs None (queuedHead l)" "sl (cells l) (availNodes l) as"
    "distinct (qs @ as)" "a \<notin> set qs" "a \<notin> set as"
  shows "linked (release_cell a l) qs (a # as)"
  using assms by (simp add: linked_def release_cell_def at_cell_def)

lemma release_cells:
  "b \<noteq> a \<Longrightarrow> cells (release_cell a l) b = cells l b" "cell_id (release_cell a l) b = cell_id l b"
  by (auto simp: release_cell_def at_cell_def cell_id_def)

text \<open>Taking a cell out of the queue leaves the others linked and touches no data.\<close>

lemma at_ptr_keeps:
  "(\<And>c. pnode (f c) = pnode c) \<Longrightarrow> pnode (cells (at_ptr p f l) b) = pnode (cells l b)"
  "availNodes (at_ptr p f l) = availNodes l" "queuedHead (at_ptr p f l) = queuedHead l" "queuedNodes (at_ptr p f l) = queuedNodes l"
  by (auto simp: at_ptr_def at_cell_def split: option.splits)

lemma at_cell_keeps:
  "(\<And>c. pnode (f c) = pnode c) \<Longrightarrow> pnode (cells (at_cell a f l) b) = pnode (cells l b)"
  "availNodes (at_cell a f l) = availNodes l" "queuedHead (at_cell a f l) = queuedHead l" "queuedNodes (at_cell a f l) = queuedNodes l"
  by (auto simp: at_cell_def)

lemma unlink_keeps: "pnode (cells (unlink_cell a l) b) = pnode (cells l b)" "availNodes (unlink_cell a l) = availNodes l"
  by (auto simp: unlink_cell_def Let_def at_ptr_keeps at_cell_keeps split: option.splits)

lemma unlink_dl:
  assumes "dl (cells l) (queuedNodes l) None (xs @ a # ys) None (queuedHead l)" "distinct (xs @ a # ys)"
  shows "dl (cells (unlink_cell a l)) (queuedNodes (unlink_cell a l)) None (xs @ ys) None (queuedHead (unlink_cell a l))"
proof -
  have x: "dl (cells l) (queuedNodes l) None xs (Some a) (prv (cells l a))"
    and y: "dl (cells l) (nxt (cells l a)) (Some a) ys None (queuedHead l)"
    using assms(1) by (auto simp: dl_append)
  show ?thesis
  proof (cases xs rule: rev_cases)
    case Nil
    then show ?thesis using x y assms(2)
      by (cases ys) (auto simp: unlink_cell_def Let_def at_ptr_def at_cell_def)
  next
    case (snoc zs b)
    have p: "prv (cells l a) = Some b" using dl_end [OF x] snoc by simp
    have z: "dl (cells l) (queuedNodes l) None zs (Some b) (prv (cells l b))" "nxt (cells l b) = Some a"
      using x snoc by (auto simp: dl_append)
    show ?thesis using y z snoc assms(2)
      by (cases ys) (auto simp: unlink_cell_def Let_def at_ptr_def at_cell_def dl_append p)
  qed
qed

lemma unlink_sl: "sl (cells l) p as \<Longrightarrow> set as \<inter> set (xs @ a # ys) = {} \<Longrightarrow>
    dl (cells l) (queuedNodes l) None (xs @ a # ys) None (queuedHead l) \<Longrightarrow> sl (cells (unlink_cell a l)) p as"
proof -
  assume s: "sl (cells l) p as" "set as \<inter> set (xs @ a # ys) = {}" and d: "dl (cells l) (queuedNodes l) None (xs @ a # ys) None (queuedHead l)"
  have x: "dl (cells l) (queuedNodes l) None xs (Some a) (prv (cells l a))"
    and y: "dl (cells l) (nxt (cells l a)) (Some a) ys None (queuedHead l)"
    using d by (auto simp: dl_append)
  have p: "prv (cells l a) = None \<or> (\<exists>b. prv (cells l a) = Some b \<and> b \<notin> set as)"
    using dl_end [OF x] s(2) last_in_set [of xs] by auto
  have n: "nxt (cells l a) = None \<or> (\<exists>b. nxt (cells l a) = Some b \<and> b \<notin> set as)"
    using dl_start [OF y] s(2) hd_in_set [of ys] by auto
  show ?thesis using s p n
    by (auto simp: unlink_cell_def Let_def at_ptr_def at_cell_def)
qed

text \<open>A removed cell: what the queue and the pool hold afterwards.\<close>

lemma remove_rep:
  assumes "linked l (xs @ a # ys) as" "distinct (map (cell_id l) ((xs @ a # ys) @ as))" "cells l' = cells (unlink_cell a l)"
    "queuedNodes l' = queuedNodes (unlink_cell a l)" "queuedHead l' = queuedHead (unlink_cell a l)" "availNodes l' = availNodes l"
    "set ((xs @ a # ys) @ as) = N"
  shows "playq_rep N (release_cell a l') (map (\<lambda>a. pnode (cells l a)) (rev (xs @ ys))) (cell_id l a # map (cell_id l) as)"
proof -
  have d: "distinct (xs @ a # ys @ as)" and dl: "dl (cells l) (queuedNodes l) None (xs @ a # ys) None (queuedHead l)"
    and sl: "sl (cells l) (availNodes l) as"
    using assms(1) by (auto simp: linked_def)
  have "linked (release_cell a l') (xs @ ys) (a # as)"
    by (rule release_linked) (use unlink_dl [OF dl] unlink_sl [OF sl _ dl] d assms(3-6) in auto)
  moreover have n: "pnode (cells (release_cell a l') b) = pnode (cells l b)" if "b \<noteq> a" for b
    using that assms(3) by (simp add: release_cells unlink_keeps)
  moreover have i: "cell_id (release_cell a l') b = cell_id l b" for b
    using assms(3) by (simp only: release_cells(2)) (simp add: cell_id_def unlink_keeps)
  moreover have "distinct (map (cell_id l) ((xs @ ys) @ a # as))" using assms(2) by auto
  moreover have "map (\<lambda>b. pnode (cells (release_cell a l') b)) (rev (xs @ ys)) = map (\<lambda>a. pnode (cells l a)) (rev (xs @ ys))"
    by (intro map_cong refl n) (use d in auto)
  moreover have "set ((xs @ ys) @ a # as) = N" using assms(7) by auto
  ultimately show ?thesis by (intro playq_repI [of _ "xs @ ys" "a # as"]) (simp_all add: i comp_def cong: map_cong)
qed

lemma find_by_id: "distinct (map f ((xs @ a # ys) @ zs)) \<Longrightarrow> List.find (\<lambda>b. f b = f a) (xs @ a # ys) = Some a"
  by (induction xs) auto

lemma rep_remove:
  assumes "playq_rep N l (xs @ m # ys) fs" "nodeId n = nodeId m"
  shows "\<exists>l'. playq_remove n l = Some (0, m, l') \<and> playq_rep N l' (xs @ ys) (nodeId m # fs)"
    "playq_get n l = Some (0, m)"
proof -
  obtain qs as where r: "linked l qs as" "distinct (map (cell_id l) (qs @ as))" "set (qs @ as) = N"
    "xs @ m # ys = map (\<lambda>a. pnode (cells l a)) (rev qs)" "fs = map (cell_id l) as"
    using assms(1) by (auto simp: playq_rep_def)
  from r(4) obtain us a vs where s: "rev qs = us @ a # vs" "xs = map (\<lambda>a. pnode (cells l a)) us"
    "m = pnode (cells l a)" "ys = map (\<lambda>a. pnode (cells l a)) vs"
    by (auto simp: append_eq_map_conv Cons_eq_map_conv)
  have q: "qs = rev vs @ a # rev us" using arg_cong [OF s(1), of rev] by simp
  have "dl (cells l) (queuedNodes l) None qs None (queuedHead l)" using r(1) by (simp add: linked_def)
  then have f: "find_node (cells l) (nodeId n) (queuedNodes l) = Some (List.find (\<lambda>b. cell_id l b = nodeId n) qs)"
    by (simp add: find_dl cell_id_def)
  have "List.find (\<lambda>b. cell_id l b = nodeId n) qs = Some a"
    using find_by_id [of "cell_id l" "rev vs" a "rev us" as] r(2) q s(3) assms(2) by (simp add: cell_id_def)
  note f = f [unfolded this]
  show "playq_get n l = Some (0, m)" by (simp add: playq_get_def f s(3))
  have "playq_rep N (release_cell a (unlink_cell a l)) (map (\<lambda>a. pnode (cells l a)) (rev (rev vs @ rev us))) (cell_id l a # map (cell_id l) as)"
    by (rule remove_rep) (use r q unlink_keeps in auto)
  then show "\<exists>l'. playq_remove n l = Some (0, m, l') \<and> playq_rep N l' (xs @ ys) (nodeId m # fs)"
    by (simp add: playq_remove_def f Let_def unlink_keeps s r(5) cell_id_def)
qed

lemma rep_missing:
  assumes "playq_rep N l ns fs" "nodeId n \<notin> nodeId ` set ns"
  shows "playq_remove n l = Some (-1, n, l)" "playq_get n l = Some (-1, zero_node)"
proof -
  obtain qs as where r: "linked l qs as" "ns = map (\<lambda>a. pnode (cells l a)) (rev qs)"
    using assms(1) by (auto simp: playq_rep_def)
  have "\<forall>x \<in> set qs. nodeId (pnode (cells l x)) \<noteq> nodeId n" using assms(2) r(2) by (auto simp: image_iff)
  then have "List.find (\<lambda>a. nodeId (pnode (cells l a)) = nodeId n) qs = None" by (auto simp: find_None_iff)
  then have f: "find_node (cells l) (nodeId n) (queuedNodes l) = Some None"
    using r(1) find_dl [of "cells l" "queuedNodes l" None qs "queuedHead l" "nodeId n"] by (simp add: linked_def)
  show "playq_remove n l = Some (-1, n, l)" "playq_get n l = Some (-1, zero_node)"
    by (simp_all add: playq_remove_def playq_get_def f)
qed

text \<open>Taking the oldest cell is removing it.\<close>

lemma dequeue_unlink:
  assumes "linked l qs as" "queuedHead l = Some a"
  shows "playq_dequeue l = Some (0, pnode (cells l a), release_cell a (unlink_cell a l)) \<and> qs \<noteq> [] \<and> last qs = a"
proof -
  have d: "dl (cells l) (queuedNodes l) None qs None (queuedHead l)" using assms(1) by (simp add: linked_def)
  then have q: "qs \<noteq> []" "last qs = a" using dl_end [OF d] assms(2) by (auto split: if_splits)
  have "nxt (cells l a) = None"
  proof -
    have "qs = butlast qs @ [a]" using q by (metis append_butlast_last_id)
    then have "dl (cells l) (queuedNodes l) None (butlast qs @ [a]) None (queuedHead l)" using d by simp
    then show ?thesis by (simp add: dl_append)
  qed
  then show ?thesis using q
    by (simp add: playq_dequeue_def assms(2) unlink_cell_def Let_def at_ptr_def at_cell_def split: option.split)
qed

lemma rep_dequeue:
  assumes "playq_rep N l (n # ns) fs"
  shows "\<exists>l'. playq_dequeue l = Some (0, n, l') \<and> playq_rep N l' ns (nodeId n # fs)"
proof -
  obtain qs as where r: "linked l qs as" "distinct (map (cell_id l) (qs @ as))" "set (qs @ as) = N"
    "n # ns = map (\<lambda>a. pnode (cells l a)) (rev qs)" "fs = map (cell_id l) as"
    using assms(1) by (auto simp: playq_rep_def)
  from r(4) obtain a xs where q: "qs = xs @ [a]" by (cases qs rule: rev_cases) auto
  have n: "n = pnode (cells l a)" "ns = map (\<lambda>a. pnode (cells l a)) (rev xs)" using r(4) q by auto
  have "dl (cells l) (queuedNodes l) None qs None (queuedHead l)" using r(1) by (simp add: linked_def)
  from dl_end [OF this] have h: "queuedHead l = Some a" using q by simp
  have "playq_rep N (release_cell a (unlink_cell a l)) (map (\<lambda>a. pnode (cells l a)) (rev (xs @ []))) (cell_id l a # map (cell_id l) as)"
    by (rule remove_rep) (use r q unlink_keeps in auto)
  then show ?thesis using dequeue_unlink [OF r(1) h] by (simp add: n r(5) cell_id_def)
qed

lemma rep_dequeue_empty: "playq_rep N l [] fs \<Longrightarrow> playq_dequeue l = Some (-1, zero_node, l)"
  by (auto simp: playq_rep_def linked_def playq_dequeue_def)

lemma rep_enqueue:
  assumes "playq_rep N l ns (i # fs)"
  shows "\<exists>l'. playq_enqueue n l = Some (0, n\<lparr>nodeId := i\<rparr>, l') \<and> playq_rep N l' (ns @ [n\<lparr>nodeId := i\<rparr>]) fs"
proof -
  obtain qs a as where r: "linked l qs (a # as)" "distinct (map (cell_id l) (qs @ a # as))" "set (qs @ a # as) = N"
    "ns = map (\<lambda>a. pnode (cells l a)) (rev qs)" "fs = map (cell_id l) as" "i = cell_id l a"
    using assms(1) by (auto simp: playq_rep_def Cons_eq_map_conv)
  have d: "dl (cells l) (queuedNodes l) None qs None (queuedHead l)" "sl (cells l) (nxt (cells l a)) as"
    "availNodes l = Some a" "distinct (qs @ a # as)"
    using r(1) by (auto simp: linked_def)
  have st: "queuedNodes l = (if qs = [] then None else Some (hd qs))" using dl_start [OF d(1)] .
  obtain l' where l': "playq_enqueue n l = Some (0, n\<lparr>nodeId := i\<rparr>, l')"
    by (simp add: playq_enqueue_def d(3) Let_def r(6) cell_id_def at_cell_def at_ptr_def)
  have k: "cells l' b = (if b = a then \<lparr>nxt = queuedNodes l, prv = None, pnode = n\<lparr>nodeId := i\<rparr>\<rparr>
      else if queuedNodes l = Some b then (cells l b)\<lparr>prv := Some a\<rparr> else cells l b)" for b
    using l' d(4) st
    by (cases "cells l a"; cases "pnode (cells l a)"; cases n; cases qs)
      (auto simp: playq_enqueue_def d(3) Let_def r(6) cell_id_def at_cell_def at_ptr_def)
  have f: "availNodes l' = nxt (cells l a)" "queuedNodes l' = Some a" "queuedHead l' = (if qs = [] then Some a else queuedHead l)"
    using l' st by (auto simp: playq_enqueue_def d(3) Let_def r(6) cell_id_def at_cell_def at_ptr_def split: if_splits)
  have li: "linked l' (a # qs) as"
  proof (cases qs)
    case Nil
    have "cells l' = (cells l)(a := \<lparr>nxt = None, prv = None, pnode = n\<lparr>nodeId := i\<rparr>\<rparr>)"
      using k st Nil by (auto simp: fun_eq_iff)
    then show ?thesis using d f Nil by (simp add: linked_def)
  next
    case (Cons q qs')
    have "cells l' = (cells l)(a := \<lparr>nxt = Some q, prv = None, pnode = n\<lparr>nodeId := i\<rparr>\<rparr>, q := (cells l q)\<lparr>prv := Some a\<rparr>)"
      using k st Cons d(4) by (auto simp: fun_eq_iff)
    then show ?thesis using d f Cons by (auto simp: linked_def)
  qed
  have i: "cell_id l' b = cell_id l b" for b using k [of b] r(6) by (simp add: cell_id_def)
  have n: "pnode (cells l' b) = pnode (cells l b)" if "b \<in> set qs" for b using that d(4) k [of b] by auto
  have "playq_rep N l' (ns @ [n\<lparr>nodeId := i\<rparr>]) fs"
  proof (rule playq_repI [OF li])
    show "set ((a # qs) @ as) = N" using r(3) by auto
    show "distinct (map (cell_id l') ((a # qs) @ as))" using r(2) by (auto simp: i comp_def cong: map_cong)
    show "ns @ [n\<lparr>nodeId := i\<rparr>] = map (\<lambda>a. pnode (cells l' a)) (rev (a # qs))"
      using n k [of a] by (simp add: r(4))
    show "fs = map (cell_id l') as" by (simp add: r(5) i cong: map_cong)
  qed
  then show ?thesis using l' by blast
qed

lemma rep_enqueue_full: "playq_rep N l ns [] \<Longrightarrow> playq_enqueue n l = Some (-1, n, l)"
  by (auto simp: playq_rep_def linked_def playq_enqueue_def)

lemma rep_drain: "playq_rep N l ns fs \<Longrightarrow> \<exists>l'. playq_drain l = Some l' \<and> playq_rep N l' [] (rev (map nodeId ns) @ fs)"
proof (induction ns arbitrary: l fs)
  case Nil
  then show ?case using rep_dequeue_empty [OF Nil] by (subst playq_drain.simps) simp
next
  case (Cons n ns)
  obtain l1 where 1: "playq_dequeue l = Some (0, n, l1)" "playq_rep N l1 ns (nodeId n # fs)"
    using rep_dequeue [OF Cons.prems] by blast
  obtain l2 where "playq_drain l1 = Some l2" "playq_rep N l2 [] (rev (map nodeId ns) @ nodeId n # fs)"
    using Cons.IH [OF 1(2)] by blast
  then show ?case using 1(1) by (subst playq_drain.simps) simp
qed

lemma rep_head:
  assumes "playq_rep N l ns fs"
  shows "playq_getHead l = (case ns of [] \<Rightarrow> (-1, zero_node) | n # _ \<Rightarrow> (0, n))"
proof -
  obtain qs as where r: "linked l qs as" "ns = map (\<lambda>a. pnode (cells l a)) (rev qs)"
    using assms by (auto simp: playq_rep_def)
  have d: "dl (cells l) (queuedNodes l) None qs None (queuedHead l)" using r(1) by (simp add: linked_def)
  show ?thesis using dl_end [OF d] r(2) by (cases qs rule: rev_cases) (auto simp: playq_getHead_def)
qed

lemma rep_can:
  assumes "playq_rep N l ns fs"
  shows "playq_canEnqueue l = (fs \<noteq> [])"
proof -
  obtain as where "sl (cells l) (availNodes l) as" "fs = map (cell_id l) as"
    using assms by (auto simp: playq_rep_def linked_def)
  then show ?thesis by (cases as) (auto simp: playq_canEnqueue_def)
qed

interpretation pointer_queue: play_queue playq "playq_rep N" for N
proof (unfold_locales, goal_cases)
  case (1 q ns fs)
  then obtain qs as where "distinct (map (cell_id q) (qs @ as))" "ns = map (\<lambda>a. pnode (cells q a)) (rev qs)" "fs = map (cell_id q) as"
    by (auto simp: playq_rep_def)
  moreover have "map nodeId (map (\<lambda>a. pnode (cells q a)) (rev qs)) = rev (map (cell_id q) qs)"
    by (simp add: cell_id_def rev_map)
  ultimately show ?case by auto
qed (use rep_enqueue rep_enqueue_full rep_dequeue rep_dequeue_empty rep_missing rep_remove rep_drain rep_head rep_can
     in \<open>simp_all add: playq_def\<close>)

section \<open>Programs over the queue\<close>

text \<open>The operations as a program sees them, on the pointer structure and on a list with a pool of numbers.\<close>

datatype pq_op = Op_enqueue playnode | Op_dequeue | Op_remove playnode | Op_drain | Op_getHead | Op_get playnode | Op_canEnqueue

datatype pq_result = Node int playnode | Done | Can bool

definition exec_op :: "'q playqueue \<Rightarrow> pq_op \<Rightarrow> 'q \<Rightarrow> (pq_result \<times> 'q) option" where
  "exec_op pq x q = (case x of
       Op_enqueue n \<Rightarrow> map_option (\<lambda>(e, n, q). (Node e n, q)) (Enqueue pq n q)
     | Op_dequeue \<Rightarrow> map_option (\<lambda>(e, n, q). (Node e n, q)) (Dequeue pq q)
     | Op_remove n \<Rightarrow> map_option (\<lambda>(e, n, q). (Node e n, q)) (Remove pq n q)
     | Op_drain \<Rightarrow> map_option (\<lambda>q. (Done, q)) (Drain pq q)
     | Op_getHead \<Rightarrow> Some (case GetHead pq q of (e, n) \<Rightarrow> Node e n, q)
     | Op_get n \<Rightarrow> map_option (\<lambda>(e, n). (Node e n, q)) (Get pq n q)
     | Op_canEnqueue \<Rightarrow> Some (Can (CanEnqueue pq q), q))"

fun exec_ops :: "'q playqueue \<Rightarrow> pq_op list \<Rightarrow> 'q \<Rightarrow> (pq_result list \<times> 'q) option" where
  "exec_ops pq [] q = Some ([], q)"
| "exec_ops pq (x # xs) q = do {
     (r, q) \<leftarrow> exec_op pq x q;
     (rs, q) \<leftarrow> exec_ops pq xs q;
     Some (r # rs, q) }"

definition with_id :: "u32 \<Rightarrow> playnode list \<Rightarrow> playnode option" where
  "with_id i ns = List.find (\<lambda>m. nodeId m = i) ns"

definition spec_op :: "pq_op \<Rightarrow> playnode list \<times> u32 list \<Rightarrow> pq_result \<times> playnode list \<times> u32 list" where
  "spec_op x = (\<lambda>(ns, fs). case x of
       Op_enqueue n \<Rightarrow> (case fs of [] \<Rightarrow> (Node (-1) n, ns, fs) | i # fs \<Rightarrow> (Node 0 (n\<lparr>nodeId := i\<rparr>), ns @ [n\<lparr>nodeId := i\<rparr>], fs))
     | Op_dequeue \<Rightarrow> (case ns of [] \<Rightarrow> (Node (-1) zero_node, ns, fs) | n # ns \<Rightarrow> (Node 0 n, ns, nodeId n # fs))
     | Op_remove n \<Rightarrow> (case with_id (nodeId n) ns of None \<Rightarrow> (Node (-1) n, ns, fs)
         | Some m \<Rightarrow> (Node 0 m, remove1 m ns, nodeId m # fs))
     | Op_drain \<Rightarrow> (Done, [], rev (map nodeId ns) @ fs)
     | Op_getHead \<Rightarrow> (case ns of [] \<Rightarrow> Node (-1) zero_node | n # _ \<Rightarrow> Node 0 n, ns, fs)
     | Op_get n \<Rightarrow> (case with_id (nodeId n) ns of None \<Rightarrow> Node (-1) zero_node | Some m \<Rightarrow> Node 0 m, ns, fs)
     | Op_canEnqueue \<Rightarrow> (Can (fs \<noteq> []), ns, fs))"

fun spec_ops :: "pq_op list \<Rightarrow> playnode list \<times> u32 list \<Rightarrow> pq_result list \<times> playnode list \<times> u32 list" where
  "spec_ops [] s = ([], s)"
| "spec_ops (x # xs) s = (let (r, s) = spec_op x s; (rs, s) = spec_ops xs s in (r # rs, s))"

lemma with_id_cases:
  assumes "distinct (map nodeId ns)"
  obtains (missing) "with_id i ns = None" "i \<notin> nodeId ` set ns"
  | (found) xs m ys where "ns = xs @ m # ys" "nodeId m = i" "with_id i ns = Some m" "remove1 m ns = xs @ ys"
proof (cases "with_id i ns")
  case None
  then show thesis by (intro missing) (auto simp: with_id_def find_None_iff)
next
  case (Some m)
  then have m: "m \<in> set ns" "nodeId m = i" by (auto simp: with_id_def find_Some_iff)
  then obtain xs ys where n: "ns = xs @ m # ys" by (auto simp: in_set_conv_decomp)
  then have "m \<notin> set xs" using assms by auto
  then show thesis using found [OF n m(2) Some] n by (simp add: remove1_append)
qed

context play_queue
begin

lemma op_refines:
  assumes "rep q ns fs"
  shows "\<exists>q'. exec_op pq x q = Some (fst (spec_op x (ns, fs)), q') \<and> rep q' (fst (snd (spec_op x (ns, fs)))) (snd (snd (spec_op x (ns, fs))))"
proof -
  have ids: "distinct (map nodeId ns)" using distinct_ids [OF assms] by simp
  show ?thesis
  proof (cases x)
  case (Op_enqueue n)
  then show ?thesis using assms enqueue_full [of q ns n] enqueue_ok [of q ns "hd fs" "tl fs" n]
    by (cases fs) (auto simp: exec_op_def spec_op_def)
next
  case Op_dequeue
  then show ?thesis using assms dequeue_empty [of q fs] dequeue_ok [of q "hd ns" "tl ns" fs]
    by (cases ns) (auto simp: exec_op_def spec_op_def)
next
  case (Op_remove n)
  show ?thesis
  proof (rule with_id_cases [OF ids, of "nodeId n"])
    assume m: "with_id (nodeId n) ns = None" "nodeId n \<notin> nodeId ` set ns"
    show ?thesis using remove_missing [OF assms m(2)] m(1) assms Op_remove by (simp add: exec_op_def spec_op_def)
  next
    fix xs m ys assume "ns = xs @ m # ys" "nodeId m = nodeId n" "with_id (nodeId n) ns = Some m" "remove1 m ns = xs @ ys"
    then show ?thesis using remove_ok [of q xs m ys fs n] assms Op_remove by (auto simp: exec_op_def spec_op_def)
  qed
next
  case Op_drain
  then show ?thesis using drain_ok [OF assms] by (auto simp: exec_op_def spec_op_def)
next
  case Op_getHead
  then show ?thesis using head_ok [OF assms] assms by (auto simp: exec_op_def spec_op_def split: list.splits)
next
  case (Op_get n)
  show ?thesis
  proof (rule with_id_cases [OF ids, of "nodeId n"])
    assume m: "with_id (nodeId n) ns = None" "nodeId n \<notin> nodeId ` set ns"
    show ?thesis using get_missing [OF assms m(2)] m(1) assms Op_get by (simp add: exec_op_def spec_op_def)
  next
    fix xs m ys assume "ns = xs @ m # ys" "nodeId m = nodeId n" "with_id (nodeId n) ns = Some m" "remove1 m ns = xs @ ys"
    then show ?thesis using get_ok [of q xs m ys fs n] assms Op_get by (auto simp: exec_op_def spec_op_def)
  qed
next
  case Op_canEnqueue
  then show ?thesis using can_ok [OF assms] assms by (simp add: exec_op_def spec_op_def)
  qed
qed

lemma ops_refine:
  assumes "rep q ns fs"
  shows "\<exists>q'. exec_ops pq xs q = Some (fst (spec_ops xs (ns, fs)), q') \<and>
    rep q' (fst (snd (spec_ops xs (ns, fs)))) (snd (snd (spec_ops xs (ns, fs))))"
  using assms
proof (induction xs arbitrary: q ns fs)
  case (Cons x xs)
  obtain r ns1 fs1 where 1: "spec_op x (ns, fs) = (r, ns1, fs1)" by (cases "spec_op x (ns, fs)")
  obtain q1 where q1: "exec_op pq x q = Some (r, q1)" "rep q1 ns1 fs1" using op_refines [OF Cons.prems, of x] 1 by auto
  obtain rs ns2 fs2 where 2: "spec_ops xs (ns1, fs1) = (rs, ns2, fs2)" by (cases "spec_ops xs (ns1, fs1)")
  obtain q2 where "exec_ops pq xs q1 = Some (rs, q2)" "rep q2 ns2 fs2" using Cons.IH [OF q1(2)] 2 by auto
  then show ?case using q1(1) 1 2 by simp
qed simp

end

section \<open>Creation and destruction\<close>

lemma add_cells_append: "add_cells calloc ids (xs @ ys) l = add_cells calloc ids xs l \<bind> add_cells calloc ids ys"
  by (induction xs arbitrary: l) (auto split: bind_splits)

lemma cells_added:
  assumes "\<forall>k. calloc k" "n \<le> length ids"
  shows "\<exists>l. add_cells calloc ids [0..<n] empty_lists = Some l \<and> queuedNodes l = None \<and> queuedHead l = None \<and>
    sl (cells l) (availNodes l) (rev [0..<n]) \<and> (\<forall>i < n. cell_id l i = ids ! i)"
  using assms(2)
proof (induction n)
  case 0
  then show ?case by (simp add: empty_lists_def)
next
  case (Suc n)
  then obtain l where l: "add_cells calloc ids [0..<n] empty_lists = Some l" "queuedNodes l = None" "queuedHead l = None"
    "sl (cells l) (availNodes l) (rev [0..<n])" "\<forall>i < n. cell_id l i = ids ! i" by auto
  obtain l' where l': "add_cell calloc ids n l = Some l'" using assms(1) Suc.prems by (simp add: add_cell_def)
  then have "sl (cells l') (availNodes l') (n # rev [0..<n])" "queuedNodes l' = None" "queuedHead l' = None"
    "\<forall>i < Suc n. cell_id l' i = ids ! i"
    using l(2-5) Suc.prems assms(1) by (auto simp: add_cell_def cell_id_def less_Suc_eq fresh_cell_def)
  then show ?case using l(1) l' by (simp add: add_cells_append)
qed

lemma created:
  assumes "\<forall>k. calloc k" "n \<le> MAX_PLAYQ_BUFFERS" "n \<le> length ids" "distinct (take n ids)"
  shows "\<exists>q. playq_createPlayQueue calloc ids n = Some (Some q) \<and> playq_rep {0..<n} q [] (rev (take n ids))"
proof -
  obtain l where l: "add_cells calloc ids [0..<n] empty_lists = Some l" "queuedNodes l = None" "queuedHead l = None"
    "sl (cells l) (availNodes l) (rev [0..<n])" "\<forall>i < n. cell_id l i = ids ! i"
    using cells_added [OF assms(1,3)] by blast
  have m: "map (cell_id l) [0..<n] = take n ids" using l(5) assms(3) by (intro nth_equalityI) auto
  then have m': "map (cell_id l) (rev [0..<n]) = rev (take n ids)" by (simp only: rev_map [symmetric])
  have "playq_rep {0..<n} l [] (rev (take n ids))"
  proof (rule playq_repI)
    show "linked l [] (rev [0..<n])" using l(2-4) by (simp add: linked_def)
    show "distinct (map (cell_id l) ([] @ rev [0..<n]))" using assms(4) m' by simp
    show "rev (take n ids) = map (cell_id l) (rev [0..<n])" using m' by simp
  qed auto
  then show ?thesis using l(1) assms(1,2) by (simp add: playq_createPlayQueue_def)
qed

lemma free_sl: "sl h p as \<Longrightarrow> free_cells h p = Some as"
proof (induction as arbitrary: p)
  case (Cons a as)
  then show ?case by (subst free_cells.simps) auto
qed (simp add: free_cells.simps)

lemma destroyed:
  assumes "playq_rep N q ns fs"
  shows "\<exists>as. playq_destroyPlayQueue q = Some as \<and> distinct as \<and> set as = N"
proof -
  obtain l fs' where l: "playq_drain q = Some l" "playq_rep N l [] fs'" using rep_drain [OF assms] by blast
  then obtain as where "linked l [] as" "set as = N" by (auto simp: playq_rep_def)
  then show ?thesis using l(1) free_sl [of "cells l" "availNodes l" as] by (auto simp: playq_destroyPlayQueue_def linked_def)
qed

section \<open>Guarantees\<close>

text \<open>C18: the linked structure is a first-in first-out queue with a pool of numbers: whatever sequence of operations
  a program runs on a new queue, each answers what the list answers, and none follows a null pointer, fails an assertion
  or loops.\<close>

theorem playq_refines_list:
  assumes "\<forall>k. calloc k" "n \<le> MAX_PLAYQ_BUFFERS" "n \<le> length ids" "distinct (take n ids)"
  shows "\<exists>q q'. playq_createPlayQueue calloc ids n = Some (Some q) \<and>
    exec_ops playq xs q = Some (fst (spec_ops xs ([], rev (take n ids))), q')"
proof -
  obtain q where q: "playq_createPlayQueue calloc ids n = Some (Some q)" "playq_rep {0..<n} q [] (rev (take n ids))"
    using created [OF assms] by blast
  then show ?thesis using pointer_queue.ops_refine [OF q(2), of xs] by blast
qed

theorem playq_refines_list_witness:
  "\<exists>q q'. playq_createPlayQueue (\<lambda>_. True) [7, 9] 2 = Some (Some q) \<and>
    exec_ops playq [Op_enqueue zero_node, Op_enqueue zero_node, Op_canEnqueue, Op_remove (zero_node\<lparr>nodeId := 7\<rparr>), Op_dequeue] q =
      Some ([Node 0 (zero_node\<lparr>nodeId := 9\<rparr>), Node 0 (zero_node\<lparr>nodeId := 7\<rparr>), Can False, Node 0 (zero_node\<lparr>nodeId := 7\<rparr>), Node 0 (zero_node\<lparr>nodeId := 9\<rparr>)], q')"
  using playq_refines_list [of "\<lambda>_. True" 2 "[7, 9]"
    "[Op_enqueue zero_node, Op_enqueue zero_node, Op_canEnqueue, Op_remove (zero_node\<lparr>nodeId := 7\<rparr>), Op_dequeue]"]
  by (simp add: MAX_PLAYQ_BUFFERS_def spec_op_def with_id_def zero_node_def del: exec_ops.simps)

text \<open>C40: destroying a queue after any use terminates and hands back each of its cells exactly once.\<close>

theorem playq_destroy_frees_once:
  assumes "\<forall>k. calloc k" "n \<le> MAX_PLAYQ_BUFFERS" "n \<le> length ids" "distinct (take n ids)"
    "playq_createPlayQueue calloc ids n = Some (Some q)" "exec_ops playq xs q = Some (rs, q')"
  shows "\<exists>as. playq_destroyPlayQueue q' = Some as \<and> distinct as \<and> set as = {0..<n}"
proof -
  have "playq_rep {0..<n} q [] (rev (take n ids))" using created [OF assms(1-4)] assms(5) by auto
  from pointer_queue.ops_refine [OF this, of xs] assms(6) show ?thesis using destroyed by force
qed

theorem playq_destroy_frees_once_witness:
  "\<exists>q rs q' as. playq_createPlayQueue (\<lambda>_. True) [7, 9] 2 = Some (Some q) \<and>
    exec_ops playq [Op_enqueue zero_node] q = Some (rs, q') \<and>
    playq_destroyPlayQueue q' = Some as \<and> distinct as \<and> set as = {0..<2}"
proof -
  obtain q where q: "playq_createPlayQueue (\<lambda>_. True) [7, 9] 2 = Some (Some q)" "playq_rep {0..<2} q [] (rev (take 2 [7, 9]))"
    using created [of "\<lambda>_. True" 2 "[7, 9]"] by (auto simp: MAX_PLAYQ_BUFFERS_def)
  obtain rs q' where x: "exec_ops playq [Op_enqueue zero_node] q = Some (rs, q')"
    using pointer_queue.ops_refine [OF q(2), of "[Op_enqueue zero_node]"] by blast
  show ?thesis using playq_destroy_frees_once [OF _ _ _ _ q(1) x] q(1) x by (auto simp: MAX_PLAYQ_BUFFERS_def)
qed

end
