(* ===== verification/A2_OpenAL.thy ===== *)
theory A2_OpenAL
  imports A2_PlayQueue
begin

text \<open>
  A streaming voice of the OpenAL backend (\<^verbatim>\<open>audio/soundcore-openal.c\<close>): a working buffer that the
  emulator fills between \<open>Lock\<close> and \<open>Unlock\<close>, and the play queue of the buffers OpenAL has.

  OpenAL is a parameter: \<open>answer\<close> gives, from the calls so far, the value of the next call, or \<open>None\<close>
  for an error reported by \<^verbatim>\<open>alGetError\<close>.  The calls made are recorded in the voice.  The operations use the
  queue through its function pointers only, so their lemmas are lemmas of the locale \<open>play_queue\<close>.
\<close>

section \<open>State\<close>

datatype al_call =
    Buffers_processed
  | Source_unqueue
  | Byte_offset
  | Buffer_data u32 "byte list"
  | Source_queue u32
  | Source_state
  | Source_play

record al_lib =
  answer :: "al_call list \<Rightarrow> al_call \<Rightarrow> int option"
  AL_PLAYING :: int
  AL_PAUSED :: int

record 'q voice =
  vplayq :: 'q
  queued_total_bytes :: int
  data :: "byte list"
  index :: int
  buffersize :: int
  al_calls :: "al_call list"

definition al :: "al_lib \<Rightarrow> al_call \<Rightarrow> 'q voice \<Rightarrow> int option \<times> 'q voice" where
  "al lib c v = (answer lib (al_calls v) c, v\<lparr>al_calls := al_calls v @ [c]\<rparr>)"

definition INVALID_NODE_ID :: u32 where "INVALID_NODE_ID = 0x80000000"
definition OPENAL_NUM_BUFFERS :: nat where "OPENAL_NUM_BUFFERS = 4"

section \<open>The buffers OpenAL is done with\<close>

definition playq_removeNode :: "'q playqueue \<Rightarrow> playnode \<Rightarrow> 'q voice \<Rightarrow> 'q voice option" where
  "playq_removeNode pq node v = do {
     (err, node, q) \<leftarrow> Remove pq node (vplayq v);
     let total = queued_total_bytes v - numBytes node;
     c_assert (err = 0 \<and> 0 \<le> total) (v\<lparr>vplayq := q, queued_total_bytes := total\<rparr>) }"

fun unqueue_loop :: "'q playqueue \<Rightarrow> al_lib \<Rightarrow> nat \<Rightarrow> 'q voice \<Rightarrow> 'q voice option" where
  "unqueue_loop pq lib 0 v = Some v"
| "unqueue_loop pq lib (Suc processed) v =
    (case al lib Source_unqueue v of
       (None, v) \<Rightarrow> Some v
     | (Some bufid, v) \<Rightarrow> do {
         (err, node) \<leftarrow> Get pq (zero_node\<lparr>nodeId := word_of_int bufid\<rparr>) (vplayq v);
         v \<leftarrow> (if err \<noteq> 0 then Some v else playq_removeNode pq node v);
         unqueue_loop pq lib processed v })"

text \<open>The result is the bytes queued, or \<open>None\<close> for an error.\<close>

definition ALProcessPlayBuffers :: "'q playqueue \<Rightarrow> al_lib \<Rightarrow> 'q voice \<Rightarrow> (int option \<times> 'q voice) option" where
  "ALProcessPlayBuffers pq lib v =
    (case al lib Buffers_processed v of
       (None, v) \<Rightarrow> Some (None, v)
     | (Some processed, v) \<Rightarrow> do {
         v \<leftarrow> unqueue_loop pq lib (nat processed) v;
         case al lib Byte_offset v of
           (None, v) \<Rightarrow> Some (None, v)
         | (Some play_offset, v) \<Rightarrow>
             let q = queued_total_bytes v - play_offset
             in c_assert (0 \<le> play_offset) (Some (if 0 \<le> q then q else 0), v) })"

section \<open>The interface of a sound buffer\<close>

text \<open>The error of the inner function is assigned to a variable that shadows the one returned.\<close>

definition ALGetPosition :: "'q playqueue \<Rightarrow> al_lib \<Rightarrow> 'q voice \<Rightarrow> (int \<times> int \<times> 'q voice) option" where
  "ALGetPosition pq lib v = do {
     (queued, v) \<leftarrow> ALProcessPlayBuffers pq lib v;
     Some (0, case queued of Some q \<Rightarrow> q + index v | None \<Rightarrow> 0, v) }"

definition quiet_samples :: "'q voice \<Rightarrow> 'q voice" where
  "quiet_samples v =
    (let quiet_size = buffersize v div 4
     in v\<lparr>data := replicate (nat quiet_size) 0 @ drop (nat quiet_size) (data v), index := index v + quiet_size\<rparr>)"

text \<open>The result is where to write and how many bytes; the comparison of an unsigned with a signed number is done
  unsigned.\<close>

definition ALLockBuffer :: "'q playqueue \<Rightarrow> al_lib \<Rightarrow> nat \<Rightarrow> 'q voice \<Rightarrow> ((int \<times> nat) option \<times> 'q voice) option" where
  "ALLockBuffer pq lib write_bytes v =
    (let write_bytes = (if write_bytes = 0 then nat (buffersize v) else write_bytes) in do {
       (queued, v) \<leftarrow> ALProcessPlayBuffers pq lib v;
       case queued of None \<Rightarrow> Some (None, v)
       | Some bytes_queued \<Rightarrow>
           (let v = (if bytes_queued = 0 \<and> index v = 0 then quiet_samples v else v);
                remaining = nat ((buffersize v - index v) mod 2 ^ 64);
                write_bytes = (if write_bytes > remaining then remaining else write_bytes)
            in Some (Some (index v, write_bytes), v)) })"

text \<open>The emulator's copy to the address it was given.\<close>

definition copy_samples :: "int \<Rightarrow> byte list \<Rightarrow> 'q voice \<Rightarrow> 'q voice option" where
  "copy_samples at bs v =
    (if at < 0 \<or> length (data v) < nat at + length bs then None
     else Some (v\<lparr>data := take (nat at) (data v) @ bs @ drop (nat at + length bs) (data v)\<rparr>))"

definition ALSubmitBufferToOpenAL :: "'q playqueue \<Rightarrow> al_lib \<Rightarrow> 'q voice \<Rightarrow> (bool \<times> 'q voice) option" where
  "ALSubmitBufferToOpenAL pq lib v = do {
     (err, node, q) \<leftarrow> Enqueue pq \<lparr>nodeId = INVALID_NODE_ID, numBytes = index v, bytes = Some 0\<rparr> (vplayq v);
     let v = v\<lparr>vplayq := q\<rparr>;
     if err \<noteq> 0 then Some (False, v)
     else do {
       let v = v\<lparr>queued_total_bytes := queued_total_bytes v + index v, index := 0\<rparr>;
       v \<leftarrow> c_assert (0 < queued_total_bytes v) v;
       case al lib (Buffer_data (nodeId node) (take (nat (numBytes node)) (data v))) v of
         (None, v) \<Rightarrow> map_option (Pair False) (playq_removeNode pq node v)
       | (Some _, v) \<Rightarrow>
           (case al lib (Source_queue (nodeId node)) v of
              (None, v) \<Rightarrow> map_option (Pair False) (playq_removeNode pq node v)
            | (Some _, v) \<Rightarrow>
                (case al lib Source_state v of
                   (None, v) \<Rightarrow> Some (False, v)
                 | (Some state, v) \<Rightarrow>
                     if state \<noteq> AL_PLAYING lib \<and> state \<noteq> AL_PAUSED lib then
                       (case al lib Source_play v of (r, v) \<Rightarrow> Some (r \<noteq> None, v))
                     else Some (True, v))) } }"

definition ALUnlockBuffer :: "'q playqueue \<Rightarrow> al_lib \<Rightarrow> nat \<Rightarrow> 'q voice \<Rightarrow> (bool \<times> 'q voice) option" where
  "ALUnlockBuffer pq lib audio_bytes v = do {
     (queued, v) \<leftarrow> ALProcessPlayBuffers pq lib v;
     case queued of None \<Rightarrow> Some (False, v)
     | Some bytes_queued \<Rightarrow> do {
         let v = v\<lparr>index := index v + int audio_bytes\<rparr>;
         v \<leftarrow> c_assert (buffersize v \<le> index v \<longrightarrow> index v = buffersize v) v;
         if buffersize v div 4 \<le> bytes_queued then Some (True, v)
         else if \<not> CanEnqueue pq (vplayq v) then Some (True, v)
         else ALSubmitBufferToOpenAL pq lib v } }"

text \<open>The status is whether the source plays; \<open>None\<close> is an error.\<close>

definition ALGetStatus :: "al_lib \<Rightarrow> 'q voice \<Rightarrow> bool option \<times> 'q voice" where
  "ALGetStatus lib v = (case al lib Source_state v of
       (None, v) \<Rightarrow> (None, v)
     | (Some state, v) \<Rightarrow> (Some (state = AL_PLAYING lib \<or> state = AL_PAUSED lib), v))"

text \<open>A voice for buffers \<open>bufs\<close>: the emulator has two channels of 16 bits.\<close>

definition createVoice :: "(nat \<Rightarrow> bool) \<Rightarrow> u32 list \<Rightarrow> nat \<Rightarrow> nat \<Rightarrow> nat \<Rightarrow> pqlist voice option option" where
  "createVoice calloc bufs numChannels monoBufferSizeSamples bytesPerSample =
    (case playq_createPlayQueue calloc bufs OPENAL_NUM_BUFFERS of
       None \<Rightarrow> None
     | Some None \<Rightarrow> Some None
     | Some (Some q) \<Rightarrow>
         if numChannels \<noteq> 1 \<and> numChannels \<noteq> 2 then None
         else
           (let size = monoBufferSizeSamples * numChannels * bytesPerSample
            in Some (Some \<lparr>vplayq = q, queued_total_bytes = 0, data = replicate size 0, index = 0, buffersize = int size, al_calls = []\<rparr>)))"

text \<open>A block of samples as a device hands it over (\<open>MB_Update\<close>): lock, copy what fits, unlock.  The result is the
  number of bytes taken.\<close>

definition submit_block :: "'q playqueue \<Rightarrow> al_lib \<Rightarrow> byte list \<Rightarrow> 'q voice \<Rightarrow> (nat \<times> 'q voice) option" where
  "submit_block pq lib bs v = do {
     (locked, v) \<leftarrow> ALLockBuffer pq lib (length bs) v;
     case locked of None \<Rightarrow> Some (0, v)
     | Some (at, n) \<Rightarrow> do {
         v \<leftarrow> copy_samples at (take n bs) v;
         (_, v) \<leftarrow> ALUnlockBuffer pq lib n v;
         Some (n, v) } }"

section \<open>Well-formed voices\<close>

text \<open>The byte count is that of the queued nodes; sizes are those of whole 16 bit samples.\<close>

definition voice_ok :: "('q \<Rightarrow> playnode list \<Rightarrow> u32 list \<Rightarrow> bool) \<Rightarrow> 'q voice \<Rightarrow> bool" where
  "voice_ok rep v \<longleftrightarrow> (\<exists>ns fs. rep (vplayq v) ns fs \<and> length ns + length fs = OPENAL_NUM_BUFFERS \<and>
       queued_total_bytes v = sum_list (map numBytes ns) \<and> (\<forall>n \<in> set ns. 0 \<le> numBytes n \<and> numBytes n \<le> buffersize v)) \<and>
     0 \<le> index v \<and> index v \<le> buffersize v \<and> even (index v) \<and> 0 < buffersize v \<and> buffersize v < 2 ^ 31 \<and> 8 dvd buffersize v \<and>
     length (data v) = nat (buffersize v)"

definition offsets_ok :: "al_lib \<Rightarrow> bool" where
  "offsets_ok lib \<longleftrightarrow> (\<forall>h i. answer lib h Byte_offset = Some i \<longrightarrow> 0 \<le> i)"

definition no_errors :: "al_lib \<Rightarrow> bool" where
  "no_errors lib \<longleftrightarrow> (\<forall>h c. answer lib h c \<noteq> None)"

text \<open>The bytes handed to OpenAL, and all that were accepted.\<close>

definition sent :: "al_call list \<Rightarrow> byte list" where
  "sent cs = concat (map (\<lambda>c. case c of Buffer_data _ bs \<Rightarrow> bs | _ \<Rightarrow> []) cs)"

definition stream :: "'q voice \<Rightarrow> byte list" where
  "stream v = sent (al_calls v) @ take (nat (index v)) (data v)"

definition same_work :: "'q voice \<Rightarrow> 'q voice \<Rightarrow> bool" where
  "same_work v w \<longleftrightarrow> index w = index v \<and> data w = data v \<and> buffersize w = buffersize v \<and> sent (al_calls w) = sent (al_calls v)"

lemma sent_append [simp]: "sent (xs @ ys) = sent xs @ sent ys"
  by (simp add: sent_def)

lemma sent_simps [simp]:
  "sent [] = []" "sent (c # cs) = (case c of Buffer_data _ bs \<Rightarrow> bs | _ \<Rightarrow> []) @ sent cs"
  by (simp_all add: sent_def)

lemma same_work_refl [simp]: "same_work v v"
  by (simp add: same_work_def)

lemma same_work_trans: "same_work u v \<Longrightarrow> same_work v w \<Longrightarrow> same_work u w"
  by (simp add: same_work_def)

lemma same_stream: "same_work v w \<Longrightarrow> stream w = stream v"
  by (simp add: same_work_def stream_def)

lemma al_ok: "al lib c v = (answer lib (al_calls v) c, v\<lparr>al_calls := al_calls v @ [c]\<rparr>)"
  by (simp add: al_def)

lemma voice_ok_calls [simp]: "voice_ok rep (v\<lparr>al_calls := cs\<rparr>) = voice_ok rep v"
  by (simp add: voice_ok_def)

lemma sum_list_bounds:
  fixes b :: int
  assumes "\<forall>n \<in> set ns. 0 \<le> f n \<and> f n \<le> b"
  shows "0 \<le> sum_list (map f ns) \<and> sum_list (map f ns) \<le> int (length ns) * b"
  using assms by (induction ns) (auto simp: algebra_simps)

context play_queue
begin

lemma remove_node_ok:
  assumes "voice_ok rep v" "Get pq n (vplayq v) = Some (0, m)"
  shows "\<exists>w. playq_removeNode pq m v = Some w \<and> voice_ok rep w \<and> same_work v w"
proof -
  obtain ns fs where r: "rep (vplayq v) ns fs" "length ns + length fs = OPENAL_NUM_BUFFERS"
    "queued_total_bytes v = sum_list (map numBytes ns)" "\<forall>n \<in> set ns. 0 \<le> numBytes n \<and> numBytes n \<le> buffersize v"
    using assms(1) by (auto simp: voice_ok_def)
  have "nodeId n \<in> nodeId ` set ns" using get_missing [OF r(1), of n] assms(2) by force
  then obtain xs k ys where ns: "ns = xs @ k # ys" "nodeId k = nodeId n" by (force simp: in_set_conv_decomp)
  have m: "m = k" using get_ok [of "vplayq v" xs k ys fs n] r(1) ns assms(2) by simp
  obtain q where q: "Remove pq m (vplayq v) = Some (0, m, q)" "rep q (xs @ ys) (nodeId m # fs)"
    using remove_ok [of "vplayq v" xs k ys fs m] r(1) ns m by auto
  have t: "queued_total_bytes v - numBytes m = sum_list (map numBytes (xs @ ys))" using r(3) ns m by simp
  have "0 \<le> sum_list (map numBytes (xs @ ys))" using sum_list_bounds [of "xs @ ys" numBytes "buffersize v"] r(4) ns by auto
  with t q(1) have w: "playq_removeNode pq m v = Some (v\<lparr>vplayq := q, queued_total_bytes := sum_list (map numBytes (xs @ ys))\<rparr>)"
    by (simp add: playq_removeNode_def)
  have "voice_ok rep (v\<lparr>vplayq := q, queued_total_bytes := sum_list (map numBytes (xs @ ys))\<rparr>)"
    using assms(1) q(2) r(2,4) ns unfolding voice_ok_def by (auto intro!: exI [of _ "xs @ ys"] exI [of _ "nodeId m # fs"])
  then show ?thesis using w by (simp add: same_work_def)
qed

lemma unqueue_ok:
  "voice_ok rep v \<Longrightarrow> \<exists>w. unqueue_loop pq lib n v = Some w \<and> voice_ok rep w \<and> same_work v w"
proof (induction n arbitrary: v)
  case (Suc n)
  define v1 where "v1 = v\<lparr>al_calls := al_calls v @ [Source_unqueue]\<rparr>"
  have v1: "voice_ok rep v1" "same_work v v1" using Suc.prems by (simp_all add: v1_def same_work_def)
  show ?case
  proof (cases "answer lib (al_calls v) Source_unqueue")
    case None
    then show ?thesis using v1 by (auto simp: al_ok v1_def [symmetric])
  next
    case (Some b)
    let ?n = "zero_node\<lparr>nodeId := word_of_int b\<rparr>"
    obtain ns fs where r: "rep (vplayq v1) ns fs" using v1(1) by (auto simp: voice_ok_def)
    have "\<exists>e m w. Get pq ?n (vplayq v1) = Some (e, m) \<and> (if e \<noteq> 0 then Some v1 else playq_removeNode pq m v1) = Some w \<and>
      voice_ok rep w \<and> same_work v1 w"
    proof (cases "nodeId ?n \<in> nodeId ` set ns")
      case True
      then obtain xs k ys where ns: "ns = xs @ k # ys" "nodeId ?n = nodeId k" by (force simp: in_set_conv_decomp)
      have g: "Get pq ?n (vplayq v1) = Some (0, k)" using get_ok [of "vplayq v1" xs k ys fs ?n] r ns by simp
      from remove_node_ok [OF v1(1) this] g show ?thesis by auto
    next
      case False
      then show ?thesis using get_missing [OF r False] v1(1) by auto
    qed
    then obtain e m w where w: "Get pq ?n (vplayq v1) = Some (e, m)"
      "(if e \<noteq> 0 then Some v1 else playq_removeNode pq m v1) = Some w" "voice_ok rep w" "same_work v1 w" by blast
    obtain x where x: "unqueue_loop pq lib n w = Some x" "voice_ok rep x" "same_work w x" using Suc.IH [OF w(3)] by blast
    have "unqueue_loop pq lib (Suc n) v = Some x"
      using w(1,2) x(1) Some by (simp add: al_ok v1_def [symmetric] del: if_split)
    then show ?thesis using x(2,3) w(4) v1(2) same_work_trans by blast
  qed
qed auto

lemma process_ok:
  assumes "voice_ok rep v" "offsets_ok lib"
  shows "\<exists>q w. ALProcessPlayBuffers pq lib v = Some (q, w) \<and> voice_ok rep w \<and> same_work v w \<and>
    (\<forall>x. q = Some x \<longrightarrow> 0 \<le> x \<and> x \<le> 4 * buffersize v) \<and> (q = None \<longrightarrow> \<not> no_errors lib)"
proof -
  define v1 where "v1 = v\<lparr>al_calls := al_calls v @ [Buffers_processed]\<rparr>"
  have v1: "voice_ok rep v1" "same_work v v1" using assms(1) by (simp_all add: v1_def same_work_def)
  show ?thesis
  proof (cases "answer lib (al_calls v) Buffers_processed")
    case None
    then show ?thesis using v1 by (auto simp: ALProcessPlayBuffers_def al_ok v1_def [symmetric] no_errors_def)
  next
    case (Some p)
    obtain w where w: "unqueue_loop pq lib (nat p) v1 = Some w" "voice_ok rep w" "same_work v1 w" using unqueue_ok [OF v1(1)] by blast
    define x where "x = w\<lparr>al_calls := al_calls w @ [Byte_offset]\<rparr>"
    have x: "voice_ok rep x" "same_work v x" "queued_total_bytes x = queued_total_bytes w"
      using w(2,3) v1(2) by (simp_all add: x_def same_work_def)
    obtain ns fs where ns: "length ns + length fs = OPENAL_NUM_BUFFERS" "queued_total_bytes w = sum_list (map numBytes ns)"
      "\<forall>n \<in> set ns. 0 \<le> numBytes n \<and> numBytes n \<le> buffersize w" "rep (vplayq w) ns fs"
      using w(2) unfolding voice_ok_def by blast
    have pos: "0 < buffersize w" using w(2) by (simp add: voice_ok_def)
    have "int (length ns) * buffersize w \<le> 4 * buffersize w" using ns(1) pos by (simp add: OPENAL_NUM_BUFFERS_def)
    then have t: "0 \<le> queued_total_bytes w" "queued_total_bytes w \<le> 4 * buffersize w"
      using sum_list_bounds [OF ns(3)] ns(2) by simp_all
    have b: "buffersize w = buffersize v" using w(3) v1(2) by (simp add: same_work_def)
    show ?thesis
    proof (cases "answer lib (al_calls w) Byte_offset")
      case None
      then show ?thesis using Some w(1) x by (auto simp: ALProcessPlayBuffers_def al_ok v1_def [symmetric] x_def [symmetric] no_errors_def)
    next
      case (Some off)
      have "0 \<le> off" using assms(2) Some by (auto simp: offsets_ok_def)
      then have "ALProcessPlayBuffers pq lib v = Some (Some (if 0 \<le> queued_total_bytes w - off then queued_total_bytes w - off else 0), x)"
        using \<open>answer lib (al_calls v) Buffers_processed = Some p\<close> w(1) Some
        by (simp add: ALProcessPlayBuffers_def al_ok v1_def [symmetric] x_def [symmetric] Let_def x(3))
      then show ?thesis using x t b \<open>0 \<le> off\<close> by auto
    qed
  qed
qed

lemma quiet_ok:
  assumes "voice_ok rep w" "index w = 0"
  shows "voice_ok rep (quiet_samples w)" "stream (quiet_samples w) = stream w @ replicate (nat (buffersize w div 4)) 0"
proof -
  have b: "0 < buffersize w" "8 dvd buffersize w" "length (data w) = nat (buffersize w)" using assms(1) by (auto simp: voice_ok_def)
  then obtain c where c: "buffersize w = 8 * c" "0 < c" by (auto elim: dvdE)
  show "voice_ok rep (quiet_samples w)" using assms(1) b c
    by (simp add: voice_ok_def quiet_samples_def Let_def assms(2))
  show "stream (quiet_samples w) = stream w @ replicate (nat (buffersize w div 4)) 0"
    using c b(3) by (simp add: stream_def quiet_samples_def Let_def assms(2))
qed

text \<open>A lock: where it points, how much it grants, and the silence it may have put into an empty buffer.\<close>

lemma lock_ok:
  assumes "voice_ok rep v" "offsets_ok lib"
  shows "\<exists>r w k. ALLockBuffer pq lib n v = Some (r, w) \<and> voice_ok rep w \<and> buffersize w = buffersize v \<and>
    stream w = stream v @ replicate k 0 \<and> (k = 0 \<or> k = nat (buffersize v div 4)) \<and>
    (\<forall>at m. r = Some (at, m) \<longrightarrow> at = index w \<and> index w + int m \<le> buffersize w \<and> (0 < n \<longrightarrow> m \<le> n) \<and>
      (even n \<longrightarrow> even m) \<and> (0 < m \<or> 0 < index w)) \<and> (r = None \<longrightarrow> \<not> no_errors lib)"
proof -
  define n' where "n' = (if n = 0 then nat (buffersize v) else n)"
  obtain q w where w: "ALProcessPlayBuffers pq lib v = Some (q, w)" "voice_ok rep w" "same_work v w"
    "q = None \<Longrightarrow> \<not> no_errors lib"
    using process_ok [OF assms] by blast
  show ?thesis
  proof (cases q)
    case None
    then have "ALLockBuffer pq lib n v = Some (None, w)" using w(1) by (simp add: ALLockBuffer_def Let_def)
    then show ?thesis using w(2-4) same_stream [OF w(3)] None
      by (intro exI [of _ None] exI [of _ w] exI [of _ 0]) (simp add: same_work_def)
  next
    case (Some x)
    have b: "0 \<le> index w" "index w \<le> buffersize w" "even (index w)" "0 < buffersize w" "buffersize w < 2 ^ 31" "8 dvd buffersize w"
      "length (data w) = nat (buffersize w)" "buffersize w = buffersize v" "buffersize v = buffersize w"
      using w(2,3) by (auto simp: voice_ok_def same_work_def)
    define u where "u = (if x = 0 \<and> index w = 0 then quiet_samples w else w)"
    define k where "k = (if x = 0 \<and> index w = 0 then nat (buffersize v div 4) else 0)"
    have u: "voice_ok rep u" "buffersize u = buffersize v" "stream u = stream v @ replicate k 0"
      using w(2) quiet_ok [OF w(2)] same_stream [OF w(3)] b(8) by (auto simp: u_def k_def) (simp add: quiet_samples_def Let_def)
    have ui: "0 \<le> index u" "index u \<le> buffersize u" "even (index u)" "0 < buffersize u" "buffersize u < 2 ^ 31" "8 dvd buffersize u"
      using u(1) by (auto simp: voice_ok_def)
    define rem where "rem = nat ((buffersize u - index u) mod 2 ^ 64)"
    have rem: "int rem = buffersize u - index u" using ui by (simp add: rem_def)
    define m where "m = (if n' > rem then rem else n')"
    have l: "ALLockBuffer pq lib n v = Some (Some (index u, m), u)"
      using w(1) Some by (simp add: ALLockBuffer_def Let_def n'_def [symmetric] u_def [symmetric])
        (simp add: m_def rem_def)
    have e: "even rem"
    proof -
      have "even (buffersize u)" using ui(6) by (auto elim: dvdE)
      then have "even (int rem)" using rem ui(3) by simp
      then show ?thesis by simp
    qed
    have "even (nat (buffersize v))" using b(6,9) by (auto elim!: dvdE simp: nat_mult_distrib)
    then have "even n \<longrightarrow> even m" using e by (auto simp: m_def n'_def)
    moreover have "index u + int m \<le> buffersize u" using rem by (simp add: m_def)
    moreover have "0 < n \<longrightarrow> m \<le> n" by (simp add: m_def n'_def)
    moreover have "0 < m \<or> 0 < index u" using rem ui(1,4) b(4,8) by (auto simp: m_def n'_def)
    ultimately show ?thesis using l u
      by (intro exI [of _ "Some (index u, m)"] exI [of _ u] exI [of _ k]) (auto simp: k_def)
  qed
qed

text \<open>Handing the working buffer over keeps the stream: the bytes move from the buffer to OpenAL.\<close>

lemma handover_ok:
  assumes "voice_ok rep v" "0 < index v" "CanEnqueue pq (vplayq v)"
  shows "\<exists>b w. ALSubmitBufferToOpenAL pq lib v = Some (b, w) \<and> voice_ok rep w \<and> buffersize w = buffersize v \<and> stream w = stream v"
proof -
  obtain ns fs where r: "rep (vplayq v) ns fs" "length ns + length fs = OPENAL_NUM_BUFFERS"
    "queued_total_bytes v = sum_list (map numBytes ns)" "\<forall>n \<in> set ns. 0 \<le> numBytes n \<and> numBytes n \<le> buffersize v"
    using assms(1) by (auto simp: voice_ok_def)
  have i: "index v \<le> buffersize v" "length (data v) = nat (buffersize v)" using assms(1) by (auto simp: voice_ok_def)
  have "fs \<noteq> []" using can_ok [OF r(1)] assms(3) by simp
  then obtain f fs' where fs: "fs = f # fs'" by (cases fs) auto
  let ?n = "\<lparr>nodeId = f, numBytes = index v, bytes = Some 0\<rparr>"
  obtain q where q: "Enqueue pq \<lparr>nodeId = INVALID_NODE_ID, numBytes = index v, bytes = Some 0\<rparr> (vplayq v) = Some (0, ?n, q)"
    "rep q (ns @ [?n]) fs'"
    using enqueue_ok [of "vplayq v" ns f fs' "\<lparr>nodeId = INVALID_NODE_ID, numBytes = index v, bytes = Some 0\<rparr>"] r(1) fs by auto
  define cs where "cs = al_calls v @ [Buffer_data f (take (nat (index v)) (data v))]"
  define v1 where "v1 = v\<lparr>vplayq := q, queued_total_bytes := queued_total_bytes v + index v, index := 0, al_calls := cs\<rparr>"
  have v1: "voice_ok rep v1" using assms(1,2) q(2) r(2-4) i(1) fs
    unfolding voice_ok_def v1_def by (auto intro!: exI [of _ "ns @ [?n]"] exI [of _ fs'])
  have s: "stream (v1\<lparr>al_calls := cs @ ds\<rparr>) = stream v @ sent ds" for ds
    by (simp add: stream_def v1_def cs_def)
  have s1: "stream v1 = stream v" using s [of "[]"] by (simp add: v1_def)
  have t: "0 < queued_total_bytes v + index v"
    using sum_list_bounds [OF r(4)] r(3) assms(2) by simp
  have g: "Get pq ?n q = Some (0, ?n)" using get_ok [of q ns ?n "[]" fs' ?n] q(2) by simp
  have remove: "\<exists>w. playq_removeNode pq ?n (v1\<lparr>al_calls := cs @ ds\<rparr>) = Some w \<and> voice_ok rep w \<and>
      buffersize w = buffersize v \<and> stream w = stream v @ sent ds" for ds
  proof -
    have "voice_ok rep (v1\<lparr>al_calls := cs @ ds\<rparr>)" using v1 by simp
    moreover have "Get pq ?n (vplayq (v1\<lparr>al_calls := cs @ ds\<rparr>)) = Some (0, ?n)" using g by (simp add: v1_def)
    ultimately obtain w where "playq_removeNode pq ?n (v1\<lparr>al_calls := cs @ ds\<rparr>) = Some w" "voice_ok rep w"
      "same_work (v1\<lparr>al_calls := cs @ ds\<rparr>) w" using remove_node_ok by blast
    moreover have "buffersize w = buffersize v" using \<open>same_work _ w\<close> by (simp add: same_work_def v1_def)
    ultimately show ?thesis using same_stream [of "v1\<lparr>al_calls := cs @ ds\<rparr>" w] s [of ds] by auto
  qed
  define w1 where "w1 = v1\<lparr>al_calls := cs @ [Source_queue f]\<rparr>"
  define w2 where "w2 = v1\<lparr>al_calls := cs @ [Source_queue f, Source_state]\<rparr>"
  define w3 where "w3 = v1\<lparr>al_calls := cs @ [Source_queue f, Source_state, Source_play]\<rparr>"
  have keep: "voice_ok rep (v1\<lparr>al_calls := ds\<rparr>)" "buffersize (v1\<lparr>al_calls := ds\<rparr>) = buffersize v" for ds
    using v1 by simp_all (simp add: v1_def)
  have st: "stream w2 = stream v" "stream w3 = stream v" using s [of "[Source_queue f, Source_state]"]
      s [of "[Source_queue f, Source_state, Source_play]"] by (simp_all add: w2_def w3_def sent_def)
  have e: "ALSubmitBufferToOpenAL pq lib v =
    (if answer lib (al_calls v) (Buffer_data f (take (nat (index v)) (data v))) = None then map_option (Pair False) (playq_removeNode pq ?n v1)
     else if answer lib cs (Source_queue f) = None then map_option (Pair False) (playq_removeNode pq ?n w1)
     else case answer lib (cs @ [Source_queue f]) Source_state of None \<Rightarrow> Some (False, w2)
       | Some state \<Rightarrow> if state \<noteq> AL_PLAYING lib \<and> state \<noteq> AL_PAUSED lib
           then Some (answer lib (cs @ [Source_queue f, Source_state]) Source_play \<noteq> None, w3) else Some (True, w2))"
    using t unfolding ALSubmitBufferToOpenAL_def
    by (simp add: q(1) Let_def al_ok c_assert_def v1_def w1_def w2_def w3_def cs_def split: option.split)
  have "v1 = v1\<lparr>al_calls := cs @ []\<rparr>" by (simp add: v1_def)
  then obtain x where x: "playq_removeNode pq ?n v1 = Some x" "voice_ok rep x" "buffersize x = buffersize v" "stream x = stream v"
    using remove [of "[]"] by (auto simp: sent_def)
  obtain y where y: "playq_removeNode pq ?n w1 = Some y" "voice_ok rep y" "buffersize y = buffersize v" "stream y = stream v"
    using remove [of "[Source_queue f]"] by (auto simp: w1_def)
  show ?thesis unfolding e using x y keep st
    by (auto simp: w2_def w3_def split: option.split)
qed

lemma unlock_ok:
  assumes "voice_ok rep v" "offsets_ok lib" "index v + int n \<le> buffersize v" "even n" "0 < n \<or> 0 < index v"
  shows "\<exists>b w. ALUnlockBuffer pq lib n v = Some (b, w) \<and> voice_ok rep w \<and> buffersize w = buffersize v \<and>
    (no_errors lib \<longrightarrow> stream w = sent (al_calls v) @ take (nat (index v) + n) (data v))"
proof -
  obtain q w where w: "ALProcessPlayBuffers pq lib v = Some (q, w)" "voice_ok rep w" "same_work v w" "q = None \<Longrightarrow> \<not> no_errors lib"
    using process_ok [OF assms(1,2)] by blast
  show ?thesis
  proof (cases q)
    case None
    then show ?thesis using w same_stream [OF w(3)] by (auto simp: ALUnlockBuffer_def same_work_def)
  next
    case (Some x)
    define u where "u = w\<lparr>index := index w + int n\<rparr>"
    have "0 \<le> index v" using assms(1) by (simp add: voice_ok_def)
    then have u: "voice_ok rep u" "buffersize u = buffersize v" "0 < index u"
      "stream u = sent (al_calls v) @ take (nat (index v) + n) (data v)" "index u \<le> buffersize u"
      using w(2,3) assms(3-5) by (auto simp: u_def voice_ok_def same_work_def stream_def nat_add_distrib)
    have e: "ALUnlockBuffer pq lib n v =
      (if buffersize u div 4 \<le> x then Some (True, u) else if \<not> CanEnqueue pq (vplayq u) then Some (True, u)
       else ALSubmitBufferToOpenAL pq lib u)"
      using w(1) Some u(5) by (simp add: ALUnlockBuffer_def u_def c_assert_def)
    show ?thesis
    proof (cases "buffersize u div 4 \<le> x \<or> \<not> CanEnqueue pq (vplayq u)")
      case True
      then show ?thesis using u unfolding e by (intro exI [of _ True] exI [of _ u]) auto
    next
      case False
      then show ?thesis using handover_ok [OF u(1,3), of lib] u(2,4) unfolding e by auto
    qed
  qed
qed

lemma copy_ok:
  assumes "voice_ok rep v" "index v + int (length bs) \<le> buffersize v"
  shows "\<exists>w. copy_samples (index v) bs v = Some w \<and> voice_ok rep w \<and> buffersize w = buffersize v \<and> index w = index v \<and>
    sent (al_calls w) @ take (nat (index w) + length bs) (data w) = stream v @ bs"
proof -
  have v: "0 \<le> index v" "length (data v) = nat (buffersize v)" using assms(1) by (auto simp: voice_ok_def)
  then have l: "nat (index v) + length bs \<le> length (data v)" using assms(2) by linarith
  then have "copy_samples (index v) bs v = Some (v\<lparr>data := take (nat (index v)) (data v) @ bs @ drop (nat (index v) + length bs) (data v)\<rparr>)"
    using v(1) by (simp add: copy_samples_def)
  moreover have "voice_ok rep (v\<lparr>data := take (nat (index v)) (data v) @ bs @ drop (nat (index v) + length bs) (data v)\<rparr>)"
    using assms(1) l v(2) by (simp add: voice_ok_def)
  ultimately show ?thesis using l by (simp add: stream_def)
qed

lemma block_ok:
  assumes "voice_ok rep v" "offsets_ok lib" "even (length bs)" "bs \<noteq> []"
  shows "\<exists>n w. submit_block pq lib bs v = Some (n, w) \<and> voice_ok rep w \<and> buffersize w = buffersize v \<and> n \<le> length bs \<and> even n \<and>
    (no_errors lib \<longrightarrow> (\<exists>k. (k = 0 \<or> k = nat (buffersize v div 4)) \<and> stream w = stream v @ replicate k 0 @ take n bs))"
proof -
  obtain r v1 k where 1: "ALLockBuffer pq lib (length bs) v = Some (r, v1)" "voice_ok rep v1" "buffersize v1 = buffersize v"
    "stream v1 = stream v @ replicate k 0" "k = 0 \<or> k = nat (buffersize v div 4)"
    "\<And>at m. r = Some (at, m) \<Longrightarrow> at = index v1 \<and> index v1 + int m \<le> buffersize v1 \<and> (0 < length bs \<longrightarrow> m \<le> length bs) \<and>
      (even (length bs) \<longrightarrow> even m) \<and> (0 < m \<or> 0 < index v1)"
    "r = None \<Longrightarrow> \<not> no_errors lib"
    using lock_ok [OF assms(1,2), of "length bs"] by blast
  show ?thesis
  proof (cases r)
    case None
    then show ?thesis using 1 by (auto simp: submit_block_def)
  next
    case (Some p)
    then obtain at n where p: "r = Some (at, n)" by (cases p) auto
    have n: "at = index v1" "index v1 + int n \<le> buffersize v1" "n \<le> length bs" "even n" "0 < n \<or> 0 < index v1"
      using 1(6) [OF p] assms(3,4) by auto
    have t: "length (take n bs) = n" using n(3) by simp
    obtain v2 where 2: "copy_samples (index v1) (take n bs) v1 = Some v2" "voice_ok rep v2" "buffersize v2 = buffersize v1"
      "index v2 = index v1" "sent (al_calls v2) @ take (nat (index v2) + n) (data v2) = stream v1 @ take n bs"
      using copy_ok [OF 1(2), of "take n bs"] n(2) t by auto
    obtain b v3 where 3: "ALUnlockBuffer pq lib n v2 = Some (b, v3)" "voice_ok rep v3" "buffersize v3 = buffersize v2"
      "no_errors lib \<Longrightarrow> stream v3 = sent (al_calls v2) @ take (nat (index v2) + n) (data v2)"
      using unlock_ok [OF 2(2) assms(2), of n] n 2(3,4) by auto
    have "submit_block pq lib bs v = Some (n, v3)" using 1(1) 2(1) 3(1) n(1) p by (simp add: submit_block_def)
    then show ?thesis using 3 2 1(3-5) n(3,4) by (intro exI [of _ n] exI [of _ v3]) auto
  qed
qed

lemma position_ok:
  assumes "voice_ok rep v" "offsets_ok lib"
  shows "\<exists>p w. ALGetPosition pq lib v = Some (0, p, w) \<and> voice_ok rep w \<and> same_work v w \<and> 0 \<le> p \<and> p \<le> 5 * buffersize v"
proof -
  obtain q w where w: "ALProcessPlayBuffers pq lib v = Some (q, w)" "voice_ok rep w" "same_work v w"
    "\<And>x. q = Some x \<Longrightarrow> 0 \<le> x \<and> x \<le> 4 * buffersize v"
    using process_ok [OF assms] by blast
  have "0 \<le> index w" "index w \<le> buffersize v" "0 < buffersize v" using w(2,3) by (auto simp: voice_ok_def same_work_def)
  then show ?thesis using w by (auto simp: ALGetPosition_def split: option.splits)
qed

end

section \<open>Guarantees\<close>

datatype voice_event = Get_position | Get_status | Block "byte list"

fun voice_exec :: "al_lib \<Rightarrow> voice_event \<Rightarrow> pqlist voice \<Rightarrow> pqlist voice option" where
  "voice_exec lib Get_position v = map_option (snd \<circ> snd) (ALGetPosition playq lib v)"
| "voice_exec lib Get_status v = Some (snd (ALGetStatus lib v))"
| "voice_exec lib (Block bs) v = map_option snd (submit_block playq lib bs v)"

text \<open>Devices submit whole samples of two bytes.\<close>

definition whole_samples :: "voice_event \<Rightarrow> bool" where
  "whole_samples e \<longleftrightarrow> (case e of Block bs \<Rightarrow> even (length bs) \<and> bs \<noteq> [] | _ \<Rightarrow> True)"

inductive voice_reaches :: "al_lib \<Rightarrow> pqlist voice \<Rightarrow> pqlist voice \<Rightarrow> bool" for lib v where
  start: "voice_reaches lib v v"
| step: "voice_reaches lib v w \<Longrightarrow> whole_samples e \<Longrightarrow> voice_exec lib e w = Some x \<Longrightarrow> voice_reaches lib v x"

text \<open>The voice \<open>_openal_createVoice\<close> makes with memory for it, for four different buffers.\<close>

definition new_voice :: "u32 list \<Rightarrow> nat \<Rightarrow> pqlist voice \<Rightarrow> bool" where
  "new_voice bufs samples v \<longleftrightarrow> length bufs = OPENAL_NUM_BUFFERS \<and> distinct bufs \<and> even samples \<and> 0 < samples \<and> samples < 2 ^ 29 \<and>
     createVoice (\<lambda>_. True) bufs 2 samples 2 = Some (Some v)"

lemma new_voice_ok:
  assumes "new_voice bufs samples v"
  shows "voice_ok (playq_rep {0..<OPENAL_NUM_BUFFERS}) v"
proof -
  obtain q where q: "playq_createPlayQueue (\<lambda>_. True) bufs OPENAL_NUM_BUFFERS = Some (Some q)"
    "playq_rep {0..<OPENAL_NUM_BUFFERS} q [] (rev bufs)"
    using created [of "\<lambda>_. True" OPENAL_NUM_BUFFERS bufs] assms
    by (auto simp: new_voice_def OPENAL_NUM_BUFFERS_def MAX_PLAYQ_BUFFERS_def)
  obtain c where "samples = 2 * c" using assms by (auto simp: new_voice_def elim: evenE)
  then show ?thesis using assms q
    by (auto simp: new_voice_def createVoice_def voice_ok_def Let_def intro!: exI [of _ "[]"] exI [of _ "rev bufs"])
qed

lemma exec_voice_ok:
  assumes "voice_ok (playq_rep N) v" "offsets_ok lib" "whole_samples e" "voice_exec lib e v = Some w"
  shows "voice_ok (playq_rep N) w"
proof (cases e)
  case Get_position
  then show ?thesis using pointer_queue.position_ok [OF assms(1,2)] assms(4) by auto
next
  case Get_status
  then show ?thesis using assms(1,4) by (auto simp: ALGetStatus_def al_ok split: option.splits)
next
  case (Block bs)
  then show ?thesis using pointer_queue.block_ok [OF assms(1,2), of bs] assms(3,4) by (auto simp: whole_samples_def)
qed

lemma reaches_voice_ok:
  assumes "voice_reaches lib v w" "voice_ok (playq_rep N) v" "offsets_ok lib"
  shows "voice_ok (playq_rep N) w"
  using assms by (induction rule: voice_reaches.induct) (auto intro: exec_voice_ok)

text \<open>C20: a voice never fails an assertion: in every state it reaches, whatever OpenAL answers, errors included, a block
  of samples is taken in part or whole, in whole samples, and the reported position lies between nothing and five buffers.\<close>

theorem voice_safe:
  assumes "new_voice bufs samples v" "offsets_ok lib" "voice_reaches lib v w"
  shows "(\<exists>p x. ALGetPosition playq lib w = Some (0, p, x) \<and> 0 \<le> p \<and> p \<le> 5 * buffersize w) \<and>
    (\<forall>bs. even (length bs) \<and> bs \<noteq> [] \<longrightarrow> (\<exists>n x. submit_block playq lib bs w = Some (n, x) \<and> n \<le> length bs \<and> even n))"
proof -
  have w: "voice_ok (playq_rep {0..<OPENAL_NUM_BUFFERS}) w" by (rule reaches_voice_ok [OF assms(3) new_voice_ok [OF assms(1)] assms(2)])
  show ?thesis using pointer_queue.position_ok [OF w assms(2)] pointer_queue.block_ok [OF w assms(2)] by blast
qed


definition quiet_lib :: al_lib where
  "quiet_lib = \<lparr>answer = (\<lambda>_ _. Some 0), AL_PLAYING = 0x1012, AL_PAUSED = 0x1013\<rparr>"

lemma quiet_lib_ok: "offsets_ok quiet_lib" "no_errors quiet_lib"
  by (simp_all add: offsets_ok_def no_errors_def quiet_lib_def)

lemma small_voice: "\<exists>v. new_voice [1, 2, 3, 4] 8 v \<and> buffersize v = 32 \<and> stream v = []"
proof -
  obtain q where "playq_createPlayQueue (\<lambda>_. True) [1, 2, 3, 4] OPENAL_NUM_BUFFERS = Some (Some q)"
    using created [of "\<lambda>_. True" OPENAL_NUM_BUFFERS "[1, 2, 3, 4]"] by (auto simp: OPENAL_NUM_BUFFERS_def MAX_PLAYQ_BUFFERS_def)
  then show ?thesis by (simp add: new_voice_def createVoice_def Let_def OPENAL_NUM_BUFFERS_def stream_def)
qed

theorem voice_safe_witness:
  "\<exists>v n x. new_voice [1, 2, 3, 4] 8 v \<and> submit_block playq quiet_lib [5, 6, 7, 8] v = Some (n, x) \<and> n \<le> 4"
proof -
  obtain v where v: "new_voice [1, 2, 3, 4] 8 v" using small_voice by blast
  have b: "even (length [5, 6, 7, 8 :: byte]) \<and> [5, 6, 7, 8 :: byte] \<noteq> []" by simp
  from voice_safe [OF v quiet_lib_ok(1) voice_reaches.start]
  obtain n x where "submit_block playq quiet_lib [5, 6, 7, 8] v = Some (n, x)" "n \<le> length [5, 6, 7, 8 :: byte]" using b by blast
  then show ?thesis using v by auto
qed


end
