(* ===== verification/A2_Float.thy ===== *)
theory A2_Float
  imports A2_Prelude "HOL-Library.Log_Nat"
begin

text \<open>
  The floating point arithmetic of the timing and speaker code.  A finite \<^verbatim>\<open>double\<close> or
  \<^verbatim>\<open>float\<close> is the rational number it stands for; an operation on doubles is the exact operation
  followed by rounding to 53 significant bits, one on floats to 24, to nearest with ties to even.  The numbers of that
  code are far from the ends of the exponent range, so overflow and subnormal numbers are left out.
\<close>

section \<open>Rounding\<close>

type_synonym double = rat

text \<open>The exponent \<open>e\<close> with \<open>2\<^sup>e \<le> x < 2\<^sup>e\<^sup>+\<^sup>1\<close>.\<close>

definition binade :: "rat \<Rightarrow> int" where
  "binade x = (let (a, b) = quotient_of x; k = bitlen a - bitlen b in if 2 powi k \<le> x then k else k - 1)"

definition round_even :: "rat \<Rightarrow> int" where
  "round_even q =
    (let f = \<lfloor>q\<rfloor>; r = q - of_int f in if r < 1 / 2 \<or> (r = 1 / 2 \<and> even f) then f else f + 1)"

definition fl :: "nat \<Rightarrow> rat \<Rightarrow> rat" where
  "fl p x = (if x = 0 then 0 else let g = 2 powi (binade \<bar>x\<bar> - int p + 1) in of_int (round_even (x / g)) * g)"

abbreviation rnd :: "rat \<Rightarrow> double" where "rnd \<equiv> fl 53"
abbreviation rndf :: "rat \<Rightarrow> rat" where "rndf \<equiv> fl 24"

text \<open>The conversion to an unsigned integer truncates.\<close>

definition to_unsigned :: "double \<Rightarrow> nat" where
  "to_unsigned x = nat \<lfloor>x\<rfloor>"

section \<open>Accuracy\<close>

lemma bitlen_frac:
  fixes a :: int
  assumes "0 < a"
  shows "(2 :: rat) powi (bitlen a - 1) \<le> of_int a" "of_int a < (2 :: rat) powi (bitlen a)"
proof -
  have l: "1 \<le> bitlen a" using assms by (simp add: bitlen_alt_def)
  have b: "2 ^ nat (bitlen a - 1) \<le> a" "a < 2 ^ nat (bitlen a)" using bitlen_bounds [OF assms] by auto
  have "(of_int (2 ^ nat (bitlen a - 1)) :: rat) \<le> of_int a" using b(1) by (simp only: of_int_le_iff)
  then show "(2 :: rat) powi (bitlen a - 1) \<le> of_int a" using l by (simp add: power_int_def)
  have "(of_int a :: rat) < of_int (2 ^ nat (bitlen a))" using b(2) by (simp only: of_int_less_iff)
  then show "of_int a < (2 :: rat) powi (bitlen a)" using l by (simp add: power_int_def)
qed

lemma powi_add: "(2 :: rat) powi (i + j) = 2 powi i * 2 powi j"
  by (simp add: power_int_add)

lemma powi_mono: "i \<le> j \<Longrightarrow> (2 :: rat) powi i \<le> 2 powi j"
  by (rule power_int_increasing) auto

lemma binade_bounds:
  assumes "0 < x"
  shows "2 powi binade x \<le> x" "x < 2 powi (binade x + 1)"
proof -
  obtain a b where q: "quotient_of x = (a, b)" by (cases "quotient_of x")
  have x: "x = of_int a / of_int b" and b: "0 < b" using quotient_of_div [OF q] quotient_of_denom_pos [OF q] by auto
  have a: "0 < a" using assms x b by (simp add: zero_less_divide_iff)
  let ?k = "bitlen a - bitlen b"
  have B: "(0 :: rat) < of_int b" using b by simp
  have "(2 :: rat) powi (?k - 1) * of_int b \<le> 2 powi (?k - 1) * 2 powi (bitlen b)"
    using bitlen_frac(2) [OF b] by (intro mult_left_mono) auto
  also have "\<dots> = 2 powi (bitlen a - 1)" by (simp add: powi_add [symmetric])
  also have "\<dots> \<le> of_int a" by (rule bitlen_frac(1) [OF a])
  finally have lo: "2 powi (?k - 1) \<le> x" using B x by (simp add: le_divide_eq)
  have "of_int a < (2 :: rat) powi (bitlen a)" by (rule bitlen_frac(2) [OF a])
  also have "\<dots> = 2 powi (?k + 1) * 2 powi (bitlen b - 1)" by (simp add: powi_add [symmetric])
  also have "\<dots> \<le> 2 powi (?k + 1) * of_int b" using bitlen_frac(1) [OF b] by (intro mult_left_mono) auto
  finally have hi: "x < 2 powi (?k + 1)" using B x by (simp add: divide_less_eq)
  show "2 powi binade x \<le> x" "x < 2 powi (binade x + 1)"
    using lo hi by (auto simp: binade_def q Let_def)
qed

lemma round_even_near: "\<bar>of_int (round_even q) - q\<bar> \<le> 1 / 2"
proof -
  have "of_int \<lfloor>q\<rfloor> \<le> q" "q < of_int \<lfloor>q\<rfloor> + 1" by linarith+
  then show ?thesis by (auto simp: round_even_def Let_def abs_le_iff)
qed

lemma round_even_ge: "of_int n \<le> q \<Longrightarrow> n \<le> round_even q"
  by (auto simp: round_even_def Let_def le_floor_iff [symmetric])

lemma round_even_int [simp]: "round_even (of_int n) = n"
  by (simp add: round_even_def Let_def)

lemma fl_zero [simp]: "fl p 0 = 0"
  by (simp add: fl_def)

lemma fl_error:
  assumes "0 < x"
  shows "\<bar>fl p x - x\<bar> \<le> x * 2 powi (- int p)"
proof -
  let ?g = "(2 :: rat) powi (binade x - int p + 1)"
  have g: "0 < ?g" by simp
  have "\<bar>of_int (round_even (x / ?g)) - x / ?g\<bar> * ?g \<le> 1 / 2 * ?g"
    by (rule mult_right_mono [OF round_even_near]) simp
  moreover have "\<bar>of_int (round_even (x / ?g)) - x / ?g\<bar> * ?g = \<bar>fl p x - x\<bar>"
  proof -
    have "\<bar>of_int (round_even (x / ?g)) - x / ?g\<bar> * ?g = \<bar>(of_int (round_even (x / ?g)) - x / ?g) * ?g\<bar>"
      by (simp add: abs_mult)
    also have "(of_int (round_even (x / ?g)) - x / ?g) * ?g = of_int (round_even (x / ?g)) * ?g - x"
      using g by (simp add: left_diff_distrib)
    also have "\<dots> = fl p x - x" using assms by (simp add: fl_def Let_def)
    finally show ?thesis .
  qed
  moreover have "1 / 2 * ?g = 2 powi binade x * 2 powi (- int p)"
  proof -
    have "1 / 2 * ?g = 2 powi (- 1) * ?g" by simp
    also have "\<dots> = 2 powi (- 1 + (binade x - int p + 1))" by (rule powi_add [symmetric])
    also have "\<dots> = 2 powi (binade x + - int p)" by (rule arg_cong [of _ _ "\<lambda>i. 2 powi i"]) simp
    finally show ?thesis by (simp only: powi_add)
  qed
  moreover have "2 powi binade x * 2 powi (- int p) \<le> x * (2 :: rat) powi (- int p)"
    by (rule mult_right_mono [OF binade_bounds(1) [OF assms]]) simp
  ultimately show ?thesis by linarith
qed

text \<open>A number with at most \<open>p\<close> significant bits is its own rounding.\<close>

lemma grid_divides:
  assumes "i \<le> j"
  shows "\<exists>n. of_int m * (2 :: rat) powi j = of_int n * 2 powi i"
proof -
  have "(2 :: rat) powi j = 2 ^ nat (j - i) * 2 powi i"
    using assms powi_add [of "j - i" i] by (simp add: power_int_def)
  then have "of_int m * (2 :: rat) powi j = of_int (m * 2 ^ nat (j - i)) * 2 powi i" by simp
  then show ?thesis by blast
qed

lemma fl_nat:
  assumes "n \<le> 2 ^ p" "0 < p"
  shows "fl p (of_nat n) = of_nat n"
proof (cases "n = 0")
  case False
  let ?x = "of_nat n :: rat"
  have x: "0 < ?x" using False by simp
  have "\<exists>m. ?x = of_int m * 2 powi (binade ?x - int p + 1)"
  proof (cases "binade ?x - int p + 1 \<le> 0")
    case True
    then show ?thesis using grid_divides [OF True, of "int n"] by simp
  next
    case False
    have "(2 :: rat) ^ p = 2 powi (int p)" by simp
    also have "\<dots> \<le> 2 powi binade ?x" using False by (intro powi_mono) simp
    also have "\<dots> \<le> ?x" by (rule binade_bounds(1) [OF x])
    finally have "(2 :: rat) ^ p \<le> of_nat n" .
    then have "2 ^ p \<le> n" by (metis of_nat_le_iff of_nat_numeral of_nat_power)
    then have n: "?x = of_int 1 * 2 powi (int p)" using assms(1) by simp
    moreover have "binade ?x - int p + 1 \<le> int p"
    proof (rule ccontr)
      assume "\<not> binade ?x - int p + 1 \<le> int p"
      then have "int p + 1 \<le> binade ?x" using assms(2) by linarith
      then have "(2 :: rat) powi (int p + 1) \<le> ?x" using powi_mono binade_bounds(1) [OF x] by (meson order_trans)
      then have "(2 :: rat) powi (int p) * 2 \<le> 2 powi (int p)" unfolding n powi_add by simp
      then show False by (simp add: not_le)
    qed
    ultimately show ?thesis using grid_divides by metis
  qed
  then obtain m where "?x = of_int m * 2 powi (binade ?x - int p + 1)" by blast
  then have m: "?x / 2 powi (binade ?x - int p + 1) = of_int m" by (simp add: divide_eq_eq)
  have "fl p ?x = of_int (round_even (?x / 2 powi (binade ?x - int p + 1))) * 2 powi (binade ?x - int p + 1)"
    using x by (simp add: fl_def Let_def)
  also have "\<dots> = of_int m * 2 powi (binade ?x - int p + 1)" by (simp add: m)
  also have "\<dots> = ?x" using m by (simp add: divide_eq_eq)
  finally show ?thesis .
qed simp

lemma fl_ge_nat:
  assumes "of_nat q \<le> x" "q \<le> 2 ^ p" "0 < p" "0 < x"
  shows "of_nat q \<le> fl p x"
proof -
  let ?e = "binade x - int p + 1"
  let ?g = "(2 :: rat) powi ?e"
  have fl: "fl p x = of_int (round_even (x / ?g)) * ?g" using assms(4) by (simp add: fl_def Let_def)
  have "\<exists>m. of_nat q \<le> of_int m * ?g \<and> of_int m * ?g \<le> x"
  proof (cases "?e \<le> 0")
    case True
    then obtain m where "of_nat q = of_int m * ?g" using grid_divides [OF True, of "int q"] by auto
    then show ?thesis using assms(1) by (intro exI [of _ m]) simp
  next
    case False
    then have "2 powi (int p) \<le> (2 :: rat) powi binade x" by (intro powi_mono) simp
    moreover have "(of_nat q :: rat) \<le> of_nat (2 ^ p)" using assms(2) by (simp only: of_nat_le_iff)
    then have "(of_nat q :: rat) \<le> 2 powi (int p)" by simp
    moreover have "(2 :: rat) powi binade x = of_int (2 ^ (p - 1)) * ?g"
      using assms(3) powi_add [of "int p - 1" ?e] by (simp add: power_int_def nat_diff_distrib)
    ultimately show ?thesis using binade_bounds(1) [OF assms(4)]
      by (intro exI [of _ "2 ^ (p - 1)"]) linarith
  qed
  then obtain m where m: "of_nat q \<le> of_int m * ?g" "of_int m * ?g \<le> x" by blast
  have "of_int m \<le> x / ?g" using m(2) by (simp add: le_divide_eq)
  then have "m \<le> round_even (x / ?g)" by (rule round_even_ge)
  then have "(of_int m :: rat) * ?g \<le> of_int (round_even (x / ?g)) * ?g" by (intro mult_right_mono) auto
  then show ?thesis using m(1) fl by linarith
qed

text \<open>The quotient of two integers, computed in double precision and truncated, is the integer quotient.\<close>

lemma double_quotient:
  assumes "d < 2 ^ 53" "0 < c"
  shows "to_unsigned (rnd (of_nat d / of_nat c)) = d div c"
proof (cases "d = 0")
  case False
  let ?x = "of_nat d / of_nat c :: rat"
  let ?k = "d div c"
  have x: "0 < ?x" using False assms(2) by simp
  have c: "(0 :: rat) < of_nat c" using assms(2) by simp
  have "of_nat (?k * c) \<le> (of_nat d :: rat)" unfolding of_nat_le_iff by (metis div_times_less_eq_dividend)
  then have lo: "of_nat ?k \<le> ?x" using c by (simp add: le_divide_eq)
  have kb: "?k \<le> 2 ^ 53" using assms(1) by (meson div_le_dividend le_trans less_imp_le)
  have lower: "of_nat ?k \<le> rnd ?x" by (rule fl_ge_nat [OF lo kb _ x]) simp
  have "d + 1 \<le> (?k + 1) * c" using dividend_less_div_times [OF assms(2), of d] by (simp add: algebra_simps)
  then have "(of_nat d + 1 :: rat) \<le> of_nat ((?k + 1) * c)" by (metis of_nat_1 of_nat_add of_nat_le_iff)
  then have "(of_nat d + 1) / of_nat c \<le> (of_nat (?k + 1) :: rat)" using c by (simp add: divide_le_eq algebra_simps)
  moreover have "rnd ?x < (of_nat d + 1) / of_nat c"
  proof -
    have "rnd ?x \<le> ?x + ?x * 2 powi (- int 53)" using fl_error [OF x, of 53] by linarith
    also have "(of_nat d :: rat) < 2 ^ 53" using assms(1) by (metis of_nat_less_iff of_nat_numeral of_nat_power)
    then have "?x * 2 powi (- int 53) < 1 / of_nat c" using c
      by (simp add: power_int_def divide_less_eq less_divide_eq field_simps)
    finally show ?thesis by (simp add: add_divide_distrib)
  qed
  ultimately have "rnd ?x < of_nat ?k + 1" by simp
  then have "\<lfloor>rnd ?x\<rfloor> = int ?k" using lower by (intro floor_unique) auto
  then show ?thesis by (simp add: to_unsigned_def)
qed (simp add: to_unsigned_def)

text \<open>Products of integers are exact below the precision.\<close>

lemma double_product:
  assumes "m * n \<le> 2 ^ 53"
  shows "rnd (of_nat m * of_nat n) = of_nat (m * n)"
  using fl_nat [of "m * n" 53] assms by simp

lemma to_unsigned_nat [simp]: "to_unsigned (of_nat n) = n"
  by (simp add: to_unsigned_def)

end
