(* ===== verification/A2_Speaker.thy ===== *)
theory A2_Speaker
  imports A2_Float A2_OpenAL A2_Video
begin

text \<open>
  The speaker (\<^verbatim>\<open>audio/speaker.c\<close>): a program toggles a level, the emulator turns the cycles
  between toggles into 16 bit samples and hands them to a voice of the audio backend (\<^verbatim>\<open>AudioBuffer_s\<close> of
  \<^verbatim>\<open>audio/soundcore.h\<close>), and the fill of the voice's buffer is fed back to the CPU thread.  The variables
  of \<^verbatim>\<open>timing.c\<close> that the speaker shares are part of its record; the cycle counter is that of
  \<open>A2_Video\<close>.

  \<open>None\<close> is a failed assertion, an access outside an array, the use of a null pointer and the conversion to an integer of a
  quotient by zero.  The build without tracing and with \<^verbatim>\<open>HACKISHLY_REDUCE_AUDIO_GLITCHES_FOR_FAST_LOADING\<close>, which
  the file sets, is modelled.
\<close>

section \<open>State\<close>

type_synonym sample = "16 word"

text \<open>The voice as an interface: its function pointers, and the memory that a lock gives access to.\<close>

record 'v audio_buffer =
  GetCurrentPosition :: "'v \<Rightarrow> (int \<times> nat \<times> 'v) option"
  Lock :: "nat \<Rightarrow> 'v \<Rightarrow> ((int \<times> nat) option \<times> 'v) option"
  Fill :: "int \<Rightarrow> byte list \<Rightarrow> 'v \<Rightarrow> 'v option"
  Unlock :: "nat \<Rightarrow> 'v \<Rightarrow> (bool \<times> 'v) option"

record audio_settings =
  sampleRateHz :: nat
  bytesPerSample :: nat
  monoBufferSizeSamples :: nat
  stereoBufferSizeSamples :: nat

text \<open>\<open>speed_target\<close> is \<^verbatim>\<open>cycles_persec_target\<close>, \<open>fullspeed\<close> is \<^verbatim>\<open>is_fullspeed\<close>.\<close>

record 'v speaker =
  clock :: video
  speed_target :: double
  fullspeed :: bool
  cpu_scale_factor :: double
  cpu_altscale_factor :: double
  alt_speed_enabled :: bool
  auto_adjust_speed :: bool
  cycles_speaker_feedback :: int
  bufferTotalSize :: nat
  bufferSizeIdealMin :: nat
  bufferSizeIdealMax :: nat
  channelsSampleRateHz :: nat
  speaker_isAvailable :: bool
  samples_buffer :: "sample list"
  remainder_buffer :: "sample list"
  samples_buffer_idx :: nat
  remainder_buffer_size :: nat
  remainder_buffer_size_max :: nat
  remainder_buffer_idx :: nat
  speaker_volume :: int
  speaker_amplitude :: sample
  speaker_data :: sample
  cycles_per_sample :: double
  cycles_last_update :: nat
  cycles_quiet_time :: nat
  speaker_accessed_since_last_flush :: bool
  speaker_recently_active :: bool
  speaker_going_silent :: bool
  samples_adjustment_counter :: int
  speakerBuffer :: "'v option"

definition NUM_CHANNELS :: nat where "NUM_CHANNELS = 2"
definition SPKR_DATA_INIT :: int where "SPKR_DATA_INIT = 4095"
definition SPKR_SILENT_STEP :: sample where "SPKR_SILENT_STEP = 1"
definition ERROR_INC :: int where "ERROR_INC = 20"
definition ERROR_MAX :: int where "ERROR_MAX = 200"
definition CPU_SCALE_FASTEST_PIVOT :: double where "CPU_SCALE_FASTEST_PIVOT = 4"
definition CPU_SCALE_FASTEST :: double where "CPU_SCALE_FASTEST = CPU_SCALE_FASTEST_PIVOT + 1 / 16"

text \<open>The clock rate of the machine, as the compiler computes it.\<close>

definition CLK_6502 :: double where
  "CLK_6502 = rnd (rnd (rnd (157500000 / 11) * 65) / 912)"

definition total :: "'v speaker \<Rightarrow> nat" where
  "total s = cycles_count_total (clock s)"

text \<open>A signed conversion truncates towards zero.\<close>

definition to_signed :: "double \<Rightarrow> int" where
  "to_signed x = (if x < 0 then - \<lfloor>- x\<rfloor> else \<lfloor>x\<rfloor>)"

section \<open>Configuration\<close>

text \<open>The preference is absent or a number; both operands of the product are converted to \<^verbatim>\<open>float\<close>.\<close>

definition speaker_prefsChanged :: "int option \<Rightarrow> 'v speaker \<Rightarrow> 'v speaker" where
  "speaker_prefsChanged pref s =
    (let vol = (case pref of Some l \<Rightarrow> l | None \<Rightarrow> 5);
         vol = (if vol < 0 then 0 else vol);
         vol = (if vol > 10 then 10 else vol);
         samplesScale = rndf (of_int vol / 10)
     in s\<lparr>speaker_volume := vol, speaker_amplitude := word_of_int (to_signed (rndf (of_int SPKR_DATA_INIT * samplesScale)))\<rparr>)"

definition speaker_init_timing :: "audio_settings \<Rightarrow> 'v speaker \<Rightarrow> 'v speaker option" where
  "speaker_init_timing sys s =
    (let s = s\<lparr>cycles_per_sample := of_nat (to_unsigned (rnd (speed_target s / of_nat (sampleRateHz sys))))\<rparr>;
         last_remainder_buffer_size = remainder_buffer_size s;
         s = s\<lparr>remainder_buffer_size := to_unsigned (cycles_per_sample s)\<rparr>;
         s = (if of_nat (remainder_buffer_size s) \<noteq> cycles_per_sample s
              then s\<lparr>remainder_buffer_size := remainder_buffer_size s + 1\<rparr> else s)
     in do {
       s \<leftarrow> c_assert (remainder_buffer_size s \<le> remainder_buffer_size_max s) s;
       let s = (if last_remainder_buffer_size = remainder_buffer_size s then s else s\<lparr>remainder_buffer_idx := 0\<rparr>);
       let s = (if cycles_last_update s > total s then s\<lparr>cycles_last_update := 0\<rparr> else s);
       Some (if fullspeed s then s\<lparr>remainder_buffer_idx := 0, samples_buffer_idx := 0\<rparr> else s) })"

definition speaker_reset :: "audio_settings \<Rightarrow> 'v speaker \<Rightarrow> 'v speaker option" where
  "speaker_reset sys s = (if speaker_isAvailable s then speaker_init_timing sys s else Some s)"

text \<open>\<open>buffer\<close> is what the backend created, \<open>calloc\<close> and \<open>malloc\<close> whether there was memory, \<open>junk\<close> what the
  uninitialised memory holds.\<close>

definition speaker_init ::
    "audio_settings \<Rightarrow> 'v option \<Rightarrow> bool \<Rightarrow> bool \<Rightarrow> (nat \<Rightarrow> sample) \<Rightarrow> 'v speaker \<Rightarrow> 'v speaker option" where
  "speaker_init sys buffer calloc malloc junk s =
    (let s = s\<lparr>speaker_isAvailable := False\<rparr> in
     case buffer of
       None \<Rightarrow> Some s
     | Some v \<Rightarrow> do {
         s \<leftarrow> c_assert (bytesPerSample sys = 2) (s\<lparr>speakerBuffer := Some v\<rparr>);
         let s = s\<lparr>bufferTotalSize := stereoBufferSizeSamples sys * bytesPerSample sys * NUM_CHANNELS\<rparr>;
         let s = s\<lparr>bufferSizeIdealMin := bufferTotalSize s div 4, bufferSizeIdealMax := bufferTotalSize s div 2,
                   channelsSampleRateHz := sampleRateHz sys * NUM_CHANNELS,
                   remainder_buffer_size_max := (to_unsigned CLK_6502 * to_unsigned CPU_SCALE_FASTEST) div sampleRateHz sys + 1\<rparr>;
         if \<not> calloc then Some (s\<lparr>samples_buffer := []\<rparr>)
         else do {
           let s = s\<lparr>samples_buffer := replicate (channelsSampleRateHz s) 0, samples_buffer_idx := bufferSizeIdealMax s\<rparr>;
           if \<not> malloc then Some (s\<lparr>samples_buffer := [], remainder_buffer := []\<rparr>)
           else do {
             s \<leftarrow> speaker_init_timing sys (s\<lparr>remainder_buffer := map junk [0..<remainder_buffer_size_max s]\<rparr>);
             Some (s\<lparr>speaker_isAvailable := True\<rparr>) } } })"

definition speaker_destroy :: "'v speaker \<Rightarrow> 'v speaker" where
  "speaker_destroy s = s\<lparr>speaker_isAvailable := False, speakerBuffer := None, samples_buffer := [], remainder_buffer := []\<rparr>"

section \<open>From cycles to samples\<close>

definition put_remainder :: "'v speaker \<Rightarrow> 'v speaker option" where
  "put_remainder s =
    (let i = remainder_buffer_idx s in
     c_assert (i < length (remainder_buffer s))
       (s\<lparr>remainder_buffer := (remainder_buffer s)[i := speaker_data s], remainder_buffer_idx := i + 1\<rparr>))"

definition put_sample :: "sample \<Rightarrow> 'v speaker \<Rightarrow> 'v speaker option" where
  "put_sample w s =
    (let i = samples_buffer_idx s in
     c_assert (i < length (samples_buffer s))
       (s\<lparr>samples_buffer := (samples_buffer s)[i := w], samples_buffer_idx := i + 1\<rparr>))"

fun top_off :: "nat \<Rightarrow> 'v speaker \<Rightarrow> (nat \<times> 'v speaker) option" where
  "top_off 0 s = Some (0, s)"
| "top_off (Suc cycles_diff) s =
    (if remainder_buffer_idx s < remainder_buffer_size s
     then (case put_remainder s of None \<Rightarrow> None | Some s \<Rightarrow> top_off cycles_diff s)
     else Some (Suc cycles_diff, s))"

text \<open>A whole sample made of the remainder of the last call and the first cycles of this one.\<close>

definition complete_remainder :: "'v speaker \<Rightarrow> 'v speaker option" where
  "complete_remainder s =
    (if remainder_buffer_idx s \<noteq> remainder_buffer_size s then Some s
     else (let n = remainder_buffer_size s; s = s\<lparr>remainder_buffer_idx := 0\<rparr>;
               sample_mean = trunc_div (sum_list (map sint (take n (remainder_buffer s)))) (int n)
           in do {
             s \<leftarrow> c_assert (n \<le> length (remainder_buffer s) \<and> 0 < n) s;
             if samples_buffer_idx s < channelsSampleRateHz s then do {
               s \<leftarrow> put_sample (word_of_int sample_mean) s;
               put_sample (word_of_int sample_mean) s
             } else Some s }))"

definition quieten :: "'v speaker \<Rightarrow> 'v speaker" where
  "quieten s =
    (if speaker_going_silent s \<and> speaker_data s \<noteq> 0
     then s\<lparr>speaker_data := (if sint (speaker_data s) < 0 then speaker_data s + SPKR_SILENT_STEP
                              else speaker_data s - SPKR_SILENT_STEP)\<rparr>
     else s)"

fun emit_samples :: "nat \<Rightarrow> 'v speaker \<Rightarrow> 'v speaker option" where
  "emit_samples 0 s = Some s"
| "emit_samples (Suc num_samples) s =
    (if samples_buffer_idx s < channelsSampleRateHz s
     then (case put_sample (speaker_data s) s \<bind> (\<lambda>s. put_sample (speaker_data s) s) of
             None \<Rightarrow> None | Some s \<Rightarrow> emit_samples num_samples (quieten s))
     else Some s)"

fun keep_remainder :: "nat \<Rightarrow> 'v speaker \<Rightarrow> 'v speaker option" where
  "keep_remainder 0 s = Some s"
| "keep_remainder (Suc n) s = (case put_remainder s of None \<Rightarrow> None | Some s \<Rightarrow> keep_remainder n s)"

definition keep_rest :: "nat \<Rightarrow> 'v speaker \<Rightarrow> 'v speaker option" where
  "keep_rest cycles_remainder s =
    (if 0 < cycles_remainder then do {
       s \<leftarrow> c_assert (remainder_buffer_idx s = 0) s;
       if cycles_remainder \<ge> remainder_buffer_size s then Some s
       else keep_remainder cycles_remainder s
     } else Some s)"

definition speaker_update :: "'v speaker \<Rightarrow> 'v speaker option" where
  "speaker_update s =
    (if fullspeed s \<or> cycles_last_update s > total s then Some (s\<lparr>cycles_last_update := total s\<rparr>)
     else do {
       let cycles_diff = total s - cycles_last_update s;
       (cycles_diff, s) \<leftarrow>
         (if 0 < remainder_buffer_idx s then do {
            (cycles_diff, s) \<leftarrow> top_off cycles_diff s;
            s \<leftarrow> complete_remainder s;
            Some (cycles_diff, s)
          } else Some (cycles_diff, s));
       s \<leftarrow> c_assert (cycles_per_sample s \<noteq> 0) s;
       let num_samples = to_unsigned (rnd (rnd (of_nat cycles_diff) / cycles_per_sample s));
       let cycles_remainder =
         to_unsigned (rnd (rnd (of_nat cycles_diff) - rnd (rnd (of_nat num_samples) * cycles_per_sample s)));
       s \<leftarrow> emit_samples num_samples s;
       s \<leftarrow> keep_rest cycles_remainder s;
       Some (s\<lparr>cycles_last_update := total s\<rparr>) })"

section \<open>To the backend\<close>

text \<open>Samples in memory, least significant byte first.\<close>

definition sample_bytes :: "sample \<Rightarrow> byte list" where
  "sample_bytes w = [ucast w, ucast (drop_bit 8 w)]"

fun samples_of :: "byte list \<Rightarrow> sample list" where
  "samples_of (l # h # bs) = (ucast l OR push_bit 8 (ucast h)) # samples_of bs"
| "samples_of _ = []"

definition buffer_bytes :: "'v speaker \<Rightarrow> byte list" where
  "buffer_bytes s = concat (map sample_bytes (samples_buffer s))"

text \<open>\<^verbatim>\<open>_submit_samples_buffer_fullspeed\<close>\<close>

definition submit_quiet :: "'v audio_buffer \<Rightarrow> 'v speaker \<Rightarrow> 'v speaker option" where
  "submit_quiet ab s = do {
     let s = s\<lparr>samples_adjustment_counter := 0\<rparr>;
     v \<leftarrow> speakerBuffer s;
     (err, bytes_queued, v) \<leftarrow> GetCurrentPosition ab v;
     let s = s\<lparr>speakerBuffer := Some v\<rparr>;
     if err \<noteq> 0 then Some s
     else if bytes_queued \<ge> bufferSizeIdealMax s then Some s
     else (let num_samples_pad = (bufferSizeIdealMax s - bytes_queued) div 2 in
       if num_samples_pad = 0 then Some s
       else do {
         (locked, v) \<leftarrow> Lock ab (num_samples_pad * 2) v;
         case locked of
           None \<Rightarrow> Some (s\<lparr>speakerBuffer := Some v\<rparr>)
         | Some (ptr, system_buffer_size) \<Rightarrow>
             (let num_samples_pad = min num_samples_pad (system_buffer_size div 2) in do {
                v \<leftarrow> Fill ab ptr (concat (replicate num_samples_pad (sample_bytes (speaker_data s)))) v;
                (_, v) \<leftarrow> Unlock ab system_buffer_size v;
                Some (s\<lparr>speakerBuffer := Some v\<rparr>) }) }) }"

text \<open>The source of \<^verbatim>\<open>memcpy(_, &samples_buffer[samples_idx], n)\<close>.\<close>

definition source_bytes :: "nat \<Rightarrow> nat \<Rightarrow> 'v speaker \<Rightarrow> byte list option" where
  "source_bytes samples_idx n s =
    (let b = buffer_bytes s in c_assert (2 * samples_idx + n \<le> length b) (take n (drop (2 * samples_idx) b)))"

text \<open>The loop that hands the samples over in at most two parts; \<open>samples_idx\<close> counts the bytes of the first part
  and indexes the samples of the second.\<close>

fun send_chunks :: "'v audio_buffer \<Rightarrow> nat \<Rightarrow> nat \<Rightarrow> nat \<Rightarrow> nat \<Rightarrow> 'v speaker \<Rightarrow> 'v speaker option" where
  "send_chunks ab 0 curr_buffer_size samples_idx requested_buffer_size s = Some s"
| "send_chunks ab (Suc rounds) curr_buffer_size samples_idx requested_buffer_size s = do {
     v \<leftarrow> speakerBuffer s;
     (locked, v) \<leftarrow> Lock ab curr_buffer_size v;
     case locked of
       None \<Rightarrow> Some (s\<lparr>speakerBuffer := Some v\<rparr>)
     | Some (ptr, n) \<Rightarrow>
         (let maxSpeakerBytes = channelsSampleRateHz s * 2;
              requested_buffer_size = (if n > maxSpeakerBytes then maxSpeakerBytes else requested_buffer_size);
              n = min n maxSpeakerBytes
          in do {
            bs \<leftarrow> source_bytes samples_idx n s;
            v \<leftarrow> Fill ab ptr bs v;
            (ok, v) \<leftarrow> Unlock ab n v;
            let s = s\<lparr>speakerBuffer := Some v\<rparr>;
            if ok \<and> samples_idx + n < requested_buffer_size
            then send_chunks ab rounds (nat ((int curr_buffer_size - int n) mod 2 ^ 64)) (samples_idx + n) requested_buffer_size s
            else Some s }) }"

definition adjust_counter :: "nat \<Rightarrow> 'v speaker \<Rightarrow> 'v speaker" where
  "adjust_counter bytes_queued s =
    (let c = samples_adjustment_counter s;
         c = (if bytes_queued < bufferSizeIdealMin s then c + ERROR_INC
              else if bytes_queued > bufferSizeIdealMax s then c - ERROR_INC else 0);
         c = (if c < - ERROR_MAX then - ERROR_MAX
              else if c > ERROR_MAX then ERROR_MAX else c)
     in s\<lparr>samples_adjustment_counter := c, cycles_speaker_feedback := to_signed (rnd (of_int c * cycles_per_sample s))\<rparr>)"

text \<open>\<^verbatim>\<open>_submit_samples_buffer\<close>; the result is the number of samples counted as used.\<close>

definition submit_pending :: "'v audio_buffer \<Rightarrow> nat \<Rightarrow> 'v speaker \<Rightarrow> (nat \<times> 'v speaker) option" where
  "submit_pending ab num_channel_samples s = do {
     s \<leftarrow> c_assert (0 < num_channel_samples) s;
     v \<leftarrow> speakerBuffer s;
     (err, bytes_queued, v) \<leftarrow> GetCurrentPosition ab v;
     let s = s\<lparr>speakerBuffer := Some v\<rparr>;
     if err \<noteq> 0 then Some (num_channel_samples, s)
     else (let s = adjust_counter bytes_queued s;
               bytes_free = nat ((int (bufferTotalSize s) - int bytes_queued) mod 2 ^ 64);
               short = num_channel_samples * 2 > bytes_free;
               requested_samples = (if short then bytes_free div 2 else num_channel_samples);
               requested_buffer_size = (if short then bytes_free else num_channel_samples * 2)
           in do {
             s \<leftarrow> (if requested_buffer_size = 0 then Some s
                  else send_chunks ab 2 requested_buffer_size 0 requested_buffer_size s);
             Some (requested_samples, s) }) }"

text \<open>How long the speaker has been quiet.\<close>

definition note_quiet :: "'v speaker \<Rightarrow> 'v speaker" where
  "note_quiet s =
    (if fullspeed s then
       s\<lparr>cycles_quiet_time := total s, speaker_going_silent := False, speaker_accessed_since_last_flush := False\<rparr>
     else if speaker_accessed_since_last_flush s then
       s\<lparr>cycles_quiet_time := 0, speaker_going_silent := False, speaker_accessed_since_last_flush := False\<rparr>
     else
       (let s = (if cycles_quiet_time s = 0 then s\<lparr>cycles_quiet_time := total s\<rparr> else s);
            cycles_diff = to_unsigned (rnd (speed_target s / 10));
            quiet = nat ((int (total s) - int (cycles_quiet_time s)) mod 2 ^ 64)
        in if quiet > cycles_diff * 2 mod 2 ^ 32 then s\<lparr>speaker_recently_active := False\<rparr>
           else if speaker_data s \<noteq> 0 \<and> quiet > cycles_diff then s\<lparr>speaker_going_silent := True\<rparr>
           else s))"

text \<open>The \<^verbatim>\<open>memmove\<close> at the end of a flush moves as many bytes as samples are left.\<close>

definition drop_used :: "nat \<Rightarrow> 'v speaker \<Rightarrow> 'v speaker option" where
  "drop_used samples_used s =
    (let unsubmitted_size = samples_buffer_idx s - samples_used; b = buffer_bytes s in do {
       s \<leftarrow> (if unsubmitted_size = 0 then Some s
            else c_assert (2 * samples_used + unsubmitted_size \<le> length b)
              (s\<lparr>samples_buffer := samples_of (take unsubmitted_size (drop (2 * samples_used) b) @ drop unsubmitted_size b)\<rparr>));
       Some (s\<lparr>samples_buffer_idx := samples_buffer_idx s - samples_used\<rparr>) })"

definition checkpoint :: "'v speaker \<Rightarrow> 'v speaker option" where
  "checkpoint s = (case timing_checkpointCycles (clock s) of None \<Rightarrow> None | Some v \<Rightarrow> Some (s\<lparr>clock := v\<rparr>))"

definition speaker_flush :: "'v audio_buffer \<Rightarrow> 'v speaker \<Rightarrow> 'v speaker option" where
  "speaker_flush ab s =
    (if \<not> speaker_isAvailable s then Some s
     else do {
       s \<leftarrow> checkpoint s;
       s \<leftarrow> speaker_update (note_quiet s);
       if fullspeed s then do {
         s \<leftarrow> c_assert (samples_buffer_idx s = 0) s;
         submit_quiet ab s
       } else if 0 < samples_buffer_idx s then do {
         (samples_used, s) \<leftarrow> submit_pending ab (samples_buffer_idx s) s;
         s \<leftarrow> c_assert (samples_used \<le> samples_buffer_idx s) s;
         if 0 < samples_used then drop_used samples_used s else Some s
       } else Some s })"

section \<open>The softswitch\<close>

definition timing_shouldAutoAdjustSpeed :: "'v speaker \<Rightarrow> bool" where
  "timing_shouldAutoAdjustSpeed s \<longleftrightarrow>
    auto_adjust_speed s \<and> (if alt_speed_enabled s then cpu_altscale_factor s else cpu_scale_factor s) \<le> CPU_SCALE_FASTEST_PIVOT"

text \<open>\<^verbatim>\<open>speaker_toggle\<close>, but for the floating bus that the program reads, which \<open>A2_VM\<close> models.\<close>

definition speaker_toggled :: "'v speaker \<Rightarrow> 'v speaker option" where
  "speaker_toggled s = do {
     s \<leftarrow> checkpoint s;
     let s = s\<lparr>speaker_accessed_since_last_flush := True, speaker_recently_active := True\<rparr>;
     let s = (if timing_shouldAutoAdjustSpeed s then s\<lparr>fullspeed := False\<rparr> else s);
     s \<leftarrow> (if speaker_isAvailable s then speaker_update s else Some s);
     Some (if fullspeed s then s
           else s\<lparr>speaker_data := (if speaker_data s = speaker_amplitude s then - speaker_amplitude s else speaker_amplitude s)\<rparr>) }"

section \<open>Speed\<close>

text \<open>\<^verbatim>\<open>_timing_initialize\<close>, \<^verbatim>\<open>timing_initialize\<close> and \<^verbatim>\<open>timing_toggleCPUSpeed\<close> of
  \<^verbatim>\<open>timing.c\<close>.\<close>

definition timing_initialize_scale :: "audio_settings \<Rightarrow> double \<Rightarrow> 'v speaker \<Rightarrow> 'v speaker option" where
  "timing_initialize_scale sys scale s =
    (let s = s\<lparr>fullspeed := scale > CPU_SCALE_FASTEST_PIVOT\<rparr>;
         s = (if \<not> fullspeed s then s\<lparr>speed_target := rnd (CLK_6502 * scale)\<rparr> else s)
     in speaker_reset sys s)"

definition timing_initialize :: "audio_settings \<Rightarrow> 'v speaker \<Rightarrow> 'v speaker option" where
  "timing_initialize sys s =
    timing_initialize_scale sys (if alt_speed_enabled s then cpu_altscale_factor s else cpu_scale_factor s) s"

definition timing_toggleCPUSpeed :: "audio_settings \<Rightarrow> 'v speaker \<Rightarrow> 'v speaker option" where
  "timing_toggleCPUSpeed sys s = timing_initialize sys (s\<lparr>alt_speed_enabled := \<not> alt_speed_enabled s\<rparr>)"

text \<open>The static initial values of the two files.\<close>

definition static_speaker :: "video \<Rightarrow> 'v speaker" where
  "static_speaker v =
    \<lparr>clock = v, speed_target = CLK_6502, fullspeed = False, cpu_scale_factor = 1, cpu_altscale_factor = 1,
     alt_speed_enabled = False, auto_adjust_speed = True, cycles_speaker_feedback = 0, bufferTotalSize = 0,
     bufferSizeIdealMin = 0, bufferSizeIdealMax = 0, channelsSampleRateHz = 0, speaker_isAvailable = False,
     samples_buffer = [], remainder_buffer = [], samples_buffer_idx = 0, remainder_buffer_size = 0,
     remainder_buffer_size_max = 0, remainder_buffer_idx = 0, speaker_volume = 0,
     speaker_amplitude = word_of_int SPKR_DATA_INIT, speaker_data = 0, cycles_per_sample = 0, cycles_last_update = 0,
     cycles_quiet_time = 0, speaker_accessed_since_last_flush = False, speaker_recently_active = False,
     speaker_going_silent = False, samples_adjustment_counter = 0, speakerBuffer = None\<rparr>"

section \<open>The OpenAL voice as a backend\<close>

text \<open>The function pointers \<^verbatim>\<open>openal_createSoundBuffer\<close> sets; the position is unsigned.\<close>

definition openal_buffer :: "al_lib \<Rightarrow> pqlist voice audio_buffer" where
  "openal_buffer lib = \<lparr>
     GetCurrentPosition = (\<lambda>v. map_option (\<lambda>(e, p, w). (e, nat p, w)) (ALGetPosition playq lib v)),
     Lock = ALLockBuffer playq lib, Fill = copy_samples, Unlock = ALUnlockBuffer playq lib\<rparr>"

end
