(* ===== verification/A2_SpeakerProps.thy ===== *)
theory A2_SpeakerProps
  imports A2_Speaker
begin

text \<open>
  What the speaker guarantees: its buffers are never overrun, every frame stands for the same number of cycles, and all
  its operations complete on any backend that keeps the contract \<open>audio_backend\<close>; the OpenAL voice does.
\<close>

section \<open>Well-formed speakers\<close>

text \<open>The array bounds, and the division of time into samples of \<open>remainder_buffer_size\<close> cycles.\<close>

definition buffers_ok :: "'v speaker \<Rightarrow> bool" where
  "buffers_ok s \<longleftrightarrow> length (samples_buffer s) = channelsSampleRateHz s \<and> even (channelsSampleRateHz s) \<and>
     even (samples_buffer_idx s) \<and> samples_buffer_idx s \<le> channelsSampleRateHz s \<and>
     length (remainder_buffer s) = remainder_buffer_size_max s \<and> remainder_buffer_size s \<le> remainder_buffer_size_max s \<and>
     0 < remainder_buffer_size s \<and> cycles_per_sample s = of_nat (remainder_buffer_size s) \<and>
     remainder_buffer_idx s < remainder_buffer_size s"

text \<open>Two speakers that differ only in their buffers, their level and the bookkeeping of cycles.\<close>

definition same_setup :: "'v speaker \<Rightarrow> 'v speaker \<Rightarrow> bool" where
  "same_setup s s' \<longleftrightarrow> (\<exists>sb rb i j d l.
     s' = s\<lparr>samples_buffer := sb, remainder_buffer := rb, samples_buffer_idx := i, remainder_buffer_idx := j,
            speaker_data := d, cycles_last_update := l\<rparr>)"

lemma same_setup_refl [simp]: "same_setup s s"
  unfolding same_setup_def by (intro exI [of _ "samples_buffer s"] exI [of _ "remainder_buffer s"] exI [of _ "samples_buffer_idx s"]
    exI [of _ "remainder_buffer_idx s"] exI [of _ "speaker_data s"] exI [of _ "cycles_last_update s"]) simp

lemma same_setup_trans: "same_setup s t \<Longrightarrow> same_setup t u \<Longrightarrow> same_setup s u"
  unfolding same_setup_def by (elim exE) (simp, blast)

lemma same_setupI:
  "s' = s\<lparr>samples_buffer := sb, remainder_buffer := rb, samples_buffer_idx := i, remainder_buffer_idx := j,
            speaker_data := d, cycles_last_update := l\<rparr> \<Longrightarrow> same_setup s s'"
  unfolding same_setup_def by blast

lemma same_setupD:
  assumes "same_setup s s'"
  shows "clock s' = clock s" "speed_target s' = speed_target s" "fullspeed s' = fullspeed s"
    "channelsSampleRateHz s' = channelsSampleRateHz s" "remainder_buffer_size s' = remainder_buffer_size s"
    "remainder_buffer_size_max s' = remainder_buffer_size_max s" "cycles_per_sample s' = cycles_per_sample s"
    "speaker_going_silent s' = speaker_going_silent s" "speakerBuffer s' = speakerBuffer s"
    "bufferTotalSize s' = bufferTotalSize s" "bufferSizeIdealMax s' = bufferSizeIdealMax s"
    "speaker_isAvailable s' = speaker_isAvailable s" "total s' = total s" "speaker_amplitude s' = speaker_amplitude s"
    "bufferSizeIdealMin s' = bufferSizeIdealMin s" "samples_adjustment_counter s' = samples_adjustment_counter s"
  using assms by (auto simp: same_setup_def total_def)

section \<open>The loops\<close>

text \<open>What appending to the samples gives: more frames, the old ones unchanged.\<close>

definition extends :: "'v speaker \<Rightarrow> nat \<Rightarrow> 'v speaker \<Rightarrow> bool" where
  "extends s m s' \<longleftrightarrow> same_setup s s' \<and> length (samples_buffer s') = length (samples_buffer s) \<and>
     samples_buffer_idx s' = samples_buffer_idx s + 2 * m \<and>
     take (samples_buffer_idx s) (samples_buffer s') = take (samples_buffer_idx s) (samples_buffer s)"

lemma extends_refl [simp]: "extends s 0 s"
  by (simp add: extends_def)

lemma extends_trans:
  assumes "extends s m t" "extends t n u"
  shows "extends s (m + n) u"
proof -
  have "take (samples_buffer_idx s) (samples_buffer u) = take (samples_buffer_idx s) (take (samples_buffer_idx t) (samples_buffer u))"
    using assms(1) by (simp add: extends_def min_def)
  also have "\<dots> = take (samples_buffer_idx s) (samples_buffer t)"
    using assms unfolding extends_def by (simp add: min_def)
  finally show ?thesis using assms same_setup_trans by (auto simp: extends_def)
qed

lemma put_remainder_ok:
  assumes "remainder_buffer_idx s < length (remainder_buffer s)"
  shows "put_remainder s = Some (s\<lparr>remainder_buffer := (remainder_buffer s)[remainder_buffer_idx s := speaker_data s],
     remainder_buffer_idx := remainder_buffer_idx s + 1\<rparr>)"
  using assms by (simp add: put_remainder_def Let_def)

text \<open>Filling the remainder buffer.\<close>

lemma top_off_ok:
  assumes "remainder_buffer_size s \<le> length (remainder_buffer s)" "remainder_buffer_idx s \<le> remainder_buffer_size s"
  shows "\<exists>rb. length rb = length (remainder_buffer s) \<and>
    top_off d s = Some (d - (remainder_buffer_size s - remainder_buffer_idx s),
      s\<lparr>remainder_buffer := rb, remainder_buffer_idx := min (remainder_buffer_idx s + d) (remainder_buffer_size s)\<rparr>)"
  using assms
proof (induction d arbitrary: s)
  case 0
  then show ?case by (intro exI [of _ "remainder_buffer s"]) (simp add: min_def)
next
  case (Suc d)
  show ?case
  proof (cases "remainder_buffer_idx s < remainder_buffer_size s")
    case True
    define t where "t = s\<lparr>remainder_buffer := (remainder_buffer s)[remainder_buffer_idx s := speaker_data s],
      remainder_buffer_idx := remainder_buffer_idx s + 1\<rparr>"
    have p: "put_remainder s = Some t" using put_remainder_ok [of s] Suc.prems True by (simp add: t_def)
    have "remainder_buffer_size t \<le> length (remainder_buffer t)" "remainder_buffer_idx t \<le> remainder_buffer_size t"
      using Suc.prems True by (simp_all add: t_def)
    from Suc.IH [OF this] obtain rb where rb: "length rb = length (remainder_buffer t)"
      "top_off d t = Some (d - (remainder_buffer_size t - remainder_buffer_idx t),
        t\<lparr>remainder_buffer := rb, remainder_buffer_idx := min (remainder_buffer_idx t + d) (remainder_buffer_size t)\<rparr>)" by blast
    have "top_off (Suc d) s = top_off d t" using True p by simp
    then show ?thesis using rb True by (intro exI [of _ rb]) (simp add: t_def)
  next
    case False
    then show ?thesis using Suc.prems by (intro exI [of _ "remainder_buffer s"]) (simp add: min_def)
  qed
qed

lemma keep_remainder_ok:
  assumes "remainder_buffer_idx s + n \<le> length (remainder_buffer s)"
  shows "\<exists>rb. length rb = length (remainder_buffer s) \<and>
    keep_remainder n s = Some (s\<lparr>remainder_buffer := rb, remainder_buffer_idx := remainder_buffer_idx s + n\<rparr>)"
  using assms
proof (induction n arbitrary: s)
  case 0
  then show ?case by (intro exI [of _ "remainder_buffer s"]) simp
next
  case (Suc n)
  define t where "t = s\<lparr>remainder_buffer := (remainder_buffer s)[remainder_buffer_idx s := speaker_data s],
    remainder_buffer_idx := remainder_buffer_idx s + 1\<rparr>"
  have p: "put_remainder s = Some t" using put_remainder_ok [of s] Suc.prems by (simp add: t_def)
  have "remainder_buffer_idx t + n \<le> length (remainder_buffer t)" using Suc.prems by (simp add: t_def)
  from Suc.IH [OF this] obtain rb where "length rb = length (remainder_buffer t)"
    "keep_remainder n t = Some (t\<lparr>remainder_buffer := rb, remainder_buffer_idx := remainder_buffer_idx t + n\<rparr>)" by blast
  then show ?case using p by (intro exI [of _ rb]) (simp add: t_def)
qed

text \<open>One frame: the same sample for both channels.\<close>

lemma put_frame:
  assumes "samples_buffer_idx s + 1 < length (samples_buffer s)"
  shows "\<exists>s'. put_sample w s \<bind> put_sample w = Some s' \<and> extends s 1 s' \<and> speaker_data s' = speaker_data s \<and>
    remainder_buffer s' = remainder_buffer s \<and> remainder_buffer_idx s' = remainder_buffer_idx s \<and>
    (\<forall>i. samples_buffer_idx s \<le> i \<and> i < samples_buffer_idx s + 2 \<longrightarrow> samples_buffer s' ! i = w)"
proof -
  let ?i = "samples_buffer_idx s"
  define s' where "s' = s\<lparr>samples_buffer := (samples_buffer s)[?i := w, ?i + 1 := w], samples_buffer_idx := ?i + 2\<rparr>"
  have "put_sample w s \<bind> put_sample w = Some s'" using assms by (simp add: put_sample_def Let_def s'_def)
  moreover have "same_setup s s'"
    by (rule same_setupI [where rb = "remainder_buffer s" and j = "remainder_buffer_idx s" and d = "speaker_data s" and
        l = "cycles_last_update s"])
      (simp add: s'_def)
  moreover have "samples_buffer s' ! i = w" if "?i \<le> i" "i < ?i + 2" for i
    using that assms by (cases "i = ?i") (auto simp: s'_def nth_list_update)
  ultimately show ?thesis by (intro exI [of _ s']) (simp add: extends_def s'_def)
qed

lemma frame_fits:
  assumes "even (i :: nat)" "even n" "i < n"
  shows "i + 1 < n"
  using assms by presburger

definition frames_ok :: "'v speaker \<Rightarrow> bool" where
  "frames_ok s \<longleftrightarrow> length (samples_buffer s) = channelsSampleRateHz s \<and> even (channelsSampleRateHz s) \<and>
     even (samples_buffer_idx s) \<and> samples_buffer_idx s \<le> channelsSampleRateHz s"

lemma frames_extend:
  "frames_ok s \<Longrightarrow> extends s m s' \<Longrightarrow> samples_buffer_idx s' \<le> channelsSampleRateHz s \<Longrightarrow> frames_ok s'"
  by (auto simp: frames_ok_def extends_def same_setupD)

lemma quieten_keeps:
  "extends s m (quieten s') = extends s m s'" "samples_buffer (quieten s') = samples_buffer s'"
  "samples_buffer_idx (quieten s') = samples_buffer_idx s'" "remainder_buffer_idx (quieten s') = remainder_buffer_idx s'"
  "remainder_buffer (quieten s') = remainder_buffer s'" "frames_ok (quieten s') = frames_ok s'"
proof -
  have "\<exists>e. quieten s' = s'\<lparr>speaker_data := e\<rparr>"
  proof (cases "speaker_going_silent s' \<and> speaker_data s' \<noteq> 0")
    case True
    then show ?thesis unfolding quieten_def if_P [OF True] by blast
  next
    case False
    then show ?thesis unfolding quieten_def if_not_P [OF False] by (intro exI [of _ "speaker_data s'"]) simp
  qed
  then obtain e where e: "quieten s' = s'\<lparr>speaker_data := e\<rparr>" by blast
  have "same_setup s' (quieten s')"
    by (rule same_setupI [where sb = "samples_buffer s'" and rb = "remainder_buffer s'" and i = "samples_buffer_idx s'" and
        j = "remainder_buffer_idx s'" and l = "cycles_last_update s'" and d = e]) (simp add: e)
  moreover have "same_setup (quieten s') s'"
    by (rule same_setupI [where sb = "samples_buffer s'" and rb = "remainder_buffer s'" and i = "samples_buffer_idx s'" and
        j = "remainder_buffer_idx s'" and l = "cycles_last_update s'" and d = "speaker_data s'"]) (simp add: e)
  ultimately have "same_setup s (quieten s') = same_setup s s'" by (meson same_setup_trans)
  then show "extends s m (quieten s') = extends s m s'" by (simp add: extends_def quieten_def)
qed (simp_all add: quieten_def frames_ok_def)

lemma emit_samples_ok:
  assumes "frames_ok s"
  shows "\<exists>m s'. emit_samples n s = Some s' \<and> extends s m s' \<and> m \<le> n \<and> frames_ok s' \<and>
    remainder_buffer s' = remainder_buffer s \<and> remainder_buffer_idx s' = remainder_buffer_idx s \<and>
    (samples_buffer_idx s + 2 * n \<le> channelsSampleRateHz s \<longrightarrow> m = n) \<and>
    (\<not> speaker_going_silent s \<longrightarrow> speaker_data s' = speaker_data s \<and>
       (\<forall>i. samples_buffer_idx s \<le> i \<and> i < samples_buffer_idx s' \<longrightarrow> samples_buffer s' ! i = speaker_data s))"
  using assms
proof (induction n arbitrary: s)
  case 0
  then show ?case by (intro exI [of _ 0] exI [of _ s]) auto
next
  case (Suc n)
  show ?case
  proof (cases "samples_buffer_idx s < channelsSampleRateHz s")
    case False
    then show ?thesis using Suc.prems by (intro exI [of _ 0] exI [of _ s]) (auto simp: frames_ok_def)
  next
    case True
    have f: "samples_buffer_idx s + 1 < length (samples_buffer s)"
      using Suc.prems True frame_fits by (auto simp: frames_ok_def)
    obtain t where t: "put_sample (speaker_data s) s \<bind> put_sample (speaker_data s) = Some t" "extends s 1 t"
      "speaker_data t = speaker_data s" "remainder_buffer t = remainder_buffer s" "remainder_buffer_idx t = remainder_buffer_idx s"
      "\<And>i. samples_buffer_idx s \<le> i \<Longrightarrow> i < samples_buffer_idx s + 2 \<Longrightarrow> samples_buffer t ! i = speaker_data s"
      using put_frame [OF f, of "speaker_data s"] by blast
    have u: "frames_ok (quieten t)" "extends s 1 (quieten t)"
      using Suc.prems f t(2) by (auto simp: quieten_keeps intro!: frames_extend [OF Suc.prems t(2)])
        (simp add: extends_def frames_ok_def)
    have q: "samples_buffer_idx (quieten t) = samples_buffer_idx s + 2" "speaker_going_silent (quieten t) = speaker_going_silent s"
      "channelsSampleRateHz (quieten t) = channelsSampleRateHz s" "samples_buffer (quieten t) = samples_buffer t"
      using u(2) same_setupD [of s "quieten t"] by (simp_all add: extends_def quieten_keeps)
    obtain m s' where s': "emit_samples n (quieten t) = Some s'" "extends (quieten t) m s'" "m \<le> n" "frames_ok s'"
      "remainder_buffer s' = remainder_buffer t" "remainder_buffer_idx s' = remainder_buffer_idx t"
      "samples_buffer_idx (quieten t) + 2 * n \<le> channelsSampleRateHz (quieten t) \<Longrightarrow> m = n"
      "\<not> speaker_going_silent (quieten t) \<Longrightarrow> speaker_data s' = speaker_data (quieten t)"
      "\<And>i. \<not> speaker_going_silent (quieten t) \<Longrightarrow> samples_buffer_idx (quieten t) \<le> i \<Longrightarrow> i < samples_buffer_idx s' \<Longrightarrow>
        samples_buffer s' ! i = speaker_data (quieten t)"
      using Suc.IH [OF u(1)] by (auto simp: quieten_keeps)
    have chain: "put_sample (speaker_data s) s \<bind> (\<lambda>s. put_sample (speaker_data s) s) = Some t"
      using t(1) by (auto simp: put_sample_def Let_def bind_eq_Some_conv)
    have e: "emit_samples (Suc n) s = Some s'" using True chain s'(1) by simp
    have x: "extends s (Suc m) s'" using extends_trans [OF u(2) s'(2)] by simp
    have vals: "speaker_data s' = speaker_data s \<and>
      (\<forall>i. samples_buffer_idx s \<le> i \<and> i < samples_buffer_idx s' \<longrightarrow> samples_buffer s' ! i = speaker_data s)"
      if ng: "\<not> speaker_going_silent s"
    proof (intro conjI allI impI)
      have d: "speaker_data (quieten t) = speaker_data s" using ng t(2,3) same_setupD(8) [of s t]
        by (simp add: quieten_def extends_def)
      show "speaker_data s' = speaker_data s" using s'(8) ng q(2) d by simp
      fix i assume i: "samples_buffer_idx s \<le> i \<and> i < samples_buffer_idx s'"
      show "samples_buffer s' ! i = speaker_data s"
      proof (cases "i < samples_buffer_idx s + 2")
        case True
        have "samples_buffer s' ! i = take (samples_buffer_idx (quieten t)) (samples_buffer s') ! i" using True q(1) by simp
        also have "\<dots> = samples_buffer t ! i" using s'(2) True q by (simp add: extends_def)
        finally show ?thesis using t(6) i True by simp
      next
        case False
        then show ?thesis using s'(9) ng q i d by simp
      qed
    qed
    have "samples_buffer_idx s + 2 * Suc n \<le> channelsSampleRateHz s \<longrightarrow> Suc m = Suc n" using s'(7) q by simp
    then show ?thesis using e x s'(3-6) t(4,5) vals by (intro exI [of _ "Suc m"] exI [of _ s']) simp
  qed
qed

section \<open>An update\<close>

lemma buffers_frames: "buffers_ok s \<Longrightarrow> frames_ok s"
  by (simp add: buffers_ok_def frames_ok_def)

lemma buffers_okI:
  assumes "buffers_ok s" "same_setup s s'" "frames_ok s'" "length (remainder_buffer s') = length (remainder_buffer s)"
    "remainder_buffer_idx s' < remainder_buffer_size s"
  shows "buffers_ok s'"
  using assms same_setupD [OF assms(2)] by (auto simp: buffers_ok_def frames_ok_def)

lemma complete_remainder_ok:
  assumes "buffers_ok t" "s = t\<lparr>remainder_buffer := rb, remainder_buffer_idx := remainder_buffer_size t\<rparr>"
    "length rb = length (remainder_buffer t)"
  shows "\<exists>k u. complete_remainder s = Some u \<and> extends t k u \<and> k \<le> 1 \<and> frames_ok u \<and> remainder_buffer u = rb \<and>
    remainder_buffer_idx u = 0 \<and> speaker_data u = speaker_data t \<and> (samples_buffer_idx t < channelsSampleRateHz t \<longrightarrow> k = 1)"
proof -
  define r where "r = s\<lparr>remainder_buffer_idx := 0\<rparr>"
  define w where "w = (word_of_int (trunc_div (sum_list (map sint (take (remainder_buffer_size t) rb)))
    (int (remainder_buffer_size t))) :: sample)"
  have same: "same_setup t r" unfolding r_def assms(2)
    by (rule same_setupI [where sb = "samples_buffer t" and rb = rb and i = "samples_buffer_idx t" and j = 0 and
        d = "speaker_data t" and l = "cycles_last_update t"]) simp
  have r: "extends t 0 r" "frames_ok r" "remainder_buffer r = rb" "remainder_buffer_idx r = 0" "speaker_data r = speaker_data t"
    "samples_buffer_idx r = samples_buffer_idx t" "channelsSampleRateHz r = channelsSampleRateHz t"
    using assms same by (auto simp: r_def extends_def buffers_ok_def frames_ok_def)
  have c: "complete_remainder s = (if samples_buffer_idx r < channelsSampleRateHz r then put_sample w r \<bind> put_sample w else Some r)"
    using assms unfolding complete_remainder_def r_def w_def by (simp add: Let_def buffers_ok_def cong: if_cong)
  show ?thesis
  proof (cases "samples_buffer_idx r < channelsSampleRateHz r")
    case True
    then have f: "samples_buffer_idx r + 1 < length (samples_buffer r)" using r(2) frame_fits by (auto simp: frames_ok_def)
    obtain u where u: "put_sample w r \<bind> put_sample w = Some u" "extends r 1 u" "speaker_data u = speaker_data r"
      "remainder_buffer u = remainder_buffer r" "remainder_buffer_idx u = remainder_buffer_idx r"
      using put_frame [OF f, of w] by blast
    have "frames_ok u" using f u(2) r(2) by (intro frames_extend [OF r(2) u(2)]) (simp add: extends_def frames_ok_def)
    then show ?thesis using c True u r extends_trans [OF r(1) u(2)] by (intro exI [of _ 1] exI [of _ u]) simp
  next
    case False
    then show ?thesis using c r by (intro exI [of _ 0] exI [of _ r]) simp
  qed
qed

text \<open>The first part: \<open>j\<close> counts the samples completed, \<open>k\<close> those that found room.\<close>

definition topped :: "nat \<Rightarrow> 'v speaker \<Rightarrow> (nat \<times> 'v speaker) option" where
  "topped cycles_diff s =
    (if 0 < remainder_buffer_idx s then do {
       (cycles_diff, s) \<leftarrow> top_off cycles_diff s;
       s \<leftarrow> complete_remainder s;
       Some (cycles_diff, s)
     } else Some (cycles_diff, s))"

lemma topped_ok:
  assumes "buffers_ok s"
  shows "\<exists>d' t j k. topped d s = Some (d', t) \<and> extends s k t \<and> frames_ok t \<and> speaker_data t = speaker_data s \<and>
    length (remainder_buffer t) = length (remainder_buffer s) \<and> (remainder_buffer_idx t = 0 \<or> d' = 0) \<and>
    remainder_buffer_idx t < remainder_buffer_size s \<and> k \<le> j \<and> j \<le> 1 \<and> (remainder_buffer_idx s = 0 \<longrightarrow> j = 0) \<and> d' \<le> d \<and>
    remainder_buffer_idx t + d' + remainder_buffer_size s * j = remainder_buffer_idx s + d \<and>
    (samples_buffer_idx s < channelsSampleRateHz s \<longrightarrow> k = j)"
proof (cases "0 < remainder_buffer_idx s")
  case False
  have "topped d s = Some (d, s)" using False by (simp add: topped_def)
  then show ?thesis using assms False
    by (intro exI [of _ d] exI [of _ s] exI [of _ 0] exI [of _ 0]) (simp add: buffers_frames buffers_ok_def)
next
  case True
  let ?z = "remainder_buffer_size s" and ?i = "remainder_buffer_idx s"
  have i: "?i < ?z" "?z \<le> length (remainder_buffer s)" using assms by (auto simp: buffers_ok_def)
  obtain rb where rb: "length rb = length (remainder_buffer s)"
    "top_off d s = Some (d - (?z - ?i), s\<lparr>remainder_buffer := rb, remainder_buffer_idx := min (?i + d) ?z\<rparr>)"
    using top_off_ok [of s d] i by auto
  show ?thesis
  proof (cases "?i + d < ?z")
    case less: True
    let ?t = "s\<lparr>remainder_buffer := rb, remainder_buffer_idx := ?i + d\<rparr>"
    have "topped d s = Some (0, ?t)" using True rb(2) less by (simp add: topped_def complete_remainder_def)
    moreover have "same_setup s ?t"
      by (rule same_setupI [where sb = "samples_buffer s" and i = "samples_buffer_idx s" and
        d = "speaker_data s" and l = "cycles_last_update s"]) simp
    ultimately show ?thesis using buffers_frames [OF assms] rb(1) less
      by (intro exI [of _ 0] exI [of _ ?t] exI [of _ 0] exI [of _ 0]) (simp add: extends_def frames_ok_def)
  next
    case False
    let ?s = "s\<lparr>remainder_buffer := rb, remainder_buffer_idx := ?z\<rparr>"
    obtain k u where u: "complete_remainder ?s = Some u" "extends s k u" "k \<le> 1" "frames_ok u" "remainder_buffer u = rb"
      "remainder_buffer_idx u = 0" "speaker_data u = speaker_data s" "samples_buffer_idx s < channelsSampleRateHz s \<longrightarrow> k = 1"
      using complete_remainder_ok [OF assms refl rb(1)] by blast
    have "topped d s = Some (d - (?z - ?i), u)" using True rb(2) False u(1) by (simp add: topped_def)
    then show ?thesis using u False i rb(1) \<open>0 < ?i\<close>
      by - (rule exI [of _ "d - (?z - ?i)"], rule exI [of _ u], rule exI [of _ 1], rule exI [of _ k], simp)
  qed
qed

lemma speaker_update_topped:
  assumes "\<not> fullspeed s" "cycles_last_update s \<le> total s" "topped (total s - cycles_last_update s) s = Some (d, t)"
    "cycles_per_sample t \<noteq> 0"
    "n = to_unsigned (rnd (rnd (of_nat d) / cycles_per_sample t))"
    "r = to_unsigned (rnd (rnd (of_nat d) - rnd (rnd (of_nat n) * cycles_per_sample t)))"
    "emit_samples n t = Some u"
    "keep_rest r u = Some w"
  shows "speaker_update s = Some (w\<lparr>cycles_last_update := total w\<rparr>)"
proof -
  have "\<not> (fullspeed s \<or> cycles_last_update s > total s)" using assms(1,2) by simp
  then show ?thesis unfolding speaker_update_def topped_def [symmetric] Let_def
    by (simp add: assms(3,4,7) assms(5,6) [symmetric] assms(8))
qed

text \<open>Whatever happens, an update stays within the arrays; below full speed it makes one frame of every
  \<open>remainder_buffer_size\<close> cycles for which there is room.\<close>

lemma update_frames:
  assumes "buffers_ok s" "\<not> fullspeed s" "cycles_last_update s \<le> total s"
  shows "\<exists>w m. speaker_update s = Some w \<and> buffers_ok w \<and> extends s m w \<and> cycles_last_update w = total s \<and>
    (let d = total s - cycles_last_update s; z = remainder_buffer_size s; c = remainder_buffer_idx s + d in
     d < 2 ^ 53 \<longrightarrow> remainder_buffer_idx w = c mod z \<and>
       (samples_buffer_idx s + 2 * (c div z) \<le> channelsSampleRateHz s \<longrightarrow> m = c div z) \<and>
       (\<not> speaker_going_silent s \<longrightarrow> speaker_data w = speaker_data s \<and>
         (\<forall>i. samples_buffer_idx s + (if remainder_buffer_idx s = 0 then 0 else 2) \<le> i \<and> i < samples_buffer_idx w \<longrightarrow>
            samples_buffer w ! i = speaker_data s)))"
proof -
  define d where "d = total s - cycles_last_update s"
  define z where "z = remainder_buffer_size s"
  obtain d' t j k where t: "topped d s = Some (d', t)" "extends s k t" "frames_ok t" "speaker_data t = speaker_data s"
    "length (remainder_buffer t) = length (remainder_buffer s)" "remainder_buffer_idx t = 0 \<or> d' = 0"
    "remainder_buffer_idx t < z" "k \<le> j" "d' \<le> d" "remainder_buffer_idx t + d' + z * j = remainder_buffer_idx s + d"
    "samples_buffer_idx s < channelsSampleRateHz s \<longrightarrow> k = j" "j \<le> 1" "remainder_buffer_idx s = 0 \<longrightarrow> j = 0"
    using topped_ok [OF assms(1), of d, folded z_def] by (elim exE conjE) (rule that)
  have st: "same_setup s t" using t(2) by (simp add: extends_def)
  note ts = same_setupD [OF st]
  have z: "0 < z" "cycles_per_sample t = of_nat z" using assms(1) ts by (auto simp: buffers_ok_def z_def)
  define n where "n = to_unsigned (rnd (rnd (of_nat d') / cycles_per_sample t))"
  define r where "r = to_unsigned (rnd (rnd (of_nat d') - rnd (rnd (of_nat n) * cycles_per_sample t)))"
  obtain m u where u: "emit_samples n t = Some u" "extends t m u" "m \<le> n" "frames_ok u" "remainder_buffer u = remainder_buffer t"
    "remainder_buffer_idx u = remainder_buffer_idx t" "samples_buffer_idx t + 2 * n \<le> channelsSampleRateHz t \<longrightarrow> m = n"
    "\<not> speaker_going_silent t \<longrightarrow> speaker_data u = speaker_data t \<and>
      (\<forall>i. samples_buffer_idx t \<le> i \<and> i < samples_buffer_idx u \<longrightarrow> samples_buffer u ! i = speaker_data t)"
    using emit_samples_ok [OF t(3), of n] by (elim exE conjE) (rule that)
  have su: "extends s (k + m) u" using extends_trans [OF t(2) u(2)] .
  then have "same_setup s u" by (simp add: extends_def)
  note us = same_setupD [OF this]
  have zero: "d' = 0 \<Longrightarrow> r = 0 \<and> n = 0" using z by (simp add: n_def r_def to_unsigned_def)
  have "\<exists>rb i. keep_rest r u =
      Some (u\<lparr>remainder_buffer := rb, remainder_buffer_idx := i\<rparr>) \<and> length rb = length (remainder_buffer u) \<and> i < z \<and>
      i = (if 0 < r \<and> r < z then r else remainder_buffer_idx u)"
  proof (cases "0 < r \<and> r < z")
    case True
    then have i: "remainder_buffer_idx u = 0" using zero t(6) u(6) by auto
    have "remainder_buffer_idx u + r \<le> length (remainder_buffer u)"
      using True i assms(1) t(5) u(5) by (simp add: buffers_ok_def z_def)
    from keep_remainder_ok [OF this] obtain rb where "length rb = length (remainder_buffer u)"
      "keep_remainder r u = Some (u\<lparr>remainder_buffer := rb, remainder_buffer_idx := r\<rparr>)" using i by auto
    then show ?thesis using True i us by (intro exI [of _ rb] exI [of _ r]) (simp add: z_def keep_rest_def)
  next
    case False
    have "remainder_buffer_idx u = 0" if "0 < r" using zero t(6) u(6) that by auto
    then show ?thesis using False us t(7) u(6)
      by (intro exI [of _ "remainder_buffer u"] exI [of _ "remainder_buffer_idx u"]) (auto simp: z_def keep_rest_def)
  qed
  then obtain rb i where i: "keep_rest r u =
      Some (u\<lparr>remainder_buffer := rb, remainder_buffer_idx := i\<rparr>)" "length rb = length (remainder_buffer u)" "i < z"
      "i = (if 0 < r \<and> r < z then r else remainder_buffer_idx u)" by (elim exE conjE) (rule that)
  define w where "w = u\<lparr>remainder_buffer := rb, remainder_buffer_idx := i, cycles_last_update := total s\<rparr>"
  have upd: "speaker_update s = Some w"
  proof -
    have "cycles_per_sample t \<noteq> 0" using z by simp
    from speaker_update_topped [OF assms(2,3) t(1) [unfolded d_def] this n_def r_def u(1) i(1)]
    show ?thesis using us by (simp add: w_def total_def)
  qed
  have uw: "same_setup u w" unfolding w_def
    by (rule same_setupI [where sb = "samples_buffer u" and i = "samples_buffer_idx u" and d = "speaker_data u"]) simp
  have w: "extends s (k + m) w" "frames_ok w" using extends_trans [OF su, of 0 w] uw u(4)
    by (simp_all add: extends_def w_def frames_ok_def)
  have ok: "buffers_ok w"
    by (rule buffers_okI [OF assms(1) _ w(2)]) (use w(1) i(2,3) u(5) t(5) in \<open>simp_all add: extends_def w_def z_def\<close>)
  have count: "i = (remainder_buffer_idx s + d) mod z" "n = d' div z" "(remainder_buffer_idx s + d) div z = j + n" if "d < 2 ^ 53"
  proof -
    have b: "d' < 2 ^ 53" using that t(9) by simp
    have e: "rnd (of_nat d') = of_nat d'" using fl_nat [of d' 53] b by simp
    show n: "n = d' div z" using double_quotient [OF b z(1)] by (simp add: n_def e z(2))
    have "n * z \<le> d'" "n \<le> d'" by (simp_all add: n)
    then have "rnd (rnd (of_nat n) * of_nat z) = of_nat (n * z)" using b fl_nat [of n 53] double_product [of n z] by simp
    moreover have "rnd (of_nat d' - of_nat (n * z)) = of_nat (d' - n * z)"
      using fl_nat [of "d' - n * z" 53] b \<open>n * z \<le> d'\<close> by (simp add: of_nat_diff)
    ultimately have "r = d' - n * z" unfolding r_def e z(2) by simp
    then have r: "r = d' mod z" by (simp add: n minus_div_mult_eq_mod)
    have rest: "remainder_buffer_idx s + d = (remainder_buffer_idx t + d') + z * j" using t(10) by simp
    have dm: "(remainder_buffer_idx t + d') mod z = (if d' = 0 then remainder_buffer_idx t else d' mod z)"
      "(remainder_buffer_idx t + d') div z = d' div z" using t(6,7) by auto
    have "i = (remainder_buffer_idx t + d') mod z" unfolding dm(1) using i(4) r t(6) u(6) z(1) by (auto simp: zero)
    then show "i = (remainder_buffer_idx s + d) mod z" unfolding rest by simp
    show "(remainder_buffer_idx s + d) div z = j + n" unfolding rest using dm(2) n z(1) by simp
  qed
  have full: "k + m = (remainder_buffer_idx s + d) div z"
    if "d < 2 ^ 53" "samples_buffer_idx s + 2 * ((remainder_buffer_idx s + d) div z) \<le> channelsSampleRateHz s"
  proof -
    have c: "samples_buffer_idx s + 2 * (j + n) \<le> channelsSampleRateHz s" using that count(3) by simp
    have k: "k = j"
    proof (cases "j = 0")
      case False
      then have "samples_buffer_idx s < channelsSampleRateHz s" using c by (cases j) auto
      then show ?thesis using t(11) by simp
    qed (use t(8) in simp)
    have "samples_buffer_idx t + 2 * n \<le> channelsSampleRateHz t" using c k t(2) ts by (simp add: extends_def)
    then show ?thesis using u(7) k count(3) that(1) by simp
  qed
  have vals: "speaker_data w = speaker_data s \<and> (\<forall>x. samples_buffer_idx s + (if remainder_buffer_idx s = 0 then 0 else 2) \<le> x \<and>
      x < samples_buffer_idx w \<longrightarrow> samples_buffer w ! x = speaker_data s)" if "\<not> speaker_going_silent s"
  proof (intro conjI allI impI)
    have g: "\<not> speaker_going_silent t" using that ts by simp
    show "speaker_data w = speaker_data s" using u(8) g t(4) by (simp add: w_def)
    fix x assume x: "samples_buffer_idx s + (if remainder_buffer_idx s = 0 then 0 else 2) \<le> x \<and> x < samples_buffer_idx w"
    have "k = 0" if "remainder_buffer_idx s = 0" using t(8,13) that by simp
    moreover have "k \<le> 1" using t(8,12) by simp
    ultimately have "samples_buffer_idx t \<le> x" using x t(2) by (auto simp: extends_def split: if_splits)
    then show "samples_buffer w ! x = speaker_data s" using u(8) g x t(4) by (simp add: w_def)
  qed
  show ?thesis
    using upd ok w(1) count(1) full vals unfolding Let_def d_def [symmetric] z_def [symmetric]
    by (intro exI [of _ w] exI [of _ "k + m"]) (simp add: w_def)
qed

section \<open>The backend\<close>

text \<open>What the speaker needs of a voice: it can be asked for its position; of a lock for whole samples it may grant
  fewer, and what was granted can be filled and unlocked.\<close>

locale audio_backend =
  fixes ab :: "'v audio_buffer" and ok :: "'v \<Rightarrow> bool"
  assumes position: "ok v \<Longrightarrow> \<exists>e p w. GetCurrentPosition ab v = Some (e, p, w) \<and> ok w"
    and handed: "ok v \<Longrightarrow> 0 < n \<Longrightarrow> even n \<Longrightarrow> \<exists>r w. Lock ab n v = Some (r, w) \<and> ok w \<and>
      (\<forall>p m. r = Some (p, m) \<longrightarrow> m \<le> n \<and> even m \<and>
        (\<forall>bs. length bs = m \<longrightarrow> (\<exists>x b y. Fill ab p bs w = Some x \<and> Unlock ab m x = Some (b, y) \<and> ok y)))"

lemma length_sample_bytes [simp]: "length (sample_bytes w) = 2"
  by (simp add: sample_bytes_def)

lemma length_sound: "length (concat (map sample_bytes ws)) = 2 * length ws"
  by (induction ws) simp_all

lemma length_buffer_bytes [simp]: "length (buffer_bytes s) = 2 * length (samples_buffer s)"
  by (simp add: buffer_bytes_def length_sound)

lemma length_samples_of [simp]: "length (samples_of bs) = length bs div 2"
  by (induction bs rule: samples_of.induct) simp_all

text \<open>A speaker in use: its voice is in order, a buffer of samples takes what the voice holds, and at full speed
  nothing is pending.\<close>

definition speaker_ok :: "('v \<Rightarrow> bool) \<Rightarrow> 'v speaker \<Rightarrow> bool" where
  "speaker_ok ok s \<longleftrightarrow> cycles_checkpoint_count (clock s) \<le> cpu65_cycle_count (clock s) \<and>
     (speaker_isAvailable s \<longrightarrow> buffers_ok s \<and> bufferTotalSize s \<le> channelsSampleRateHz s \<and> channelsSampleRateHz s < 2 ^ 32 \<and> 4 dvd bufferTotalSize s \<and>
        (\<exists>v. speakerBuffer s = Some v \<and> ok v) \<and> (fullspeed s \<longrightarrow> samples_buffer_idx s = 0))"

definition same_speed :: "'v speaker \<Rightarrow> 'v speaker \<Rightarrow> bool" where
  "same_speed s s' \<longleftrightarrow> bufferTotalSize s' = bufferTotalSize s \<and> remainder_buffer_size_max s' = remainder_buffer_size_max s \<and>
     speaker_isAvailable s' = speaker_isAvailable s \<and> speed_target s' = speed_target s"

text \<open>The position the voice reports is that of whole frames within its buffer.\<close>

definition reports_frames :: "'v audio_buffer \<Rightarrow> 'v speaker \<Rightarrow> bool" where
  "reports_frames ab s \<longleftrightarrow> (\<forall>v e p w. speakerBuffer s = Some v \<longrightarrow> GetCurrentPosition ab v = Some (e, p, w) \<longrightarrow>
     p \<le> bufferTotalSize s \<and> 4 dvd p)"

lemma buffers_ok_cong:
  assumes "samples_buffer s' = samples_buffer s" "channelsSampleRateHz s' = channelsSampleRateHz s"
    "samples_buffer_idx s' = samples_buffer_idx s" "remainder_buffer s' = remainder_buffer s"
    "remainder_buffer_size_max s' = remainder_buffer_size_max s" "remainder_buffer_size s' = remainder_buffer_size s"
    "cycles_per_sample s' = cycles_per_sample s" "remainder_buffer_idx s' = remainder_buffer_idx s"
  shows "buffers_ok s' = buffers_ok s"
  unfolding buffers_ok_def assms ..

lemma update_ok:
  assumes "buffers_ok s"
  shows "\<exists>w. speaker_update s = Some w \<and> buffers_ok w \<and> same_setup s w \<and> (fullspeed s \<longrightarrow> samples_buffer_idx w = samples_buffer_idx s)"
proof (cases "fullspeed s \<or> cycles_last_update s > total s")
  case True
  have "same_setup s (s\<lparr>cycles_last_update := total s\<rparr>)"
    by (rule same_setupI [where sb = "samples_buffer s" and rb = "remainder_buffer s" and i = "samples_buffer_idx s" and
      j = "remainder_buffer_idx s" and d = "speaker_data s"]) simp
  then show ?thesis using True assms by (simp add: speaker_update_def buffers_ok_def)
next
  case False
  then show ?thesis using update_frames [OF assms] by (auto simp: extends_def not_less)
qed

lemma note_quiet_keeps:
  "samples_buffer (note_quiet s) = samples_buffer s" "channelsSampleRateHz (note_quiet s) = channelsSampleRateHz s"
  "samples_buffer_idx (note_quiet s) = samples_buffer_idx s" "remainder_buffer (note_quiet s) = remainder_buffer s"
  "remainder_buffer_size_max (note_quiet s) = remainder_buffer_size_max s" "clock (note_quiet s) = clock s"
  "remainder_buffer_size (note_quiet s) = remainder_buffer_size s" "fullspeed (note_quiet s) = fullspeed s"
  "cycles_per_sample (note_quiet s) = cycles_per_sample s" "remainder_buffer_idx (note_quiet s) = remainder_buffer_idx s"
  "speakerBuffer (note_quiet s) = speakerBuffer s" "bufferTotalSize (note_quiet s) = bufferTotalSize s"
  "speaker_isAvailable (note_quiet s) = speaker_isAvailable s" "speaker_data (note_quiet s) = speaker_data s"
  "speaker_amplitude (note_quiet s) = speaker_amplitude s" "speed_target (note_quiet s) = speed_target s"
  unfolding note_quiet_def Let_def by simp_all

lemma adjust_keeps:
  "samples_buffer (adjust_counter q s) = samples_buffer s" "channelsSampleRateHz (adjust_counter q s) = channelsSampleRateHz s"
  "samples_buffer_idx (adjust_counter q s) = samples_buffer_idx s" "remainder_buffer (adjust_counter q s) = remainder_buffer s"
  "remainder_buffer_size_max (adjust_counter q s) = remainder_buffer_size_max s" "clock (adjust_counter q s) = clock s"
  "remainder_buffer_size (adjust_counter q s) = remainder_buffer_size s" "fullspeed (adjust_counter q s) = fullspeed s"
  "cycles_per_sample (adjust_counter q s) = cycles_per_sample s" "remainder_buffer_idx (adjust_counter q s) = remainder_buffer_idx s"
  "speakerBuffer (adjust_counter q s) = speakerBuffer s" "bufferTotalSize (adjust_counter q s) = bufferTotalSize s"
  "speaker_isAvailable (adjust_counter q s) = speaker_isAvailable s" "speed_target (adjust_counter q s) = speed_target s"
  unfolding adjust_counter_def Let_def by simp_all

lemma speaker_checkpoint_ok:
  assumes "cycles_checkpoint_count (clock s) \<le> cpu65_cycle_count (clock s)"
  shows "\<exists>v. checkpoint s = Some (s\<lparr>clock := v\<rparr>) \<and> cycles_checkpoint_count v \<le> cpu65_cycle_count v"
proof -
  obtain v where "timing_checkpointCycles (clock s) = Some v" "cycles_checkpoint_count v \<le> cpu65_cycle_count v"
    using assms by (simp add: timing_checkpointCycles_def Let_def)
  then show ?thesis by (auto simp: checkpoint_def)
qed

context audio_backend
begin

text \<open>Handing over in two parts stays within the samples as long as no more is asked than the buffer has samples.\<close>

lemma send_one:
  assumes "speakerBuffer s = Some v" "ok v" "0 < c" "even c" "c \<le> 2 * channelsSampleRateHz s" "c < 2 ^ 64"
    "2 * i + c \<le> 2 * length (samples_buffer s)"
  shows "\<exists>m b w. m \<le> c \<and> even m \<and> ok w \<and>
    send_chunks ab (Suc k) c i R s = (if b \<and> i + m < R
      then send_chunks ab k (c - m) (i + m) R (s\<lparr>speakerBuffer := Some w\<rparr>) else Some (s\<lparr>speakerBuffer := Some w\<rparr>))"
proof -
  obtain r w where w: "Lock ab c v = Some (r, w)" "ok w" "\<And>p m. r = Some (p, m) \<Longrightarrow> m \<le> c \<and> even m \<and>
      (\<forall>bs. length bs = m \<longrightarrow> (\<exists>x b y. Fill ab p bs w = Some x \<and> Unlock ab m x = Some (b, y) \<and> ok y))"
    using handed [OF assms(2-4)] by blast
  show ?thesis
  proof (cases r)
    case None
    then show ?thesis using assms(1) w(1,2) by (intro exI [of _ 0] exI [of _ False] exI [of _ w]) simp
  next
    case (Some q)
    then obtain p m where r: "r = Some (p, m)" by (cases q) auto
    have m: "m \<le> c" "even m" using w(3) [OF r] by auto
    let ?bs = "take m (drop (2 * i) (buffer_bytes s))"
    have "length ?bs = m" using m(1) assms(7) by simp
    then obtain x b y where x: "Fill ab p ?bs w = Some x" "Unlock ab m x = Some (b, y)" "ok y" using w(3) [OF r] by blast
    have src: "source_bytes i m s = Some ?bs" using m(1) assms(7) by (simp add: source_bytes_def Let_def)
    have n: "min m (channelsSampleRateHz s * 2) = m" "\<not> channelsSampleRateHz s * 2 < m" using m(1) assms(5) by auto
    have "int c < 2 ^ 64" using assms(6) by (metis of_nat_less_iff of_nat_numeral of_nat_power)
    then have "(int c - int m) mod 2 ^ 64 = int c - int m" using m(1) by (intro mod_pos_pos_trivial) auto
    then have d: "nat ((int c - int m) mod 2 ^ 64) = c - m" by (simp only: nat_minus_as_int [symmetric] int_minus nat_int)
    show ?thesis
      using assms(1) w(1) r src x n m unfolding send_chunks.simps Let_def d
      by (intro exI [of _ m] exI [of _ b] exI [of _ y]) (simp add: d [simplified])
  qed
qed

lemma send_two:
  assumes "speakerBuffer s = Some v" "ok v" "0 < c" "even c" "c \<le> length (samples_buffer s)"
    "length (samples_buffer s) = channelsSampleRateHz s" "channelsSampleRateHz s < 2 ^ 32"
  shows "\<exists>w. send_chunks ab 2 c 0 c s = Some (s\<lparr>speakerBuffer := Some w\<rparr>) \<and> ok w"
proof -
  have c: "c < 2 ^ 64" "c \<le> 2 * channelsSampleRateHz s" "2 * 0 + c \<le> 2 * length (samples_buffer s)" using assms(5-7) by simp_all
  obtain m b w where m: "m \<le> c" "even m" "ok w"
    "send_chunks ab (Suc 1) c 0 c s = (if b \<and> 0 + m < c
      then send_chunks ab 1 (c - m) (0 + m) c (s\<lparr>speakerBuffer := Some w\<rparr>) else Some (s\<lparr>speakerBuffer := Some w\<rparr>))"
    using send_one [OF assms(1-4) c(2,1,3), of 1 c] by (elim exE conjE) (rule that)
  have two: "(2 :: nat) = Suc 1" by simp
  show ?thesis
  proof (cases "b \<and> 0 + m < c")
    case False
    then show ?thesis using m(3,4) unfolding two if_not_P [OF False] by blast
  next
    case True
    let ?s = "s\<lparr>speakerBuffer := Some w\<rparr>"
    have "0 < c - m" "even (c - m)" "c - m \<le> 2 * channelsSampleRateHz ?s" "c - m < 2 ^ 64" "speakerBuffer ?s = Some w"
      using True m(1,2) c assms(4) by simp_all
    moreover have "2 * m + (c - m) \<le> 2 * length (samples_buffer ?s)" using m(1) assms(5) by simp
    ultimately obtain n d x where x: "ok x" "send_chunks ab (Suc 0) (c - m) m c ?s = (if d \<and> m + n < c
      then send_chunks ab 0 (c - m - n) (m + n) c (?s\<lparr>speakerBuffer := Some x\<rparr>) else Some (?s\<lparr>speakerBuffer := Some x\<rparr>))"
      using send_one [of ?s w "c - m" m 0 c] m(3) by blast
    have "send_chunks ab (Suc 0) (c - m) m c ?s = Some (s\<lparr>speakerBuffer := Some x\<rparr>)" unfolding x(2) by simp
    then have "send_chunks ab 2 c 0 c s = Some (s\<lparr>speakerBuffer := Some x\<rparr>)"
      using m(4) unfolding two if_P [OF True] by simp
    then show ?thesis using x(1) by blast
  qed
qed

lemma submit_quiet_eq:
  assumes "speakerBuffer s = Some v" "GetCurrentPosition ab v = Some (e, q, w)"
  shows "submit_quiet ab s = (let s = s\<lparr>samples_adjustment_counter := 0, speakerBuffer := Some w\<rparr>; n = (bufferSizeIdealMax s - q) div 2 in
    if e \<noteq> 0 \<or> bufferSizeIdealMax s \<le> q \<or> n = 0 then Some s
    else do { (locked, v) \<leftarrow> Lock ab (n * 2) w;
      case locked of None \<Rightarrow> Some (s\<lparr>speakerBuffer := Some v\<rparr>)
      | Some (p, m) \<Rightarrow> do {
          v \<leftarrow> Fill ab p (concat (replicate (min n (m div 2)) (sample_bytes (speaker_data s)))) v;
          (_, v) \<leftarrow> Unlock ab m v;
          Some (s\<lparr>speakerBuffer := Some v\<rparr>) } })"
  using assms unfolding submit_quiet_def Let_def by (simp cong: option.case_cong)

lemma quiet_ok:
  assumes "speakerBuffer s = Some v" "ok v"
  shows "\<exists>w. submit_quiet ab s = Some (s\<lparr>samples_adjustment_counter := 0, speakerBuffer := Some w\<rparr>) \<and> ok w"
proof -
  obtain e q w where w: "GetCurrentPosition ab v = Some (e, q, w)" "ok w" using position [OF assms(2)] by blast
  define n where "n = (bufferSizeIdealMax s - q) div 2"
  have eq: "submit_quiet ab s = (if e \<noteq> 0 \<or> bufferSizeIdealMax s \<le> q \<or> n = 0 then Some (s\<lparr>samples_adjustment_counter := 0, speakerBuffer := Some w\<rparr>)
    else do { (locked, v) \<leftarrow> Lock ab (n * 2) w;
      case locked of None \<Rightarrow> Some (s\<lparr>samples_adjustment_counter := 0, speakerBuffer := Some v\<rparr>)
      | Some (p, m) \<Rightarrow> do {
          v \<leftarrow> Fill ab p (concat (replicate (min n (m div 2)) (sample_bytes (speaker_data s)))) v;
          (_, v) \<leftarrow> Unlock ab m v;
          Some (s\<lparr>samples_adjustment_counter := 0, speakerBuffer := Some v\<rparr>) } })"
    unfolding submit_quiet_eq [OF assms(1) w(1)] Let_def by (simp add: n_def cong: option.case_cong)
  show ?thesis
  proof (cases "e \<noteq> 0 \<or> bufferSizeIdealMax s \<le> q \<or> n = 0")
    case True
    then show ?thesis unfolding eq if_P [OF True] using w(2) by blast
  next
    case False
    then have n: "0 < n * 2" "even (n * 2)" by simp_all
    obtain r x where x: "Lock ab (n * 2) w = Some (r, x)" "ok x" "\<And>p m. r = Some (p, m) \<Longrightarrow> m \<le> n * 2 \<and> even m \<and>
        (\<forall>bs. length bs = m \<longrightarrow> (\<exists>y b z. Fill ab p bs x = Some y \<and> Unlock ab m y = Some (b, z) \<and> ok z))"
      using handed [OF w(2) n] by blast
    show ?thesis
    proof (cases r)
      case None
      show ?thesis unfolding eq if_not_P [OF False] x(1) None using x(2) by auto
    next
      case (Some y)
      then obtain p m where r: "r = Some (p, m)" by (cases y) auto
      let ?bs = "concat (replicate (min n (m div 2)) (sample_bytes (speaker_data s)))"
      have "min n (m div 2) = m div 2" "even m" using x(3) [OF r] by auto
      then have "length ?bs = m" by (simp add: length_concat sum_list_replicate)
      then obtain y b z where y: "Fill ab p ?bs x = Some y" "Unlock ab m y = Some (b, z)" "ok z" using x(3) [OF r] by blast
      show ?thesis unfolding eq if_not_P [OF False] x(1) r using y by auto
    qed
  qed
qed

lemma pending_ok:
  assumes "speakerBuffer s = Some v" "ok v" "0 < n" "even n" "bufferTotalSize s \<le> channelsSampleRateHz s"
    "length (samples_buffer s) = channelsSampleRateHz s" "channelsSampleRateHz s < 2 ^ 32" "4 dvd bufferTotalSize s"
    "reports_frames ab s"
  shows "\<exists>k t w. submit_pending ab n s = Some (k, t\<lparr>speakerBuffer := Some w\<rparr>) \<and> (t = s \<or> (\<exists>q. t = adjust_counter q s)) \<and>
    ok w \<and> k \<le> n \<and> even k"
proof -
  obtain e q w where w: "GetCurrentPosition ab v = Some (e, q, w)" "ok w" using position [OF assms(2)] by blast
  have q: "q \<le> bufferTotalSize s" "4 dvd q" using assms(1,9) w(1) by (auto simp: reports_frames_def)
  show ?thesis
  proof (cases "e = 0")
    case False
    then show ?thesis using assms(1,3,4) w
      by (intro exI [of _ n] exI [of _ s] exI [of _ w]) (simp add: submit_pending_def)
  next
    case True
    let ?s = "s\<lparr>speakerBuffer := Some w\<rparr>"
    define t where "t = adjust_counter q ?s"
    define fr where "fr = bufferTotalSize s - q"
    define c where "c = (if n * 2 > fr then fr else n * 2)"
    define k where "k = (if n * 2 > fr then fr div 2 else n)"
    have "nat ((int (bufferTotalSize s) - int q) mod 2 ^ 64) = fr"
    proof -
      have "int (bufferTotalSize s) < 2 ^ 64" using assms(5,7) by simp
      then have "(int (bufferTotalSize s) - int q) mod 2 ^ 64 = int (bufferTotalSize s) - int q"
        using q(1) by (intro mod_pos_pos_trivial) auto
      then show ?thesis by (simp only: nat_minus_as_int [symmetric] int_minus nat_int fr_def)
    qed
    then have e: "submit_pending ab n s = (if c = 0 then Some (k, t) else map_option (Pair k) (send_chunks ab 2 c 0 c t))"
      using assms(1,3) w(1) True unfolding submit_pending_def t_def k_def c_def
      by (simp add: Let_def adjust_keeps bind_eq_Some_conv map_conv_bind_option comp_def del: send_chunks.simps cong: if_cong)
    have d: "4 dvd fr" using q assms(8) by (simp add: fr_def dvd_diff_nat)
    then have ev: "even fr" by (auto elim: dvdE)
    have k: "even k" "k \<le> n" using d assms(4) by (auto simp: k_def elim!: dvdE)
    have tw: "t\<lparr>speakerBuffer := Some x\<rparr> = (adjust_counter q s)\<lparr>speakerBuffer := Some x\<rparr>" for x
      by (simp add: t_def adjust_counter_def Let_def)
    have tb: "speakerBuffer t = Some w" by (simp add: t_def adjust_keeps)
    show ?thesis
    proof (cases "c = 0")
      case True
      have "submit_pending ab n s = Some (k, (adjust_counter q s)\<lparr>speakerBuffer := Some w\<rparr>)"
        using e True tw [of w] by (simp add: t_def adjust_counter_def Let_def)
      then show ?thesis using w(2) k by blast
    next
      case False
      have "0 < c" "even c" "c \<le> length (samples_buffer t)" "length (samples_buffer t) = channelsSampleRateHz t"
        "channelsSampleRateHz t < 2 ^ 32"
      proof -
        have "c \<le> fr" "fr \<le> bufferTotalSize s" by (simp_all add: c_def fr_def)
        moreover have "even c" using ev by (simp add: c_def)
        ultimately show "0 < c" "even c" "c \<le> length (samples_buffer t)" "length (samples_buffer t) = channelsSampleRateHz t"
          "channelsSampleRateHz t < 2 ^ 32" using False assms(5-7) by (simp_all add: t_def adjust_keeps)
      qed
      from send_two [OF tb w(2) this] obtain x where x: "send_chunks ab 2 c 0 c t = Some (t\<lparr>speakerBuffer := Some x\<rparr>)" "ok x" by blast
      have "submit_pending ab n s = Some (k, (adjust_counter q s)\<lparr>speakerBuffer := Some x\<rparr>)"
        using e False x(1) tw [of x] by simp
      then show ?thesis using x(2) k by blast
    qed
  qed
qed

lemma drop_used_ok:
  assumes "frames_ok s" "k \<le> samples_buffer_idx s" "even k"
  shows "\<exists>sb. drop_used k s = Some (s\<lparr>samples_buffer := sb, samples_buffer_idx := samples_buffer_idx s - k\<rparr>) \<and>
    length sb = length (samples_buffer s)"
proof (cases "samples_buffer_idx s = k")
  case True
  then show ?thesis by (intro exI [of _ "samples_buffer s"]) (simp add: drop_used_def Let_def)
next
  case False
  have "2 * k + (samples_buffer_idx s - k) \<le> length (buffer_bytes s)" using assms by (auto simp: frames_ok_def)
  then show ?thesis using False assms(2) by (auto simp: drop_used_def Let_def)
qed

text \<open>A flush.\<close>

lemma flush_ok:
  assumes "speaker_ok ok s" "reports_frames ab s"
  shows "\<exists>s'. speaker_flush ab s = Some s' \<and> speaker_ok ok s' \<and> same_speed s s'"
proof (cases "speaker_isAvailable s")
  case False
  then show ?thesis using assms by (simp add: speaker_flush_def same_speed_def)
next
  case True
  have s: "buffers_ok s" "bufferTotalSize s \<le> channelsSampleRateHz s" "channelsSampleRateHz s < 2 ^ 32" "4 dvd bufferTotalSize s"
    "\<exists>v. speakerBuffer s = Some v \<and> ok v" "fullspeed s \<longrightarrow> samples_buffer_idx s = 0"
    using assms(1) True by (auto simp: speaker_ok_def)
  obtain v where v: "speakerBuffer s = Some v" "ok v" using s(5) by blast
  obtain c where c: "checkpoint s = Some (s\<lparr>clock := c\<rparr>)" "cycles_checkpoint_count c \<le> cpu65_cycle_count c"
    using speaker_checkpoint_ok assms(1) by (auto simp: speaker_ok_def)
  define t where "t = note_quiet (s\<lparr>clock := c\<rparr>)"
  have "buffers_ok t = buffers_ok s" by (rule buffers_ok_cong) (simp_all add: t_def note_quiet_keeps)
  then have t: "buffers_ok t" using s(1) by simp
  obtain u where u: "speaker_update t = Some u" "buffers_ok u" "same_setup t u" "fullspeed t \<longrightarrow> samples_buffer_idx u = samples_buffer_idx t"
    using update_ok [OF t] by blast
  note uk = same_setupD [OF u(3)]
  have k: "speakerBuffer u = Some v" "clock u = c" "fullspeed u = fullspeed s" "channelsSampleRateHz u = channelsSampleRateHz s"
    "bufferTotalSize u = bufferTotalSize s" "speaker_isAvailable u"
    "fullspeed s \<longrightarrow> samples_buffer_idx u = 0" "same_speed s u"
    using uk u(4) v(1) True s(6) by (simp_all add: t_def note_quiet_keeps same_speed_def)
  have rep: "reports_frames ab u" using assms(2) k(1,5) v(1) by (simp add: reports_frames_def)
  have fin: "speaker_ok ok (x\<lparr>speakerBuffer := Some w, samples_buffer := sb, samples_buffer_idx := i\<rparr>)"
    if "x = u \<or> (\<exists>q. x = adjust_counter q u) \<or> x = u\<lparr>samples_adjustment_counter := 0\<rparr>" "ok w" "length sb = length (samples_buffer u)" "even i"
      "i \<le> samples_buffer_idx u" "fullspeed s \<longrightarrow> i = 0" for x sb i w
  proof -
    have "x = u\<lparr>samples_adjustment_counter := samples_adjustment_counter x, cycles_speaker_feedback := cycles_speaker_feedback x\<rparr>"
      using that(1) by (auto simp: adjust_counter_def Let_def)
    then obtain a b where x: "x = u\<lparr>samples_adjustment_counter := a, cycles_speaker_feedback := b\<rparr>" by blast
    show ?thesis using u(2) that(2-6) k s c(2) unfolding x by (simp add: speaker_ok_def buffers_ok_def)
  qed
  have fl: "speaker_flush ab s = (if fullspeed u then c_assert (samples_buffer_idx u = 0) u \<bind> submit_quiet ab
      else if 0 < samples_buffer_idx u then do {
         (samples_used, s) \<leftarrow> submit_pending ab (samples_buffer_idx u) u;
         s \<leftarrow> c_assert (samples_used \<le> samples_buffer_idx s) s;
         if 0 < samples_used then drop_used samples_used s else Some s
       } else Some u)"
    using True c(1) u(1) by (simp add: speaker_flush_def t_def)
  consider "fullspeed s" | "\<not> fullspeed s" "samples_buffer_idx u = 0" | "\<not> fullspeed s" "0 < samples_buffer_idx u" by auto
  then show ?thesis
  proof cases
    case 1
    obtain w where w: "submit_quiet ab u = Some (u\<lparr>samples_adjustment_counter := 0, speakerBuffer := Some w\<rparr>)" "ok w"
      using quiet_ok [OF k(1) v(2)] by blast
    have "speaker_flush ab s = Some (u\<lparr>samples_adjustment_counter := 0, speakerBuffer := Some w\<rparr>)"
      unfolding fl using 1 k w(1) by simp
    moreover have "speaker_ok ok (u\<lparr>samples_adjustment_counter := 0, speakerBuffer := Some w\<rparr>)"
    proof -
      have e: "even (samples_buffer_idx u)" using u(2) by (simp add: buffers_ok_def)
      have "speaker_ok ok (u\<lparr>samples_adjustment_counter := 0\<rparr>\<lparr>speakerBuffer := Some w, samples_buffer := samples_buffer u,
          samples_buffer_idx := samples_buffer_idx u\<rparr>)"
        by (rule fin) (use w(2) e k(7) in auto)
      moreover have "u\<lparr>samples_adjustment_counter := 0\<rparr>\<lparr>speakerBuffer := Some w, samples_buffer := samples_buffer u,
          samples_buffer_idx := samples_buffer_idx u\<rparr> = u\<lparr>samples_adjustment_counter := 0, speakerBuffer := Some w\<rparr>"
        by simp
      ultimately show ?thesis by (simp only:)
    qed
    ultimately show ?thesis using k(8) by (simp add: same_speed_def)
  next
    case 2
    have "speaker_flush ab s = Some u" unfolding fl using 2 k by simp
    moreover have "speaker_ok ok u" using u(2) k s(2-4) c(2) v(2) 2(1) by (simp add: speaker_ok_def)
    ultimately show ?thesis using k(8) by (simp add: same_speed_def)
  next
    case 3
    have e: "even (samples_buffer_idx u)" "length (samples_buffer u) = channelsSampleRateHz u" using u(2) by (auto simp: buffers_ok_def)
    obtain n x w where n: "submit_pending ab (samples_buffer_idx u) u = Some (n, x\<lparr>speakerBuffer := Some w\<rparr>)"
      "x = u \<or> (\<exists>q. x = adjust_counter q u)" "ok w" "n \<le> samples_buffer_idx u" "even n"
      using pending_ok [OF k(1) v(2) 3(2) e(1) _ e(2) _ _ rep] s(2-4) k(4,5) by auto
    have x: "samples_buffer x = samples_buffer u" "samples_buffer_idx x = samples_buffer_idx u" "channelsSampleRateHz x = channelsSampleRateHz u"
      "bufferTotalSize x = bufferTotalSize s" "same_speed s x"
      using n(2) k(5,8) by (auto simp: adjust_keeps same_speed_def)
    let ?x = "x\<lparr>speakerBuffer := Some w\<rparr>"
    have f: "frames_ok ?x" using buffers_frames [OF u(2)] x by (simp add: frames_ok_def)
    obtain sb where sb: "drop_used n ?x = Some (?x\<lparr>samples_buffer := sb, samples_buffer_idx := samples_buffer_idx u - n\<rparr>)"
      "length sb = length (samples_buffer u)"
      using drop_used_ok [OF f, of n] n(4,5) x by auto
    have "speaker_flush ab s = Some (if 0 < n then ?x\<lparr>samples_buffer := sb, samples_buffer_idx := samples_buffer_idx u - n\<rparr> else ?x)"
      unfolding fl using 3 k(3) n(1,4) x sb(1) by simp
    moreover have "speaker_ok ok (?x\<lparr>samples_buffer := sb, samples_buffer_idx := samples_buffer_idx u - n\<rparr>)"
      using fin [of x w sb "samples_buffer_idx u - n"] n e(1) sb(2) 3(1) by auto
    moreover have "speaker_ok ok ?x"
    proof -
      have "speaker_ok ok (?x\<lparr>samples_buffer := samples_buffer u, samples_buffer_idx := samples_buffer_idx u\<rparr>)"
        by (rule fin) (use n e(1) 3(1) in auto)
      moreover have "?x\<lparr>samples_buffer := samples_buffer u, samples_buffer_idx := samples_buffer_idx u\<rparr> = ?x"
        using x(1,2) by simp
      ultimately show ?thesis by (simp only:)
    qed
    ultimately show ?thesis using x(5) by (simp add: same_speed_def)
  qed
qed

lemma toggled_ok:
  assumes "speaker_ok ok s"
  shows "\<exists>s'. speaker_toggled s = Some s' \<and> speaker_ok ok s' \<and> same_speed s s'"
proof -
  obtain c where c: "checkpoint s = Some (s\<lparr>clock := c\<rparr>)" "cycles_checkpoint_count c \<le> cpu65_cycle_count c"
    using speaker_checkpoint_ok assms by (auto simp: speaker_ok_def)
  define t where "t = s\<lparr>clock := c, speaker_accessed_since_last_flush := True, speaker_recently_active := True,
    fullspeed := (fullspeed s \<and> \<not> timing_shouldAutoAdjustSpeed s)\<rparr>"
  have t: "speaker_isAvailable s \<longrightarrow> buffers_ok t" using assms by (auto simp: t_def speaker_ok_def buffers_ok_def)
  have "\<exists>u. (if speaker_isAvailable s then speaker_update t else Some t) = Some u \<and> (speaker_isAvailable s \<longrightarrow> buffers_ok u) \<and> same_setup t u \<and>
      (fullspeed t \<longrightarrow> samples_buffer_idx u = samples_buffer_idx t)"
    using update_ok [of t] t by (cases "speaker_isAvailable s") auto
  then obtain u where u: "(if speaker_isAvailable s then speaker_update t else Some t) = Some u" "speaker_isAvailable s \<longrightarrow> buffers_ok u"
    "same_setup t u" "fullspeed t \<longrightarrow> samples_buffer_idx u = samples_buffer_idx t" by blast
  note uk = same_setupD [OF u(3)]
  have e: "speaker_toggled s = Some (if fullspeed u then u else u\<lparr>speaker_data :=
      (if speaker_data u = speaker_amplitude u then - speaker_amplitude u else speaker_amplitude u)\<rparr>)"
  proof -
    have "(let s = s\<lparr>clock := c, speaker_accessed_since_last_flush := True, speaker_recently_active := True\<rparr>
      in (if timing_shouldAutoAdjustSpeed s then s\<lparr>fullspeed := False\<rparr> else s)) = t"
      by (simp add: t_def timing_shouldAutoAdjustSpeed_def Let_def)
    moreover have "speaker_isAvailable t = speaker_isAvailable s" by (simp add: t_def)
    ultimately show ?thesis using c(1) u(1) unfolding speaker_toggled_def by (simp add: Let_def cong: if_cong)
  qed
  have ok: "speaker_ok ok (u\<lparr>speaker_data := d\<rparr>)" for d
    using assms u(2,4) uk c(2) by (simp add: speaker_ok_def t_def buffers_ok_def)
  have "speaker_ok ok u" using ok [of "speaker_data u"] by simp
  then show ?thesis unfolding e using ok uk(2,6,10,12) by (simp add: t_def same_speed_def)
qed

end

section \<open>OpenAL keeps the contract\<close>

abbreviation queue_rep :: "pqlist \<Rightarrow> playnode list \<Rightarrow> u32 list \<Rightarrow> bool" where
  "queue_rep \<equiv> playq_rep {0..<OPENAL_NUM_BUFFERS}"

interpretation openal: audio_backend "openal_buffer lib" "\<lambda>v. voice_ok queue_rep v \<and> offsets_ok lib"
proof
  fix v assume v: "voice_ok queue_rep v \<and> offsets_ok lib"
  then obtain p w where "ALGetPosition playq lib v = Some (0, p, w)" "voice_ok queue_rep w"
    using pointer_queue.position_ok by blast
  then show "\<exists>e p w. GetCurrentPosition (openal_buffer lib) v = Some (e, p, w) \<and> voice_ok queue_rep w \<and> offsets_ok lib"
    using v by (simp add: openal_buffer_def)
next
  fix v n assume v: "voice_ok queue_rep v \<and> offsets_ok lib" and n: "0 < n" "even (n :: nat)"
  obtain r w where w: "ALLockBuffer playq lib n v = Some (r, w)" "voice_ok queue_rep w"
    "\<And>p m. r = Some (p, m) \<Longrightarrow> p = index w \<and> index w + int m \<le> buffersize w \<and> (0 < n \<longrightarrow> m \<le> n) \<and>
      (even n \<longrightarrow> even m) \<and> (0 < m \<or> 0 < index w)"
    using pointer_queue.lock_ok [of "{0..<OPENAL_NUM_BUFFERS}" v lib n] v by blast
  have "m \<le> n \<and> even m \<and> (\<forall>bs. length bs = m \<longrightarrow> (\<exists>x b y. copy_samples p bs w = Some x \<and> ALUnlockBuffer playq lib m x = Some (b, y) \<and>
      voice_ok queue_rep y \<and> offsets_ok lib))" if r: "r = Some (p, m)" for p m
  proof (intro conjI allI impI)
    have m: "p = index w" "index w + int m \<le> buffersize w" "m \<le> n" "even m" "0 < m \<or> 0 < index w" using w(3) [OF r] n by auto
    then show "m \<le> n" "even m" by auto
    fix bs :: "byte list" assume bs: "length bs = m"
    obtain x where x: "copy_samples (index w) bs w = Some x" "voice_ok queue_rep x" "buffersize x = buffersize w" "index x = index w"
      using pointer_queue.copy_ok [OF w(2), of bs] m(2) bs by blast
    obtain b y where "ALUnlockBuffer playq lib m x = Some (b, y)" "voice_ok queue_rep y"
      using pointer_queue.unlock_ok [OF x(2), of lib m] v m x(3,4) by auto
    then show "\<exists>x b y. copy_samples p bs w = Some x \<and> ALUnlockBuffer playq lib m x = Some (b, y) \<and> voice_ok queue_rep y \<and> offsets_ok lib"
      using x(1) m(1) v by blast
  qed
  then show "\<exists>r w. Lock (openal_buffer lib) n v = Some (r, w) \<and> (voice_ok queue_rep w \<and> offsets_ok lib) \<and>
      (\<forall>p m. r = Some (p, m) \<longrightarrow> m \<le> n \<and> even m \<and> (\<forall>bs. length bs = m \<longrightarrow>
        (\<exists>x b y. Fill (openal_buffer lib) p bs w = Some x \<and> Unlock (openal_buffer lib) m x = Some (b, y) \<and> voice_ok queue_rep y \<and> offsets_ok lib)))"
    using v w(1,2) by (intro exI [of _ r] exI [of _ w]) (simp add: openal_buffer_def)
qed

section \<open>Speed\<close>

lemma clock_rate: "1020484 \<le> CLK_6502" "CLK_6502 \<le> 1020485"
  by code_simp+

lemma fastest: "to_unsigned CPU_SCALE_FASTEST = 4"
  by code_simp

text \<open>Settings the speaker can work with: not so high a rate that a sample is less than a cycle, not so low that rounding matters,
  and a buffer of no more than half a second.\<close>

definition settings_ok :: "audio_settings \<Rightarrow> bool" where
  "settings_ok sys \<longleftrightarrow> bytesPerSample sys = 2 \<and> 10 \<le> sampleRateHz sys \<and> sampleRateHz sys \<le> 255000 \<and>
     2 * stereoBufferSizeSamples sys \<le> sampleRateHz sys"

lemma fl_le:
  assumes "0 < x" "0 < p"
  shows "fl p x \<le> x * (1 + 2 powi (- int p))"
  using fl_error [OF assms(1), of p] by (simp add: algebra_simps)

lemma epsilon: "(2 :: rat) powi (- int 53) = 1 / 9007199254740992"
  by (simp add: power_int_minus)

lemma target_bounds:
  assumes "1 / 4 \<le> scale" "scale \<le> 4"
  shows "255000 \<le> rnd (CLK_6502 * scale)" "rnd (CLK_6502 * scale) \<le> 4081941"
proof -
  have "255000 \<le> 1020484 * (1 / 4 :: rat)" by simp
  also have "\<dots> \<le> CLK_6502 * scale" by (rule mult_mono) (use clock_rate assms in auto)
  finally have lo: "of_nat 255000 \<le> CLK_6502 * scale" by simp
  then show "255000 \<le> rnd (CLK_6502 * scale)" using fl_ge_nat [OF lo, of 53] by simp
  have "CLK_6502 * scale \<le> 1020485 * 4" by (rule mult_mono) (use clock_rate assms in auto)
  then have "CLK_6502 * scale * (1 + 2 powi (- int 53)) \<le> 1020485 * 4 * (1 + 2 powi (- int 53))"
    by (rule mult_right_mono) (simp add: epsilon)
  moreover have "rnd (CLK_6502 * scale) \<le> CLK_6502 * scale * (1 + 2 powi (- int 53))"
    by (rule fl_le) (use lo in linarith, simp)
  ultimately have "rnd (CLK_6502 * scale) \<le> 1020485 * 4 * (1 + 2 powi (- int 53))" by (rule order_trans [rotated])
  then show "rnd (CLK_6502 * scale) \<le> 4081941" by (rule order_trans) (simp add: epsilon)
qed

definition remainder_max :: "audio_settings \<Rightarrow> nat" where
  "remainder_max sys = (to_unsigned CLK_6502 * to_unsigned CPU_SCALE_FASTEST) div sampleRateHz sys + 1"

lemma sample_size_bounds:
  assumes "settings_ok sys" "255000 \<le> t" "t \<le> 4081941"
  shows "0 < to_unsigned (rnd (t / of_nat (sampleRateHz sys)))" "to_unsigned (rnd (t / of_nat (sampleRateHz sys))) \<le> remainder_max sys"
proof -
  let ?r = "of_nat (sampleRateHz sys) :: rat"
  have "10 \<le> sampleRateHz sys" "sampleRateHz sys \<le> 255000" using assms(1) by (simp_all add: settings_ok_def)
  then have "of_nat 10 \<le> ?r" "?r \<le> of_nat 255000" by (simp_all only: of_nat_le_iff)
  then have r: "0 < ?r" "10 \<le> ?r" "?r \<le> 255000" by simp_all
  have lo: "of_nat 1 \<le> t / ?r" using r assms(2) by (simp add: le_divide_eq)
  then have "of_nat 1 \<le> rnd (t / ?r)" by (rule fl_ge_nat) (use lo in auto)
  then have "1 \<le> \<lfloor>rnd (t / ?r)\<rfloor>" by (simp add: le_floor_iff)
  then show "0 < to_unsigned (rnd (t / ?r))" by (simp add: to_unsigned_def)
  have clk: "to_unsigned CLK_6502 = 1020484 \<or> to_unsigned CLK_6502 = 1020485"
  proof -
    have "1020484 \<le> \<lfloor>CLK_6502\<rfloor>" "\<lfloor>CLK_6502\<rfloor> \<le> 1020485" using clock_rate by (simp_all add: le_floor_iff floor_le_iff)
    then show ?thesis unfolding to_unsigned_def by linarith
  qed
  have "rnd (t / ?r) \<le> t / ?r * (1 + 2 powi (- int 53))" by (rule fl_le) (use lo in auto)
  also have "\<dots> = t * (1 + 2 powi (- int 53)) / ?r" by simp
  also have "\<dots> \<le> 4081942 / ?r"
  proof (rule divide_right_mono)
    have "t * (1 + 2 powi (- int 53)) \<le> 4081941 * (1 + 2 powi (- int 53))" using assms(3) by (rule mult_right_mono) (simp add: epsilon)
    also have "\<dots> \<le> 4081942" by (simp add: epsilon)
    finally show "t * (1 + 2 powi (- int 53)) \<le> 4081942" .
  qed (use r in simp)
  also have "\<dots> \<le> (4081936 + ?r) / ?r" by (rule divide_right_mono) (use r in auto)
  also have "\<dots> = 4081936 / ?r + 1" using r by (simp add: add_divide_distrib)
  finally have "\<lfloor>rnd (t / ?r)\<rfloor> \<le> \<lfloor>4081936 / ?r + 1\<rfloor>" by (rule floor_mono)
  also have "4081936 / ?r = of_int 4081936 / of_int (int (sampleRateHz sys))" by simp
  also have "\<lfloor>of_int 4081936 / of_int (int (sampleRateHz sys)) + (1 :: rat)\<rfloor> = 4081936 div int (sampleRateHz sys) + 1"
    by (simp only: one_add_floor [symmetric] floor_divide_of_int_eq)
  finally have "nat \<lfloor>rnd (t / ?r)\<rfloor> \<le> nat (4081936 div int (sampleRateHz sys) + 1)" by (rule nat_mono)
  also have "4081936 div int (sampleRateHz sys) + 1 = int (4081936 div sampleRateHz sys + 1)" by (simp add: zdiv_int)
  also have "nat (int (4081936 div sampleRateHz sys + 1)) = 4081936 div sampleRateHz sys + 1" by (rule nat_int)
  also have "\<dots> \<le> remainder_max sys" unfolding remainder_max_def fastest using clk by (auto intro!: div_le_mono)
  finally show "to_unsigned (rnd (t / ?r)) \<le> remainder_max sys" by (simp add: to_unsigned_def)
qed

text \<open>A speaker set up for \<open>sys\<close>, and the speed it runs at.\<close>

definition set_up :: "audio_settings \<Rightarrow> 'v speaker \<Rightarrow> bool" where
  "set_up sys s \<longleftrightarrow> (speaker_isAvailable s \<longrightarrow> remainder_buffer_size_max s = remainder_max sys) \<and>
     255000 \<le> speed_target s \<and> speed_target s \<le> 4081941"

lemma init_timing_ok:
  assumes "settings_ok sys" "255000 \<le> speed_target s" "speed_target s \<le> 4081941" "remainder_buffer_size_max s = remainder_max sys"
    "frames_ok s" "length (remainder_buffer s) = remainder_max sys"
    "remainder_buffer_size s = 0 \<longrightarrow> remainder_buffer_idx s = 0" "remainder_buffer_idx s < remainder_buffer_size s \<or> remainder_buffer_size s = 0"
  shows "\<exists>c z j l i. speaker_init_timing sys s = Some (s\<lparr>cycles_per_sample := c, remainder_buffer_size := z, remainder_buffer_idx := j,
      cycles_last_update := l, samples_buffer_idx := i\<rparr>) \<and>
    buffers_ok (s\<lparr>cycles_per_sample := c, remainder_buffer_size := z, remainder_buffer_idx := j,
      cycles_last_update := l, samples_buffer_idx := i\<rparr>) \<and> i = (if fullspeed s then 0 else samples_buffer_idx s)"
proof -
  define z where "z = to_unsigned (rnd (speed_target s / of_nat (sampleRateHz sys)))"
  have z: "0 < z" "z \<le> remainder_max sys" using sample_size_bounds [OF assms(1-3)] by (simp_all add: z_def)
  define j where "j = (if fullspeed s \<or> remainder_buffer_size s \<noteq> z then 0 else remainder_buffer_idx s)"
  define l where "l = (if cycles_last_update s > total s then 0 else cycles_last_update s)"
  define i where "i = (if fullspeed s then 0 else samples_buffer_idx s)"
  let ?t = "s\<lparr>cycles_per_sample := of_nat z, remainder_buffer_size := z, remainder_buffer_idx := j, cycles_last_update := l, samples_buffer_idx := i\<rparr>"
  have j: "j < z" using assms(7,8) z(1) by (auto simp: j_def)
  have e: "speaker_init_timing sys s = Some ?t"
    using z(2) assms(4) unfolding speaker_init_timing_def z_def [symmetric] Let_def
    by (auto simp: j_def l_def i_def total_def c_assert_def intro!: speaker.equality)
  have "buffers_ok ?t" using assms(4-6) z j by (simp add: buffers_ok_def frames_ok_def i_def)
  then show ?thesis using e i_def by blast
qed

lemma initialize_scale_ok:
  assumes "settings_ok sys" "speaker_ok ok s" "set_up sys s" "1 / 4 \<le> scale"
  shows "\<exists>s'. timing_initialize_scale sys scale s = Some s' \<and> speaker_ok ok s' \<and> set_up sys s' \<and>
    fullspeed s' = (scale > 4) \<and> bufferTotalSize s' = bufferTotalSize s \<and> speaker_isAvailable s' = speaker_isAvailable s"
proof -
  define t where "t = s\<lparr>fullspeed := scale > 4, speed_target := (if scale > 4 then speed_target s else rnd (CLK_6502 * scale))\<rparr>"
  have tb: "255000 \<le> speed_target t" "speed_target t \<le> 4081941"
    using assms(3) target_bounds [OF assms(4)] by (auto simp: t_def set_up_def)
  have e: "timing_initialize_scale sys scale s = (if speaker_isAvailable s then speaker_init_timing sys t else Some t)"
    by (simp add: timing_initialize_scale_def speaker_reset_def t_def CPU_SCALE_FASTEST_PIVOT_def Let_def)
  show ?thesis
  proof (cases "speaker_isAvailable s")
    case False
    then have "timing_initialize_scale sys scale s = Some t" using e by simp
    then show ?thesis using assms(2) tb False by (simp add: t_def speaker_ok_def set_up_def)
  next
    case True
    have b: "buffers_ok s" "remainder_buffer_size_max s = remainder_max sys" using assms(2,3) True by (auto simp: speaker_ok_def set_up_def)
    have "frames_ok t" "remainder_buffer_size_max t = remainder_max sys" "length (remainder_buffer t) = remainder_max sys"
      "remainder_buffer_size t = 0 \<longrightarrow> remainder_buffer_idx t = 0" "remainder_buffer_idx t < remainder_buffer_size t \<or> remainder_buffer_size t = 0"
      using b by (simp_all add: t_def buffers_ok_def frames_ok_def)
    from init_timing_ok [OF assms(1) tb this(2,1,3-5)] obtain c z j l i where u:
      "speaker_init_timing sys t = Some (t\<lparr>cycles_per_sample := c, remainder_buffer_size := z, remainder_buffer_idx := j,
        cycles_last_update := l, samples_buffer_idx := i\<rparr>)"
      "buffers_ok (t\<lparr>cycles_per_sample := c, remainder_buffer_size := z, remainder_buffer_idx := j,
        cycles_last_update := l, samples_buffer_idx := i\<rparr>)"
      "i = (if fullspeed t then 0 else samples_buffer_idx t)"
      by blast
    define w where "w = t\<lparr>cycles_per_sample := c, remainder_buffer_size := z, remainder_buffer_idx := j,
        cycles_last_update := l, samples_buffer_idx := i\<rparr>"
    have w: "clock w = clock s" "speaker_isAvailable w = speaker_isAvailable s" "bufferTotalSize w = bufferTotalSize s"
      "channelsSampleRateHz w = channelsSampleRateHz s" "speakerBuffer w = speakerBuffer s" "fullspeed w = (scale > 4)"
      "remainder_buffer_size_max w = remainder_buffer_size_max s" "speed_target w = speed_target t" "samples_buffer_idx w = i"
      by (simp_all add: w_def t_def)
    have bw: "buffers_ok w" using u(2) by (simp only: w_def)
    have "scale > 4 \<longrightarrow> i = 0" using u(3) by (simp add: t_def)
    then have "speaker_ok ok w" unfolding speaker_ok_def w(1-6,9)
      using assms(2) True bw by (simp add: speaker_ok_def)
    moreover have "set_up sys w" unfolding set_up_def w using b(2) tb by simp
    ultimately show ?thesis using e True u(1) w by (simp add: w_def [symmetric])
  qed
qed

text \<open>A speaker just initialised on the voice \<open>v\<close>.\<close>

lemma speaker_init_ok:
  assumes "settings_ok sys" "ok v" "cycles_checkpoint_count c \<le> cpu65_cycle_count c"
  shows "\<exists>s. speaker_init sys (Some v) True True junk (static_speaker c) = Some s \<and> speaker_ok ok s \<and> set_up sys s \<and>
    speaker_isAvailable s \<and> bufferTotalSize s = 4 * stereoBufferSizeSamples sys"
proof -
  have b: "bytesPerSample sys = 2" "2 * stereoBufferSizeSamples sys \<le> sampleRateHz sys" "sampleRateHz sys \<le> 255000"
    using assms(1) by (auto simp: settings_ok_def)
  define t where "t = (static_speaker c)\<lparr>speakerBuffer := Some v, bufferTotalSize := 4 * stereoBufferSizeSamples sys,
    bufferSizeIdealMin := stereoBufferSizeSamples sys, bufferSizeIdealMax := 2 * stereoBufferSizeSamples sys,
    channelsSampleRateHz := sampleRateHz sys * 2, remainder_buffer_size_max := remainder_max sys,
    samples_buffer := replicate (sampleRateHz sys * 2) 0, samples_buffer_idx := 2 * stereoBufferSizeSamples sys,
    remainder_buffer := map junk [0..<remainder_max sys]\<rparr>"
  have t: "frames_ok t" "remainder_buffer_size_max t = remainder_max sys" "length (remainder_buffer t) = remainder_max sys"
    "remainder_buffer_size t = 0 \<longrightarrow> remainder_buffer_idx t = 0" "remainder_buffer_idx t < remainder_buffer_size t \<or> remainder_buffer_size t = 0"
    "255000 \<le> speed_target t" "speed_target t \<le> 4081941"
    using b clock_rate by (simp_all add: t_def frames_ok_def static_speaker_def)
  from init_timing_ok [OF assms(1) t(6,7,2,1,3-5)] obtain k z j l where u:
    "speaker_init_timing sys t = Some (t\<lparr>cycles_per_sample := k, remainder_buffer_size := z, remainder_buffer_idx := j,
      cycles_last_update := l, samples_buffer_idx := 2 * stereoBufferSizeSamples sys\<rparr>)"
    "buffers_ok (t\<lparr>cycles_per_sample := k, remainder_buffer_size := z, remainder_buffer_idx := j,
      cycles_last_update := l, samples_buffer_idx := 2 * stereoBufferSizeSamples sys\<rparr>)"
    by (auto simp: t_def static_speaker_def)
  define w where "w = t\<lparr>cycles_per_sample := k, remainder_buffer_size := z, remainder_buffer_idx := j,
      cycles_last_update := l, samples_buffer_idx := 2 * stereoBufferSizeSamples sys, speaker_isAvailable := True\<rparr>"
  have e: "speaker_init sys (Some v) True True junk (static_speaker c) = Some w"
  proof -
    have "speaker_init sys (Some v) True True junk (static_speaker c) =
      map_option (\<lambda>s. s\<lparr>speaker_isAvailable := True\<rparr>) (speaker_init_timing sys t)"
      using b(1) unfolding speaker_init_def t_def remainder_max_def
      by (simp add: Let_def NUM_CHANNELS_def static_speaker_def map_conv_bind_option comp_def mult.commute)
    then show ?thesis using u(1) by (simp add: w_def)
  qed
  have "buffers_ok w" using u(2) by (simp add: w_def buffers_ok_def)
  then have "speaker_ok ok w" using assms(2,3) b by (simp add: speaker_ok_def w_def t_def static_speaker_def)
  moreover have "set_up sys w" using t(6,7) by (simp add: set_up_def w_def t_def)
  ultimately show ?thesis using e by (simp add: w_def t_def)
qed

section \<open>Guarantees\<close>

text \<open>What happens to a speaker: the program toggles it, time passes, the CPU thread starts a batch of instructions and flushes
  after it, the volume and the speed are set.\<close>

datatype speaker_event = Toggle | Flush | Elapse nat | New_batch | Volume "int option" | Speed double

fun speaker_exec :: "audio_settings \<Rightarrow> 'v audio_buffer \<Rightarrow> speaker_event \<Rightarrow> 'v speaker \<Rightarrow> 'v speaker option" where
  "speaker_exec sys ab Toggle s = speaker_toggled s"
| "speaker_exec sys ab Flush s = speaker_flush ab s"
| "speaker_exec sys ab (Elapse n) s = Some (s\<lparr>clock := (clock s)\<lparr>cpu65_cycle_count := cpu65_cycle_count (clock s) + int n\<rparr>\<rparr>)"
| "speaker_exec sys ab New_batch s = Some (s\<lparr>clock := (clock s)\<lparr>cpu65_cycle_count := 0, cycles_checkpoint_count := 0\<rparr>\<rparr>)"
| "speaker_exec sys ab (Volume p) s = Some (speaker_prefsChanged p s)"
| "speaker_exec sys ab (Speed scale) s = timing_initialize_scale sys scale s"

text \<open>The preferences keep the speed at a quarter or more; a flush is promised for a backend that reports whole frames.\<close>

definition event_fits :: "'v audio_buffer \<Rightarrow> speaker_event \<Rightarrow> 'v speaker \<Rightarrow> bool" where
  "event_fits ab e s \<longleftrightarrow> (case e of Flush \<Rightarrow> reports_frames ab s | Speed scale \<Rightarrow> 1 / 4 \<le> scale | _ \<Rightarrow> True)"

inductive speaker_reaches :: "audio_settings \<Rightarrow> 'v audio_buffer \<Rightarrow> 'v speaker \<Rightarrow> 'v speaker \<Rightarrow> bool" for sys ab s where
  init: "speaker_reaches sys ab s s"
| event: "speaker_reaches sys ab s t \<Longrightarrow> event_fits ab e t \<Longrightarrow> speaker_exec sys ab e t = Some u \<Longrightarrow> speaker_reaches sys ab s u"

lemma setup_cong:
  "remainder_buffer_size_max s' = remainder_buffer_size_max s \<Longrightarrow> speaker_isAvailable s' = speaker_isAvailable s \<Longrightarrow>
   speed_target s' = speed_target s \<Longrightarrow> set_up sys s' = set_up sys s"
  by (simp add: set_up_def)

lemma setup_same: "same_speed s s' \<Longrightarrow> set_up sys s' = set_up sys s"
  by (simp add: same_speed_def set_up_def)

lemma prefs_ok: "speaker_ok ok (speaker_prefsChanged p s) = speaker_ok ok s" "set_up sys (speaker_prefsChanged p s) = set_up sys s"
  "speaker_isAvailable (speaker_prefsChanged p s) = speaker_isAvailable s"
  by (simp_all add: speaker_prefsChanged_def Let_def speaker_ok_def set_up_def buffers_ok_def)

context audio_backend
begin

lemma exec_speaker_ok:
  assumes "settings_ok sys" "speaker_ok ok s" "set_up sys s" "event_fits ab e s"
  shows "\<exists>s'. speaker_exec sys ab e s = Some s' \<and> speaker_ok ok s' \<and> set_up sys s' \<and> speaker_isAvailable s' = speaker_isAvailable s"
proof (cases e)
  case Toggle
  then show ?thesis using toggled_ok [OF assms(2)] assms(3) setup_same by (auto simp: same_speed_def)
next
  case Flush
  then show ?thesis using flush_ok [OF assms(2)] assms(3,4) setup_same by (auto simp: event_fits_def same_speed_def)
next
  case (Elapse n)
  then show ?thesis using assms(2,3) by (simp add: speaker_ok_def set_up_def buffers_ok_def)
next
  case New_batch
  then show ?thesis using assms(2,3) by (simp add: speaker_ok_def set_up_def buffers_ok_def)
next
  case (Volume p)
  then show ?thesis using assms(2,3) by (simp add: prefs_ok)
next
  case (Speed scale)
  then show ?thesis using initialize_scale_ok [OF assms(1-3), of scale] assms(4) by (auto simp: event_fits_def)
qed

lemma reaches_speaker_ok:
  assumes "speaker_reaches sys ab s t" "settings_ok sys" "speaker_ok ok s" "set_up sys s"
  shows "speaker_ok ok t \<and> set_up sys t \<and> speaker_isAvailable t = speaker_isAvailable s"
  using assms
proof (induction rule: speaker_reaches.induct)
  case (event t e u)
  then show ?case using exec_speaker_ok [of sys t e] by auto
qed simp

end

text \<open>C21: below full speed the speaker makes one frame of two equal samples of every \<open>remainder_buffer_size\<close> cycles, however
  the cycles are split over updates: the cycles carried over from the last update and the new ones are divided without loss
  into frames and the cycles carried over to the next, although the code divides in floating point.  Earlier samples stay, and
  but for the first frame, which averages what was carried over, the new samples are the speaker's level.\<close>

theorem speaker_counts_cycles:
  assumes "buffers_ok s" "\<not> fullspeed s" "cycles_last_update s \<le> total s" "total s - cycles_last_update s < 2 ^ 53"
    and c: "c = remainder_buffer_idx s + (total s - cycles_last_update s)"
    and room: "samples_buffer_idx s + 2 * (c div remainder_buffer_size s) \<le> channelsSampleRateHz s"
  shows "\<exists>s'. speaker_update s = Some s' \<and> buffers_ok s' \<and> cycles_last_update s' = total s \<and>
    samples_buffer_idx s' = samples_buffer_idx s + 2 * (c div remainder_buffer_size s) \<and>
    remainder_buffer_idx s' = c mod remainder_buffer_size s \<and>
    take (samples_buffer_idx s) (samples_buffer s') = take (samples_buffer_idx s) (samples_buffer s) \<and>
    (\<not> speaker_going_silent s \<longrightarrow>
      (\<forall>i. samples_buffer_idx s + (if remainder_buffer_idx s = 0 then 0 else 2) \<le> i \<and> i < samples_buffer_idx s' \<longrightarrow>
        samples_buffer s' ! i = speaker_data s))"
  using update_frames [OF assms(1-3)] assms(4) room unfolding Let_def c [symmetric] by (auto simp: extends_def)


definition half_second :: audio_settings where
  "half_second = \<lparr>sampleRateHz = 22050, bytesPerSample = 2, monoBufferSizeSamples = 8192, stereoBufferSizeSamples = 8192\<rparr>"


definition small_speaker :: "unit speaker" where
  "small_speaker = (static_speaker (video_start\<lparr>cycles_count_total := 7, cpu65_cycle_count := 0\<rparr>))\<lparr>channelsSampleRateHz := 8, samples_buffer := replicate 8 0,
     samples_buffer_idx := 2, remainder_buffer := [5, 0, 0, 0], remainder_buffer_size_max := 4, remainder_buffer_size := 3,
     remainder_buffer_idx := 1, cycles_per_sample := 3, speaker_data := 5\<rparr>"

theorem speaker_counts_cycles_witness:
  "\<exists>s'. speaker_update small_speaker = Some s' \<and> samples_buffer_idx s' = 6 \<and> remainder_buffer_idx s' = 2 \<and> samples_buffer s' ! 4 = 5"
proof -
  have "\<exists>s'. speaker_update small_speaker = Some s' \<and> buffers_ok s' \<and> cycles_last_update s' = total small_speaker \<and>
    samples_buffer_idx s' = samples_buffer_idx small_speaker + 2 * (8 div remainder_buffer_size small_speaker) \<and>
    remainder_buffer_idx s' = 8 mod remainder_buffer_size small_speaker \<and>
    take (samples_buffer_idx small_speaker) (samples_buffer s') = take (samples_buffer_idx small_speaker) (samples_buffer small_speaker) \<and>
    (\<not> speaker_going_silent small_speaker \<longrightarrow>
      (\<forall>i. samples_buffer_idx small_speaker + (if remainder_buffer_idx small_speaker = 0 then 0 else 2) \<le> i \<and> i < samples_buffer_idx s' \<longrightarrow>
        samples_buffer s' ! i = speaker_data small_speaker))"
    by (rule speaker_counts_cycles)
      (simp_all add: small_speaker_def static_speaker_def buffers_ok_def total_def video_start_def)
  then show ?thesis by (elim exE conjE) (simp add: small_speaker_def static_speaker_def)
qed

section \<open>Where sound is lost\<close>

text \<open>After a partial submission only the first half of the samples left over moves to the front: the \<^verbatim>\<open>memmove\<close> counts
  bytes.\<close>

lemma sample_of_bytes: "(ucast (ucast w :: byte) :: sample) OR push_bit 8 (ucast (ucast (drop_bit 8 w) :: byte)) = (w :: sample)"
  by (rule bit_word_eqI) (auto simp: bit_simps)

lemma samples_of_sound: "samples_of (concat (map sample_bytes ws) @ bs) = ws @ samples_of bs"
  by (induction ws) (simp_all add: sample_bytes_def sample_of_bytes)

lemma take_drop_sound:
  "take (2 * n) (concat (map sample_bytes ws)) = concat (map sample_bytes (take n ws))"
  "drop (2 * n) (concat (map sample_bytes ws)) = concat (map sample_bytes (drop n ws))"
proof (induction ws arbitrary: n)
  case (Cons w ws)
  {
    case 1
    then show ?case using Cons by (cases n) (simp_all add: sample_bytes_def)
  next
    case 2
    then show ?case using Cons by (cases n) (simp_all add: sample_bytes_def)
  }
qed simp_all

lemma drop_used_moves_half:
  assumes "samples_buffer_idx s = used + 2 * n" "0 < n" "used + 2 * n \<le> length (samples_buffer s)"
  shows "drop_used used s = Some (s\<lparr>
    samples_buffer := take n (drop used (samples_buffer s)) @ drop n (samples_buffer s), samples_buffer_idx := 2 * n\<rparr>)"
proof -
  have "samples_of (take (2 * n) (drop (2 * used) (buffer_bytes s)) @ drop (2 * n) (buffer_bytes s)) =
      take n (drop used (samples_buffer s)) @ samples_of (drop (2 * n) (buffer_bytes s))"
    by (simp add: buffer_bytes_def take_drop_sound samples_of_sound)
  moreover have "samples_of (drop (2 * n) (buffer_bytes s)) = drop n (samples_buffer s)"
    using samples_of_sound [of "drop n (samples_buffer s)" "[]"] by (simp add: buffer_bytes_def take_drop_sound)
  ultimately show ?thesis using assms by (simp add: drop_used_def Let_def)
qed

text \<open>The second part of a submission is read at the byte count of the first: with a full buffer, and a voice that takes it in two
  equal parts, beyond the end of the samples.\<close>

definition half_buffer :: "unit audio_buffer" where
  "half_buffer = \<lparr>GetCurrentPosition = (\<lambda>v. Some (0, 9, v)), Lock = (\<lambda>n v. Some (Some (0, min n 8), v)), Fill = (\<lambda>_ _ v. Some v),
     Unlock = (\<lambda>_ v. Some (True, v))\<rparr>"

lemma full_buffer_overruns:
  "speaker_flush half_buffer (small_speaker\<lparr>samples_buffer_idx := 8, cycles_last_update := 7, bufferTotalSize := 8,
     speaker_isAvailable := True, speakerBuffer := Some ()\<rparr>) = None" (is "speaker_flush _ ?s = None")
proof -
  have c: "checkpoint ?s = Some ?s"
    by (simp add: checkpoint_def timing_checkpointCycles_def small_speaker_def static_speaker_def video_start_def)
  have q: "note_quiet ?s = ?s\<lparr>cycles_quiet_time := 7\<rparr>"
    by (simp add: note_quiet_def small_speaker_def static_speaker_def total_def video_start_def)
  have u: "speaker_update (?s\<lparr>cycles_quiet_time := 7\<rparr>) = Some (?s\<lparr>cycles_quiet_time := 7\<rparr>)"
    by (simp add: speaker_update_def small_speaker_def static_speaker_def total_def video_start_def complete_remainder_def
        to_unsigned_def keep_rest_def)
  have "submit_pending half_buffer 8 (?s\<lparr>cycles_quiet_time := 7\<rparr>) = None"
    by (simp add: submit_pending_def half_buffer_def small_speaker_def static_speaker_def adjust_counter_def Let_def
        numeral_2_eq_2 source_bytes_def)
  then show ?thesis using c q u by (simp add: speaker_flush_def small_speaker_def static_speaker_def)
qed

end
