(* ===== verification/A2_Timing.thy ===== *)
theory A2_Timing
  imports A2_SpeakerProps
begin

text \<open>
  The CPU thread's timing (\<^verbatim>\<open>timing.c\<close>): differences of host times, one pass of the main loop, in which the
  thread executes a millisecond's worth of cycles and sleeps until its target time, the automatic change of speed while a
  disk is read, the preferences, and pausing.  Speed and speaker are the record of \<open>A2_Speaker\<close>.

  Host times are parameters, read from a monotonic clock far from overflow.  The mutexes that serialise the threads, the
  stepping of the debugger and the statistics are left out; what the thread tells other components is recorded in
  \<open>effects\<close>.
\<close>

section \<open>Host time\<close>

record timespec =
  tv_sec :: int
  tv_nsec :: int

definition NANOSECONDS_PER_SECOND :: int where "NANOSECONDS_PER_SECOND = 1000000000"
definition EXECUTION_PERIOD_NSECS :: int where "EXECUTION_PERIOD_NSECS = 1000000"

text \<open>The second component is what \<^verbatim>\<open>negative\<close> points to.\<close>

definition timespec_diff :: "timespec \<Rightarrow> timespec \<Rightarrow> timespec \<times> bool" where
  "timespec_diff start stop =
    (let negative = tv_sec start > tv_sec stop \<or> (tv_sec start = tv_sec stop \<and> tv_nsec start > tv_nsec stop);
         (start, stop) = (if negative then (stop, start) else (start, stop))
     in (if tv_nsec stop < tv_nsec start
         then \<lparr>tv_sec = tv_sec stop - tv_sec start - 1, tv_nsec = 1000000000 + tv_nsec stop - tv_nsec start\<rparr>
         else \<lparr>tv_sec = tv_sec stop - tv_sec start, tv_nsec = tv_nsec stop - tv_nsec start\<rparr>,
         negative))"

text \<open>The comparison is unsigned in C; neither operand is negative here.\<close>

definition timespec_add :: "timespec \<Rightarrow> int \<Rightarrow> timespec" where
  "timespec_add start nsecs =
    (let start = start\<lparr>tv_nsec := tv_nsec start + nsecs\<rparr> in
     if tv_nsec start > NANOSECONDS_PER_SECOND
     then start\<lparr>tv_sec := tv_sec start + tv_nsec start div NANOSECONDS_PER_SECOND,
                tv_nsec := tv_nsec start mod NANOSECONDS_PER_SECOND\<rparr>
     else start)"

section \<open>The thread\<close>

datatype thread_effect = Audio_pause | Audio_resume | Set_video_dirty | MB_SetEnabled bool | Nanosleep int

record 'v thread =
  spk :: "'v speaker"
  is_paused :: bool
  emul_reinitialize_audio :: bool
  emul_pause_audio :: bool
  emul_resume_audio :: bool
  emul_video_dirty :: bool
  audioLatency :: rat
  audio_latencySecs :: rat
  mbEnabled :: bool
  t0 :: timespec
  drift_adj_nsecs :: int
  cpu65_cycles_to_execute :: int
  speaker_wedged_count :: nat
  effects :: "thread_effect list"

definition emit :: "thread_effect \<Rightarrow> 'v thread \<Rightarrow> 'v thread" where
  "emit e t = t\<lparr>effects := effects t @ [e]\<rparr>"

definition timing_reinitializeAudio :: "'v thread \<Rightarrow> 'v thread option" where
  "timing_reinitializeAudio t = c_assert (is_paused t)
    (t\<lparr>emul_reinitialize_audio := True, emul_pause_audio := False, emul_resume_audio := False, emul_video_dirty := False\<rparr>)"

definition cpu_pause :: "'v thread \<Rightarrow> 'v thread" where
  "cpu_pause t =
    (if is_paused t then t
     else (if \<not> emul_reinitialize_audio t then t\<lparr>emul_pause_audio := True\<rparr> else t)\<lparr>is_paused := True\<rparr>)"

definition cpu_resume :: "'v thread \<Rightarrow> 'v thread" where
  "cpu_resume t =
    (if \<not> is_paused t then t
     else (if \<not> emul_reinitialize_audio t then t\<lparr>emul_resume_audio := True, emul_video_dirty := True\<rparr> else t)
       \<lparr>is_paused := False\<rparr>)"

section \<open>Preferences\<close>

record timing_prefs =
  pref_cpu_scale :: "rat option"
  pref_cpu_scale_alt :: "rat option"
  pref_audio_latency :: "rat option"
  pref_mockingboard_enabled :: "bool option"
  pref_disk_fast_loading :: "bool option"

definition CPU_SCALE_SLOWEST :: double where "CPU_SCALE_SLOWEST = 1 / 4"

text \<open>A preferred speed in percent, divided in single precision and clamped.\<close>

definition scale_of_pref :: "rat option \<Rightarrow> double" where
  "scale_of_pref pref =
    (let x = (case pref of Some fVal \<Rightarrow> rndf (fVal / 100) | None \<Rightarrow> 1);
         x = (if x < CPU_SCALE_SLOWEST then CPU_SCALE_SLOWEST else x)
     in if x > CPU_SCALE_FASTEST_PIVOT then CPU_SCALE_FASTEST else x)"

definition timing_prefsChanged :: "timing_prefs \<Rightarrow> 'v thread \<Rightarrow> 'v thread option" where
  "timing_prefsChanged p t = do {
     let t = t\<lparr>spk := (spk t)\<lparr>cpu_scale_factor := scale_of_pref (pref_cpu_scale p),
                              cpu_altscale_factor := scale_of_pref (pref_cpu_scale_alt p)\<rparr>\<rparr>;
     let latency = (case pref_audio_latency p of Some f \<Rightarrow> f | None \<Rightarrow> 1 / 4);
     t \<leftarrow> (if \<bar>rndf (audioLatency t - latency)\<bar> > 1 / 1024
          then timing_reinitializeAudio (t\<lparr>audioLatency := latency, audio_latencySecs := latency\<rparr>)
          else Some t);
     let enabled = (case pref_mockingboard_enabled p of Some b \<Rightarrow> b | None \<Rightarrow> True);
     t \<leftarrow> (if enabled \<noteq> mbEnabled t
          then timing_reinitializeAudio (emit (MB_SetEnabled enabled) (t\<lparr>mbEnabled := enabled\<rparr>))
          else Some t);
     let fast = (case pref_disk_fast_loading p of Some b \<Rightarrow> b | None \<Rightarrow> True);
     Some (t\<lparr>spk := (spk t)\<lparr>auto_adjust_speed := fast\<rparr>\<rparr>) }"

section \<open>One pass of the main loop\<close>

text \<open>Flags of the other threads.\<close>

definition take_flags :: "'v thread \<Rightarrow> 'v thread" where
  "take_flags t =
    (let t = (if emul_pause_audio t then emit Audio_pause (t\<lparr>emul_pause_audio := False\<rparr>) else t);
         t = (if emul_resume_audio t then emit Audio_resume (t\<lparr>emul_resume_audio := False\<rparr>) else t)
     in if emul_video_dirty t then emit Set_video_dirty (t\<lparr>emul_video_dirty := False\<rparr>) else t)"

text \<open>The next target time and the distance to the last one; \<^verbatim>\<open>~x\<close> is \<open>- x - 1\<close>.\<close>

definition next_target :: "timespec \<Rightarrow> 'v thread \<Rightarrow> 'v thread" where
  "next_target ti t =
    (let (deltat, negative) = timespec_diff (t0 t) ti;
         (t, deltat) = (if tv_sec deltat \<noteq> 0 then (t\<lparr>t0 := ti\<rparr>, \<lparr>tv_sec = 0, tv_nsec = 0\<rparr>) else (t, deltat))
     in t\<lparr>t0 := timespec_add (t0 t) EXECUTION_PERIOD_NSECS,
          drift_adj_nsecs := (if negative then - tv_nsec deltat - 1 else tv_nsec deltat)\<rparr>)"

text \<open>\<^verbatim>\<open>SOUNDCORE_ERROR_MAX<<1\<close> passes without a cycle to execute restart the audio.\<close>

definition count_cycles :: "'v thread \<Rightarrow> 'v thread" where
  "count_cycles t =
    (let n = to_signed (rnd (speed_target (spk t) / 1000));
         n = (if \<not> fullspeed (spk t) then n + cycles_speaker_feedback (spk t) else n)
     in if n \<le> 0 then
          (let w = speaker_wedged_count t + 1 in
           if int w \<ge> 2 * ERROR_MAX
           then t\<lparr>cpu65_cycles_to_execute := 0, speaker_wedged_count := 0, emul_reinitialize_audio := True\<rparr>
           else t\<lparr>cpu65_cycles_to_execute := 0, speaker_wedged_count := w\<rparr>)
        else t\<lparr>cpu65_cycles_to_execute := n, speaker_wedged_count := 0\<rparr>)"

text \<open>The disk as the thread looks at it.\<close>

record disk_motor =
  motor_time :: timespec
  motor_is_off :: bool
  disk_inserted :: bool

text \<open>\<^verbatim>\<open>(NANOSECONDS_PER_SECOND>2)\<close> is a comparison.\<close>

definition DISK_MOTOR_QUIET_NSECS :: int where
  "DISK_MOTOR_QUIET_NSECS = (if NANOSECONDS_PER_SECOND > 2 then 1 else 0)"

definition motor_quiet :: "disk_motor \<Rightarrow> timespec \<Rightarrow> bool" where
  "motor_quiet m tj =
    (let (disk_motor_time, negative) = timespec_diff (motor_time m) tj;
         disk_motor_time = (if negative then disk_motor_time\<lparr>tv_sec := 1\<rparr> else disk_motor_time)
     in tv_sec disk_motor_time \<noteq> 0 \<or> tv_nsec disk_motor_time > DISK_MOTOR_QUIET_NSECS)"

definition auto_fullspeed :: "audio_settings \<Rightarrow> disk_motor \<Rightarrow> timespec \<Rightarrow> 'v speaker \<Rightarrow> 'v speaker option" where
  "auto_fullspeed sys m tj s =
    (if timing_shouldAutoAdjustSpeed s \<and> \<not> fullspeed s then
       (if \<not> speaker_recently_active s \<and> \<not> video_isDirty A2_DIRTY_FLAG (clock s) \<and> disk_inserted m \<and>
           \<not> motor_is_off m \<and> motor_quiet m tj
        then timing_initialize_scale sys CPU_SCALE_FASTEST s else Some s)
     else Some s)"

definition auto_configured :: "audio_settings \<Rightarrow> disk_motor \<Rightarrow> timespec \<Rightarrow> 'v speaker \<Rightarrow> 'v speaker option" where
  "auto_configured sys m tj s =
    (if timing_shouldAutoAdjustSpeed s \<and> fullspeed s then
       (if speaker_recently_active s \<or> video_isDirty A2_DIRTY_FLAG (clock s) \<or> (motor_is_off m \<and> motor_quiet m tj)
        then (let speed = (if alt_speed_enabled s then cpu_altscale_factor s else cpu_scale_factor s)
              in if speed \<le> CPU_SCALE_FASTEST_PIVOT then timing_initialize_scale sys speed s else Some s)
        else Some s)
     else Some s)"

text \<open>How long to sleep, if at all.\<close>

definition sleep_time :: "int \<Rightarrow> timespec \<Rightarrow> timespec \<Rightarrow> int option" where
  "sleep_time drift ti tj =
    (let (deltat, negative) = timespec_diff ti tj;
         deltat = (if negative then deltat\<lparr>tv_sec := 1\<rparr> else deltat);
         sleepfor = (if tv_sec deltat = 0 then EXECUTION_PERIOD_NSECS - drift - tv_nsec deltat else 0)
     in if sleepfor \<le> 0 then None else Some sleepfor)"

text \<open>The whole pass.  What the processor does with its cycles, and what the Mockingboard and the scanner do to the clock, are
  parameters: \<open>A2_Bus\<close>, \<open>A2_Mockingboard\<close> and \<open>A2_Video\<close> model them.\<close>

definition cpu_pass ::
    "audio_settings \<Rightarrow> 'v audio_buffer \<Rightarrow> (int \<Rightarrow> 'v speaker \<Rightarrow> 'v speaker option) \<Rightarrow> (video \<Rightarrow> video option) \<Rightarrow> (video \<Rightarrow> video option) \<Rightarrow>
     disk_motor \<Rightarrow> timespec \<Rightarrow> timespec \<Rightarrow> 'v thread \<Rightarrow> 'v thread option" where
  "cpu_pass sys ab run mb_update scanner m ti tj t = do {
     let t = count_cycles (next_target ti (take_flags t));
     let s = (spk t)\<lparr>clock := (clock (spk t))\<lparr>cpu65_cycle_count := 0, cycles_checkpoint_count := 0\<rparr>\<rparr>;
     s \<leftarrow> run (cpu65_cycles_to_execute t) s;
     v \<leftarrow> mb_update (clock s);
     s \<leftarrow> speaker_flush ab (s\<lparr>clock := v\<rparr>);
     v \<leftarrow> scanner (clock s);
     s \<leftarrow> auto_fullspeed sys m tj (s\<lparr>clock := v\<rparr>);
     let t = t\<lparr>spk := s\<rparr>;
     let t = (if fullspeed s then t
              else case sleep_time (drift_adj_nsecs t) ti tj of None \<Rightarrow> t | Some n \<Rightarrow> emit (Nanosleep n) t);
     s \<leftarrow> auto_configured sys m tj s;
     Some (t\<lparr>spk := s\<rparr>) }"

section \<open>State files\<close>

text \<open>Speeds are saved in hundredths, truncated.\<close>

definition hundredths :: "double \<Rightarrow> u32" where
  "hundredths scale = of_nat (to_unsigned (rnd (scale * 100)))"

definition of_hundredths :: "u32 \<Rightarrow> double" where
  "of_hundredths w = rnd (of_nat (unat w) / 100)"

definition timing_saveState :: "'f helper \<Rightarrow> 'v speaker \<times> 'f \<Rightarrow> ('v speaker \<times> 'f) outcome" where
  "timing_saveState h = run_steps
    [check_step (\<lambda>s. cpu_scale_factor s \<ge> 0) (\<lambda>s. s),
     check_step (\<lambda>s. cpu_altscale_factor s \<ge> 0) (\<lambda>s. s),
     save_step h (\<lambda>s. ser32 (hundredths (cpu_scale_factor s))),
     save_step h (\<lambda>s. ser32 (hundredths (cpu_altscale_factor s))),
     save_step h (\<lambda>s. [if alt_speed_enabled s then 1 else 0])]"

definition initialize_step :: "audio_settings \<Rightarrow> 'v speaker \<times> 'f \<Rightarrow> ('v speaker \<times> 'f) outcome" where
  "initialize_step sys = (\<lambda>(s, f). case timing_initialize sys s of None \<Rightarrow> Abort | Some s \<Rightarrow> Cont (s, f))"

definition timing_loadState :: "audio_settings \<Rightarrow> 'f helper \<Rightarrow> 'v speaker \<times> 'f \<Rightarrow> ('v speaker \<times> 'f) outcome" where
  "timing_loadState sys h = run_steps
    [load_step h 4 (\<lambda>bs s. s\<lparr>cpu_scale_factor := of_hundredths (des32 bs)\<rparr>),
     load_step h 4 (\<lambda>bs s. s\<lparr>cpu_altscale_factor := of_hundredths (des32 bs)\<rparr>),
     load_step h 1 (\<lambda>bs s. s\<lparr>alt_speed_enabled := bs ! 0 \<noteq> 0\<rparr>),
     initialize_step sys]"

section \<open>Time is computed exactly\<close>

text \<open>The sum of \<^verbatim>\<open>timespec_add\<close> may leave an exact second in the nanoseconds; \<open>near_normal\<close> allows for it.\<close>

definition nanos :: "timespec \<Rightarrow> int" where
  "nanos t = tv_sec t * NANOSECONDS_PER_SECOND + tv_nsec t"

definition normal_time :: "timespec \<Rightarrow> bool" where
  "normal_time t \<longleftrightarrow> 0 \<le> tv_nsec t \<and> tv_nsec t < NANOSECONDS_PER_SECOND"

definition near_normal :: "timespec \<Rightarrow> bool" where
  "near_normal t \<longleftrightarrow> 0 \<le> tv_nsec t \<and> tv_nsec t \<le> NANOSECONDS_PER_SECOND"

lemmas time_defs = nanos_def normal_time_def near_normal_def NANOSECONDS_PER_SECOND_def

lemma timespec_diff_nanos:
  assumes "near_normal a" "near_normal b"
  shows "nanos (fst (timespec_diff a b)) = \<bar>nanos b - nanos a\<bar>" "0 \<le> tv_nsec (fst (timespec_diff a b))" "0 \<le> tv_sec (fst (timespec_diff a b))"
    "snd (timespec_diff a b) \<Longrightarrow> nanos b \<le> nanos a" "\<not> snd (timespec_diff a b) \<Longrightarrow> nanos a \<le> nanos b"
  using assms by (auto simp: timespec_diff_def time_defs Let_def algebra_simps split: if_splits)

lemma timespec_diff_normal:
  assumes "normal_time a" "normal_time b"
  shows "normal_time (fst (timespec_diff a b))" "0 \<le> tv_sec (fst (timespec_diff a b))"
    "snd (timespec_diff a b) \<longleftrightarrow> nanos b < nanos a"
  using assms by (auto simp: timespec_diff_def time_defs Let_def algebra_simps)

lemma timespec_add_nanos:
  assumes "near_normal a" "0 \<le> n"
  shows "nanos (timespec_add a n) = nanos a + n" "near_normal (timespec_add a n)"
  using assms by (auto simp: timespec_add_def time_defs Let_def algebra_simps)

lemma timespec_add_leaves_a_second:
  "timespec_add \<lparr>tv_sec = 7, tv_nsec = 999000000\<rparr> EXECUTION_PERIOD_NSECS = \<lparr>tv_sec = 7, tv_nsec = 1000000000\<rparr>"
  by (simp add: timespec_add_def EXECUTION_PERIOD_NSECS_def NANOSECONDS_PER_SECOND_def)

lemma normal_near: "normal_time t \<Longrightarrow> near_normal t"
  by (simp add: normal_time_def near_normal_def)

text \<open>The test of the motor's quiet time passes after two nanoseconds.\<close>

lemma motor_quiet_after:
  assumes "normal_time tj" "normal_time (motor_time m)" "nanos (motor_time m) \<le> nanos tj"
  shows "motor_quiet m tj \<longleftrightarrow> 2 \<le> nanos tj - nanos (motor_time m)"
proof -
  obtain d n where dn: "timespec_diff (motor_time m) tj = (d, n)" by fastforce
  have "nanos d = nanos tj - nanos (motor_time m)" "normal_time d" "0 \<le> tv_sec d" "\<not> n"
    using timespec_diff_nanos(1) [OF normal_near normal_near, OF assms(2,1)] timespec_diff_normal [OF assms(2,1)] assms(3) dn by auto
  then show ?thesis by (auto simp: motor_quiet_def dn time_defs DISK_MOTOR_QUIET_NSECS_def)
qed

text \<open>The drift is measured from the target time the pass starts from; being ahead counts one nanosecond more.\<close>

lemma next_target_drift:
  assumes "near_normal (t0 t)" "normal_time ti"
  shows "near_normal (t0 (next_target ti t)) \<and>
    (\<exists>base ahead. base \<in> {nanos (t0 t), nanos ti} \<and> (\<bar>nanos ti - nanos (t0 t)\<bar> < NANOSECONDS_PER_SECOND \<longrightarrow> base = nanos (t0 t)) \<and>
      ahead \<in> {0, 1} \<and> nanos (t0 (next_target ti t)) = base + EXECUTION_PERIOD_NSECS \<and>
      drift_adj_nsecs (next_target ti t) = nanos ti - base - ahead)"
proof -
  obtain d n where dn: "timespec_diff (t0 t) ti = (d, n)" by fastforce
  note diff = timespec_diff_nanos [OF assms(1) normal_near [OF assms(2)], unfolded dn fst_conv snd_conv]
  have e: "0 \<le> EXECUTION_PERIOD_NSECS" by (simp add: EXECUTION_PERIOD_NSECS_def)
  show ?thesis
  proof (cases "tv_sec d = 0")
    case True
    have "nanos d = tv_nsec d" using True by (simp add: nanos_def)
    then have "(if n then - tv_nsec d - 1 else tv_nsec d) = nanos ti - nanos (t0 t) - of_bool n"
      using diff by (cases n) auto
    moreover have "nanos (t0 (next_target ti t)) = nanos (t0 t) + EXECUTION_PERIOD_NSECS" "near_normal (t0 (next_target ti t))"
      "drift_adj_nsecs (next_target ti t) = (if n then - tv_nsec d - 1 else tv_nsec d)"
      using True timespec_add_nanos [OF assms(1) e] by (simp_all add: next_target_def dn Let_def)
    ultimately show ?thesis
      by - (rule conjI, assumption, rule exI [of _ "nanos (t0 t)"], rule exI [of _ "of_bool n"], auto)
  next
    case False
    have "NANOSECONDS_PER_SECOND \<le> \<bar>nanos ti - nanos (t0 t)\<bar>"
    proof -
      have "1 \<le> tv_sec d" using False diff(3) by simp
      then show ?thesis using diff(1,2) by (simp add: time_defs)
    qed
    moreover have "drift_adj_nsecs (next_target ti t) = nanos ti - nanos ti - of_bool n"
      using False by (simp add: next_target_def dn Let_def)
    moreover have "nanos (t0 (next_target ti t)) = nanos ti + EXECUTION_PERIOD_NSECS" "near_normal (t0 (next_target ti t))"
      using False timespec_add_nanos [OF normal_near [OF assms(2)] e] by (simp_all add: next_target_def dn Let_def)
    ultimately show ?thesis by - (rule conjI, assumption, rule exI [of _ "nanos ti"], rule exI [of _ "of_bool n"], auto)
  qed
qed

section \<open>Guarantees\<close>

text \<open>C26: the thread keeps its schedule: the target time of a pass is a millisecond after the last target (or after now, when the two
  are a second or more apart), and the thread, if it sleeps at all, wakes at the target, or a nanosecond later when it
  was ahead; it does not sleep when the target has passed.  Lateness of one pass is made up in the next.\<close>

theorem pass_keeps_schedule:
  assumes "near_normal (t0 t)" "normal_time ti" "normal_time tj" "nanos ti \<le> nanos tj" "nanos tj < nanos ti + NANOSECONDS_PER_SECOND"
    and t': "t' = next_target ti t"
  shows "near_normal (t0 t') \<and>
    (\<bar>nanos ti - nanos (t0 t)\<bar> < NANOSECONDS_PER_SECOND \<longrightarrow> nanos (t0 t') = nanos (t0 t) + EXECUTION_PERIOD_NSECS) \<and>
    (nanos (t0 t') = nanos (t0 t) + EXECUTION_PERIOD_NSECS \<or> nanos (t0 t') = nanos ti + EXECUTION_PERIOD_NSECS) \<and>
    (case sleep_time (drift_adj_nsecs t') ti tj of
       Some n \<Rightarrow> 0 < n \<and> (nanos tj + n = nanos (t0 t') \<or> nanos tj + n = nanos (t0 t') + 1)
     | None \<Rightarrow> nanos (t0 t') \<le> nanos tj)"
proof -
  obtain base ahead where b: "near_normal (t0 t')" "base \<in> {nanos (t0 t), nanos ti}"
    "\<bar>nanos ti - nanos (t0 t)\<bar> < NANOSECONDS_PER_SECOND \<longrightarrow> base = nanos (t0 t)" "ahead \<in> {0, 1}"
    "nanos (t0 t') = base + EXECUTION_PERIOD_NSECS" "drift_adj_nsecs t' = nanos ti - base - ahead"
    using next_target_drift [OF assms(1,2)] unfolding t' by blast
  then have target: "near_normal (t0 t') \<and>
    (\<bar>nanos ti - nanos (t0 t)\<bar> < NANOSECONDS_PER_SECOND \<longrightarrow> nanos (t0 t') = nanos (t0 t) + EXECUTION_PERIOD_NSECS) \<and>
    (nanos (t0 t') = nanos (t0 t) + EXECUTION_PERIOD_NSECS \<or> nanos (t0 t') = nanos ti + EXECUTION_PERIOD_NSECS)" by auto
  obtain d n where dn: "timespec_diff ti tj = (d, n)" by fastforce
  have d: "nanos d = nanos tj - nanos ti" "normal_time d" "0 \<le> tv_sec d" "\<not> n"
    using timespec_diff_nanos(1) [OF normal_near normal_near, OF assms(2,3)] timespec_diff_normal [OF assms(2,3)] assms(4) dn by auto
  then have "tv_sec d = 0" using assms(5) by (auto simp: time_defs)
  then have "tv_sec d = 0" "tv_nsec d = nanos tj - nanos ti" using d(1) by (simp_all add: nanos_def)
  then have "sleep_time (drift_adj_nsecs t') ti tj = (let k = nanos (t0 t') - nanos tj + ahead in if k \<le> 0 then None else Some k)"
    using d(4) b(5,6) by (simp add: sleep_time_def dn Let_def)
  then have "case sleep_time (drift_adj_nsecs t') ti tj of
      Some n \<Rightarrow> 0 < n \<and> (nanos tj + n = nanos (t0 t') \<or> nanos tj + n = nanos (t0 t') + 1)
    | None \<Rightarrow> nanos (t0 t') \<le> nanos tj"
    using b(4) by (auto simp: Let_def)
  then show ?thesis using target by blast
qed

definition quiet_thread :: "unit thread" where
  "quiet_thread = \<lparr>spk = static_speaker video_start, is_paused = False, emul_reinitialize_audio = False, emul_pause_audio = False,
     emul_resume_audio = False, emul_video_dirty = False, audioLatency = 0, audio_latencySecs = 1 / 4, mbEnabled = True,
     t0 = \<lparr>tv_sec = 7, tv_nsec = 1000000000\<rparr>, drift_adj_nsecs = 0, cpu65_cycles_to_execute = 0, speaker_wedged_count = 0, effects = []\<rparr>"

theorem pass_keeps_schedule_witness:
  "nanos (t0 (next_target \<lparr>tv_sec = 8, tv_nsec = 300\<rparr> quiet_thread)) = nanos (t0 quiet_thread) + EXECUTION_PERIOD_NSECS"
  using pass_keeps_schedule [of quiet_thread "\<lparr>tv_sec = 8, tv_nsec = 300\<rparr>" "\<lparr>tv_sec = 8, tv_nsec = 900\<rparr>", OF _ _ _ _ _ refl]
  by (simp add: time_defs quiet_thread_def)

lemma initialize_target:
  assumes "timing_initialize_scale sys scale s = Some w" "scale \<le> 4"
  shows "speed_target w = rnd (CLK_6502 * scale)"
  using assms
  by (auto simp: timing_initialize_scale_def speaker_reset_def speaker_init_timing_def Let_def CPU_SCALE_FASTEST_PIVOT_def
      c_assert_def split: if_splits)



section \<open>Saved speeds\<close>

text \<open>A saved speed is truncated to hundredths, and the hundredths are not always those that were loaded: saving and loading
  again and again slows the machine from 115 to 112 percent.\<close>

lemma saved_speed_drifts:
  "hundredths (scale_of_pref (Some 115)) = 114" "hundredths (of_hundredths 114) = 113" "hundredths (of_hundredths 113) = 112"
  "hundredths (of_hundredths 112) = 112"
  by code_simp+

text \<open>Nor does a load check the speed, so a file can set it to nothing; below, the speaker divides by it.\<close>

lemma zero_speed_stops:
  assumes "speaker_isAvailable s" "\<not> fullspeed s" "cycles_last_update s \<le> total s" "cycles_per_sample s = 0" "remainder_buffer_idx s = 0"
  shows "speaker_update s = None"
  using assms by (simp add: speaker_update_def not_less)

section \<open>The state of the timing\<close>

definition timing_bytes :: "'v speaker \<Rightarrow> byte list" where
  "timing_bytes s = ser32 (hundredths (cpu_scale_factor s)) @ ser32 (hundredths (cpu_altscale_factor s)) @ [of_bool (alt_speed_enabled s)]"

definition timing_restored :: "'v speaker \<Rightarrow> 'v speaker \<Rightarrow> 'v speaker" where
  "timing_restored s t = t\<lparr>cpu_scale_factor := of_hundredths (hundredths (cpu_scale_factor s)),
     cpu_altscale_factor := of_hundredths (hundredths (cpu_altscale_factor s)), alt_speed_enabled := alt_speed_enabled s\<rparr>"

context state_helper
begin

lemma timing_save:
  assumes "good f" "0 \<le> cpu_scale_factor s" "0 \<le> cpu_altscale_factor s"
  shows "\<exists>f'. timing_saveState h (s, f) = Cont (s, f') \<and> good f' \<and> written f' = written f @ timing_bytes s"
  using assms by (simp add: timing_saveState_def timing_bytes_def check_step_def file_simps)

lemma timing_load:
  assumes "good f" "unread f = timing_bytes s @ rest" "timing_initialize sys (timing_restored s t) = Some t'"
  shows "\<exists>f'. timing_loadState sys h (t, f) = Cont (t', f') \<and> good f' \<and> unread f' = rest"
  using assms by (simp add: timing_loadState_def timing_bytes_def timing_restored_def initialize_step_def file_simps)

end

lemma zero_speed_file_stops:
  assumes "speaker_ok ok t" "speaker_isAvailable t" "cpu_scale_factor s = 0" "\<not> alt_speed_enabled s"
    "timing_initialize sys (timing_restored s t) = Some t'"
  shows "speaker_update t' = None"
proof (rule zero_speed_stops)
  have z: "of_hundredths (hundredths 0) = 0" by (simp add: of_hundredths_def hundredths_def to_unsigned_def)
  have b: "buffers_ok t" using assms(1,2) by (simp add: speaker_ok_def)
  have t': "\<not> fullspeed t'" "cycles_per_sample t' = 0" "speaker_isAvailable t'" "remainder_buffer_idx t' = 0" "cycles_last_update t' \<le> total t'"
    using assms(2-5) b
    by (auto simp: timing_initialize_def timing_restored_def z timing_initialize_scale_def speaker_reset_def speaker_init_timing_def
        Let_def CPU_SCALE_FASTEST_PIVOT_def c_assert_def to_unsigned_def buffers_ok_def total_def split: if_splits)
  then show "speaker_isAvailable t'" "\<not> fullspeed t'" "cycles_last_update t' \<le> total t'" "cycles_per_sample t' = 0"
    "remainder_buffer_idx t' = 0" by auto
qed

end
