(* ===== verification/A2_Emulator.thy ===== *)
theory A2_Emulator
  imports A2_Timing A2_DiskState A2_VMState A2_MockingboardState
begin

text \<open>
  The machine as a whole: its components share one clock and one set of interrupt lines, a cold start brings them all up
  (\<^verbatim>\<open>timing.c\<close>: \<open>reinitialize\<close>), and a state file holds them one after the other
  (\<^verbatim>\<open>misc.c\<close>: \<open>emulator_saveState\<close>, \<open>emulator_loadState\<close>, \<open>_load_magick\<close>).
\<close>

section \<open>State\<close>

text \<open>The clock is the one of \<open>machine\<close>, the processor the one of \<open>card\<close>; the copies in the other parts are brought up to date
  when a part is used.\<close>

record 'v emulator =
  machine :: vm
  card :: mockingboard
  sound :: "'v speaker"

definition card_view :: "'v emulator \<Rightarrow> mockingboard" where
  "card_view e = (card e)\<lparr>mb_video := vid (machine e)\<rparr>"

definition put_card :: "mockingboard \<Rightarrow> 'v emulator \<Rightarrow> 'v emulator" where
  "put_card m e = e\<lparr>card := m, machine := (machine e)\<lparr>vid := mb_video m\<rparr>\<rparr>"

definition sound_view :: "'v emulator \<Rightarrow> 'v speaker" where
  "sound_view e = (sound e)\<lparr>clock := vid (machine e)\<rparr>"

definition put_sound :: "'v speaker \<Rightarrow> 'v emulator \<Rightarrow> 'v emulator" where
  "put_sound s e = e\<lparr>sound := s, machine := (machine e)\<lparr>vid := clock s\<rparr>\<rparr>"

definition put_drives :: "drives \<Rightarrow> 'v emulator \<Rightarrow> 'v emulator" where
  "put_drives d e = e\<lparr>machine := (machine e)\<lparr>disk6 := d\<rparr>\<rparr>"

definition put_machine :: "vm \<Rightarrow> 'v emulator \<Rightarrow> 'v emulator" where
  "put_machine m e = e\<lparr>machine := m\<rparr>"

definition put_video :: "video \<Rightarrow> 'v emulator \<Rightarrow> 'v emulator" where
  "put_video v e = e\<lparr>machine := (machine e)\<lparr>vid := v\<rparr>\<rparr>"

definition put_cpu :: "cpu65 \<Rightarrow> 'v emulator \<Rightarrow> 'v emulator" where
  "put_cpu c e = e\<lparr>card := (card e)\<lparr>mb_cpu := c\<rparr>\<rparr>"

abbreviation drives_of :: "'v emulator \<Rightarrow> drives" where "drives_of e \<equiv> disk6 (machine e)"
abbreviation video_of :: "'v emulator \<Rightarrow> video" where "video_of e \<equiv> vid (machine e)"
abbreviation cpu_of :: "'v emulator \<Rightarrow> cpu65" where "cpu_of e \<equiv> mb_cpu (card e)"

definition on_sound :: "('v speaker \<Rightarrow> 'v speaker option) \<Rightarrow> 'v emulator \<Rightarrow> 'v emulator option" where
  "on_sound g e = (case g (sound_view e) of None \<Rightarrow> None | Some s \<Rightarrow> Some (put_sound s e))"

definition on_card :: "(mockingboard \<Rightarrow> mockingboard option) \<Rightarrow> 'v emulator \<Rightarrow> 'v emulator option" where
  "on_card g e = (case g (card_view e) of None \<Rightarrow> None | Some m \<Rightarrow> Some (put_card m e))"

text \<open>The card runs at the speed of the machine.\<close>

definition env_of :: "mb_env \<Rightarrow> 'v emulator \<Rightarrow> mb_env" where
  "env_of env e = env\<lparr>is_fullspeed := fullspeed (sound e), cycles_persec_target := to_unsigned (speed_target (sound e))\<rparr>"

section \<open>Startup callbacks\<close>

text \<open>The modules register callbacks before the program starts, as nodes of a list kept in order.  A callback is \<open>'c\<close>; \<open>run\<close> is what it
  does to the list, which is empty while callbacks run, and to the rest of the program.\<close>

fun emulator_registerStartupCallback :: "int \<Rightarrow> 'c \<Rightarrow> (int \<times> 'c) list \<Rightarrow> (int \<times> 'c) list" where
  "emulator_registerStartupCallback order ctor [] = [(order, ctor)]"
| "emulator_registerStartupCallback order ctor (p # ps) =
    (if order > fst p then p # emulator_registerStartupCallback order ctor ps else (order, ctor) # p # ps)"

fun run_nodes :: "('c \<Rightarrow> (int \<times> 'c) list \<times> 'w \<Rightarrow> (int \<times> 'c) list \<times> 'w) \<Rightarrow> (int \<times> 'c) list \<Rightarrow> (int \<times> 'c) list \<times> 'w \<Rightarrow> (int \<times> 'c) list \<times> 'w" where
  "run_nodes run [] st = st"
| "run_nodes run (p # ps) st = run_nodes run ps (run (snd p) st)"

definition emulator_ctors :: "('c \<Rightarrow> (int \<times> 'c) list \<times> 'w \<Rightarrow> (int \<times> 'c) list \<times> 'w) \<Rightarrow> (int \<times> 'c) list \<times> 'w \<Rightarrow> (int \<times> 'c) list \<times> 'w" where
  "emulator_ctors run = (\<lambda>(head, w). ([], snd (run_nodes run head ([], w))))"

text \<open>They run by increasing order, of those with the same order the last registered first; what a callback registers itself is lost.\<close>

lemma registers_sorted:
  "fold (\<lambda>(order, ctor). emulator_registerStartupCallback order ctor) rs [] = sort_key fst (rev rs)"
proof -
  have i: "emulator_registerStartupCallback order ctor ps = insort_key fst (order, ctor) ps" for order and ctor :: 'a and ps
    by (induction ps) auto
  then have "(\<lambda>(order, ctor). emulator_registerStartupCallback order (ctor :: 'a)) = insort_key fst" by (auto simp: fun_eq_iff)
  then show ?thesis by (simp add: sort_key_def foldr_conv_fold)
qed

lemma startup_in_order:
  "emulator_ctors run (fold (\<lambda>(order, ctor). emulator_registerStartupCallback order ctor) rs [], w) =
   ([], snd (fold run (map snd (sort_key fst (rev rs))) ([], w)))"
proof -
  have "run_nodes run ps st = fold run (map snd ps) st" for ps st by (induction ps arbitrary: st) auto
  then show ?thesis by (simp add: emulator_ctors_def registers_sorted)
qed

section \<open>A cold start\<close>

definition reinitialize ::
    "bool \<Rightarrow> (nat \<Rightarrow> addr) \<Rightarrow> (nat \<Rightarrow> byte) \<Rightarrow> byte list \<Rightarrow> arch \<Rightarrow> audio_settings \<Rightarrow> mb_env \<Rightarrow> 'v emulator \<Rightarrow> 'v emulator option" where
  "reinitialize tracing noise rom slot6_rom arch sys env e = do {
     v \<leftarrow> video_scannerReset ((video_of e)\<lparr>cycles_count_total := 0, cycles_video_frame := 0\<rparr>);
     m \<leftarrow> vm_initialize tracing noise rom slot6_rom ((machine e)\<lparr>vid := v\<rparr>);
     let e = put_machine m e;
     let e = put_cpu (cpu65_init arch (cpu_of e)) e;
     e \<leftarrow> on_sound (timing_initialize sys) e;
     on_card (MB_Reset (env_of env e)) e }"

section \<open>The state file\<close>

text \<open>Both routines are called while the CPU thread is paused.\<close>

definition SAVE_MAGICK :: "byte list" where "SAVE_MAGICK = name_bytes ''A2VM'' @ [0]"
definition SAVE_MAGICK2 :: "byte list" where "SAVE_MAGICK2 = name_bytes ''A2V2'' @ [0]"
definition SAVE_MAGICK_LEN :: nat where "SAVE_MAGICK_LEN = 5"
definition SAVE_VERSION :: int where "SAVE_VERSION = 2"

text \<open>The version, -1 for a file that is not one; \<open>None\<close> is a failed assertion.\<close>

definition load_magick :: "'f helper \<Rightarrow> 'f \<Rightarrow> (int \<times> 'f) option" where
  "load_magick h f = (case hload h SAVE_MAGICK_LEN f of
       None \<Rightarrow> None
     | Some (ok, magick, f) \<Rightarrow>
         Some (if \<not> ok then -1 else if magick = SAVE_MAGICK2 then 2 else if magick = SAVE_MAGICK then 1 else -1, f))"

definition emulator_saveState :: "'f helper \<Rightarrow> 'v emulator \<times> 'f \<Rightarrow> ('v emulator \<times> 'f) outcome" where
  "emulator_saveState h =
    (let helper = h\<lparr>hversion := SAVE_VERSION\<rparr> in run_steps
      [save_step h (\<lambda>_. SAVE_MAGICK2),
       on_part drives_of put_drives (disk6_saveState helper),
       on_part machine put_machine (vm_saveState helper),
       on_part cpu_of put_cpu (cpu65_saveState helper),
       on_part sound_view put_sound (timing_saveState helper),
       on_part video_of put_video (video_saveState helper),
       on_part card_view put_card (mb_saveState helper)])"

text \<open>\<open>mb_loadState\<close> sets the machine to its original speed while it loads and restores the speed whether or not it
  succeeds.\<close>

definition set_scales :: "audio_settings \<Rightarrow> double \<Rightarrow> double \<Rightarrow> 'v emulator \<Rightarrow> 'v emulator option" where
  "set_scales sys a b = on_sound (\<lambda>s. timing_initialize sys (s\<lparr>cpu_scale_factor := a, cpu_altscale_factor := b\<rparr>))"

definition card_loadState :: "audio_settings \<Rightarrow> mb_env \<Rightarrow> 'f helper \<Rightarrow> 'v emulator \<times> 'f \<Rightarrow> ('v emulator \<times> 'f) outcome" where
  "card_loadState sys env h = (\<lambda>(e, f).
    let cpuScaleFactor = cpu_scale_factor (sound e); cpuAltScaleFactor = cpu_altscale_factor (sound e) in
    case set_scales sys 1 1 e of
      None \<Rightarrow> Abort
    | Some e \<Rightarrow>
        (case on_part card_view put_card (mb_loadState (env_of env e) h) (e, f) of
           Abort \<Rightarrow> Abort
         | Cont (e, f) \<Rightarrow> (case set_scales sys cpuScaleFactor cpuAltScaleFactor e of None \<Rightarrow> Abort | Some e \<Rightarrow> Cont (e, f))
         | Brk (e, f) \<Rightarrow> (case set_scales sys cpuScaleFactor cpuAltScaleFactor e of None \<Rightarrow> Abort | Some e \<Rightarrow> Brk (e, f))))"

text \<open>\<open>deflate\<close> and \<open>images\<close> are what zlib and the file system answer, as for the drives.  A first version of the format has no
  timing and no card.\<close>

definition emulator_loadState ::
    "bool \<Rightarrow> (byte list \<Rightarrow> byte list option) \<Rightarrow> (nat \<Rightarrow> open_env) \<Rightarrow> audio_settings \<Rightarrow> mb_env \<Rightarrow> 'f helper \<Rightarrow>
     'v emulator \<times> 'f \<Rightarrow> ('v emulator \<times> 'f) outcome" where
  "emulator_loadState conformant deflate images sys env h = (\<lambda>(e, f).
    case load_magick h f of
      None \<Rightarrow> Abort
    | Some (version, f) \<Rightarrow>
        if version < 0 then Brk (e, f)
        else (let helper = h\<lparr>hversion := version\<rparr> in run_steps
          ([on_part drives_of put_drives (disk6_loadState conformant deflate images helper),
            on_part machine put_machine (vm_loadState helper),
            on_part cpu_of put_cpu (cpu65_loadState helper)] @
           (if version \<ge> 2 then [on_part sound_view put_sound (timing_loadState sys helper)] else []) @
           [on_part video_of put_video (video_loadState helper)] @
           (if version \<ge> 2 then [card_loadState sys env helper] else [])) (e, f)))"

section \<open>The parts in order\<close>

text \<open>The copies of the clock agree with it.\<close>

definition in_step :: "'v emulator \<Rightarrow> bool" where
  "in_step e \<longleftrightarrow> clock (sound e) = video_of e \<and> mb_video (card e) = video_of e"

definition emulator_bytes :: "'v emulator \<Rightarrow> byte list" where
  "emulator_bytes e = SAVE_MAGICK2 @ disk_bytes (drives_of e) @ vm_bytes (machine e) @ cpu_bytes (cpu_of e) @
     timing_bytes (sound e) @ [0] @ concat (map (unit_bytes (card e)) [0..<4])"

lemma magick_len [simp]: "length SAVE_MAGICK2 = SAVE_MAGICK_LEN" "length SAVE_MAGICK = SAVE_MAGICK_LEN"
  by (simp_all add: SAVE_MAGICK2_def SAVE_MAGICK_def SAVE_MAGICK_LEN_def name_bytes_def)

lemma timing_keeps:
  assumes "timing_initialize sys s = Some s'"
  shows "cpu_scale_factor s' = cpu_scale_factor s" "cpu_altscale_factor s' = cpu_altscale_factor s"
    "alt_speed_enabled s' = alt_speed_enabled s" "clock s' = clock s"
proof -
  have init: "cpu_scale_factor u = cpu_scale_factor t \<and> cpu_altscale_factor u = cpu_altscale_factor t \<and>
      alt_speed_enabled u = alt_speed_enabled t \<and> clock u = clock t" if "speaker_init_timing sys t = Some u" for t u :: "'a speaker"
    using that by (auto simp: speaker_init_timing_def Let_def c_assert_def split: if_splits)
  obtain u F T where u: "speaker_reset sys u = Some s'" "u = s\<lparr>fullspeed := F\<rparr> \<or> u = s\<lparr>fullspeed := F, speed_target := T\<rparr>"
    using assms by (auto simp: timing_initialize_def timing_initialize_scale_def Let_def split: if_split_asm)
  have "cpu_scale_factor s' = cpu_scale_factor u \<and> cpu_altscale_factor s' = cpu_altscale_factor u \<and>
      alt_speed_enabled s' = alt_speed_enabled u \<and> clock s' = clock u"
    using u(1) init [of u s'] by (auto simp: speaker_reset_def split: if_splits)
  moreover have "cpu_scale_factor u = cpu_scale_factor s \<and> cpu_altscale_factor u = cpu_altscale_factor s \<and>
      alt_speed_enabled u = alt_speed_enabled s \<and> clock u = clock s"
    using u(2) by auto
  ultimately show "cpu_scale_factor s' = cpu_scale_factor s" "cpu_altscale_factor s' = cpu_altscale_factor s"
    "alt_speed_enabled s' = alt_speed_enabled s" "clock s' = clock s" by simp_all
qed

lemma sound_view_put: "sound_view (put_sound s e) = s"
  by (simp add: sound_view_def put_sound_def)

lemma vm_initialize_vid: "vm_initialize tracing noise rom slot6 s = Some m \<Longrightarrow> vid m = vid s"
  by (auto simp: vm_initialize_def Let_def initialize_iie_switches_def initialize_apple_ii_memory_def initialize_font_def vm_emit_def
      bind_eq_Some_conv)

lemma speeds_free:
  "speaker_ok ok (s\<lparr>cpu_scale_factor := a, cpu_altscale_factor := b\<rparr>) = speaker_ok ok s"
  "set_up sys (s\<lparr>cpu_scale_factor := a, cpu_altscale_factor := b\<rparr>) = set_up sys s"
  "speaker_ok ok (s\<lparr>cpu_scale_factor := a, cpu_altscale_factor := b, alt_speed_enabled := c\<rparr>) = speaker_ok ok s"
  "set_up sys (s\<lparr>cpu_scale_factor := a, cpu_altscale_factor := b, alt_speed_enabled := c\<rparr>) = set_up sys s"
  by (simp_all add: speaker_ok_def set_up_def buffers_ok_def)

text \<open>The speed can be set on any machine whose speaker is well-formed.\<close>

lemma timing_initialize_ok:
  assumes "settings_ok sys" "speaker_ok ok s" "set_up sys s"
    and "1 / 4 \<le> (if alt_speed_enabled s then cpu_altscale_factor s else cpu_scale_factor s)"
  shows "\<exists>s'. timing_initialize sys s = Some s' \<and> speaker_ok ok s' \<and> set_up sys s'"
  unfolding timing_initialize_def using initialize_scale_ok [OF assms] by blast

lemma set_scales_ok:
  assumes "settings_ok sys" "speaker_ok ok (sound_view e)" "set_up sys (sound_view e)"
    and "1 / 4 \<le> (if alt_speed_enabled (sound e) then b else a)"
  shows "\<exists>s. set_scales sys a b e = Some (put_sound s e) \<and> speaker_ok ok s \<and> set_up sys s \<and> clock s = video_of e \<and>
    cpu_scale_factor s = a \<and> cpu_altscale_factor s = b \<and> alt_speed_enabled s = alt_speed_enabled (sound e)"
proof -
  define u where "u = (sound_view e)\<lparr>cpu_scale_factor := a, cpu_altscale_factor := b\<rparr>"
  have u: "speaker_ok ok u" "set_up sys u" "1 / 4 \<le> (if alt_speed_enabled u then cpu_altscale_factor u else cpu_scale_factor u)"
    using assms(2,3) by (simp_all only: u_def speeds_free) (use assms(4) in \<open>simp add: sound_view_def split: if_splits\<close>)
  obtain s where s: "timing_initialize sys u = Some s" "speaker_ok ok s" "set_up sys s"
    using timing_initialize_ok [OF assms(1) u] by blast
  have "set_scales sys a b e = Some (put_sound s e)" using s(1) by (simp add: set_scales_def on_sound_def u_def)
  then show ?thesis using s timing_keeps [OF s(1)] by (intro exI [of _ s]) (simp add: u_def sound_view_def)
qed

section \<open>Saving and loading\<close>

text \<open>What a load leaves: the drives \<open>d\<close>, the machine saved in \<open>e\<close> over that of \<open>t\<close>, the saved registers, speeds and card.\<close>

definition loaded :: "'v emulator \<Rightarrow> 'v emulator \<Rightarrow> drives \<Rightarrow> 'v emulator \<Rightarrow> bool" where
  "loaded e t d t' \<longleftrightarrow> drives_of t' = d \<and>
     machine t' = (vm_restored (machine e) (machine t))\<lparr>disk6 := d\<rparr> \<and> cpu_of t' = cpu_restored (cpu_of e) (cpu_of t) \<and>
     (\<forall>i < 4. same_unit (g_MB (card e) i) (g_MB (card t') i) \<and> same_chip (g_AY8910 (card e) i) (g_AY8910 (card t') i)) \<and>
     cpu_scale_factor (sound t') = of_hundredths (hundredths (cpu_scale_factor (sound e))) \<and>
     cpu_altscale_factor (sound t') = of_hundredths (hundredths (cpu_altscale_factor (sound e))) \<and>
     alt_speed_enabled (sound t') = alt_speed_enabled (sound e)"

definition restored_speed :: "'v speaker \<Rightarrow> double" where
  "restored_speed s = of_hundredths (hundredths (if alt_speed_enabled s then cpu_altscale_factor s else cpu_scale_factor s))"

lemma mmu_ok_disk: "mmu_ok (m\<lparr>disk6 := d\<rparr>) = mmu_ok m"
  by (simp add: mmu_ok_def pseudo_ok_def banks_ok_def lc_ok_def slots_ok_def)

lemma helper_version: "hversion h = SAVE_VERSION \<Longrightarrow> h\<lparr>hversion := SAVE_VERSION\<rparr> = h"
  by simp

text \<open>The views and what they put back.\<close>

lemma put_part_same:
  "put_machine (machine e) e = e" "put_cpu (cpu_of e) e = e" "put_video (video_of e) e = e"
  "in_step e \<Longrightarrow> put_sound (sound_view e) e = e" "in_step e \<Longrightarrow> put_card (card_view e) e = e"
  by (simp_all add: put_machine_def put_cpu_def put_video_def put_sound_def sound_view_def put_card_def card_view_def in_step_def)

context state_helper
begin

lemma emulator_save:
  assumes "good f" "hversion h = SAVE_VERSION" "in_step e"
    and "disk6_flush 0 (drives_of e) = Some d1" "disk6_flush 1 d1 = Some d2" "saveable (drives_of e)"
    and "mmu_ok (machine e)" "0 \<le> cpu_scale_factor (sound e)" "0 \<le> cpu_altscale_factor (sound e)"
  shows "\<exists>f'. emulator_saveState h (e, f) = Cont (put_drives d2 e, f') \<and> good f' \<and>
    written f' = written f @ emulator_bytes (put_drives d2 e)"
proof -
  define u where "u = put_drives d2 e"
  have u: "in_step u" "mmu_ok (machine u)" "0 \<le> cpu_scale_factor (sound u)" "0 \<le> cpu_altscale_factor (sound u)" "drives_of u = d2"
    using assms(3,7-9) by (simp_all add: u_def put_drives_def in_step_def mmu_ok_def pseudo_ok_def banks_ok_def lc_ok_def slots_ok_def)
  have sv: "saveable_drive (disk d1 0)" "saveable_drive (disk d2 1)"
    using assms(6) flush_saveable [OF assms(4)] flush_saveable [OF assms(5)] by (auto simp: saveable_def)
  obtain f1 where f1: "save_step h (\<lambda>_. SAVE_MAGICK2) (e, f) = Cont (e, f1)" "good f1" "written f1 = written f @ SAVE_MAGICK2"
    using assms(1) by (simp add: file_simps)
  obtain f2 where f2: "on_part drives_of put_drives (disk6_saveState h) (e, f1) = Cont (u, f2)" "good f2"
    "written f2 = written f1 @ disk_bytes d2"
    using disk_save [OF f1(2) assms(4,5) sv] by (auto simp: on_part_def u_def)
  have vm: "writes good written (vm_bytes (machine u)) (on_part machine put_machine (vm_saveState h)) u"
    by (rule writes_part) (use vm_save u(2) put_part_same in \<open>auto simp: writes_def\<close>)
  have cpu: "writes good written (cpu_bytes (cpu_of u)) (on_part cpu_of put_cpu (cpu65_saveState h)) u"
    by (rule writes_part) (use cpu_save put_part_same in \<open>auto simp: writes_def\<close>)
  have tm: "writes good written (timing_bytes (sound_view u)) (on_part sound_view put_sound (timing_saveState h)) u"
  proof (rule writes_part)
    have "0 \<le> cpu_scale_factor (sound_view u)" "0 \<le> cpu_altscale_factor (sound_view u)" using u(3,4) by (simp_all add: sound_view_def)
    then show "writes good written (timing_bytes (sound_view u)) (timing_saveState h) (sound_view u)"
      unfolding writes_def by (intro allI impI) (rule timing_save)
  qed (rule put_part_same(4) [OF u(1)])
  have vd: "writes good written [0] (on_part video_of put_video (video_saveState h)) u"
    by (rule writes_part) (use video_save put_part_same in \<open>auto simp: writes_def\<close>)
  have mb: "writes good written (concat (map (unit_bytes (card_view u)) [0..<4])) (on_part card_view put_card (mb_saveState h)) u"
    by (rule writes_part) (rule writes_mb, rule put_part_same(5) [OF u(1)])
  have cv: "card_view u = card u" "sound_view u = sound u" using u(1) by (simp_all add: card_view_def sound_view_def in_step_def)
  note rest = writes_Cons [OF vm writes_Cons [OF cpu writes_Cons [OF tm writes_Cons [OF vd writes_Cons [OF mb writes_Nil]]]]]
  obtain f3 where f3: "run_steps [on_part machine put_machine (vm_saveState h), on_part cpu_of put_cpu (cpu65_saveState h),
      on_part sound_view put_sound (timing_saveState h), on_part video_of put_video (video_saveState h),
      on_part card_view put_card (mb_saveState h)] (u, f2) = Cont (u, f3)" "good f3"
    "written f3 = written f2 @ vm_bytes (machine u) @ cpu_bytes (cpu_of u) @ timing_bytes (sound_view u) @ [0] @
      concat (map (unit_bytes (card_view u)) [0..<4]) @ []"
    using writesD [OF rest f2(2)] by (elim exE conjE) (rule that)
  have "emulator_saveState h (e, f) = run_steps [on_part machine put_machine (vm_saveState h), on_part cpu_of put_cpu (cpu65_saveState h),
      on_part sound_view put_sound (timing_saveState h), on_part video_of put_video (video_saveState h),
      on_part card_view put_card (mb_saveState h)] (u, f2)"
    by (simp add: emulator_saveState_def Let_def helper_version [OF assms(2)] f1(1) f2(1))
  then have "emulator_saveState h (e, f) = Cont (u, f3)" unfolding f3(1) .
  moreover have "written f3 = written f @ emulator_bytes u"
    using f1(3) f2(3) f3(3) u(5) cv by (simp add: emulator_bytes_def)
  ultimately show ?thesis using f3(2) u_def by blast
qed

lemma card_load:
  assumes "good f" "unread f = concat (map (unit_bytes m) [0..<4]) @ rest" "\<forall>i < 4. ay_saveable (g_AY8910 m i)"
    and "settings_ok sys" "speaker_ok ok (sound_view t)" "set_up sys (sound_view t)"
    and "1 / 4 \<le> (if alt_speed_enabled (sound t) then cpu_altscale_factor (sound t) else cpu_scale_factor (sound t))"
  shows "\<exists>t' f'. card_loadState sys env h (t, f) = Cont (t', f') \<and> good f' \<and> unread f' = rest \<and>
    (\<forall>i < 4. same_unit (g_MB m i) (g_MB (card t') i) \<and> same_chip (g_AY8910 m i) (g_AY8910 (card t') i)) \<and>
    cpu_of t' = cpu_of t \<and> machine t' = machine t \<and> cpu_scale_factor (sound t') = cpu_scale_factor (sound t) \<and>
    cpu_altscale_factor (sound t') = cpu_altscale_factor (sound t) \<and> alt_speed_enabled (sound t') = alt_speed_enabled (sound t)"
proof -
  have one: "1 / 4 \<le> (if alt_speed_enabled (sound t) then 1 else 1 :: double)" by simp
  obtain s where s: "set_scales sys 1 1 t = Some (put_sound s t)" "speaker_ok ok s" "set_up sys s" "clock s = video_of t"
    "alt_speed_enabled s = alt_speed_enabled (sound t)"
    using set_scales_ok [OF assms(4-6) one] by blast
  define t1 where "t1 = put_sound s t"
  obtain m' f' where m': "mb_loadState (env_of env t1) h (card_view t1, f) = Cont (m', f')" "good f'" "unread f' = rest"
    "\<forall>i < 4. same_unit (g_MB m i) (g_MB m' i) \<and> same_chip (g_AY8910 m i) (g_AY8910 m' i)"
    "mb_cpu m' = mb_cpu (card_view t1)" "mb_video m' = mb_video (card_view t1)"
    using mb_load [OF assms(1-3), of "env_of env t1" "card_view t1"] by (elim exE conjE) (rule that)
  define t2 where "t2 = put_card m' t1"
  have v: "video_of t2 = video_of t" using m'(6) s(4) by (simp add: t2_def t1_def put_card_def card_view_def put_sound_def)
  have sv: "sound_view t2 = s" using v s(4) by (simp add: t2_def t1_def sound_view_def put_card_def put_sound_def)
  have alt: "alt_speed_enabled (sound t2) = alt_speed_enabled (sound t)" using s(5) by (simp add: t2_def t1_def put_card_def put_sound_def)
  obtain w where w: "set_scales sys (cpu_scale_factor (sound t)) (cpu_altscale_factor (sound t)) t2 = Some (put_sound w t2)"
    "clock w = video_of t2" "cpu_scale_factor w = cpu_scale_factor (sound t)"
    "cpu_altscale_factor w = cpu_altscale_factor (sound t)" "alt_speed_enabled w = alt_speed_enabled (sound t)"
    using set_scales_ok [where e = t2, OF assms(4), unfolded sv alt, OF s(2,3) assms(7)] by blast
  define t3 where "t3 = put_sound w t2"
  have "card_loadState sys env h (t, f) = Cont (t3, f')"
    by (simp add: card_loadState_def Let_def s(1) t1_def [symmetric] on_part_def m'(1) t2_def [symmetric] w(1) t3_def)
  moreover have "card t3 = m'" "machine t3 = machine t" "sound t3 = w"
    using w(2) v by (simp_all add: t3_def t2_def t1_def put_sound_def put_card_def)
  moreover have "mb_cpu m' = cpu_of t" using m'(5) by (simp add: t1_def card_view_def put_sound_def)
  ultimately show ?thesis using m'(2-4) w(3-5) by (intro exI [of _ t3] exI [of _ f']) (simp only: simp_thms)
qed

lemma magick_load:
  "good f \<Longrightarrow> unread f = SAVE_MAGICK2 @ rest \<Longrightarrow> \<exists>f'. load_magick h f = Some (SAVE_VERSION, f') \<and> good f' \<and> unread f' = rest"
  using load_ok [of f SAVE_MAGICK_LEN]
  by (intro exI [of _ "after_load h SAVE_MAGICK_LEN f"]) (simp add: load_magick_def file_simps SAVE_MAGICK_LEN_def SAVE_VERSION_def)

lemma emulator_load:
  assumes "good f" "unread f = emulator_bytes e @ rest" "hversion h = SAVE_VERSION"
    and "saveable (drives_of e)" "restore_drives c deflate images (drives_of e) (drives_of t) = Some d"
    and "mmu_ok (machine e)" "\<forall>i < 4. ay_saveable (g_AY8910 (card e) i)"
    and "settings_ok sys" "speaker_ok ok (sound_view t)" "set_up sys (sound_view t)" "1 / 4 \<le> restored_speed (sound e)"
  shows "\<exists>t' f'. emulator_loadState c deflate images sys env h (t, f) = Cont (t', f') \<and> good f' \<and> unread f' = rest \<and>
    loaded e t d t'"
proof -
  let ?mb = "concat (map (unit_bytes (card e)) [0..<4])"
  obtain f0 where f0: "load_magick h f = Some (SAVE_VERSION, f0)" "good f0"
    "unread f0 = disk_bytes (drives_of e) @ vm_bytes (machine e) @ cpu_bytes (cpu_of e) @ timing_bytes (sound e) @ [0] @ ?mb @ rest"
    using magick_load [OF assms(1)] assms(2) by (auto simp: emulator_bytes_def)
  obtain f1 where f1: "disk6_loadState c deflate images h (drives_of t, f0) = Cont (d, f1)" "good f1"
    "unread f1 = vm_bytes (machine e) @ cpu_bytes (cpu_of e) @ timing_bytes (sound e) @ [0] @ ?mb @ rest"
    using disk_load [OF f0(2,3) assms(4,5)] by blast
  define t1 where "t1 = put_drives d t"
  obtain f2 where f2: "vm_loadState h (machine t1, f1) = Cont (vm_restored (machine e) (machine t1), f2)" "good f2"
    "unread f2 = cpu_bytes (cpu_of e) @ timing_bytes (sound e) @ [0] @ ?mb @ rest"
    using vm_load [OF f1(2,3) assms(6)] by blast
  define t2 where "t2 = put_machine (vm_restored (machine e) (machine t1)) t1"
  obtain f3 where f3: "cpu65_loadState h (cpu_of t2, f2) = Cont (cpu_restored (cpu_of e) (cpu_of t2), f3)" "good f3"
    "unread f3 = timing_bytes (sound e) @ [0] @ ?mb @ rest"
    using cpu_load [OF f2(2,3)] by blast
  define t3 where "t3 = put_cpu (cpu_restored (cpu_of e) (cpu_of t2)) t2"
  have sv: "sound_view t3 = sound_view t"
    by (simp add: t3_def t2_def t1_def put_cpu_def put_machine_def put_drives_def sound_view_def vm_restored_def)
  define u where "u = timing_restored (sound e) (sound_view t3)"
  have u: "speaker_ok ok u" "set_up sys u" "1 / 4 \<le> (if alt_speed_enabled u then cpu_altscale_factor u else cpu_scale_factor u)"
    using assms(9-11) unfolding u_def timing_restored_def speeds_free sv
    by (simp_all add: restored_speed_def split: if_splits)
  obtain s where s: "timing_initialize sys u = Some s" "speaker_ok ok s" "set_up sys s"
    using timing_initialize_ok [OF assms(8) u] by blast
  note sk = timing_keeps [OF s(1)]
  obtain f4 where f4: "timing_loadState sys h (sound_view t3, f3) = Cont (s, f4)" "good f4" "unread f4 = [0] @ ?mb @ rest"
    using timing_load [OF f3(2,3) s(1) [unfolded u_def]] by blast
  define t4 where "t4 = put_sound s t3"
  obtain f5 where f5: "video_loadState h (video_of t4, f4) = Cont (video_of t4, f5)" "good f5" "unread f5 = ?mb @ rest"
    using video_load [OF f4(2,3)] by blast
  have pv: "put_video (video_of t4) t4 = t4" by (rule put_part_same)
  have v4: "sound_view t4 = s" by (simp add: t4_def sound_view_put)
  have sp: "1 / 4 \<le> (if alt_speed_enabled (sound t4) then cpu_altscale_factor (sound t4) else cpu_scale_factor (sound t4))"
    using u(3) sk by (simp add: t4_def put_sound_def split: if_splits)
  obtain t5 f6 where t5: "card_loadState sys env h (t4, f5) = Cont (t5, f6)" "good f6" "unread f6 = rest"
    "\<forall>i < 4. same_unit (g_MB (card e) i) (g_MB (card t5) i) \<and> same_chip (g_AY8910 (card e) i) (g_AY8910 (card t5) i)"
    "cpu_of t5 = cpu_of t4" "machine t5 = machine t4" "cpu_scale_factor (sound t5) = cpu_scale_factor (sound t4)"
    "cpu_altscale_factor (sound t5) = cpu_altscale_factor (sound t4)" "alt_speed_enabled (sound t5) = alt_speed_enabled (sound t4)"
    using card_load [where t = t4 and env = env, unfolded v4, OF f5(2,3) assms(7,8) s(2,3) sp] by (elim exE conjE) (rule that)
  note parts = f1(1) f2(1) f3(1) f4(1) f5(1) t5(1)
  have "emulator_loadState c deflate images sys env h (t, f) = Cont (t5, f6)"
    unfolding emulator_loadState_def prod.case f0(1) option.case Let_def helper_version [OF assms(3)]
    by (simp add: on_part_def SAVE_VERSION_def f1(1) t1_def [symmetric] f2(1) t2_def [symmetric] f3(1) t3_def [symmetric] f4(1)
        t4_def [symmetric] f5(1) pv t5(1))
  moreover have "machine t4 = (vm_restored (machine e) (machine t))\<lparr>disk6 := d\<rparr>"
    using sk(4) by (simp add: t4_def t3_def t2_def t1_def put_sound_def put_cpu_def put_machine_def put_drives_def u_def
        timing_restored_def sound_view_def vm_restored_def)
  moreover have "cpu_of t4 = cpu_restored (cpu_of e) (cpu_of t)"
    by (simp add: t4_def t3_def t2_def t1_def put_sound_def put_cpu_def put_machine_def put_drives_def)
  moreover have "sound t4 = s" by (simp add: t4_def put_sound_def)
  ultimately show ?thesis using t5 sk(1-3)
    by (intro exI [of _ t5] exI [of _ f6]) (simp add: loaded_def u_def timing_restored_def)
qed

end

section \<open>Guarantees\<close>

text \<open>C17: a saved machine loaded into another comes back whole: the drives hold the images of the same names at the same
  places, the memory reads the same at every address under the same switches, the processor has the same registers, the
  speeds are those saved to a hundredth, and the card's chips are as they were.  The machine it is loaded into must have
  empty drives and a speaker that is set up, and the saved speed must not be below a quarter of the original one.\<close>

theorem emulator_state_roundtrip:
  fixes e t :: "'v emulator"
  assumes "in_step e" "disk6_flush 0 (drives_of e) = Some d1" "disk6_flush 1 d1 = Some d2" "saveable (drives_of e)"
    and "mmu_ok (machine e)" "0 \<le> cpu_scale_factor (sound e)" "0 \<le> cpu_altscale_factor (sound e)"
    and "\<forall>i < 4. ay_saveable (g_AY8910 (card e) i)" "1 / 4 \<le> restored_speed (sound e)"
    and "empty_drive (disk (drives_of t) 0)" "empty_drive (disk (drives_of t) 1)"
    and "\<forall>i name. i < 2 \<longrightarrow> file_name (disk (drives_of e) i) = Some name \<longrightarrow> image_found (images i) name"
    and "settings_ok sys" "speaker_ok ok (sound_view t)" "set_up sys (sound_view t)"
  shows "\<exists>f t' f'. emulator_saveState file_helper (e, empty_file) = Cont (put_drives d2 e, f) \<and>
    emulator_loadState c deflate images sys env file_helper (t, rewind f) = Cont (t', f') \<and>
    (\<forall>i < 2. drive_restored (images i) (disk d2 i) (disk (drives_of t') i)) \<and>
    mmu_ok (machine t') \<and> softswitches (machine t') = softswitches (machine e) \<and>
    (\<forall>ea. memory_addr ea \<longrightarrow> (\<exists>b. vm_read k mb ea (machine e) = Some (b, machine e) \<and>
       vm_read k mb ea (machine t') = Some (b, machine t'))) \<and>
    cpu_bytes (cpu_of t') = cpu_bytes (cpu_of e) \<and>
    (\<forall>i < 4. same_unit (g_MB (card e) i) (g_MB (card t') i) \<and> same_chip (g_AY8910 (card e) i) (g_AY8910 (card t') i)) \<and>
    cpu_scale_factor (sound t') = of_hundredths (hundredths (cpu_scale_factor (sound e))) \<and>
    cpu_altscale_factor (sound t') = of_hundredths (hundredths (cpu_altscale_factor (sound e))) \<and>
    alt_speed_enabled (sound t') = alt_speed_enabled (sound e)"
proof -
  have v: "hversion file_helper = SAVE_VERSION" by (simp add: file_helper_def SAVE_VERSION_def)
  define u where "u = put_drives d2 e"
  obtain f where f: "emulator_saveState file_helper (e, empty_file) = Cont (u, f)" "good_file f" "written_part f = emulator_bytes u"
    using state_file.emulator_save [OF empty_file_good(1) v assms(1-7)] empty_file_good(2) by (auto simp: u_def)
  have b: "unread_part (rewind f) = emulator_bytes u @ drop (fpos f) (contents f)" using rewound(2) [OF f(2)] f(3) by simp
  have u: "saveable (drives_of u)" "mmu_ok (machine u)" "\<forall>i < 4. ay_saveable (g_AY8910 (card u) i)" "1 / 4 \<le> restored_speed (sound u)"
      "drives_of u = d2"
    using assms(4,5,8,9) flush_saveable [OF assms(2)] flush_saveable [OF assms(3)]
    by (simp_all add: u_def put_drives_def mmu_ok_disk)
  have nm: "\<forall>i name. i < 2 \<longrightarrow> file_name (disk (drives_of u) i) = Some name \<longrightarrow> image_found (images i) name"
    using assms(12) flush_frame(7) [OF assms(2)] flush_frame(7) [OF assms(3)] by (simp add: u(5))
  obtain d where d: "restore_drives c deflate images (drives_of u) (drives_of t) = Some d"
    "\<forall>i < 2. drive_restored (images i) (disk (drives_of u) i) (disk d i)"
    using restore_drives_ok [where c = c and deflate = deflate, OF assms(10,11) nm] by blast
  obtain t' f' where l: "emulator_loadState c deflate images sys env file_helper (t, rewind f) = Cont (t', f')" "loaded u t d t'"
    using state_file.emulator_load [where env = env, OF rewound(1) [OF f(2)] b v u(1) d(1) u(2,3) assms(13-15) u(4)] by blast
  let ?r = "vm_restored (machine e) (machine t)"
  have m: "machine t' = ?r\<lparr>disk6 := d\<rparr>" using l(2) by (simp add: loaded_def u_def put_drives_def vm_restored_def)
  have t': "mmu_ok (machine t')" "softswitches (machine t') = softswitches (machine e)"
    unfolding m mmu_ok_disk by (rule restored_mmu [OF assms(5)]) (simp add: vm_restored_def)
  have mm: "mem (machine t') l = mem ?r l" for l by (cases l) (simp add: m mem_def region_of_def split: region.splits)
  have "vm_read k mb ea (machine t') = Some (map_read (softswitches (machine e)) (mem (machine e)) (unat ea), machine t')"
    if "memory_addr ea" for ea
  proof -
    have "mem (machine t') (read_loc (softswitches (machine e)) (unat ea)) = mem (machine e) (read_loc (softswitches (machine e)) (unat ea))"
      unfolding mm by (rule restored_mem [OF loc_in_range [OF read_ptr_loc [OF assms(5) that]]])
    then show ?thesis using vm_read_memory [OF t'(1) that, of k mb]
      by (simp add: t'(2) map_read_def mem_def split: prod.splits)
  qed
  moreover have "vm_read k mb ea (machine e) = Some (map_read (softswitches (machine e)) (mem (machine e)) (unat ea), machine e)"
    if "memory_addr ea" for ea
    using vm_read_memory [OF assms(5) that, of k mb] by (simp add: map_read_def mem_def split: prod.splits)
  ultimately have rd: "\<forall>ea. memory_addr ea \<longrightarrow> (\<exists>b. vm_read k mb ea (machine e) = Some (b, machine e) \<and>
       vm_read k mb ea (machine t') = Some (b, machine t'))" by blast
  show ?thesis
    using f(1) l d(2) t' rd unfolding u_def
    by (intro exI [of _ f] exI [of _ t'] exI [of _ f']) (simp add: loaded_def put_drives_def cpu_restored_def cpu_bytes_def)
qed




section \<open>A machine to run\<close>

text \<open>A machine with blank drives, a silent speaker and the card of \<open>A2_MockingboardGuarantees\<close>; \<open>stopped_emulator\<close> has not
  been initialised and its drives are empty.\<close>

definition emulator_with :: "vm \<Rightarrow> unit emulator" where
  "emulator_with m = \<lparr>machine = m, card = start_mb\<lparr>mb_video := video_start\<rparr>, sound = static_speaker video_start\<rparr>"

definition stopped_emulator :: "unit emulator" where
  "stopped_emulator = emulator_with (blank_vm\<lparr>disk6 := (blank_drives False)\<lparr>disk := \<lambda>_. blank_disk\<lparr>dfd := -1\<rparr>\<rparr>\<rparr>)"

lemma video_of_with: "vid m = video_start \<Longrightarrow> sound_view (emulator_with m) = static_speaker video_start"
  by (simp add: sound_view_def emulator_with_def static_speaker_def)

lemma half_second_ok: "settings_ok half_second"
  by (simp add: settings_ok_def half_second_def)

lemma static_speaker_ok:
  "speaker_ok (\<lambda>_. True) (static_speaker video_start :: unit speaker)" "set_up sys (static_speaker video_start :: unit speaker)"
  using clock_rate by (simp_all add: speaker_ok_def set_up_def static_speaker_def video_start_def)


theorem emulator_state_roundtrip_witness:
  "\<exists>f t' f'. emulator_saveState file_helper (emulator_with start_vm, empty_file) = Cont (emulator_with start_vm, f) \<and>
    emulator_loadState True (\<lambda>_. None)
      (\<lambda>_. \<lparr>env_dup = Some 4, env_inflate_ok = True, env_mmap_ok = True, env_image = replicate DSK_SIZE 0\<rparr>) half_second demo_env
      file_helper (stopped_emulator, rewind f) = Cont (t', f') \<and>
    softswitches (machine t') = SS_TEXT OR SS_BANK2 \<and> cpu_bytes (cpu_of t') = cpu_bytes idle_cpu \<and>
    file_name (disk (drives_of t') 1) = Some ''blank.dsk''"
proof -
  let ?e = "emulator_with start_vm"
  let ?im = "\<lambda>_ :: nat. \<lparr>env_dup = Some 4, env_inflate_ok = True, env_mmap_ok = True, env_image = replicate DSK_SIZE 0\<rparr>"
  let ?d = "blank_drives True"
  have e: "drives_of ?e = ?d" "video_of ?e = video_start" "machine ?e = start_vm" "cpu_of ?e = idle_cpu"
    "sound ?e = static_speaker video_start" "card ?e = start_mb\<lparr>mb_video := video_start\<rparr>"
    by (simp_all add: emulator_with_def start_vm_def initialize_iie_switches_def blank_vm_def start_mb_def)
  have t: "sound_view stopped_emulator = static_speaker video_start"
    "drives_of stopped_emulator = (blank_drives False)\<lparr>disk := \<lambda>_. blank_disk\<lparr>dfd := -1\<rparr>\<rparr>"
    using video_of_with by (simp_all add: stopped_emulator_def blank_vm_def emulator_with_def)
  have fl: "disk6_flush 0 ?d = Some ?d" "disk6_flush 1 ?d = Some ?d"
    by (auto simp: disk6_flush_def on_disk_def flush_disk_def blank_drives_def blank_disk_def intro!: ext)
  have fl': "disk6_flush 0 (drives_of ?e) = Some ?d" unfolding e(1) by (rule fl)
  have a: "in_step ?e" unfolding in_step_def e(2,5,6) by (simp add: static_speaker_def)
  have b: "saveable (drives_of ?e)" unfolding e(1) by (simp add: saveable_def saveable_drive_def blank_drives_def blank_disk_def)
  have c: "mmu_ok (machine ?e)" using start_vm_ok by (simp add: e vm_ok_def)
  have s: "cpu_scale_factor (sound ?e) = 1" "cpu_altscale_factor (sound ?e) = 1" "\<not> alt_speed_enabled (sound ?e)"
    by (simp_all add: e static_speaker_def)
  have h: "of_hundredths (hundredths 1) = 1" by code_simp
  have ay: "\<forall>i < 4. ay_saveable (g_AY8910 (card ?e) i)" using start_mb_saveable by (simp add: e)
  have sp: "1 / 4 \<le> restored_speed (sound ?e)" by (simp add: restored_speed_def s h)
  have em: "empty_drive (disk (drives_of stopped_emulator) 0)" "empty_drive (disk (drives_of stopped_emulator) 1)"
    by (simp_all add: t empty_drive_def blank_drives_def blank_disk_def)
  have im: "\<forall>i name. i < 2 \<longrightarrow> file_name (disk (drives_of ?e) i) = Some name \<longrightarrow> image_found (?im i) name"
    unfolding e(1) by (auto simp: image_found_def blank_drives_def blank_disk_def is_nib_def has_ext_def is_gz_def Let_def)
  note sk = static_speaker_ok [folded t(1)]
  have "(machine ?e)\<lparr>disk6 := ?d\<rparr> = machine ?e" using e(1) by (cases "machine ?e") simp
  then have same: "put_drives ?d ?e = ?e" by (simp add: put_drives_def)
  have sc: "0 \<le> cpu_scale_factor (sound ?e)" "0 \<le> cpu_altscale_factor (sound ?e)" by (simp_all add: s)
  obtain f t' f' where r: "emulator_saveState file_helper (?e, empty_file) = Cont (put_drives ?d ?e, f)"
      "emulator_loadState True (\<lambda>_. None) ?im half_second demo_env file_helper (stopped_emulator, rewind f) = Cont (t', f')"
      "\<forall>i < 2. drive_restored (?im i) (disk ?d i) (disk (drives_of t') i)"
      "softswitches (machine t') = softswitches (machine ?e)" "cpu_bytes (cpu_of t') = cpu_bytes (cpu_of ?e)"
    using emulator_state_roundtrip [where images = ?im and c = True and k = True and mb = "\<lambda>_ _. 0" and deflate = "\<lambda>_. None" and env = demo_env and sys = half_second,
      OF a fl' fl(2) b c sc ay sp em im half_second_ok sk] by (elim exE conjE) (rule that)
  have "softswitches (machine t') = SS_TEXT OR SS_BANK2" "cpu_bytes (cpu_of t') = cpu_bytes idle_cpu"
    using r(4,5) unfolding e(3,4) by (simp_all add: start_vm_switches)
  moreover have "file_name (disk (drives_of t') 1) = Some ''blank.dsk''"
    using r(3) [rule_format, of 1] by (simp add: drive_restored_def blank_drives_def blank_disk_def)
  ultimately show ?thesis using r(1,2) unfolding same by blast
qed

end
