(* ===== verification/A2_Keys.thy ===== *)
theory A2_Keys
  imports A2_Emulator
begin

text \<open>
  The keyboard (\<^verbatim>\<open>keys.c\<close>) and the joystick (\<^verbatim>\<open>joystick.c\<close>): scancodes and characters become key codes through the tables of
  the \<open>//e\<close> keyboard; a key code is latched into memory for the program, or is one of the emulator's own keys (speed, reset,
  menu); the keypad moves the paddles.  The desktop build is modelled, with the classic interface and the keypad joystick.
\<close>

section \<open>Key codes\<close>

abbreviation (input) kLT :: int where "kLT \<equiv> 8"
abbreviation (input) kTAB :: int where "kTAB \<equiv> 9"
abbreviation (input) kDN :: int where "kDN \<equiv> 10"
abbreviation (input) kUP :: int where "kUP \<equiv> 11"
abbreviation (input) kRET :: int where "kRET \<equiv> 13"
abbreviation (input) kRT :: int where "kRT \<equiv> 21"
abbreviation (input) kESC :: int where "kESC \<equiv> 27"
abbreviation (input) kDEL :: int where "kDEL \<equiv> 127"
abbreviation (input) kF1 :: int where "kF1 \<equiv> 128"
abbreviation (input) kF2 :: int where "kF2 \<equiv> 129"
abbreviation (input) kF3 :: int where "kF3 \<equiv> 130"
abbreviation (input) kF4 :: int where "kF4 \<equiv> 131"
abbreviation (input) kF5 :: int where "kF5 \<equiv> 132"
abbreviation (input) kF6 :: int where "kF6 \<equiv> 133"
abbreviation (input) kF7 :: int where "kF7 \<equiv> 134"
abbreviation (input) kF8 :: int where "kF8 \<equiv> 135"
abbreviation (input) kF9 :: int where "kF9 \<equiv> 136"
abbreviation (input) kF10 :: int where "kF10 \<equiv> 137"
abbreviation (input) kF11 :: int where "kF11 \<equiv> 138"
abbreviation (input) kF12 :: int where "kF12 \<equiv> 139"
abbreviation (input) kPAUSE :: int where "kPAUSE \<equiv> 155"
abbreviation (input) kPGUP :: int where "kPGUP \<equiv> 162"
abbreviation (input) kHOME :: int where "kHOME \<equiv> 163"
abbreviation (input) kPGDN :: int where "kPGDN \<equiv> 164"
abbreviation (input) kEND :: int where "kEND \<equiv> 165"
abbreviation (input) J_U :: int where "J_U \<equiv> 141"
abbreviation (input) J_D :: int where "J_D \<equiv> 142"
abbreviation (input) J_L :: int where "J_L \<equiv> 143"
abbreviation (input) J_R :: int where "J_R \<equiv> 144"
abbreviation (input) JUL :: int where "JUL \<equiv> 145"
abbreviation (input) JUR :: int where "JUR \<equiv> 146"
abbreviation (input) JDL :: int where "JDL \<equiv> 147"
abbreviation (input) JDR :: int where "JDR \<equiv> 148"
abbreviation (input) J_C :: int where "J_C \<equiv> 154"
abbreviation (input) JB0 :: int where "JB0 \<equiv> 149"
abbreviation (input) JB1 :: int where "JB1 \<equiv> 150"
abbreviation (input) JB2 :: int where "JB2 \<equiv> 151"

text \<open>Scancodes.\<close>

abbreviation (input) SCODE_ESC :: int where "SCODE_ESC \<equiv> 1"
abbreviation (input) SCODE_BS :: int where "SCODE_BS \<equiv> 14"
abbreviation (input) SCODE_TAB :: int where "SCODE_TAB \<equiv> 15"
abbreviation (input) SCODE_RET :: int where "SCODE_RET \<equiv> 28"
abbreviation (input) SCODE_L_CTRL :: int where "SCODE_L_CTRL \<equiv> 29"
abbreviation (input) SCODE_L_SHIFT :: int where "SCODE_L_SHIFT \<equiv> 42"
abbreviation (input) SCODE_R_SHIFT :: int where "SCODE_R_SHIFT \<equiv> 54"
abbreviation (input) SCODE_L_ALT :: int where "SCODE_L_ALT \<equiv> 56"
abbreviation (input) SCODE_CAPS :: int where "SCODE_CAPS \<equiv> 58"
abbreviation (input) SCODE_F1 :: int where "SCODE_F1 \<equiv> 59"
abbreviation (input) SCODE_F2 :: int where "SCODE_F2 \<equiv> 60"
abbreviation (input) SCODE_F3 :: int where "SCODE_F3 \<equiv> 61"
abbreviation (input) SCODE_F4 :: int where "SCODE_F4 \<equiv> 62"
abbreviation (input) SCODE_F5 :: int where "SCODE_F5 \<equiv> 63"
abbreviation (input) SCODE_F6 :: int where "SCODE_F6 \<equiv> 64"
abbreviation (input) SCODE_F7 :: int where "SCODE_F7 \<equiv> 65"
abbreviation (input) SCODE_F8 :: int where "SCODE_F8 \<equiv> 66"
abbreviation (input) SCODE_F9 :: int where "SCODE_F9 \<equiv> 67"
abbreviation (input) SCODE_F10 :: int where "SCODE_F10 \<equiv> 68"
abbreviation (input) SCODE_F11 :: int where "SCODE_F11 \<equiv> 69"
abbreviation (input) SCODE_F12 :: int where "SCODE_F12 \<equiv> 70"
abbreviation (input) SCODE_KPAD_UL :: int where "SCODE_KPAD_UL \<equiv> 71"
abbreviation (input) SCODE_KPAD_U :: int where "SCODE_KPAD_U \<equiv> 72"
abbreviation (input) SCODE_KPAD_UR :: int where "SCODE_KPAD_UR \<equiv> 73"
abbreviation (input) SCODE_KPAD_L :: int where "SCODE_KPAD_L \<equiv> 75"
abbreviation (input) SCODE_KPAD_C :: int where "SCODE_KPAD_C \<equiv> 76"
abbreviation (input) SCODE_KPAD_R :: int where "SCODE_KPAD_R \<equiv> 77"
abbreviation (input) SCODE_KPAD_DL :: int where "SCODE_KPAD_DL \<equiv> 79"
abbreviation (input) SCODE_KPAD_D :: int where "SCODE_KPAD_D \<equiv> 80"
abbreviation (input) SCODE_KPAD_DR :: int where "SCODE_KPAD_DR \<equiv> 81"
abbreviation (input) SCODE_R_CTRL :: int where "SCODE_R_CTRL \<equiv> 97"
abbreviation (input) SCODE_PRNT :: int where "SCODE_PRNT \<equiv> 99"
abbreviation (input) SCODE_R_ALT :: int where "SCODE_R_ALT \<equiv> 100"
abbreviation (input) SCODE_BRK :: int where "SCODE_BRK \<equiv> 101"
abbreviation (input) SCODE_HOME :: int where "SCODE_HOME \<equiv> 102"
abbreviation (input) SCODE_U :: int where "SCODE_U \<equiv> 103"
abbreviation (input) SCODE_PGUP :: int where "SCODE_PGUP \<equiv> 104"
abbreviation (input) SCODE_L :: int where "SCODE_L \<equiv> 105"
abbreviation (input) SCODE_R :: int where "SCODE_R \<equiv> 106"
abbreviation (input) SCODE_END :: int where "SCODE_END \<equiv> 107"
abbreviation (input) SCODE_D :: int where "SCODE_D \<equiv> 108"
abbreviation (input) SCODE_PGDN :: int where "SCODE_PGDN \<equiv> 109"
abbreviation (input) SCODE_INS :: int where "SCODE_INS \<equiv> 110"
abbreviation (input) SCODE_DEL :: int where "SCODE_DEL \<equiv> 111"
abbreviation (input) SCODE_PAUSE :: int where "SCODE_PAUSE \<equiv> 119"

section \<open>The keymaps\<close>

definition apple_iie_keymap_plain :: "int list" where
  "apple_iie_keymap_plain =
    [-1, kESC, 49, 50, 51, 52, 53, 54,
     55, 56, 57, 48, 45, 61, kLT, kTAB,
     113, 119, 101, 114, 116, 121, 117, 105,
     111, 112, 91, 93, kRET, -1, 97, 115,
     100, 102, 103, 104, 106, 107, 108, 59,
     39, 96, -1, 92, 122, 120, 99, 118,
     98, 110, 109, 44, 46, 47, -1, -1,
     JB0, 32, -1, kF1, kF2, kF3, kF4, kF5,
     kF6, kF7, kF8, kF9, kF10, kF11, kF12, JUL,
     J_U, JUR, -1, J_L, J_C, J_R, -1, JDL,
     J_D, JDR, -1, -1, -1, kF11, kF12, -1,
     -1, -1, -1, -1, -1, -1, -1, -1,
     -1, -1, -1, -1, JB1, -1, kHOME, kUP,
     kPGUP, kLT, kRT, kEND, kDN, kPGDN, JB2, kDEL,
     -1, -1, -1, -1, -1, -1, -1, kPAUSE,
     -1, -1, -1, -1, -1, -1, -1, -1]"

definition apple_iie_keymap_ctrl :: "int list" where
  "apple_iie_keymap_ctrl =
    [-1, kESC, 49, 50, 51, 52, 53, 54,
     55, 56, 57, 48, 45, 61, kLT, kTAB,
     17, 23, 5, 18, 20, 25, kRT, kTAB,
     15, 16, kESC, 29, kRET, -1, 1, 19,
     4, 6, 7, kLT, kDN, kUP, 12, 59,
     39, 96, -1, 92, 26, 24, 3, 22,
     2, 14, kRET, 44, 46, 47, -1, -1,
     JB0, 32, -1, kF1, kF2, kF3, kF4, kF5,
     kF6, kF7, kF8, kF9, kF10, kF11, kF12, JUL,
     J_U, JUR, -1, J_L, J_C, J_R, -1, JDL,
     J_D, JDR, -1, -1, -1, kF11, kF12, -1,
     -1, -1, -1, -1, -1, -1, -1, -1,
     -1, -1, -1, -1, JB1, -1, kHOME, kUP,
     kPGUP, kLT, kRT, kEND, kDN, kPGDN, JB2, kDEL,
     -1, -1, -1, -1, -1, -1, -1, kPAUSE,
     -1, -1, -1, -1, -1, -1, -1, -1]"

definition apple_iie_keymap_shifted :: "int list" where
  "apple_iie_keymap_shifted =
    [-1, kESC, 33, 64, 35, 36, 37, 94,
     38, 42, 40, 41, 95, 43, kLT, kTAB,
     81, 87, 69, 82, 84, 89, 85, 73,
     79, 80, 123, 125, kRET, -1, 65, 83,
     68, 70, 71, 72, 74, 75, 76, 58,
     34, 126, -1, 124, 90, 88, 67, 86,
     66, 78, 77, 60, 62, 63, -1, -1,
     JB0, 32, -1, kF1, kF2, kF3, kF4, kF5,
     kF6, kF7, kF8, kF9, kF10, kF11, kF12, JUL,
     J_U, JUR, -1, J_L, J_C, J_R, -1, JDL,
     J_D, JDR, -1, -1, -1, kF11, kF12, -1,
     -1, -1, -1, -1, -1, -1, -1, -1,
     -1, -1, -1, -1, JB1, -1, kHOME, kUP,
     kPGUP, kLT, kRT, kEND, kDN, kPGDN, JB2, kDEL,
     -1, -1, -1, -1, -1, -1, -1, kPAUSE,
     -1, -1, -1, -1, -1, -1, -1, -1]"

definition apple_iie_keymap_caps :: "int list" where
  "apple_iie_keymap_caps =
    [-1, kESC, 49, 50, 51, 52, 53, 54,
     55, 56, 57, 48, 45, 61, kLT, kTAB,
     81, 87, 69, 82, 84, 89, 85, 73,
     79, 80, 91, 93, kRET, -1, 65, 83,
     68, 70, 71, 72, 74, 75, 76, 59,
     39, 96, -1, 92, 90, 88, 67, 86,
     66, 78, 77, 44, 46, 47, -1, -1,
     JB0, 32, -1, kF1, kF2, kF3, kF4, kF5,
     kF6, kF7, kF8, kF9, kF10, kF11, kF12, JUL,
     J_U, JUR, -1, J_L, J_C, J_R, -1, JDL,
     J_D, JDR, -1, -1, -1, kF11, kF12, -1,
     -1, -1, -1, -1, -1, -1, -1, -1,
     -1, -1, -1, -1, JB1, -1, kHOME, kUP,
     kPGUP, kLT, kRT, kEND, kDN, kPGDN, JB2, kDEL,
     -1, -1, -1, -1, -1, -1, -1, kPAUSE,
     -1, -1, -1, -1, -1, -1, -1, -1]"

definition apple_iie_keymap_shift_ctrl :: "int list" where
  "apple_iie_keymap_shift_ctrl =
    [-1, kESC, 49, 0, 51, 52, 53, 30,
     55, 56, 57, 48, 31, 61, kLT, kTAB,
     17, 23, 5, 18, 20, 25, kRT, kTAB,
     15, 16, kESC, 29, kRET, -1, 1, 19,
     4, 6, 7, kLT, kDN, kUP, 12, 59,
     39, 96, 28, -1, 26, 24, 3, 22,
     2, 14, kRET, 44, 46, 47, -1, -1,
     JB0, 32, -1, kF1, kF2, kF3, kF4, kF5,
     kF6, kF7, kF8, kF9, kF10, kF11, kF12, JUL,
     J_U, JUR, -1, J_L, J_C, J_R, -1, JDL,
     J_D, JDR, -1, -1, -1, kF11, kF12, -1,
     -1, -1, -1, -1, -1, -1, -1, -1,
     -1, -1, -1, -1, JB1, -1, kHOME, kUP,
     kPGUP, kLT, kRT, kEND, kDN, kPGDN, JB2, kDEL,
     -1, -1, -1, -1, -1, -1, -1, kPAUSE,
     -1, -1, -1, -1, -1, -1, -1, -1]"

definition scode_map :: "int list" where
  "scode_map =
    [-1, -1, -1, -1, -1, -1, -1, -1,
     SCODE_BS, SCODE_TAB, SCODE_RET, -1, -1, SCODE_RET, -1, -1,
     -1, -1, -1, -1, -1, -1, -1, -1,
     -1, -1, -1, SCODE_ESC, -1, -1, -1, -1,
     57, 2, 40, 4, 5, 6, 8, 40,
     10, 11, 9, 13, 51, 12, 52, 53,
     11, 2, 3, 4, 5, 6, 7, 8,
     9, 10, 39, 39, 51, 13, 52, 53,
     3, 30, 48, 46, 32, 18, 33, 34,
     35, 23, 36, 37, 38, 50, 49, 24,
     25, 16, 19, 31, 20, 22, 47, 17,
     45, 21, 44, 26, 43, 27, 7, 12,
     41, 30, 48, 46, 32, 18, 33, 34,
     35, 23, 36, 37, 38, 50, 49, 24,
     25, 16, 19, 31, 20, 22, 47, 17,
     45, 21, 44, 26, 43, 27, 41, SCODE_DEL]"

datatype font_mode_t = FONT_MODE_NORMAL | FONT_MODE_MOUSETEXT | FONT_MODE_INVERSE | FONT_MODE_FLASH

text \<open>A byte of the text page as an ASCII character and its mode.\<close>

definition keys_apple2ASCII :: "u32 \<Rightarrow> byte \<Rightarrow> byte \<times> font_mode_t" where
  "keys_apple2ASCII sw c =
    (if c < 0x20 then (c + 0x40, FONT_MODE_INVERSE)
     else if c < 0x40 then (c, FONT_MODE_INVERSE)
     else if c < 0x60 then (if flag_on sw SS_ALTCHAR then (c + 0x40, FONT_MODE_MOUSETEXT) else (c, FONT_MODE_FLASH))
     else if c < 0x80 then (if flag_on sw SS_ALTCHAR then (c, FONT_MODE_INVERSE) else (c - 0x40, FONT_MODE_FLASH))
     else if c < 0xA0 then (c - 0x40, FONT_MODE_NORMAL)
     else if c < 0xC0 then (c - 0x80, FONT_MODE_NORMAL)
     else if c < 0xE0 then (c - 0x80, FONT_MODE_NORMAL)
     else (c - 0x80, FONT_MODE_NORMAL))"

definition keys_ascii2Scancode :: "byte \<Rightarrow> int" where
  "keys_ascii2Scancode c = scode_map ! unat (c AND 0x7f)"

definition keys_scancode2ASCII :: "int \<Rightarrow> bool \<Rightarrow> bool \<Rightarrow> int" where
  "keys_scancode2ASCII scancode is_shifted is_ctrl =
    (if scancode < 0 then -1
     else (if is_shifted \<and> is_ctrl then apple_iie_keymap_shift_ctrl
           else if is_ctrl then apple_iie_keymap_ctrl
           else if is_shifted then apple_iie_keymap_shifted
           else apple_iie_keymap_plain) ! nat (scancode mod 128))"

section \<open>State\<close>

datatype joystick_mode_t = JOY_PCJOY | JOY_KPAD

datatype input_effect = Show_speed | Interface_begin int | Driver_reset

text \<open>The paddles and buttons are fields of the machine \<open>km\<close>; the keys act on the processor and on the CPU thread.\<close>

record 'v desk =
  km :: vm
  kcpu :: cpu65
  kthread :: "'v thread"
  next_key :: int
  last_scancode :: int
  last_ascii :: int
  caps_lock :: bool
  key_pressed :: "int \<Rightarrow> bool"
  joy_mode :: joystick_mode_t
  joy_clip_to_radius :: bool
  joy_step :: int
  joy_auto_recenter :: bool
  x_unpressed_count :: int
  y_unpressed_count :: int
  frameCallback :: bool
  frameCount :: byte
  input_log :: "input_effect list"

definition log_input :: "input_effect \<Rightarrow> 'v desk \<Rightarrow> 'v desk" where
  "log_input e k = k\<lparr>input_log := input_log k @ [e]\<rparr>"

definition set_joy_x :: "nat \<Rightarrow> 'v desk \<Rightarrow> 'v desk" where "set_joy_x n k = k\<lparr>km := (km k)\<lparr>joy_x := n\<rparr>\<rparr>"
definition set_joy_y :: "nat \<Rightarrow> 'v desk \<Rightarrow> 'v desk" where "set_joy_y n k = k\<lparr>km := (km k)\<lparr>joy_y := n\<rparr>\<rparr>"
definition set_button0 :: "byte \<Rightarrow> 'v desk \<Rightarrow> 'v desk" where "set_button0 b k = k\<lparr>km := (km k)\<lparr>joy_button0 := b\<rparr>\<rparr>"
definition set_button1 :: "byte \<Rightarrow> 'v desk \<Rightarrow> 'v desk" where "set_button1 b k = k\<lparr>km := (km k)\<lparr>joy_button1 := b\<rparr>\<rparr>"

abbreviation some_pressed :: "'v desk \<Rightarrow> int list \<Rightarrow> bool" where
  "some_pressed k scs \<equiv> list_ex (key_pressed k) scs"

definition keys_isShifted :: "'v desk \<Rightarrow> bool" where
  "keys_isShifted k \<longleftrightarrow> some_pressed k [SCODE_L_SHIFT, SCODE_R_SHIFT]"

definition control_down :: "'v desk \<Rightarrow> bool" where
  "control_down k \<longleftrightarrow> some_pressed k [SCODE_L_CTRL, SCODE_R_CTRL]"

section \<open>Input\<close>

definition press_ascii :: "int \<Rightarrow> 'v desk \<Rightarrow> 'v desk" where
  "press_ascii scancode k =
    (let scancode = (if \<not> control_down k \<and> caps_lock k \<and> scancode \<ge> 97 \<and> scancode \<le> 122 then scancode - 32 else scancode)
     in k\<lparr>last_scancode := keys_ascii2Scancode (word_of_int scancode), next_key := scancode\<rparr>)"

definition keymap :: "'v desk \<Rightarrow> int list" where
  "keymap k =
    (if keys_isShifted k \<and> control_down k then apple_iie_keymap_shift_ctrl
     else if control_down k then apple_iie_keymap_ctrl
     else if keys_isShifted k then apple_iie_keymap_shifted
     else if caps_lock k then apple_iie_keymap_caps
     else apple_iie_keymap_plain)"

definition press_scancode :: "int \<Rightarrow> bool \<Rightarrow> 'v desk \<Rightarrow> 'v desk" where
  "press_scancode scancode is_pressed k =
    (let key = keymap k ! nat scancode;
         k = k\<lparr>last_scancode := scancode, key_pressed := (key_pressed k)(scancode := is_pressed)\<rparr>
     in if is_pressed
        then (if key = JB0 then set_button0 0xff k else if key = JB1 then set_button1 0xff k else k\<lparr>next_key := key\<rparr>)
        else (if key = JB0 then set_button0 0x00 k else if key = JB1 then set_button1 0x00 k else k))"

text \<open>The key goes to both banks of the I/O page, with the strobe bit set.\<close>

definition latch_key :: "int \<Rightarrow> 'v desk \<Rightarrow> 'v desk" where
  "latch_key key k =
    (let b = word_of_int key OR 0x80
     in k\<lparr>km := (km k)\<lparr>apple_ii_64k := (apple_ii_64k (km k))(0xC000 := b, 65536 + 0xC000 := b)\<rparr>\<rparr>)"

text \<open>The C library's \<open>round\<close> of a speed to percents: halves go up.\<close>

definition percents :: "double \<Rightarrow> int" where
  "percents scale = \<lfloor>rnd (scale * 100) + 1 / 2\<rfloor>"

definition slower :: "double \<Rightarrow> double" where
  "slower scale =
    (let percent_scale =
       (if scale > CPU_SCALE_FASTEST_PIVOT then percents CPU_SCALE_FASTEST_PIVOT
        else if percents scale > 100 then percents scale - 25 else percents scale - 5);
         scale = rnd (of_int percent_scale / 100)
     in if scale < CPU_SCALE_SLOWEST then CPU_SCALE_SLOWEST else scale)"

definition faster :: "double \<Rightarrow> double" where
  "faster scale =
    (let percent_scale = (if percents scale \<ge> 100 then percents scale + 25 else percents scale + 5);
         scale = rnd (of_int percent_scale / 100)
     in if scale > CPU_SCALE_FASTEST then CPU_SCALE_FASTEST else scale)"

definition on_speaker :: "('v speaker \<Rightarrow> 'v speaker option) \<Rightarrow> 'v desk \<Rightarrow> 'v desk option" where
  "on_speaker g k = map_option (\<lambda>s. k\<lparr>kthread := (kthread k)\<lparr>spk := s\<rparr>\<rparr>) (g (spk (kthread k)))"

definition on_thread :: "('v thread \<Rightarrow> 'v thread) \<Rightarrow> 'v desk \<Rightarrow> 'v desk" where
  "on_thread g k = k\<lparr>kthread := g (kthread k)\<rparr>"

definition while_paused :: "('v desk \<Rightarrow> 'v desk option) \<Rightarrow> 'v desk \<Rightarrow> 'v desk option" where
  "while_paused g k = map_option (on_thread cpu_resume) (g (on_thread cpu_pause k))"

definition change_speed :: "audio_settings \<Rightarrow> (double \<Rightarrow> double) \<Rightarrow> 'v desk \<Rightarrow> 'v desk option" where
  "change_speed sys f k =
    (let k = on_thread (\<lambda>t. t\<lparr>spk := (let s = spk t in
           if alt_speed_enabled s then s\<lparr>cpu_altscale_factor := f (cpu_altscale_factor s)\<rparr>
           else s\<lparr>cpu_scale_factor := f (cpu_scale_factor s)\<rparr>)\<rparr>) k
     in while_paused (on_speaker (timing_initialize sys)) (log_input Show_speed k))"

definition c_keys_is_interface_key :: "int \<Rightarrow> bool" where
  "c_keys_is_interface_key key \<longleftrightarrow> key \<in> {kF1, kF2, kF5, kF7, kF8, kF10}"

definition consume_key :: "audio_settings \<Rightarrow> 'v desk \<Rightarrow> 'v desk option" where
  "consume_key sys k =
    (if next_key k \<ge> 0 \<and> \<not> is_paused (kthread k)
     then (let current_key = next_key k; k = k\<lparr>last_ascii := current_key, next_key := -1\<rparr>
           in if current_key < 0x80 then Some (latch_key current_key k)
              else if current_key = kF9 then map_option (log_input Show_speed) (while_paused (on_speaker (timing_toggleCPUSpeed sys)) k)
              else if current_key = kF3 then change_speed sys slower k
              else if current_key = kF4 then change_speed sys faster k
              else if current_key = kEND
                then Some (if control_down k then k\<lparr>kcpu := cpu65_interrupt ResetSig (kcpu k)\<rparr> else k)
              else if c_keys_is_interface_key current_key \<or> current_key = kPAUSE then Some (log_input (Interface_begin current_key) k)
              else Some k)
     else Some k)"

section \<open>The keypad as a joystick\<close>

definition JOY_RANGE :: int where "JOY_RANGE = 0x100"

text \<open>The paddles are unsigned 16 bit integers.\<close>

definition paddle :: "int \<Rightarrow> nat" where
  "paddle n = nat (n mod 2 ^ 16)"

definition less_joy :: "'v desk \<Rightarrow> nat \<Rightarrow> nat" where
  "less_joy k j = (if int j > joy_step k then paddle (int j - joy_step k) else 0)"

definition more_joy :: "'v desk \<Rightarrow> nat \<Rightarrow> nat" where
  "more_joy k j = (if int j < JOY_RANGE - joy_step k then paddle (int j + joy_step k) else paddle (JOY_RANGE - 1))"

definition x_keys :: "int list" where
  "x_keys = [SCODE_KPAD_L, SCODE_KPAD_R, SCODE_KPAD_UL, SCODE_KPAD_DL, SCODE_KPAD_UR, SCODE_KPAD_DR, SCODE_L, SCODE_R]"

definition y_keys :: "int list" where
  "y_keys = [SCODE_KPAD_U, SCODE_KPAD_D, SCODE_KPAD_UL, SCODE_KPAD_DL, SCODE_KPAD_UR, SCODE_KPAD_DR, SCODE_U, SCODE_D]"

definition recenter :: "'v desk \<Rightarrow> 'v desk" where
  "recenter k =
    (let k = (if \<not> some_pressed k x_keys
              then (let n = x_unpressed_count k + 1
                    in if n > 2 then set_joy_x HALF_JOY_RANGE (k\<lparr>x_unpressed_count := 0\<rparr>) else k\<lparr>x_unpressed_count := n\<rparr>)
              else k\<lparr>x_unpressed_count := 0\<rparr>)
     in if \<not> some_pressed k y_keys
        then (let n = y_unpressed_count k + 1
              in if n > 2 then set_joy_y HALF_JOY_RANGE (k\<lparr>y_unpressed_count := 0\<rparr>) else k\<lparr>y_unpressed_count := n\<rparr>)
        else k\<lparr>y_unpressed_count := 0\<rparr>)"

definition keypad :: "'v desk \<Rightarrow> 'v desk" where
  "keypad k =
    (let k = (if key_pressed k SCODE_KPAD_C then set_joy_y HALF_JOY_RANGE (set_joy_x HALF_JOY_RANGE k) else k);
         k = (if joy_auto_recenter k then recenter k else k);
         k = (if some_pressed k [SCODE_KPAD_UL, SCODE_KPAD_U, SCODE_KPAD_UR, SCODE_U] then set_joy_y (less_joy k (joy_y (km k))) k else k);
         k = (if some_pressed k [SCODE_KPAD_DL, SCODE_KPAD_D, SCODE_KPAD_DR, SCODE_D] then set_joy_y (more_joy k (joy_y (km k))) k else k);
         k = (if some_pressed k [SCODE_KPAD_UL, SCODE_KPAD_L, SCODE_KPAD_DL, SCODE_L] then set_joy_x (less_joy k (joy_x (km k))) k else k)
     in if some_pressed k [SCODE_KPAD_UR, SCODE_KPAD_R, SCODE_KPAD_DR, SCODE_R] then set_joy_x (more_joy k (joy_x (km k))) k else k)"

definition keys_handleInput :: "audio_settings \<Rightarrow> int \<Rightarrow> bool \<Rightarrow> bool \<Rightarrow> 'v desk \<Rightarrow> 'v desk option" where
  "keys_handleInput sys scancode is_pressed is_ascii k =
    (if is_ascii \<and> \<not> is_pressed then Some k
     else do {
       k \<leftarrow> (if is_ascii then Some (press_ascii scancode k)
            else if scancode \<ge> 0 then c_assert (scancode < 0x80) (press_scancode scancode is_pressed k)
            else Some k);
       k \<leftarrow> consume_key sys k;
       Some (if joy_mode k = JOY_KPAD then keypad k else k) })"

section \<open>The other entry points\<close>

definition keys_consumeLastKey :: "'v desk \<Rightarrow> (int \<times> 'v desk) option" where
  "keys_consumeLastKey k =
    (let k = k\<lparr>km := (km k)\<lparr>apple_ii_64k := (apple_ii_64k (km k))(0xC000 := 0, 65536 + 0xC000 := 0)\<rparr>\<rparr>;
         (scancode, ascii) = (if last_scancode k < 0 \<or> last_ascii k < 0 then (0, 0) else (last_scancode k, last_ascii k))
     in if scancode < 256 \<and> ascii < 256 then Some (ascii mod 256 * 256 + scancode mod 256, k) else None)"

definition c_rawkey :: "'v desk \<Rightarrow> int" where
  "c_rawkey k = last_scancode k"

text \<open>Without blocking; a blocking call waits for a key of another thread.\<close>

definition c_mygetch :: "'v desk \<Rightarrow> int \<times> 'v desk" where
  "c_mygetch k = (next_key k, k\<lparr>next_key := -1\<rparr>)"

definition c_keys_set_key :: "int \<Rightarrow> 'v desk \<Rightarrow> 'v desk" where
  "c_keys_set_key key k = k\<lparr>next_key := key\<rparr>"

definition keys_prefsChanged :: "bool option \<Rightarrow> 'v desk \<Rightarrow> 'v desk" where
  "keys_prefsChanged caps k = (case caps of Some val \<Rightarrow> k\<lparr>caps_lock := val\<rparr> | None \<Rightarrow> k)"

text \<open>Preferences are \<open>None\<close> where not set.  The step is read into the variable that holds the mode.\<close>

record joystick_prefs =
  pref_mode :: "int option"
  pref_clip :: "bool option"
  pref_step :: "int option"
  pref_recenter :: "bool option"

definition getJoyMode :: "int \<Rightarrow> joystick_mode_t" where
  "getJoyMode lVal = (if lVal = 1 then JOY_KPAD else JOY_PCJOY)"

definition joystick_prefsChanged :: "joystick_prefs \<Rightarrow> 'v desk \<Rightarrow> 'v desk" where
  "joystick_prefsChanged p k =
    (let k = (case pref_mode p of Some m \<Rightarrow> k\<lparr>joy_mode := getJoyMode m\<rparr> | None \<Rightarrow> k);
         k = (case pref_clip p of Some b \<Rightarrow> k\<lparr>joy_clip_to_radius := b\<rparr> | None \<Rightarrow> k);
         lVal = (case pref_step p of Some l \<Rightarrow> l | None \<Rightarrow> (case pref_mode p of Some m \<Rightarrow> m | None \<Rightarrow> 0));
         step = sint (word_of_int lVal :: 16 word);
         step = (if step < 1 then 1 else step);
         step = (if step > 255 then 255 else step);
         k = k\<lparr>joy_step := step\<rparr>
     in (case pref_recenter p of Some b \<Rightarrow> k\<lparr>joy_auto_recenter := b\<rparr> | None \<Rightarrow> k))"

text \<open>What the keys of the keypad calibration screen set.\<close>

definition calibrate_keypad_key :: "int \<Rightarrow> 'v desk \<Rightarrow> 'v desk" where
  "calibrate_keypad_key ch k =
    (if ch = 60 then (if joy_step k > 1 then k\<lparr>joy_step := joy_step k - 1\<rparr> else k)
     else if ch = 62 then (if joy_step k < 0xFF then k\<lparr>joy_step := joy_step k + 1\<rparr> else k)
     else if ch = 43
       then (let k = k\<lparr>joy_auto_recenter := \<not> joy_auto_recenter k\<rparr>
             in if joy_auto_recenter k then set_joy_y HALF_JOY_RANGE (set_joy_x HALF_JOY_RANGE k) else k)
     else k)"

text \<open>Two frames after a reset the buttons are released.\<close>

definition joystick_reset :: "'v desk \<Rightarrow> 'v desk" where
  "joystick_reset k =
    set_joy_y HALF_JOY_RANGE (set_joy_x HALF_JOY_RANGE ((log_input Driver_reset k)\<lparr>frameCount := 2, frameCallback := True\<rparr>))"

definition joystick_frameCallback :: "'v desk \<Rightarrow> 'v desk" where
  "joystick_frameCallback k =
    (let k = k\<lparr>frameCount := frameCount k - 1\<rparr>
     in if frameCount k = 0 then (set_button1 0x0 (set_button0 0x0 k))\<lparr>frameCallback := False\<rparr> else k)"

text \<open>A position beyond the circle moves to the corner.  The distance is the square root of an integer below $2^{15}$, rounded to
  single precision: it exceeds 128 exactly when the integer exceeds the square of 128.\<close>

definition QUARTER_JOY_RANGE :: byte where "QUARTER_JOY_RANGE = 0x40"

definition clampBeyondRadius :: "bool \<Rightarrow> byte \<times> byte \<Rightarrow> byte \<times> byte" where
  "clampBeyondRadius clip = (\<lambda>(x, y).
    let half_x = int (unat x) - 128; half_y = int (unat y) - 128; shouldClip = (half_x * half_x + half_y * half_y > 128 * 128)
    in if clip \<and> shouldClip
       then (if x < 0x80 then (if x < QUARTER_JOY_RANGE then 0 else x) else (if x < 0x80 + QUARTER_JOY_RANGE then x else 0xFF),
             if y < 0x80 then (if y < QUARTER_JOY_RANGE then 0 else y) else (if y < 0x80 + QUARTER_JOY_RANGE then y else 0xFF))
       else (x, y))"

definition joydriver_setClampBeyondRadius :: "bool \<Rightarrow> 'v desk \<Rightarrow> 'v desk" where
  "joydriver_setClampBeyondRadius clamp k = k\<lparr>joy_clip_to_radius := clamp\<rparr>"

definition joydriver_setAxisValue :: "byte \<Rightarrow> byte \<Rightarrow> 'v desk \<Rightarrow> 'v desk" where
  "joydriver_setAxisValue x y k =
    (let (x, y) = clampBeyondRadius (joy_clip_to_radius k) (x, y) in set_joy_y (unat y) (set_joy_x (unat x) k))"

definition joydriver_getAxisX :: "'v desk \<Rightarrow> byte" where "joydriver_getAxisX k = of_nat (joy_x (km k))"
definition joydriver_getAxisY :: "'v desk \<Rightarrow> byte" where "joydriver_getAxisY k = of_nat (joy_y (km k))"

definition joydriver_setButton0Pressed :: "bool \<Rightarrow> 'v desk \<Rightarrow> 'v desk" where
  "joydriver_setButton0Pressed pressed = set_button0 (if pressed then 0x80 else 0x0)"
definition joydriver_setButton1Pressed :: "bool \<Rightarrow> 'v desk \<Rightarrow> 'v desk" where
  "joydriver_setButton1Pressed pressed = set_button1 (if pressed then 0x80 else 0x0)"

end
