(* ===== verification/A2_KeysProps.thy ===== *)
theory A2_KeysProps
  imports A2_Keys
begin

text \<open>
  What the keyboard and the joystick guarantee: both ways of typing a character give a program the same byte, the speed keys stay
  within the speeds the speaker can work with, and no input fails an assertion or moves a paddle out of its range.
\<close>

section \<open>The tables\<close>

text \<open>The characters typed with the shift key.\<close>

definition shifted :: "int \<Rightarrow> bool" where
  "shifted c \<longleftrightarrow> c = 33 \<or> 34 \<le> c \<and> c \<le> 38 \<or> 40 \<le> c \<and> c \<le> 43 \<or> c = 58 \<or> c = 60 \<or> 62 \<le> c \<and> c \<le> 90 \<or> c = 94 \<or> c = 95 \<or>
     123 \<le> c \<and> c \<le> 126"

definition upper :: "int \<Rightarrow> int" where
  "upper c = (if 97 \<le> c \<and> c \<le> 122 then c - 32 else c)"

definition check_char :: "int \<Rightarrow> bool" where
  "check_char c =
    (let sc = keys_ascii2Scancode (word_of_int c); n = nat sc
     in 0 \<le> sc \<and> sc < 128 \<and> keys_scancode2ASCII sc (shifted c) False = c \<and> sc \<notin> {29, 42, 54, 97} \<and>
        (if shifted c then apple_iie_keymap_shifted ! n = c else apple_iie_keymap_plain ! n = c \<and> apple_iie_keymap_caps ! n = upper c))"

lemma check_chars: "list_all check_char [32..126]"
  by code_simp

lemma printable:
  assumes "32 \<le> c" "c < 127"
  shows "check_char c"
proof -
  have "c \<in> set [32..126]" using assms unfolding set_upto atLeastAtMost_iff by linarith
  then show ?thesis using check_chars by (simp only: list_all_iff)
qed

text \<open>The control codes of the shifted backslash are one place too early, on the left shift key.\<close>

lemma shifted_control_backslash:
  "keys_ascii2Scancode 0x7C = 43" "apple_iie_keymap_shift_ctrl ! 43 = -1" "apple_iie_keymap_shift_ctrl ! nat SCODE_L_SHIFT = 28"
  by code_simp+

lemma table_bounds:
  "list_all (\<lambda>m. list_all (\<lambda>key. -1 \<le> key \<and> key < 256) m \<and> length m = 128)
     [apple_iie_keymap_plain, apple_iie_keymap_ctrl, apple_iie_keymap_shifted, apple_iie_keymap_caps, apple_iie_keymap_shift_ctrl, scode_map]"
  by code_simp

lemma apple2ASCII_printable:
  "list_all (\<lambda>sw. list_all (\<lambda>n. case keys_apple2ASCII sw (of_nat n) of (c, m) \<Rightarrow> if m = FONT_MODE_MOUSETEXT then 0x80 \<le> c \<and> c < 0xA0 else 0x20 \<le> c \<and> c < 0x80)
     [0..<256]) [0, SS_ALTCHAR]"
  by code_simp

section \<open>Typing\<close>

text \<open>What reaches the program: the byte \<open>b\<close> with the strobe at \<open>$C000\<close>, without it after an access to \<open>$C010\<close>.\<close>

definition program_reads :: "byte \<Rightarrow> vm \<Rightarrow> bool" where
  "program_reads b m \<longleftrightarrow> (\<forall>c. read_softswitch c 0xC000 m = Some (b OR 0x80, m) \<and>
     (\<exists>m'. read_softswitch c 0xC010 m = Some (b, m') \<and> read_softswitch c 0xC000 m' = Some (b, m')))"

lemma strobe_cleared:
  assumes "0 \<le> c" "c < 128"
  shows "(word_of_int c OR 0x80) AND 0x7F = (word_of_int c :: byte)"
proof -
  have "list_all (\<lambda>c. (word_of_int c OR 0x80) AND 0x7F = (word_of_int c :: byte)) [0..127]" by code_simp
  moreover have "c \<in> set [0..127]" using assms unfolding set_upto atLeastAtMost_iff by linarith
  ultimately show ?thesis by (simp only: list_all_iff)
qed

lemma latched_is_read:
  assumes "0 \<le> c" "c < 128"
  shows "program_reads (word_of_int c) (km (latch_key c k))"
  using strobe_cleared [OF assms]
  by (simp add: program_reads_def latch_key_def read_softswitch_def read_keyboard_strobe_def Let_def)

text \<open>The keypad moves nothing but the paddles.\<close>

lemma joy_frame:
  "apple_ii_64k (km (set_joy_x n k)) = apple_ii_64k (km k)" "apple_ii_64k (km (set_joy_y n k)) = apple_ii_64k (km k)"
  "program_reads b (km (set_joy_x n k)) = program_reads b (km k)" "program_reads b (km (set_joy_y n k)) = program_reads b (km k)"
  by (auto simp: set_joy_x_def set_joy_y_def program_reads_def read_softswitch_def read_keyboard_strobe_def Let_def)

lemma keypad_frame: "program_reads b (km (keypad k)) = program_reads b (km k)"
proof -
  have f: "program_reads b (km (if p then set_joy_x n j else j)) = program_reads b (km j)"
    "program_reads b (km (if p then set_joy_y n j else j)) = program_reads b (km j)" for p n and j :: "'a desk"
    by (simp_all add: joy_frame)
  have "program_reads b (km (recenter j)) = program_reads b (km j)" for j :: "'a desk"
    by (simp add: recenter_def Let_def joy_frame)
  then have r: "program_reads b (km (if p then recenter j else j)) = program_reads b (km j)" for p and j :: "'a desk" by simp
  show ?thesis unfolding keypad_def Let_def f r by (simp add: joy_frame)
qed

lemma consume_latches:
  assumes "0 \<le> next_key k" "next_key k < 128" "\<not> is_paused (kthread k)"
  shows "consume_key sys k = Some (latch_key (next_key k) (k\<lparr>last_ascii := next_key k, next_key := -1\<rparr>))"
  using assms by (simp add: consume_key_def Let_def)

lemma typed_reads:
  assumes "0 \<le> next_key k" "next_key k < 128" "\<not> is_paused (kthread k)"
  shows "\<exists>k'. consume_key sys k = Some k' \<and> program_reads (word_of_int (next_key k)) (km k') \<and>
    program_reads (word_of_int (next_key k)) (km (keypad k'))"
  unfolding consume_latches [OF assms] using latched_is_read [OF assms(1,2)] keypad_frame by blast

text \<open>C23: typing gives the program the character, whichever way the platform reports it: pressed as a character, or as the scancode the
  tables give for it with the shift key held exactly when the character needs it, a printable character reads at \<open>$C000\<close> with the
  strobe set and, once \<open>$C010\<close> is accessed, with the strobe clear; letters are capitals under caps lock.\<close>

theorem typed_key_is_read:
  assumes "32 \<le> c" "c < 127" "\<not> is_paused (kthread k)" "\<not> control_down k"
    and "b = word_of_int (if caps_lock k then upper c else c)"
  shows "(\<exists>k'. keys_handleInput sys c True True k = Some k' \<and> program_reads b (km k')) \<and>
    (keys_isShifted k = shifted c \<longrightarrow>
      (\<exists>k'. keys_handleInput sys (keys_ascii2Scancode (word_of_int c)) True False k = Some k' \<and> program_reads b (km k')))"
proof
  let ?c = "if caps_lock k then upper c else c"
  have u: "32 \<le> ?c" "?c < 127" "shifted c \<Longrightarrow> ?c = c" using assms(1,2) by (auto simp: upper_def shifted_def)
  define a where "a = press_ascii c k"
  have a: "next_key a = ?c" "\<not> is_paused (kthread a)" using assms(3,4) by (simp_all add: a_def press_ascii_def upper_def Let_def)
  show "\<exists>k'. keys_handleInput sys c True True k = Some k' \<and> program_reads b (km k')"
    using typed_reads [of a sys] a u(1,2) assms(5) by (auto simp: keys_handleInput_def a_def [symmetric])
  let ?sc = "keys_ascii2Scancode (word_of_int c)"
  show "keys_isShifted k = shifted c \<longrightarrow> (\<exists>k'. keys_handleInput sys ?sc True False k = Some k' \<and> program_reads b (km k'))"
  proof
    assume sh: "keys_isShifted k = shifted c"
    have ck: "0 \<le> ?sc" "?sc < 128" "shifted c \<Longrightarrow> apple_iie_keymap_shifted ! nat ?sc = c"
      "\<not> shifted c \<Longrightarrow> apple_iie_keymap_plain ! nat ?sc = c \<and> apple_iie_keymap_caps ! nat ?sc = upper c"
      using printable [OF assms(1,2)] by (simp_all add: check_char_def Let_def split: if_splits)
    have m: "keymap k ! nat ?sc = ?c" using ck(3,4) u(3) sh assms(4) by (cases "shifted c") (simp_all add: keymap_def)
    define a where "a = press_scancode ?sc True k"
    have a: "next_key a = ?c" "\<not> is_paused (kthread a)"
      using u assms(3) unfolding a_def press_scancode_def Let_def m by (simp_all split: if_splits)
    show "\<exists>k'. keys_handleInput sys ?sc True False k = Some k' \<and> program_reads b (km k')"
      using typed_reads [of a sys] a u(1,2) assms(5) ck(1,2) by (auto simp: keys_handleInput_def a_def [symmetric])
  qed
qed

section \<open>Speeds\<close>

definition speed_ok :: "double \<Rightarrow> bool" where
  "speed_ok x \<longleftrightarrow> CPU_SCALE_SLOWEST \<le> x \<and> x \<le> CPU_SCALE_FASTEST"

lemma fl_ge:
  assumes "0 < x"
  shows "x * (1 - 2 powi (- int p)) \<le> fl p x"
  using fl_error [OF assms, of p] by (simp add: algebra_simps abs_le_iff)

lemma percents_ge:
  assumes "1 / 4 \<le> scale"
  shows "25 \<le> percents scale"
proof -
  have "of_nat 25 \<le> scale * 100" using assms by simp
  then have "of_nat 25 \<le> rnd (scale * 100)" by (rule fl_ge_nat) (use assms in auto)
  then show ?thesis by (simp add: percents_def le_floor_iff)
qed

lemma percents_le:
  assumes "1 / 4 \<le> scale" "scale \<le> 4"
  shows "percents scale \<le> 400"
proof -
  have "rnd (scale * 100) \<le> scale * 100 * (1 + 2 powi (- int 53))" by (rule fl_le) (use assms in auto)
  also have "\<dots> \<le> 400 * (1 + 2 powi (- int 53))" by (rule mult_right_mono) (use assms in \<open>auto simp: epsilon\<close>)
  also have "\<dots> < 400 + 1 / 2" by (simp add: epsilon)
  finally show ?thesis unfolding percents_def by (simp add: floor_le_iff)
qed

lemma slower_ok:
  assumes "speed_ok x"
  shows "speed_ok (slower x)" "slower x \<le> 4"
proof -
  have x: "1 / 4 \<le> x" using assms by (simp add: speed_ok_def CPU_SCALE_SLOWEST_def)
  define p where "p = (if x > CPU_SCALE_FASTEST_PIVOT then percents CPU_SCALE_FASTEST_PIVOT
        else if percents x > 100 then percents x - 25 else percents x - 5)"
  have p: "20 \<le> p" "p \<le> 400"
    using percents_ge [OF x] percents_le [OF x] percents_ge [of 4] percents_le [of 4]
    by (auto simp: p_def CPU_SCALE_FASTEST_PIVOT_def)
  have le: "rnd (of_int p / 100) \<le> 4"
  proof (cases "p = 400")
    case True
    then show ?thesis using fl_nat [of 4 53] by simp
  next
    case False
    have "rnd (of_int p / 100) \<le> of_int p / 100 * (1 + 2 powi (- int 53))" by (rule fl_le) (use p in auto)
    also have "\<dots> \<le> 399 / 100 * (1 + 2 powi (- int 53))" by (rule mult_right_mono) (use p False in \<open>auto simp: epsilon\<close>)
    also have "\<dots> \<le> 4" by (simp add: epsilon)
    finally show ?thesis .
  qed
  have e: "slower x = (if rnd (of_int p / 100) < CPU_SCALE_SLOWEST then CPU_SCALE_SLOWEST else rnd (of_int p / 100))"
    by (simp add: slower_def p_def Let_def)
  show "slower x \<le> 4" unfolding e using le by (simp add: CPU_SCALE_SLOWEST_def)
  then show "speed_ok (slower x)" unfolding speed_ok_def CPU_SCALE_FASTEST_def CPU_SCALE_FASTEST_PIVOT_def
    by (simp add: e)
qed

lemma faster_ok:
  assumes "speed_ok x"
  shows "speed_ok (faster x)"
proof -
  have x: "1 / 4 \<le> x" using assms by (simp add: speed_ok_def CPU_SCALE_SLOWEST_def)
  define p where "p = (if percents x \<ge> 100 then percents x + 25 else percents x + 5)"
  have p: "30 \<le> p" using percents_ge [OF x] by (auto simp: p_def)
  have "1 / 4 \<le> 30 / 100 * (1 - 2 powi (- int 53) :: rat)" by (simp add: epsilon)
  also have "\<dots> \<le> of_int p / 100 * (1 - 2 powi (- int 53))" by (rule mult_right_mono) (use p in \<open>auto simp: epsilon\<close>)
  also have "\<dots> \<le> rnd (of_int p / 100)" by (rule fl_ge) (use p in auto)
  finally have ge: "1 / 4 \<le> rnd (of_int p / 100)" .
  have e: "faster x = (if rnd (of_int p / 100) > CPU_SCALE_FASTEST then CPU_SCALE_FASTEST else rnd (of_int p / 100))"
    by (simp add: faster_def p_def Let_def)
  show ?thesis unfolding speed_ok_def e using ge
    by (auto simp: CPU_SCALE_FASTEST_def CPU_SCALE_FASTEST_PIVOT_def CPU_SCALE_SLOWEST_def)
qed

section \<open>Every input\<close>

text \<open>What a platform's event handlers call; \<open>Program\<close> stands for the program and the other threads, which leave the paddles alone.\<close>

datatype input = Key int bool bool | Last_key | Getch | Set_key int | Frame | Reset_joystick | Axes byte byte | Clamp bool |
  Button0 bool | Button1 bool | Caps_pref "bool option" | Joystick_pref joystick_prefs | Calibrate int | Pause | Resume | Program vm

definition input_exec :: "audio_settings \<Rightarrow> input \<Rightarrow> 'v desk \<Rightarrow> 'v desk option" where
  "input_exec sys i k = (case i of
     Key sc pressed ascii \<Rightarrow> keys_handleInput sys sc pressed ascii k
   | Last_key \<Rightarrow> map_option snd (keys_consumeLastKey k)
   | Getch \<Rightarrow> Some (snd (c_mygetch k))
   | Set_key key \<Rightarrow> Some (c_keys_set_key key k)
   | Frame \<Rightarrow> Some (if frameCallback k then joystick_frameCallback k else k)
   | Reset_joystick \<Rightarrow> Some (joystick_reset k)
   | Axes x y \<Rightarrow> Some (joydriver_setAxisValue x y k)
   | Clamp b \<Rightarrow> Some (joydriver_setClampBeyondRadius b k)
   | Button0 b \<Rightarrow> Some (joydriver_setButton0Pressed b k)
   | Button1 b \<Rightarrow> Some (joydriver_setButton1Pressed b k)
   | Caps_pref b \<Rightarrow> Some (keys_prefsChanged b k)
   | Joystick_pref p \<Rightarrow> Some (joystick_prefsChanged p k)
   | Calibrate ch \<Rightarrow> Some (calibrate_keypad_key ch k)
   | Pause \<Rightarrow> Some (on_thread cpu_pause k)
   | Resume \<Rightarrow> Some (on_thread cpu_resume k)
   | Program m \<Rightarrow> Some (k\<lparr>km := m\<lparr>joy_x := joy_x (km k), joy_y := joy_y (km k)\<rparr>\<rparr>))"

definition valid_input :: "input \<Rightarrow> bool" where
  "valid_input i \<longleftrightarrow> (case i of Key sc pressed ascii \<Rightarrow> sc < (if ascii then 256 else 128) | Set_key key \<Rightarrow> key < 256 | _ \<Rightarrow> True)"

inductive input_reaches :: "audio_settings \<Rightarrow> 'v desk \<Rightarrow> 'v desk \<Rightarrow> bool" for sys s0 where
  start: "input_reaches sys s0 s0"
| step: "input_reaches sys s0 s \<Longrightarrow> valid_input i \<Longrightarrow> input_exec sys i s = Some s' \<Longrightarrow> input_reaches sys s0 s'"

text \<open>Key codes are bytes, the paddles too, the step is that of the preferences, the speeds are those of the keys.\<close>

definition keys_ok :: "'v desk \<Rightarrow> bool" where
  "keys_ok k \<longleftrightarrow> next_key k < 256 \<and> last_ascii k < 256 \<and> last_scancode k < 128"

definition joystick_ok :: "'v desk \<Rightarrow> bool" where
  "joystick_ok k \<longleftrightarrow> joy_x (km k) < 256 \<and> joy_y (km k) < 256 \<and> 1 \<le> joy_step k \<and> joy_step k \<le> 255"

definition speeds_ok :: "audio_settings \<Rightarrow> ('v \<Rightarrow> bool) \<Rightarrow> 'v speaker \<Rightarrow> bool" where
  "speeds_ok sys ok s \<longleftrightarrow> speed_ok (cpu_scale_factor s) \<and> speed_ok (cpu_altscale_factor s) \<and> speaker_ok ok s \<and> set_up sys s"

definition desk_ok :: "audio_settings \<Rightarrow> ('v \<Rightarrow> bool) \<Rightarrow> 'v desk \<Rightarrow> bool" where
  "desk_ok sys ok k \<longleftrightarrow> keys_ok k \<and> joystick_ok k \<and> speeds_ok sys ok (spk (kthread k))"

lemmas desk_defs = desk_ok_def keys_ok_def joystick_ok_def Let_def

lemma scancode_bound: "keys_ascii2Scancode c < 128"
proof -
  have "unat (c AND 0x7f) < 128"
  proof -
    have "c AND 0x7f = take_bit 7 c" by (simp only: take_bit_eq_mask) (simp add: mask_eq_exp_minus_1)
    then have "unat (c AND 0x7f) = take_bit 7 (unat c)" by (simp only: unsigned_take_bit_eq)
    then show ?thesis using take_bit_nat_less_exp [of 7 "unat c"] by simp
  qed
  moreover have "list_all (\<lambda>sc. sc < 128) scode_map" "length scode_map = 128" by code_simp+
  ultimately show ?thesis unfolding keys_ascii2Scancode_def list_all_length by auto
qed

lemma keymap_bound:
  assumes "0 \<le> sc" "sc < 128"
  shows "keymap k ! nat sc < 256"
proof -
  have "list_all (\<lambda>key. key < 256) (keymap k) \<and> length (keymap k) = 128"
    using table_bounds by (auto simp: keymap_def list_all_iff)
  then show ?thesis using assms by (auto simp: list_all_length)
qed

text \<open>Each part of an input keeps the invariant.\<close>

lemma press_ok:
  assumes "desk_ok sys ok k"
  shows "sc < 256 \<Longrightarrow> desk_ok sys ok (press_ascii sc k)"
    "0 \<le> sc \<Longrightarrow> sc < 128 \<Longrightarrow> desk_ok sys ok (press_scancode sc p k)"
  using assms scancode_bound keymap_bound [of sc k]
  by (auto simp: desk_defs press_ascii_def press_scancode_def set_button0_def set_button1_def)

lemma paddle_ok:
  assumes "1 \<le> joy_step k" "joy_step k \<le> 255" "j < 256"
  shows "less_joy k j < 256" "more_joy k j < 256"
  using assms by (auto simp: less_joy_def more_joy_def paddle_def JOY_RANGE_def mod_pos_pos_trivial)

lemma keypad_ok: 
  assumes "desk_ok sys ok k"
  shows "desk_ok sys ok (keypad k)"
proof -
  have h: "HALF_JOY_RANGE < 256" by (simp add: HALF_JOY_RANGE_def)
  have x: "desk_ok sys ok (set_joy_x n j)" if "n < 256" "desk_ok sys ok j" for n and j :: "'a desk"
    using that by (simp add: desk_defs set_joy_x_def)
  have y: "desk_ok sys ok (set_joy_y n j)" if "n < 256" "desk_ok sys ok j" for n and j :: "'a desk"
    using that by (simp add: desk_defs set_joy_y_def)
  have r: "desk_ok sys ok (recenter j)" if "desk_ok sys ok j" for j :: "'a desk"
    using that h by (simp add: desk_defs recenter_def set_joy_x_def set_joy_y_def)
  have p: "less_joy j (joy_x (km j)) < 256" "more_joy j (joy_x (km j)) < 256" "less_joy j (joy_y (km j)) < 256" "more_joy j (joy_y (km j)) < 256"
    if "desk_ok sys ok j" for j :: "'a desk"
    using that by (simp_all add: paddle_ok desk_ok_def joystick_ok_def)
  have c: "desk_ok sys ok (if b then f j else j)" if "desk_ok sys ok j" "desk_ok sys ok (f j)" for b f and j :: "'a desk"
    using that by simp
  show ?thesis unfolding keypad_def Let_def by (intro c x y r p h assms)
qed

text \<open>The speed keys.\<close>

lemma thread_frame [simp]: "spk (cpu_pause t) = spk t" "spk (cpu_resume t) = spk t"
  by (simp_all add: cpu_pause_def cpu_resume_def)

lemma speed_fields:
  "speaker_ok ok (s\<lparr>cpu_scale_factor := x\<rparr>) = speaker_ok ok s" "set_up sys (s\<lparr>cpu_scale_factor := x\<rparr>) = set_up sys s"
  "speaker_ok ok (s\<lparr>cpu_altscale_factor := x\<rparr>) = speaker_ok ok s" "set_up sys (s\<lparr>cpu_altscale_factor := x\<rparr>) = set_up sys s"
  "speaker_ok ok (s\<lparr>alt_speed_enabled := b\<rparr>) = speaker_ok ok s" "set_up sys (s\<lparr>alt_speed_enabled := b\<rparr>) = set_up sys s"
  by (simp_all add: speaker_ok_def set_up_def buffers_ok_def)

lemma initialize_speeds:
  assumes "settings_ok sys" "speeds_ok sys ok s"
  shows "\<exists>s'. timing_initialize sys s = Some s' \<and> speeds_ok sys ok s'"
proof -
  have "1 / 4 \<le> (if alt_speed_enabled s then cpu_altscale_factor s else cpu_scale_factor s)"
    using assms(2) by (simp add: speeds_ok_def speed_ok_def CPU_SCALE_SLOWEST_def)
  moreover have "speaker_ok ok s" "set_up sys s" using assms(2) by (simp_all add: speeds_ok_def)
  ultimately obtain s' where s': "timing_initialize sys s = Some s'" "speaker_ok ok s'" "set_up sys s'"
    using timing_initialize_ok [OF assms(1)] by blast
  then show ?thesis using assms(2) timing_keeps [OF s'(1)] by (simp add: speeds_ok_def)
qed

lemma while_paused_ok:
  assumes "desk_ok sys ok k" "\<exists>s'. g (spk (kthread k)) = Some s' \<and> speeds_ok sys ok s'"
  shows "\<exists>k'. while_paused (on_speaker g) k = Some k' \<and> desk_ok sys ok k'"
  using assms by (auto simp: while_paused_def on_speaker_def on_thread_def desk_defs)

lemma change_speed_ok:
  assumes "settings_ok sys" "desk_ok sys ok k" "\<And>x. speed_ok x \<Longrightarrow> speed_ok (f x)"
  shows "\<exists>k'. change_speed sys f k = Some k' \<and> desk_ok sys ok k'"
proof -
  define s where "s = (let s = spk (kthread k) in if alt_speed_enabled s then s\<lparr>cpu_altscale_factor := f (cpu_altscale_factor s)\<rparr>
           else s\<lparr>cpu_scale_factor := f (cpu_scale_factor s)\<rparr>)"
  have s: "speeds_ok sys ok s" using assms(2,3) by (simp add: s_def speeds_ok_def speed_fields desk_ok_def Let_def)
  define j where "j = log_input Show_speed (on_thread (\<lambda>t. t\<lparr>spk := s\<rparr>) k)"
  have "desk_ok sys ok j" using assms(2) s by (simp add: j_def desk_defs log_input_def on_thread_def)
  moreover have "\<exists>s'. timing_initialize sys (spk (kthread j)) = Some s' \<and> speeds_ok sys ok s'"
    using initialize_speeds [OF assms(1) s] by (simp add: j_def log_input_def on_thread_def)
  ultimately have "\<exists>k'. while_paused (on_speaker (timing_initialize sys)) j = Some k' \<and> desk_ok sys ok k'" by (rule while_paused_ok)
  then show ?thesis by (simp add: change_speed_def j_def s_def on_thread_def Let_def)
qed

lemma consume_ok:
  assumes "settings_ok sys" "desk_ok sys ok k"
  shows "\<exists>k'. consume_key sys k = Some k' \<and> desk_ok sys ok k'"
proof (cases "next_key k \<ge> 0 \<and> \<not> is_paused (kthread k)")
  case True
  define j where "j = k\<lparr>last_ascii := next_key k, next_key := -1\<rparr>"
  have j: "desk_ok sys ok j" using assms(2) by (simp add: j_def desk_defs)
  have log: "desk_ok sys ok (log_input e i) = desk_ok sys ok i" for e and i :: "'a desk" by (simp add: desk_defs log_input_def)
  have la: "desk_ok sys ok (latch_key n j)" for n using j by (simp add: desk_defs latch_key_def)
  have tg: "\<exists>i. while_paused (on_speaker (timing_toggleCPUSpeed sys)) j = Some i \<and> desk_ok sys ok i"
  proof (rule while_paused_ok [OF j])
    have "speeds_ok sys ok ((spk (kthread j))\<lparr>alt_speed_enabled := b\<rparr>)" for b
      using j by (simp add: desk_ok_def speeds_ok_def speed_fields)
    then show "\<exists>s'. timing_toggleCPUSpeed sys (spk (kthread j)) = Some s' \<and> speeds_ok sys ok s'"
      unfolding timing_toggleCPUSpeed_def by (rule initialize_speeds [OF assms(1)])
  qed
  have ir: "desk_ok sys ok (j\<lparr>kcpu := c\<rparr>)" for c using j by (simp add: desk_defs)
  note ch = change_speed_ok [OF assms(1) j slower_ok(1)] change_speed_ok [OF assms(1) j faster_ok]
  show ?thesis using True la tg ch j ir log unfolding consume_key_def Let_def j_def [symmetric] by auto
qed (use assms(2) in \<open>auto simp: consume_key_def\<close>)

lemma handle_ok:
  assumes "settings_ok sys" "desk_ok sys ok k" "valid_input (Key sc pressed ascii)"
  shows "\<exists>k'. keys_handleInput sys sc pressed ascii k = Some k' \<and> desk_ok sys ok k'"
proof (cases "ascii \<and> \<not> pressed")
  case False
  define r where "r = (if ascii then Some (press_ascii sc k)
      else if sc \<ge> 0 then c_assert (sc < 0x80) (press_scancode sc pressed k) else Some k)"
  have "\<exists>j. r = Some j \<and> desk_ok sys ok j"
    using assms(2,3) press_ok [OF assms(2), of sc]
    by (cases ascii; cases "0 \<le> sc") (simp_all add: r_def valid_input_def c_assert_def)
  then obtain j where j: "r = Some j" "desk_ok sys ok j" by blast
  obtain i where i: "consume_key sys j = Some i" "desk_ok sys ok i" using consume_ok [OF assms(1) j(2)] by blast
  have "keys_handleInput sys sc pressed ascii k = r \<bind> (\<lambda>k. consume_key sys k \<bind> (\<lambda>k. Some (if joy_mode k = JOY_KPAD then keypad k else k)))"
    using False by (simp only: keys_handleInput_def r_def if_False)
  then show ?thesis using i keypad_ok [OF i(2)] by (simp add: j(1))
qed (use assms(2) in \<open>auto simp: keys_handleInput_def\<close>)

lemma unat_byte: "unat (b :: byte) < 256"
  using unsigned_less [of b] by simp

lemma prefs_step: 
  fixes n :: int
  shows "1 \<le> (if (if n < 1 then 1 else n) > 255 then 255 else (if n < 1 then 1 else n))"
    "(if (if n < 1 then 1 else n) > 255 then 255 else (if n < 1 then 1 else n)) \<le> 255"
  by auto

lemma input_exec_ok:
  assumes "settings_ok sys" "desk_ok sys ok k" "valid_input i"
  shows "\<exists>k'. input_exec sys i k = Some k' \<and> desk_ok sys ok k'"
proof (cases i)
  case (Key sc pressed ascii)
  then show ?thesis using handle_ok [OF assms(1,2)] assms(3) by (simp add: input_exec_def)
next
  case Last_key
  have "last_scancode k < 128" "last_ascii k < 256" using assms(2) by (simp_all add: desk_defs)
  then show ?thesis using assms(2) Last_key by (auto simp: input_exec_def keys_consumeLastKey_def desk_defs)
next
  case (Joystick_pref p)
  show ?thesis using assms(2) Joystick_pref
    by (cases "pref_mode p"; cases "pref_clip p"; cases "pref_recenter p")
      (simp_all add: input_exec_def joystick_prefsChanged_def desk_defs prefs_step)
next
  case (Caps_pref b)
  then show ?thesis using assms(2) by (cases b) (simp_all add: input_exec_def keys_prefsChanged_def desk_defs)
qed (use assms(2,3) in \<open>simp_all add: input_exec_def valid_input_def c_mygetch_def c_keys_set_key_def joystick_frameCallback_def
      joystick_reset_def joydriver_setAxisValue_def joydriver_setClampBeyondRadius_def joydriver_setButton0Pressed_def
      joydriver_setButton1Pressed_def calibrate_keypad_key_def on_thread_def log_input_def set_joy_x_def set_joy_y_def
      set_button0_def set_button1_def unat_byte HALF_JOY_RANGE_def desk_defs split: prod.split\<close>)

lemma input_reaches_ok:
  assumes "settings_ok sys" "input_reaches sys k0 k" "desk_ok sys ok k0"
  shows "desk_ok sys ok k"
  using assms(2)
proof induction
  case (step s i s')
  then show ?case using input_exec_ok [OF assms(1) step.IH step.hyps(2)] by auto
qed (rule assms(3))


definition quiet_desk :: "unit desk" where
  "quiet_desk = \<lparr>km = blank_vm, kcpu = idle_cpu, kthread = quiet_thread, next_key = -1, last_scancode = -1, last_ascii = -1,
     caps_lock = True, key_pressed = (\<lambda>_. False), joy_mode = JOY_PCJOY, joy_clip_to_radius = False, joy_step = 1,
     joy_auto_recenter = False, x_unpressed_count = 0, y_unpressed_count = 0, frameCallback = False, frameCount = 0, input_log = []\<rparr>"


theorem typed_key_is_read_witness:
  "\<exists>k'. keys_handleInput half_second 97 True True quiet_desk = Some k' \<and> program_reads 0x41 (km k')"
  using typed_key_is_read [where c = 97 and k = quiet_desk and sys = half_second and b = "0x41"]
  by (simp add: quiet_desk_def quiet_thread_def control_down_def upper_def)

end
